(* ===== verification/Prelude.thy ===== *)
theory Prelude
  imports Main "HOL-Library.Word"
begin

text \<open>
  Shared vocabulary of the development: the machine integer types of the 32-bit
  target, the outcome of a C function (a value, a thrown exception or an access
  outside an object), the state transformer the handlers are written in, bounded
  reads and writes of C arrays (lists of fixed length), and the big- and
  little-endian value of a byte list.
\<close>

unbundle bit_operations_syntax

section \<open>Machine integers\<close>

type_synonym u8 = "8 word"
type_synonym u16 = "16 word"
type_synonym u32 = "32 word"
type_synonym u64 = "64 word"

named_theorems const_defs "values of the program's #define constants and enumerators"
named_theorems op_defs "defining equations of straight-line operations"

lemma unat_ucast_mod: "unat (ucast (x :: 'a::len word) :: 'b::len word) = unat x mod 2 ^ LENGTH('b)"
  by (simp add: unsigned_ucast_eq take_bit_eq_mod)

lemma unat_ucast_up:
  assumes "LENGTH('a) \<le> LENGTH('b)"
  shows "unat (ucast (x :: 'a::len word) :: 'b::len word) = unat x"
proof -
  have "unat x < 2 ^ LENGTH('a)" by (rule unsigned_less)
  also have "\<dots> \<le> 2 ^ LENGTH('b)" using assms by (intro power_increasing) simp_all
  finally show ?thesis by (simp add: unat_ucast_mod)
qed

lemma unat_ucast_widen [simp]:
  "unat (ucast (x8 :: u8) :: u16) = unat x8"
  "unat (ucast (x8 :: u8) :: u32) = unat x8"
  "unat (ucast (x8 :: u8) :: u64) = unat x8"
  "unat (ucast (x16 :: u16) :: u32) = unat x16"
  "unat (ucast (x32 :: u32) :: u64) = unat x32"
  by (simp_all add: unat_ucast_up)

lemma unat_push_bit: "unat (push_bit n (w :: 'a::len word)) = unat w * 2 ^ n mod 2 ^ LENGTH('a)"
  unfolding unsigned_push_bit_eq by (simp add: take_bit_eq_mod push_bit_eq_mult)

lemma unat_drop_bit: "unat (drop_bit n (w :: 'a::len word)) = unat w div 2 ^ n"
  unfolding unsigned_drop_bit_eq by (simp add: drop_bit_eq_div take_bit_nat_eq_self)

lemma nat_or_shifted:
  fixes a n :: nat
  assumes "a < 2 ^ k"
  shows "push_bit k n OR a = n * 2 ^ k + a"
proof -
  have "a = take_bit k a" using assms by (simp add: take_bit_nat_eq_self)
  then have "\<not> bit a j" if "k \<le> j" for j
    using that by (metis bit_take_bit_iff not_less)
  then have "push_bit k n + a = push_bit k n OR a"
    by (intro disjunctive_add) (auto simp: bit_push_bit_iff not_le)
  then show ?thesis by (simp add: push_bit_eq_mult)
qed

lemma unat_inc: "i < j \<Longrightarrow> unat (i + 1) = Suc (unat i)" for i j :: "'a::len word"
proof -
  assume "i < j"
  then have "unat i < unat j" by (simp add: word_less_nat_alt)
  moreover have "unat j < 2 ^ LENGTH('a)" by simp
  ultimately have "Suc (unat i) < 2 ^ LENGTH('a)" by linarith
  then show ?thesis by (simp add: unat_word_ariths)
qed

lemma unat_dec: "0 < unat j \<Longrightarrow> unat (j - 1) = unat j - 1" for j :: "'a::len word"
  by (intro unat_minus_one) auto

section \<open>Outcomes\<close>

text \<open>
  \<open>Throw e\<close> is the SDK's \<open>THROW(e)\<close> (a \<open>longjmp\<close> with the 16-bit exception code
  \<open>e\<close>); \<open>Fault\<close> is undefined behaviour of C: an access outside the array it is
  made on. No operation continues after a \<open>Fault\<close>, and no handler catches it.
\<close>

datatype exn = Throw u16 | Fault

text \<open>Sequencing of functions that return a value or an exception.\<close>

definition bindE :: "exn + 'a \<Rightarrow> ('a \<Rightarrow> exn + 'b) \<Rightarrow> exn + 'b" where
  "bindE r f = (case r of Inl e \<Rightarrow> Inl e | Inr x \<Rightarrow> f x)"

lemma bindE_simps [simp]: "bindE (Inl e) f = Inl e" "bindE (Inr x) f = f x"
  by (simp_all add: bindE_def)

lemma bindE_Inr_right [simp]: "bindE r Inr = r"
  by (cases r) simp_all

lemma bindE_assoc: "bindE (bindE r f) g = bindE r (\<lambda>x. bindE (f x) g)"
  by (cases r) simp_all

lemma bindE_cong [fundef_cong]:
  "r = r' \<Longrightarrow> (\<And>x. r' = Inr x \<Longrightarrow> f x = f' x) \<Longrightarrow> bindE r f = bindE r' f'"
  by (cases r') simp_all

lemma bindE_eq_Inr: "bindE r f = Inr y \<longleftrightarrow> (\<exists>x. r = Inr x \<and> f x = Inr y)"
  by (cases r) simp_all

lemma bindE_InrE: "bindE r f = Inr y \<Longrightarrow> (\<And>x. r = Inr x \<Longrightarrow> f x = Inr y \<Longrightarrow> P) \<Longrightarrow> P"
  by (cases r) simp_all

text \<open>
  \<open>safe Q r\<close>: the function does not leave an object, and its value satisfies \<open>Q\<close> if it
  returns one.
\<close>

definition safe :: "('a \<Rightarrow> bool) \<Rightarrow> exn + 'a \<Rightarrow> bool" where
  "safe Q r = (case r of Inl e \<Rightarrow> e \<noteq> Fault | Inr x \<Rightarrow> Q x)"

lemma safe_simps [simp]: "safe Q (Inr x) = Q x" "safe Q (Inl (Throw e))" "\<not> safe Q (Inl Fault)"
  by (simp_all add: safe_def)

lemma safe_bindE: "safe Q r \<Longrightarrow> (\<And>x. Q x \<Longrightarrow> safe P (f x)) \<Longrightarrow> safe P (bindE r f)"
  by (cases r) (simp_all add: safe_def)

lemma safe_weaken: "safe Q r \<Longrightarrow> (\<And>x. Q x \<Longrightarrow> P x) \<Longrightarrow> safe P r"
  by (cases r) (simp_all add: safe_def)

lemma safe_Inr: "safe Q r \<Longrightarrow> r = Inr x \<Longrightarrow> Q x"
  by simp

lemma safe_if: "(b \<Longrightarrow> safe Q r) \<Longrightarrow> (\<not> b \<Longrightarrow> safe Q r') \<Longrightarrow> safe Q (if b then r else r')"
  by simp

text \<open>A character constant of the source.\<close>

abbreviation "c8 \<equiv> (of_char :: char \<Rightarrow> u8)"

text \<open>
  A function that reads and writes the program's global state: a thrown exception
  keeps the changes already made, as \<open>longjmp\<close> does.
\<close>

type_synonym ('s, 'a) cm = "'s \<Rightarrow> (exn + 'a) \<times> 's"

definition return_c :: "'a \<Rightarrow> ('s, 'a) cm" where
  "return_c x = (\<lambda>s. (Inr x, s))"

definition throw_c :: "exn \<Rightarrow> ('s, 'a) cm" where
  "throw_c e = (\<lambda>s. (Inl e, s))"

definition bind_c :: "('s, 'a) cm \<Rightarrow> ('a \<Rightarrow> ('s, 'b) cm) \<Rightarrow> ('s, 'b) cm" where
  "bind_c m f = (\<lambda>s. case m s of (Inl e, s') \<Rightarrow> (Inl e, s') | (Inr x, s') \<Rightarrow> f x s')"

definition gets_c :: "('s \<Rightarrow> 'a) \<Rightarrow> ('s, 'a) cm" where
  "gets_c f = (\<lambda>s. (Inr (f s), s))"

definition modify_c :: "('s \<Rightarrow> 's) \<Rightarrow> ('s, unit) cm" where
  "modify_c f = (\<lambda>s. (Inr (), f s))"

definition lift_c :: "(exn + 'a) \<Rightarrow> ('s, 'a) cm" where
  "lift_c r = (\<lambda>s. (r, s))"

definition try_modify_c :: "('s \<Rightarrow> exn + 's) \<Rightarrow> ('s, unit) cm" where
  "try_modify_c f = (\<lambda>s. case f s of Inl e \<Rightarrow> (Inl e, s) | Inr s' \<Rightarrow> (Inr (), s'))"

lemmas cm_defs = return_c_def throw_c_def bind_c_def gets_c_def modify_c_def lift_c_def
  try_modify_c_def

lemma bind_c_assoc: "bind_c (bind_c m f) g = bind_c m (\<lambda>x. bind_c (f x) g)"
  by (rule ext) (simp add: bind_c_def split: prod.split sum.split)

lemma bind_return_c [simp]: "bind_c (return_c x) f = f x"
  by (rule ext) (simp add: cm_defs)

lemma bind_throw_c [simp]: "bind_c (throw_c e) f = throw_c e"
  by (rule ext) (simp add: cm_defs)

lemma bind_c_Inr: "m s = (Inr x, s') \<Longrightarrow> bind_c m f s = f x s'"
  by (simp add: bind_c_def)

lemma bind_c_Inl: "m s = (Inl e, s') \<Longrightarrow> bind_c m f s = (Inl e, s')"
  by (simp add: bind_c_def)

text \<open>
  Triples: from every state that satisfies \<open>P\<close> the function stays inside its objects, and
  ends in \<open>Q\<close> if it returns and in \<open>E\<close> if it throws.
\<close>

definition valid_c :: "('s \<Rightarrow> bool) \<Rightarrow> ('s, 'a) cm \<Rightarrow> ('a \<Rightarrow> 's \<Rightarrow> bool) \<Rightarrow> (u16 \<Rightarrow> 's \<Rightarrow> bool) \<Rightarrow> bool" where
  "valid_c P m Q E \<longleftrightarrow> (\<forall>s. P s \<longrightarrow> (case m s of
     (Inr x, s') \<Rightarrow> Q x s' | (Inl (Throw e), s') \<Rightarrow> E e s' | (Inl Fault, s') \<Rightarrow> False))"

lemma valid_bind:
  "valid_c P m R E \<Longrightarrow> (\<And>x. valid_c (R x) (f x) Q E) \<Longrightarrow> valid_c P (bind_c m f) Q E"
  unfolding valid_c_def bind_c_def
  by (fastforce split: prod.splits sum.splits exn.splits)

lemma valid_return: "valid_c (Q x) (return_c x) Q E"
  by (simp add: valid_c_def return_c_def)

lemma valid_throw: "valid_c (E e) (throw_c (Throw e)) Q E"
  by (simp add: valid_c_def throw_c_def)

lemma valid_gets: "valid_c (\<lambda>s. Q (f s) s) (gets_c f) Q E"
  by (simp add: valid_c_def gets_c_def)

lemma valid_modify: "valid_c (\<lambda>s. Q () (f s)) (modify_c f) Q E"
  by (simp add: valid_c_def modify_c_def)

lemma valid_lift: "safe R r \<Longrightarrow> valid_c (\<lambda>s. (\<forall>x. R x \<longrightarrow> Q x s) \<and> (\<forall>e. E e s)) (lift_c r) Q E"
  by (auto simp: valid_c_def lift_c_def split: sum.split exn.split)

lemma valid_try_modify:
  "valid_c (\<lambda>s. safe (Q ()) (f s) \<and> (\<forall>e. E e s)) (try_modify_c f) Q E"
  by (auto simp: valid_c_def try_modify_c_def split: sum.split exn.split)

lemma valid_pre: "valid_c P' m Q E \<Longrightarrow> (\<And>s. P s \<Longrightarrow> P' s) \<Longrightarrow> valid_c P m Q E"
  by (simp add: valid_c_def)

lemma valid_post:
  "valid_c P m Q' E' \<Longrightarrow> (\<And>x s. Q' x s \<Longrightarrow> Q x s) \<Longrightarrow> (\<And>e s. E' e s \<Longrightarrow> E e s) \<Longrightarrow> valid_c P m Q E"
  unfolding valid_c_def by (fastforce split: prod.splits sum.splits exn.splits)

lemma valid_if:
  "(b \<Longrightarrow> valid_c P m Q E) \<Longrightarrow> (\<not> b \<Longrightarrow> valid_c P' m' Q E) \<Longrightarrow>
    valid_c (\<lambda>s. if b then P s else P' s) (if b then m else m') Q E"
  by (simp add: valid_c_def)

lemma valid_at: "(\<And>s. P s \<Longrightarrow> valid_c (\<lambda>t. t = s) m Q E) \<Longrightarrow> valid_c P m Q E"
  by (simp add: valid_c_def)

lemma validD:
  assumes "valid_c P m Q E" "P s"
  shows "(\<exists>x s'. m s = (Inr x, s') \<and> Q x s') \<or> (\<exists>e s'. m s = (Inl (Throw e), s') \<and> E e s')"
proof -
  obtain r s' where m: "m s = (r, s')" by (cases "m s")
  have "case m s of (Inr x, s') \<Rightarrow> Q x s' | (Inl (Throw e), s') \<Rightarrow> E e s' | (Inl Fault, s') \<Rightarrow> False"
    using assms by (simp add: valid_c_def)
  then show ?thesis unfolding m by (cases r) (auto split: exn.splits)
qed

section \<open>Arrays\<close>

text \<open>
  An array object is the list of its elements. Reading or writing \<open>n\<close> elements from
  index \<open>i\<close> on is a \<open>Fault\<close> unless all of them are inside the object.
\<close>

definition buf_write :: "'a list \<Rightarrow> nat \<Rightarrow> 'a list \<Rightarrow> exn + 'a list" where
  "buf_write b i xs =
     (if i + length xs \<le> length b then Inr (take i b @ xs @ drop (i + length xs) b) else Inl Fault)"

definition buf_read :: "'a list \<Rightarrow> nat \<Rightarrow> nat \<Rightarrow> exn + 'a list" where
  "buf_read b i n = (if i + n \<le> length b then Inr (take n (drop i b)) else Inl Fault)"

lemma buf_write_length: "buf_write b i xs = Inr b' \<Longrightarrow> length b' = length b"
  by (auto simp: buf_write_def split: if_splits)

lemma buf_read_length: "buf_read b i n = Inr xs \<Longrightarrow> length xs = n"
  by (auto simp: buf_read_def split: if_splits)

lemma buf_read_write:
  "buf_write b i xs = Inr b' \<Longrightarrow> buf_read b' i (length xs) = Inr xs"
  by (auto simp: buf_write_def buf_read_def split: if_splits)

lemma buf_write_ok: "i + length xs \<le> length b \<Longrightarrow> \<exists>b'. buf_write b i xs = Inr b'"
  by (simp add: buf_write_def)

lemma safe_buf_write:
  "i + length xs \<le> length b \<Longrightarrow> safe (\<lambda>b'. b' = take i b @ xs @ drop (i + length xs) b) (buf_write b i xs)"
  by (simp add: buf_write_def)

lemma safe_buf_write_length: "i + length xs \<le> length b \<Longrightarrow> safe (\<lambda>b'. length b' = length b) (buf_write b i xs)"
  by (simp add: buf_write_def)

lemma safe_buf_read: "i + n \<le> length b \<Longrightarrow> safe (\<lambda>xs. xs = take n (drop i b)) (buf_read b i n)"
  by (simp add: buf_read_def)

section \<open>Values of byte lists\<close>

fun be_value :: "u8 list \<Rightarrow> nat" where
  "be_value [] = 0"
| "be_value (b # bs) = unat b * 256 ^ length bs + be_value bs"

definition le_value :: "u8 list \<Rightarrow> nat" where
  "le_value bs = be_value (rev bs)"

lemma unat_u8_less [simp]: "unat (b :: u8) < 256"
  using unsigned_less [of b] by simp

lemma unat_u8_le [simp]: "unat (b :: u8) \<le> 255"
  using unat_u8_less [of b] by linarith

lemma be_value_append: "be_value (xs @ ys) = be_value xs * 256 ^ length ys + be_value ys"
  by (induction xs) (simp_all add: power_add algebra_simps)

lemma be_value_less: "be_value bs < 256 ^ length bs"
proof (induction bs)
  case Nil
  show ?case by simp
next
  case (Cons b bs)
  have "unat b + 1 \<le> 256"
    using unat_u8_less [of b] by linarith
  then have "(unat b + 1) * 256 ^ length bs \<le> 256 * 256 ^ length bs"
    by (rule mult_le_mono1)
  with Cons.IH have "unat b * 256 ^ length bs + be_value bs < 256 * 256 ^ length bs"
    unfolding distrib_right by linarith
  then show ?case by simp
qed

lemma be_value_replicate_0 [simp]: "be_value (replicate n 0) = 0"
  by (induction n) simp_all

lemma be_value_eq_0_iff: "be_value bs = 0 \<longleftrightarrow> (\<forall>b \<in> set bs. b = 0)"
  by (induction bs) (auto simp: unat_eq_0)

lemma be_value_inject:
  "length xs = length ys \<Longrightarrow> be_value xs = be_value ys \<Longrightarrow> xs = ys"
proof (induction xs ys rule: list_induct2)
  case Nil
  show ?case by simp
next
  case (Cons x xs y ys)
  let ?B = "256 ^ length xs :: nat"
  have eq: "unat x * ?B + be_value xs = unat y * ?B + be_value ys"
    using Cons.prems Cons.hyps by simp
  have lt: "be_value xs < ?B" "be_value ys < ?B"
    using be_value_less [of xs] be_value_less [of ys] Cons.hyps by simp_all
  have "unat x = unat y"
    using arg_cong [OF eq, of "\<lambda>v. v div ?B"] lt by simp
  moreover from this eq have "be_value xs = be_value ys" by simp
  ultimately show ?case using Cons.IH by (simp add: unsigned_word_eqI)
qed


section \<open>Parts of lists\<close>

text \<open>The elements with index \<open>i\<close> to \<open>n - 1\<close>.\<close>

definition slice :: "nat \<Rightarrow> nat \<Rightarrow> 'a list \<Rightarrow> 'a list" where
  "slice i n xs = take (n - i) (drop i xs)"

lemma slice_step: "i < n \<Longrightarrow> n \<le> length xs \<Longrightarrow> slice i n xs = xs ! i # slice (Suc i) n xs"
  by (simp add: slice_def take_Cons' Cons_nth_drop_Suc [symmetric] Suc_diff_Suc [symmetric])

lemma length_slice [simp]: "n \<le> length xs \<Longrightarrow> length (slice i n xs) = n - i"
  by (simp add: slice_def)

lemma slice_update_below [simp]: "j < i \<Longrightarrow> slice i n (xs[j := x]) = slice i n xs"
  by (simp add: slice_def)

lemma slice_empty [simp]: "n \<le> i \<Longrightarrow> slice i n xs = []"
  by (simp add: slice_def)

lemma dropWhile_drop: "dropWhile P xs = drop (length (takeWhile P xs)) xs"
  by (induction xs) auto

lemma takeWhile_zero_bytes:
  "takeWhile (\<lambda>b. b = 0) bs = replicate (length (takeWhile (\<lambda>b. b = 0) bs)) (0::u8)"
  by (induction bs) auto

lemma be_value_dropWhile_zero: "be_value (dropWhile (\<lambda>b. b = 0) bs) = be_value bs"
  by (induction bs) auto

end
