(* ===== verification/Ux_Menu.thy ===== *)
theory Ux_Menu
  imports Prelude
begin

text \<open>
  The menu of the Nano S user interface: the state \<open>ux_menu\<close> and its operations from
  \<open>src/sdk/nanos-secure-sdk/lib_ux/src/ux_legacy.c\<close>, and the two menus of
  \<open>src/src/ui.c\<close>.  The application passes no entry preprocessor and no iterator, so these
  two pointers are null throughout and are left out.  Drawing has no effect on the
  state; which screen is shown is the value of type \<open>screen\<close>, for the element array,
  button handler and element preprocessor that \<open>UX_DISPLAY\<close> stores in \<open>ux\<close>.
\<close>

section \<open>Buttons and screens\<close>

definition BUTTON_LEFT :: u32 where [const_defs]: "BUTTON_LEFT = 1"
definition BUTTON_RIGHT :: u32 where [const_defs]: "BUTTON_RIGHT = 2"
definition BUTTON_EVT_FAST :: u32 where [const_defs]: "BUTTON_EVT_FAST = 0x40000000"
definition BUTTON_EVT_RELEASED :: u32 where [const_defs]: "BUTTON_EVT_RELEASED = 0x80000000"

datatype screen =
  No_Screen
| Menu_Screen
| Public_Key_Approve
| Public_Key_Compare
| Message_Approve
| Message_Compare

section \<open>Menus\<close>

datatype menu_ref = Menu_Main | Menu_About

datatype menu_callback = Callback_Os_Exit

datatype menu_icon = Icon_Back | Icon_Dashboard

record ux_menu_entry =
  menu :: "menu_ref option"
  callback :: "menu_callback option"
  userid :: u32
  icon :: "menu_icon option"
  line1 :: "string option"
  line2 :: "string option"
  text_x :: u8
  icon_x :: u8

definition UX_MENU_END :: ux_menu_entry where
  "UX_MENU_END = \<lparr>menu = None, callback = None, userid = 0, icon = None, line1 = None, line2 = None,
     text_x = 0, icon_x = 0\<rparr>"

text \<open>\<open>menu_about\<close> and \<open>menu_main\<close>; \<open>APPVERSION\<close> is \<open>0.0.3\<close> in the Makefile.\<close>

definition APPVERSION :: string where
  "APPVERSION = ''0.0.3''"

definition menu_about :: "ux_menu_entry list" where
  "menu_about =
     [\<lparr>menu = None, callback = None, userid = 0, icon = None, line1 = Some ''Version'',
        line2 = Some APPVERSION, text_x = 0, icon_x = 0\<rparr>,
      \<lparr>menu = Some Menu_Main, callback = None, userid = 0, icon = Some Icon_Back, line1 = Some ''Back'',
        line2 = None, text_x = 61, icon_x = 40\<rparr>,
      UX_MENU_END]"

definition menu_main :: "ux_menu_entry list" where
  "menu_main =
     [\<lparr>menu = None, callback = None, userid = 0, icon = None, line1 = Some ''Awaiting'',
        line2 = Some ''Commands'', text_x = 0, icon_x = 0\<rparr>,
      \<lparr>menu = Some Menu_About, callback = None, userid = 0, icon = None, line1 = Some ''About'',
        line2 = None, text_x = 0, icon_x = 0\<rparr>,
      \<lparr>menu = None, callback = Some Callback_Os_Exit, userid = 0, icon = Some Icon_Dashboard,
        line1 = Some ''Quit app'', line2 = None, text_x = 50, icon_x = 29\<rparr>,
      UX_MENU_END]"

fun menu_entries_of :: "menu_ref \<Rightarrow> ux_menu_entry list" where
  "menu_entries_of Menu_Main = menu_main"
| "menu_entries_of Menu_About = menu_about"

record ux_menu_state =
  menu_entries :: "menu_ref option"
  menu_entries_count :: u32
  current_entry :: u32

section \<open>Operations\<close>

definition ux_menu_get_entry :: "ux_menu_state \<Rightarrow> u32 \<Rightarrow> exn + ux_menu_entry" where
  "ux_menu_get_entry m entry_idx =
     (case menu_entries m of
        None \<Rightarrow> Inl Fault
      | Some r \<Rightarrow>
          if unat entry_idx < length (menu_entries_of r) then Inr (menu_entries_of r ! unat entry_idx)
          else Inl Fault)"

text \<open>The loop that counts the entries up to the end mark.\<close>

function count_entries :: "ux_menu_entry list \<Rightarrow> u32 \<Rightarrow> exn + u32" where
  "count_entries entries n =
     (if unat n < length entries then
        if entries ! unat n = UX_MENU_END then Inr n
        else if unat n + 1 < 2 ^ 32 then count_entries entries (n + 1) else Inl Fault
      else Inl Fault)"
  by pat_completeness auto
termination
proof (relation "measure (\<lambda>(es, n). length es - unat n)")
  fix es :: "ux_menu_entry list" and n :: u32
  assume "unat n < length es" "unat n + 1 < 2 ^ 32"
  then have "unat (n + 1) = Suc (unat n)" by (simp add: unat_word_ariths)
  with \<open>unat n < length es\<close> show "((es, n + 1), es, n) \<in> measure (\<lambda>(es, n). length es - unat n)"
    by simp
qed simp

definition UX_MENU_UNCHANGED_ENTRY :: u32 where
  "UX_MENU_UNCHANGED_ENTRY = - 1"

text \<open>\<open>ux_menu_display\<close>: the new menu state and the screen \<open>UX_DISPLAY\<close> switches to.\<close>

definition ux_menu_display ::
  "u32 \<Rightarrow> menu_ref option \<Rightarrow> ux_menu_state \<Rightarrow> exn + ux_menu_state \<times> screen" where
  "ux_menu_display entry entries m =
     bindE (case entries of None \<Rightarrow> Inr 0 | Some r \<Rightarrow> count_entries (menu_entries_of r) 0) (\<lambda>count.
       let m = m\<lparr>menu_entries_count := count\<rparr>;
           m = (if entry \<noteq> UX_MENU_UNCHANGED_ENTRY then
                  let m = m\<lparr>current_entry := entry\<rparr>
                  in if current_entry m > menu_entries_count m then m\<lparr>current_entry := 0\<rparr> else m
                else m);
           m = m\<lparr>menu_entries := entries\<rparr>
       in Inr (m, Menu_Screen))"

text \<open>
  \<open>ux_menu_elements_button\<close>: the menu state, the callback that is run, if any, the
  value returned, and whether the screen is drawn again (\<open>UX_DISPLAY\<close> or \<open>UX_REDISPLAY\<close>).
\<close>

definition ux_menu_elements_button ::
  "u32 \<Rightarrow> ux_menu_state \<Rightarrow> exn + ux_menu_state \<times> (menu_callback \<times> u32) option \<times> u32 \<times> bool" where
  "ux_menu_elements_button button_mask m =
     bindE (ux_menu_get_entry m (current_entry m)) (\<lambda>entry.
       if button_mask = (BUTTON_EVT_RELEASED OR BUTTON_LEFT OR BUTTON_RIGHT) then
         (case menu entry of
            Some r \<Rightarrow> bindE (ux_menu_display (userid entry) (Some r) m) (\<lambda>(m, _). Inr (m, None, 0, True))
          | None \<Rightarrow>
              (case callback entry of
                 Some c \<Rightarrow> Inr (m, Some (c, userid entry), 0, False)
               | None \<Rightarrow> Inr (m, None, 1, False)))
       else if button_mask = (BUTTON_EVT_FAST OR BUTTON_LEFT)
               \<or> button_mask = (BUTTON_EVT_RELEASED OR BUTTON_LEFT) then
         if current_entry m = 0 then Inr (m, None, 0, False)
         else Inr (m\<lparr>current_entry := current_entry m - 1\<rparr>, None, 0, True)
       else if button_mask = (BUTTON_EVT_FAST OR BUTTON_RIGHT)
               \<or> button_mask = (BUTTON_EVT_RELEASED OR BUTTON_RIGHT) then
         if current_entry m \<ge> menu_entries_count m - 1 then Inr (m, None, 0, False)
         else Inr (m\<lparr>current_entry := current_entry m + 1\<rparr>, None, 0, True)
       else Inr (m, None, 1, False))"

section \<open>The displayed entry\<close>

text \<open>\<open>menu_ok\<close>: a menu is shown and the current entry is one of its entries.\<close>

definition menu_count :: "menu_ref \<Rightarrow> nat" where
  "menu_count r = length (menu_entries_of r) - 1"

definition menu_ok :: "ux_menu_state \<Rightarrow> bool" where
  "menu_ok m \<longleftrightarrow> (case menu_entries m of
     None \<Rightarrow> False
   | Some r \<Rightarrow> unat (menu_entries_count m) = menu_count r \<and> unat (current_entry m) < menu_count r)"

lemma count_entries_menus: "count_entries (menu_entries_of r) 0 = Inr (of_nat (menu_count r))"
  by (cases r) (simp_all add: menu_main_def menu_about_def UX_MENU_END_def menu_count_def)

lemma menu_count_cases: "menu_count r = (case r of Menu_Main \<Rightarrow> 3 | Menu_About \<Rightarrow> 2)"
  by (cases r) (simp_all add: menu_count_def menu_main_def menu_about_def)

lemma menu_entries_userid: "e \<in> set (menu_entries_of r) \<Longrightarrow> userid e = 0"
  by (cases r) (auto simp: menu_main_def menu_about_def UX_MENU_END_def)

declare count_entries.simps [simp del] menu_entries_of.simps [simp del]

lemma ux_menu_display_menu:
  "ux_menu_display 0 (Some r) m =
     Inr (m\<lparr>menu_entries_count := of_nat (menu_count r), current_entry := 0, menu_entries := Some r\<rparr>, Menu_Screen)"
  by (simp add: ux_menu_display_def count_entries_menus UX_MENU_UNCHANGED_ENTRY_def Let_def)

lemma ux_menu_display_0:
  "\<exists>m'. ux_menu_display 0 (Some r) m = Inr (m', Menu_Screen) \<and> menu_ok m'
     \<and> menu_entries m' = Some r \<and> current_entry m' = 0"
  by (cases r) (simp_all add: ux_menu_display_menu menu_ok_def menu_count_cases)

lemma ux_menu_get_entry_ok:
  "menu_ok m \<Longrightarrow> \<exists>e r. ux_menu_get_entry m (current_entry m) = Inr e \<and> menu_entries m = Some r
     \<and> e = menu_entries_of r ! unat (current_entry m) \<and> e \<in> set (menu_entries_of r)"
  by (auto simp: menu_ok_def ux_menu_get_entry_def menu_count_def split: option.splits)

lemma ux_menu_button_ok:
  assumes ok: "menu_ok m"
  shows "\<exists>m' c v d. ux_menu_elements_button bm m = Inr (m', c, v, d) \<and> menu_ok m'"
proof -
  from ux_menu_get_entry_ok [OF ok] obtain e r where
    e: "ux_menu_get_entry m (current_entry m) = Inr e" "menu_entries m = Some r" "e \<in> set (menu_entries_of r)"
    by blast
  have b: "unat (menu_entries_count m) = menu_count r" "unat (current_entry m) < menu_count r"
    using ok e(2) by (simp_all add: menu_ok_def)
  have down: "menu_ok (m\<lparr>current_entry := current_entry m - 1\<rparr>)" if "current_entry m \<noteq> 0"
    using that b e(2) by (simp add: menu_ok_def unat_dec unat_gt_0)
  have up: "menu_ok (m\<lparr>current_entry := current_entry m + 1\<rparr>)"
    if "\<not> current_entry m \<ge> menu_entries_count m - 1"
  proof -
    have lt: "current_entry m < menu_entries_count m - 1" using that by simp
    have "unat (menu_entries_count m - 1) = menu_count r - 1"
      using b by (simp add: unat_dec)
    with lt have "Suc (unat (current_entry m)) < menu_count r"
      by (simp add: word_less_nat_alt)
    with b e(2) show ?thesis by (simp add: menu_ok_def unat_inc [OF lt])
  qed
  have sub: "\<exists>m'. ux_menu_display (userid e) (Some r') m = Inr (m', Menu_Screen) \<and> menu_ok m'" for r'
    using ux_menu_display_0 [of r' m] menu_entries_userid [OF e(3)] by auto
  show ?thesis
  proof (cases "menu e")
    case None
    then show ?thesis
      using ok down up by (cases "callback e") (auto simp: ux_menu_elements_button_def e(1))
  next
    case (Some r')
    obtain m' where "ux_menu_display (userid e) (Some r') m = Inr (m', Menu_Screen)" "menu_ok m'"
      using sub by blast
    with Some show ?thesis
      using ok down up by (auto simp: ux_menu_elements_button_def e(1))
  qed
qed

text \<open>A sequence of button events, up to the first one that runs a callback.\<close>

fun menu_events :: "u32 list \<Rightarrow> ux_menu_state \<Rightarrow> exn + ux_menu_state \<times> (menu_callback \<times> u32) option" where
  "menu_events [] m = Inr (m, None)"
| "menu_events (b # bs) m =
     bindE (ux_menu_elements_button b m) (\<lambda>(m, c, _, _).
       case c of None \<Rightarrow> menu_events bs m | Some k \<Rightarrow> Inr (m, Some k))"

lemma menu_events_ok: "menu_ok m \<Longrightarrow> \<exists>m' c. menu_events bs m = Inr (m', c) \<and> menu_ok m'"
proof (induction bs arbitrary: m)
  case (Cons b bs)
  from ux_menu_button_ok [OF Cons.prems, of b] obtain m' c v d where
    "ux_menu_elements_button b m = Inr (m', c, v, d)" "menu_ok m'" by blast
  with Cons.IH show ?case by (auto split: option.splits)
qed simp

lemmas menu_eval = ux_menu_elements_button_def ux_menu_get_entry_def ux_menu_display_menu
  menu_entries_of.simps menu_main_def menu_about_def const_defs

text \<open>
Whatever buttons are pressed after the main menu or the about menu is
shown, no menu entry outside the menu is accessed and the selected entry is one of the
menu's entries; and the menus lead out of each other and out of the application: right,
both opens the about menu, right, both there leads back, and right, right, both in the main
menu runs \<open>callback_os_exit\<close> with the user id 0.
\<close>

theorem menu_navigation:
  assumes "ux_menu_display 0 (Some r) m0 = Inr (m, s)"
  shows "(\<exists>m' c. menu_events bs m = Inr (m', c) \<and> menu_ok m')
    \<and> map_sum id snd (menu_events [BUTTON_EVT_RELEASED OR BUTTON_RIGHT, BUTTON_EVT_RELEASED OR BUTTON_RIGHT,
        BUTTON_EVT_RELEASED OR BUTTON_LEFT OR BUTTON_RIGHT] m)
      = Inr (if r = Menu_Main then Some (Callback_Os_Exit, 0) else None)"
proof -
  have m: "menu_ok m" using assms ux_menu_display_0 [of r m0] by auto
  have "m = m0\<lparr>menu_entries_count := of_nat (menu_count r), current_entry := 0, menu_entries := Some r\<rparr>"
    using assms by (simp add: ux_menu_display_menu)
  then show ?thesis
    using menu_events_ok [OF m, of bs] by (cases r) (simp_all add: menu_eval menu_count_cases word_le_nat_alt)
qed

theorem menu_navigation_witness:
  "\<exists>m s. ux_menu_display 0 (Some Menu_Main) \<lparr>menu_entries = None, menu_entries_count = 0, current_entry = 0\<rparr>
      = Inr (m, s) \<and> (\<exists>m' c. menu_events [BUTTON_EVT_FAST OR BUTTON_LEFT, 7] m = Inr (m', c) \<and> menu_ok m')"
proof -
  let ?m0 = "\<lparr>menu_entries = None, menu_entries_count = 0, current_entry = 0\<rparr>"
  obtain m s where "ux_menu_display 0 (Some Menu_Main) ?m0 = Inr (m, s)"
    using ux_menu_display_0 [of Menu_Main ?m0] by blast
  with menu_navigation [OF this] show ?thesis by blast
qed

end
