(* ===== verification/Ui.thy ===== *)
theory Ui
  imports Ux_Menu
begin

text \<open>
  The message viewer of \<open>src/src/ui.c\<close>: a window of 18 characters that the buttons move
  over the message, used for public keys and signatures.  The functions take and return
  the \<open>ui_context\<close> they are passed a pointer to; \<open>ui_compare_button\<close> also reports whether
  it calls \<open>ui_idle\<close>, whose effect on the screen is in theory \<open>App_State\<close>.
\<close>

section \<open>The code\<close>

definition DISPLAY_SIZE :: nat where
  "DISPLAY_SIZE = 18"

definition LINE_1_ID :: u8 where "LINE_1_ID = 5"
definition LINE_2_ID :: u8 where "LINE_2_ID = 6"
definition LEFT_ICON_ID :: u8 where "LEFT_ICON_ID = 1"
definition RIGHT_ICON_ID :: u8 where "RIGHT_ICON_ID = 2"

record ui_context =
  ui_msg_body :: "u8 list"
  ui_msg_length :: u16
  approve_l2 :: "u8 list"
  display_index :: u8
  partial_msg :: "u8 list"

text \<open>The array sizes of the \<open>struct\<close>.\<close>

definition ui_sized :: "ui_context \<Rightarrow> bool" where
  "ui_sized ui \<longleftrightarrow> length (ui_msg_body ui) = DISPLAY_SIZE * DISPLAY_SIZE
     \<and> length (approve_l2 ui) = DISPLAY_SIZE + 1 \<and> length (partial_msg ui) = DISPLAY_SIZE + 1"

definition ui_shift_msg :: "ui_context \<Rightarrow> exn + ui_context" where
  "ui_shift_msg context =
     bindE (buf_read (ui_msg_body context) (unat (display_index context)) DISPLAY_SIZE) (\<lambda>part.
     bindE (buf_write (partial_msg context) 0 part) (\<lambda>partial.
     Inr (context\<lparr>partial_msg := partial\<rparr>)))"

text \<open>\<open>os_memset(context, 0, sizeof(ui_context_t))\<close>\<close>

definition ui_clear_context :: ui_context where
  "ui_clear_context =
     \<lparr>ui_msg_body = replicate (DISPLAY_SIZE * DISPLAY_SIZE) 0, ui_msg_length = 0,
      approve_l2 = replicate (DISPLAY_SIZE + 1) 0, display_index = 0,
      partial_msg = replicate (DISPLAY_SIZE + 1) 0\<rparr>"

text \<open>
  The index is a byte and the length a 16-bit word; both are promoted to \<open>int\<close> in
  \<open>context->display_index < context->msg_length - DISPLAY_SIZE\<close>, which may be negative.
  The second component of the result says that \<open>ui_idle\<close> is called.
\<close>

definition last_index :: "ui_context \<Rightarrow> int" where
  "last_index context = uint (ui_msg_length context) - 18"

definition ui_compare_button :: "u32 \<Rightarrow> ui_context \<Rightarrow> exn + ui_context \<times> bool" where
  "ui_compare_button button_mask context =
     (if button_mask = BUTTON_LEFT \<or> button_mask = (BUTTON_EVT_FAST OR BUTTON_LEFT) then
        let context = (if display_index context > 0
                       then context\<lparr>display_index := display_index context - 1\<rparr> else context)
        in bindE (ui_shift_msg context) (\<lambda>context. Inr (context, False))
      else if button_mask = BUTTON_RIGHT \<or> button_mask = (BUTTON_EVT_FAST OR BUTTON_RIGHT) then
        let context = (if uint (display_index context) < last_index context
                       then context\<lparr>display_index := display_index context + 1\<rparr> else context)
        in bindE (ui_shift_msg context) (\<lambda>context. Inr (context, False))
      else if button_mask = (BUTTON_EVT_RELEASED OR BUTTON_LEFT OR BUTTON_RIGHT) then
        Inr (ui_clear_context, True)
      else Inr (context, False))"

text \<open>Whether \<open>ui_compare_button\<close> calls \<open>UX_REDISPLAY\<close>.\<close>

definition ui_compare_redisplays :: "u32 \<Rightarrow> bool" where
  "ui_compare_redisplays button_mask \<longleftrightarrow>
     button_mask = BUTTON_LEFT \<or> button_mask = (BUTTON_EVT_FAST OR BUTTON_LEFT)
     \<or> button_mask = BUTTON_RIGHT \<or> button_mask = (BUTTON_EVT_FAST OR BUTTON_RIGHT)"

text \<open>Whether the element with a user id is drawn (\<open>NULL\<close> hides it).\<close>

definition ui_prepro_compare :: "ui_context \<Rightarrow> u8 \<Rightarrow> bool" where
  "ui_prepro_compare context element_userid =
     (if element_userid = LEFT_ICON_ID \<and> display_index context = 0 then False
      else if element_userid = RIGHT_ICON_ID
              \<and> uint (display_index context) = last_index context then False
      else True)"

definition ui_compare_msg :: "ui_context \<Rightarrow> exn + ui_context" where
  "ui_compare_msg context =
     bindE (buf_read (ui_msg_body context) 0 DISPLAY_SIZE) (\<lambda>part.
     bindE (buf_write (partial_msg context) 0 part) (\<lambda>partial.
     bindE (buf_write partial DISPLAY_SIZE [0]) (\<lambda>partial.
     Inr (context\<lparr>partial_msg := partial, display_index := 0\<rparr>))))"

section \<open>The window\<close>

text \<open>
  The viewer shows the 18 characters from \<open>display_index\<close> on, and the index stays between
  zero and the last position at which the window is filled.
\<close>

definition window_at :: "ui_context \<Rightarrow> nat \<Rightarrow> u8 list" where
  "window_at ui k = take DISPLAY_SIZE (drop k (ui_msg_body ui)) @ [0]"

definition viewing :: "ui_context \<Rightarrow> bool" where
  "viewing ui \<longleftrightarrow> ui_sized ui \<and> partial_msg ui = window_at ui (unat (display_index ui))
     \<and> uint (display_index ui) \<le> max 0 (last_index ui)"

lemma length_window: "ui_sized ui \<Longrightarrow> k \<le> 306 \<Longrightarrow> length (window_at ui k) = DISPLAY_SIZE + 1"
  by (simp add: window_at_def ui_sized_def DISPLAY_SIZE_def)

lemma ui_shift_msg_window:
  assumes "ui_sized ui" and "drop DISPLAY_SIZE (partial_msg ui) = [0]"
  shows "ui_shift_msg ui = Inr (ui\<lparr>partial_msg := window_at ui (unat (display_index ui))\<rparr>)"
proof -
  have i: "unat (display_index ui) + 18 \<le> 324"
    using unat_u8_le [of "display_index ui"] by linarith
  then have r: "buf_read (ui_msg_body ui) (unat (display_index ui)) DISPLAY_SIZE
      = Inr (take DISPLAY_SIZE (drop (unat (display_index ui)) (ui_msg_body ui)))"
    using assms(1) by (simp add: buf_read_def ui_sized_def DISPLAY_SIZE_def)
  have "length (take DISPLAY_SIZE (drop (unat (display_index ui)) (ui_msg_body ui))) = DISPLAY_SIZE"
    using buf_read_length [OF r] .
  then show ?thesis
    using assms by (simp add: ui_shift_msg_def r buf_write_def window_at_def ui_sized_def)
qed

lemma ui_compare_msg_viewing:
  "ui_sized ui \<Longrightarrow> \<exists>ui'. ui_compare_msg ui = Inr ui' \<and> viewing ui' \<and> display_index ui' = 0
     \<and> ui_msg_body ui' = ui_msg_body ui \<and> ui_msg_length ui' = ui_msg_length ui
     \<and> approve_l2 ui' = approve_l2 ui"
  by (simp add: ui_compare_msg_def buf_read_def buf_write_def ui_sized_def viewing_def window_at_def
      DISPLAY_SIZE_def)

lemma viewing_end: "viewing ui \<Longrightarrow> drop DISPLAY_SIZE (partial_msg ui) = [0]"
proof -
  assume v: "viewing ui"
  have "unat (display_index ui) \<le> 306" using unat_u8_le [of "display_index ui"] by linarith
  moreover from v have "partial_msg ui = window_at ui (unat (display_index ui))" "ui_sized ui"
    by (simp_all add: viewing_def)
  ultimately show ?thesis
    by (simp add: window_at_def ui_sized_def DISPLAY_SIZE_def)
qed

text \<open>The new index after a button event.\<close>

definition moved :: "u32 \<Rightarrow> ui_context \<Rightarrow> u8" where
  "moved b ui =
     (if b = BUTTON_LEFT \<or> b = (BUTTON_EVT_FAST OR BUTTON_LEFT) then
        if display_index ui > 0 then display_index ui - 1 else 0
      else if b = BUTTON_RIGHT \<or> b = (BUTTON_EVT_FAST OR BUTTON_RIGHT) then
        if uint (display_index ui) < last_index ui then display_index ui + 1 else display_index ui
      else display_index ui)"

lemma ui_compare_button_moved:
  assumes v: "viewing ui" and b: "b \<noteq> (BUTTON_EVT_RELEASED OR BUTTON_LEFT OR BUTTON_RIGHT)"
  shows "ui_compare_button b ui
    = Inr (ui\<lparr>display_index := moved b ui, partial_msg := window_at ui (unat (moved b ui))\<rparr>, False)"
proof -
  have "ui_sized ui" using v by (simp add: viewing_def)
  then have s: "ui_sized (ui\<lparr>display_index := i\<rparr>)" for i by (simp add: ui_sized_def)
  have e: "drop DISPLAY_SIZE (partial_msg (ui\<lparr>display_index := i\<rparr>)) = [0]" for i
    using viewing_end [OF v] by simp
  have w: "window_at (ui\<lparr>display_index := i\<rparr>) k = window_at ui k" for i k by (simp add: window_at_def)
  have eta: "ui\<lparr>display_index := display_index ui\<rparr> = ui" by simp
  have same: "ui\<lparr>display_index := display_index ui, partial_msg := window_at ui (unat (display_index ui))\<rparr> = ui"
    using v by (simp add: viewing_def)
  have shift: "ui_shift_msg (ui\<lparr>display_index := i\<rparr>)
      = Inr (ui\<lparr>display_index := i, partial_msg := window_at ui (unat i)\<rparr>)" for i
    using ui_shift_msg_window [OF s e, of i] by (simp add: w)
  have z: "\<not> display_index ui > 0 \<Longrightarrow> ui\<lparr>display_index := 0\<rparr> = ui"
    by (cases ui) (simp add: word_gt_0)
  let ?move = "b = BUTTON_LEFT \<or> b = (BUTTON_EVT_FAST OR BUTTON_LEFT)
    \<or> b = BUTTON_RIGHT \<or> b = (BUTTON_EVT_FAST OR BUTTON_RIGHT)"
  have "ui_compare_button b ui = (if ?move then bindE (ui_shift_msg (ui\<lparr>display_index := moved b ui\<rparr>))
      (\<lambda>c. Inr (c, False)) else Inr (ui, False))"
    using b z by (simp add: ui_compare_button_def moved_def Let_def eta)
  note cb = this
  show ?thesis
  proof (cases ?move)
    case True
    then show ?thesis by (simp only: cb shift bindE_simps if_True)
  next
    case False
    then have "moved b ui = display_index ui" by (simp add: moved_def)
    with False show ?thesis by (simp only: cb same if_False)
  qed
qed

text \<open>The message fits the index: \<open>display_index\<close> does not wrap around.\<close>

definition ui_fits :: "ui_context \<Rightarrow> bool" where
  "ui_fits ui \<longleftrightarrow> uint (ui_msg_length ui) \<le> 273"

lemma moved_int:
  assumes "ui_fits ui"
  shows "uint (moved b ui) =
    (if b = BUTTON_LEFT \<or> b = (BUTTON_EVT_FAST OR BUTTON_LEFT) then max 0 (uint (display_index ui) - 1)
     else if b = BUTTON_RIGHT \<or> b = (BUTTON_EVT_FAST OR BUTTON_RIGHT) then
       (if uint (display_index ui) < last_index ui then uint (display_index ui) + 1
        else uint (display_index ui))
     else uint (display_index ui))"
proof -
  have "uint (display_index ui + 1) = uint (display_index ui) + 1"
    if "uint (display_index ui) < last_index ui"
    using that assms by (simp add: ui_fits_def last_index_def uint_word_ariths)
  moreover have "uint (display_index ui - 1) = uint (display_index ui) - 1" if "display_index ui > 0"
  proof -
    have "0 < uint (display_index ui)" "uint (display_index ui) < 256"
      using that uint_lt2p [of "display_index ui"] by (simp_all add: word_less_def)
    then show ?thesis by (simp add: uint_word_ariths)
  qed
  ultimately show ?thesis
    by (auto simp: moved_def word_less_def max_def)
qed

lemma viewing_button:
  assumes v: "viewing ui" "ui_fits ui" and b: "b \<noteq> (BUTTON_EVT_RELEASED OR BUTTON_LEFT OR BUTTON_RIGHT)"
  shows "\<exists>ui'. ui_compare_button b ui = Inr (ui', False) \<and> viewing ui' \<and> ui_fits ui'
    \<and> ui_msg_body ui' = ui_msg_body ui \<and> ui_msg_length ui' = ui_msg_length ui \<and> display_index ui' = moved b ui"
proof -
  have "unat (moved b ui) \<le> 306" using unat_u8_le [of "moved b ui"] by linarith
  then have l: "length (window_at ui (unat (moved b ui))) = DISPLAY_SIZE + 1"
    using v(1) by (intro length_window) (simp_all add: viewing_def)
  moreover have "uint (moved b ui) \<le> max 0 (last_index ui)"
    using v(1) by (auto simp: moved_int [OF v(2)] viewing_def)
  ultimately show ?thesis
    using v ui_compare_button_moved [OF v(1) b]
    by (auto simp add: viewing_def ui_sized_def window_at_def ui_fits_def last_index_def)
qed

text \<open>The directions in which a button moves the window; a text of fewer than 18 characters cannot move.\<close>

definition can_move :: "u32 \<Rightarrow> ui_context \<Rightarrow> bool" where
  "can_move b ui \<longleftrightarrow> (case ui_compare_button b ui of
     Inr (ui', idle) \<Rightarrow> \<not> idle \<and> display_index ui' \<noteq> display_index ui | Inl e \<Rightarrow> False)"

lemma can_move_iff:
  assumes v: "viewing ui" "ui_fits ui"
  shows "can_move BUTTON_LEFT ui \<longleftrightarrow> display_index ui \<noteq> 0"
    and "can_move BUTTON_RIGHT ui \<longleftrightarrow> uint (display_index ui) < last_index ui"
proof -
  have b: "BUTTON_LEFT \<noteq> (BUTTON_EVT_RELEASED OR BUTTON_LEFT OR BUTTON_RIGHT)"
    "BUTTON_RIGHT \<noteq> (BUTTON_EVT_RELEASED OR BUTTON_LEFT OR BUTTON_RIGHT)"
    "\<not> (BUTTON_RIGHT = BUTTON_LEFT \<or> BUTTON_RIGHT = (BUTTON_EVT_FAST OR BUTTON_LEFT))"
    by (simp_all add: const_defs)
  have l: "can_move BUTTON_LEFT ui \<longleftrightarrow> uint (moved BUTTON_LEFT ui) \<noteq> uint (display_index ui)"
    unfolding can_move_def ui_compare_button_moved [OF v(1) b(1)] by (simp add: word_uint_eq_iff)
  have r: "can_move BUTTON_RIGHT ui \<longleftrightarrow> uint (moved BUTTON_RIGHT ui) \<noteq> uint (display_index ui)"
    unfolding can_move_def ui_compare_button_moved [OF v(1) b(2)] by (simp add: word_uint_eq_iff)
  show "can_move BUTTON_LEFT ui \<longleftrightarrow> display_index ui \<noteq> 0"
    unfolding l moved_int [OF v(2)] by (simp add: max_def word_uint_eq_iff [of _ 0])
  show "can_move BUTTON_RIGHT ui \<longleftrightarrow> uint (display_index ui) < last_index ui"
    unfolding r moved_int [OF v(2)] if_not_P [OF b(3)] by simp
qed

section \<open>Properties\<close>

text \<open>Button events in the viewer, up to the release of both buttons.\<close>

definition CONTINUE :: u32 where
  "CONTINUE = (BUTTON_EVT_RELEASED OR BUTTON_LEFT OR BUTTON_RIGHT)"

fun view_events :: "u32 list \<Rightarrow> ui_context \<Rightarrow> exn + ui_context \<times> bool" where
  "view_events [] ui = Inr (ui, False)"
| "view_events (b # bs) ui =
     bindE (ui_compare_button b ui) (\<lambda>(ui, idle). if idle then Inr (ui, True) else view_events bs ui)"

lemma ui_compare_button_continue: "ui_compare_button CONTINUE ui = Inr (ui_clear_context, True)"
  by (simp add: ui_compare_button_def CONTINUE_def const_defs)

text \<open>
Property C35: from the moment a message of at most 273 characters is shown and for every
sequence of button events, no access leaves the arrays of the context, and until both
buttons are released the window shows the 18 characters of the unchanged message from the
index on, with the index between zero and the last position at which the window is full.
\<close>

theorem viewer_invariant:
  assumes "ui_sized ui" and "uint (ui_msg_length ui) \<le> 273" and "ui_compare_msg ui = Inr ui0"
  shows "\<exists>ui' idle. view_events bs ui0 = Inr (ui', idle) \<and> idle = (CONTINUE \<in> set bs)
    \<and> (if idle then ui' = ui_clear_context
       else ui_msg_body ui' = ui_msg_body ui \<and> ui_msg_length ui' = ui_msg_length ui
         \<and> partial_msg ui' = window_at ui (unat (display_index ui'))
         \<and> uint (display_index ui') \<le> max 0 (last_index ui))"
proof -
  have step: "viewing u \<and> ui_fits u \<Longrightarrow>
    \<exists>ui' idle. view_events bs u = Inr (ui', idle) \<and> idle = (CONTINUE \<in> set bs)
    \<and> (if idle then ui' = ui_clear_context
       else viewing ui' \<and> ui_msg_body ui' = ui_msg_body u \<and> ui_msg_length ui' = ui_msg_length u)" for u
  proof (induction bs arbitrary: u)
    case (Cons b bs)
    show ?case
    proof (cases "b = CONTINUE")
      case True
      then show ?thesis by (auto simp: ui_compare_button_continue)
    next
      case False
      with viewing_button [of u b] Cons obtain u' where
        "ui_compare_button b u = Inr (u', False)" "viewing u' \<and> ui_fits u'"
        "ui_msg_body u' = ui_msg_body u" "ui_msg_length u' = ui_msg_length u"
        by (auto simp: CONTINUE_def)
      with Cons.IH [of u'] False show ?thesis by auto
    qed
  qed auto
  have u0: "viewing ui0" "ui_msg_body ui0 = ui_msg_body ui" "ui_msg_length ui0 = ui_msg_length ui"
    using ui_compare_msg_viewing [OF assms(1)] assms(3) by auto
  then have "ui_fits ui0" using assms(2) by (simp add: ui_fits_def)
  with step [of ui0] u0 show ?thesis
    by (fastforce simp: viewing_def window_at_def last_index_def)
qed

theorem viewer_invariant_witness:
  "\<exists>ui0. ui_compare_msg (ui_clear_context\<lparr>ui_msg_length := 44\<rparr>) = Inr ui0
    \<and> (\<exists>ui'. view_events [BUTTON_RIGHT, BUTTON_RIGHT] ui0 = Inr (ui', False)
        \<and> uint (display_index ui') \<le> 26)"
proof -
  let ?ui = "ui_clear_context\<lparr>ui_msg_length := 44\<rparr>"
  have s: "ui_sized ?ui" by (simp add: ui_sized_def ui_clear_context_def)
  with ui_compare_msg_viewing obtain ui0 where "ui_compare_msg ?ui = Inr ui0" by blast
  with viewer_invariant [OF s _ this, of "[BUTTON_RIGHT, BUTTON_RIGHT]"] show ?thesis
    by (auto simp: last_index_def CONTINUE_def const_defs)
qed

text \<open>
Every part of the message can be brought into view: after \<open>k\<close> presses of
the right button the window stands at position \<open>k\<close>, or at the last position; there, and
only there, the right arrow is hidden, and the left arrow is hidden at position zero.
\<close>

theorem viewer_scrolls:
  assumes "ui_sized ui" and "18 \<le> uint (ui_msg_length ui)" "uint (ui_msg_length ui) \<le> 273"
    and "ui_compare_msg ui = Inr ui0"
  shows "\<exists>ui'. view_events (replicate k BUTTON_RIGHT) ui0 = Inr (ui', False)
    \<and> uint (display_index ui') = min (int k) (last_index ui)
    \<and> (ui_prepro_compare ui' RIGHT_ICON_ID \<longleftrightarrow> int k < last_index ui)
    \<and> (ui_prepro_compare ui' LEFT_ICON_ID \<longleftrightarrow> 0 < k \<and> 18 < uint (ui_msg_length ui))"
proof -
  have b: "BUTTON_RIGHT \<noteq> (BUTTON_EVT_RELEASED OR BUTTON_LEFT OR BUTTON_RIGHT)" by (simp add: const_defs)
  have r: "\<not> (BUTTON_RIGHT = BUTTON_LEFT \<or> BUTTON_RIGHT = (BUTTON_EVT_FAST OR BUTTON_LEFT))"
    by (simp add: const_defs)
  have step: "viewing u \<and> ui_fits u \<and> uint (display_index u) \<le> last_index u \<Longrightarrow>
    \<exists>ui'. view_events (replicate k BUTTON_RIGHT) u = Inr (ui', False) \<and> ui_msg_length ui' = ui_msg_length u
    \<and> uint (display_index ui') = min (uint (display_index u) + int k) (last_index u)" for u
  proof (induction k arbitrary: u)
    case (Suc k)
    from viewing_button [OF _ _ b, of u] Suc.prems obtain u' where
      u': "ui_compare_button BUTTON_RIGHT u = Inr (u', False)" "viewing u'" "ui_fits u'"
      "ui_msg_length u' = ui_msg_length u" "display_index u' = moved BUTTON_RIGHT u" by auto
    have i: "uint (display_index u') = (if uint (display_index u) < last_index u
        then uint (display_index u) + 1 else uint (display_index u))"
      using moved_int [of u BUTTON_RIGHT] Suc.prems r u'(5) by simp
    have l: "last_index u' = last_index u" by (simp add: last_index_def u'(4))
    from Suc.IH [of u'] u' i l Suc.prems show ?case by (auto split: if_splits)
  qed simp
  have u0: "viewing ui0" "ui_msg_length ui0 = ui_msg_length ui" "display_index ui0 = 0"
    using ui_compare_msg_viewing [OF assms(1)] assms(4) by auto
  then have "viewing ui0 \<and> ui_fits ui0 \<and> uint (display_index ui0) \<le> last_index ui0"
    using assms(2,3) by (simp add: ui_fits_def last_index_def)
  from step [OF this] obtain ui' where
    "view_events (replicate k BUTTON_RIGHT) ui0 = Inr (ui', False)" "ui_msg_length ui' = ui_msg_length ui"
    "uint (display_index ui') = min (int k) (last_index ui)"
    using u0 by (auto simp: last_index_def)
  then show ?thesis
    using assms(2)
    by (auto simp: ui_prepro_compare_def LEFT_ICON_ID_def RIGHT_ICON_ID_def last_index_def word_uint_eq_iff)
qed

theorem viewer_scrolls_witness:
  "\<exists>ui0 ui'. ui_compare_msg (ui_clear_context\<lparr>ui_msg_length := 20\<rparr>) = Inr ui0
    \<and> view_events (replicate 5 BUTTON_RIGHT) ui0 = Inr (ui', False) \<and> uint (display_index ui') = 2
    \<and> \<not> ui_prepro_compare ui' RIGHT_ICON_ID"
proof -
  let ?ui = "ui_clear_context\<lparr>ui_msg_length := 20\<rparr>"
  have s: "ui_sized ?ui" by (simp add: ui_sized_def ui_clear_context_def)
  with ui_compare_msg_viewing obtain ui0 where "ui_compare_msg ?ui = Inr ui0" by blast
  with viewer_scrolls [OF s _ _ this, of 5] show ?thesis
    by (auto simp: last_index_def)
qed

end
