(* ===== verification/Globals.thy ===== *)
theory Globals
  imports Prelude
begin

text \<open>
  The constants of \<open>src/src/globals.h\<close>, \<open>errors.h\<close>, \<open>io.h\<close> and \<open>iost.h\<close>, and those of the SDK
  headers \<open>os.h\<close> and \<open>os_io_seproxyhal.h\<close> the application uses: offsets and fields of an
  APDU, status words, exception codes, \<open>io_exchange\<close> flags and array sizes.
\<close>

section \<open>globals.h\<close>

definition CLA :: u8 where [const_defs]: "CLA = 0xE0"

definition OFFSET_CLA :: nat where [const_defs]: "OFFSET_CLA = 0"
definition OFFSET_INS :: nat where [const_defs]: "OFFSET_INS = 1"
definition OFFSET_P1 :: nat where [const_defs]: "OFFSET_P1 = 2"
definition OFFSET_P2 :: nat where [const_defs]: "OFFSET_P2 = 3"
definition OFFSET_LC :: nat where [const_defs]: "OFFSET_LC = 4"
definition OFFSET_CDATA :: nat where [const_defs]: "OFFSET_CDATA = 5"

definition INS_RETURN_TO_DASHBOARD :: u8 where [const_defs]: "INS_RETURN_TO_DASHBOARD = 0xFF"
definition INS_SIGN_MESSAGE :: u8 where [const_defs]: "INS_SIGN_MESSAGE = 0x08"
definition INS_GET_PUBLIC_KEY :: u8 where [const_defs]: "INS_GET_PUBLIC_KEY = 0x04"
definition INS_GET_CONFIGURATION :: u8 where [const_defs]: "INS_GET_CONFIGURATION = 0x02"
definition INS_ECHO :: u8 where [const_defs]: "INS_ECHO = 0x01"
definition INS_RESET :: u8 where [const_defs]: "INS_RESET = 0x00"
definition P1_CONFIRM :: u8 where [const_defs]: "P1_CONFIRM = 0x00"
definition P1_SILENT :: u8 where [const_defs]: "P1_SILENT = 0x01"
definition P2_BIN :: u8 where [const_defs]: "P2_BIN = 0x00"
definition P2_HEX :: u8 where [const_defs]: "P2_HEX = 0x01"
definition P2_BASE58 :: u8 where [const_defs]: "P2_BASE58 = 0x02"
definition P2_MORE :: u8 where [const_defs]: "P2_MORE = 0x80"

section \<open>errors.h\<close>

definition SW_WRONG_STATE :: u16 where [const_defs]: "SW_WRONG_STATE = 0x6000"
definition SW_EXECUTION_ERROR :: u16 where [const_defs]: "SW_EXECUTION_ERROR = 0x6400"
definition SW_WRONG_LENGTH :: u16 where [const_defs]: "SW_WRONG_LENGTH = 0x6700"
definition SW_DATA_INVALID :: u16 where [const_defs]: "SW_DATA_INVALID = 0x6984"
definition SW_USER_REJECTED :: u16 where [const_defs]: "SW_USER_REJECTED = 0x6985"
definition SW_COMMAND_NOT_ALLOWED :: u16 where [const_defs]: "SW_COMMAND_NOT_ALLOWED = 0x6986"
definition SW_BAD_KEY_HANDLE :: u16 where [const_defs]: "SW_BAD_KEY_HANDLE = 0x6A80"
definition SW_INVALID_P1P2 :: u16 where [const_defs]: "SW_INVALID_P1P2 = 0x6B00"
definition SW_INS_NOT_SUPPORTED :: u16 where [const_defs]: "SW_INS_NOT_SUPPORTED = 0x6D00"
definition SW_CLA_NOT_SUPPORTED :: u16 where [const_defs]: "SW_CLA_NOT_SUPPORTED = 0x6E00"
definition SW_INTERNAL_ERROR :: u16 where [const_defs]: "SW_INTERNAL_ERROR = 0x6F00"
definition SW_OK :: u16 where [const_defs]: "SW_OK = 0x9000"

section \<open>io.h and iost.h\<close>

definition APDU_MIN_SIZE :: u16 where [const_defs]: "APDU_MIN_SIZE = 1"
definition APDU_MAX_SIZE :: u16 where [const_defs]: "APDU_MAX_SIZE = 5"
definition BIP32_PATH_MASK :: u32 where [const_defs]: "BIP32_PATH_MASK = 0x80000000"
definition BIP32_PATH_LENGTH :: nat where [const_defs]: "BIP32_PATH_LENGTH = 5"
definition MAX_MSG_SIZE :: nat where [const_defs]: "MAX_MSG_SIZE = 512"
definition ED25519_KEY_SIZE :: nat where [const_defs]: "ED25519_KEY_SIZE = 32"

section \<open>The SDK\<close>

definition EXCEPTION_OVERFLOW :: u16 where [const_defs]: "EXCEPTION_OVERFLOW = 3"
definition EXCEPTION_IO_RESET :: u16 where [const_defs]: "EXCEPTION_IO_RESET = 16"

definition CHANNEL_APDU :: u8 where [const_defs]: "CHANNEL_APDU = 0"
definition IO_RESET_AFTER_REPLIED :: u8 where [const_defs]: "IO_RESET_AFTER_REPLIED = 0x80"
definition IO_RECEIVE_DATA :: u8 where [const_defs]: "IO_RECEIVE_DATA = 0x40"
definition IO_RETURN_AFTER_TX :: u8 where [const_defs]: "IO_RETURN_AFTER_TX = 0x20"
definition IO_ASYNCH_REPLY :: u8 where [const_defs]: "IO_ASYNCH_REPLY = 0x10"

text \<open>\<open>IO_APDU_BUFFER_SIZE\<close> with \<open>HAVE_IO_U2F\<close>: 3 + 32 + 32 + 15 + 255 bytes.\<close>

definition IO_APDU_BUFFER_SIZE :: nat where [const_defs]: "IO_APDU_BUFFER_SIZE = 337"

text \<open>A thrown status word or exception code.\<close>

abbreviation THROW :: "u16 \<Rightarrow> exn + 'a" where
  "THROW e \<equiv> Inl (Throw e)"

end
