(* ===== verification/Io.thy ===== *)
theory Io
  imports Globals
begin

text \<open>
  \<open>src/src/io.c\<close> without the SEPROXYHAL glue, and the stack canary of
  \<open>src/src/debug.c\<close>: reading a BIP32 path from an APDU, checking P1 and P2, appending a
  status word.  \<open>PRINTF\<close> and \<open>io_print_buffer\<close> are empty in the release build (\<open>DEBUG\<close> is 0 in
  the Makefile).
\<close>

section \<open>io_read_bip32\<close>

text \<open>
  The loop \<open>for (i = 0; i < bip_32_length; i++)\<close>: every round clears \<open>bip_32_path[i]\<close> and
  ors the next four bytes into it.  Reading past the array behind \<open>buffer\<close> and
  writing past \<open>bip_32_path\<close> are faults.
\<close>

function bip32_loop :: "nat \<Rightarrow> nat \<Rightarrow> u8 list \<Rightarrow> u32 list \<Rightarrow> exn + u32 list" where
  "bip32_loop i bip_32_length buffer bip_32_path =
     (if i < bip_32_length then
        case buffer of
          b0 # b1 # b2 # b3 # buffer' \<Rightarrow>
            if i < length bip_32_path then
              bip32_loop (Suc i) bip_32_length buffer'
                (bip_32_path[i := (((0 OR push_bit 0x18 (ucast b0)) OR push_bit 0x10 (ucast b1))
                                   OR push_bit 0x08 (ucast b2)) OR push_bit 0x00 (ucast b3)])
            else Inl Fault
        | _ \<Rightarrow> Inl Fault
      else Inr bip_32_path)"
  by pat_completeness auto
termination
  by (relation "measure (\<lambda>(i, n, b, p). n - i)") auto

declare bip32_loop.simps [simp del]

text \<open>
  \<open>sizeof(uint32_t) * bip_32_length > buffer_length - 1\<close> compares 32-bit unsigned numbers:
  for a \<open>buffer_length\<close> of zero the right side is \<open>0xFFFFFFFF\<close>.  The result is the
  length and the array \<open>bip_32_path\<close>.
\<close>

definition io_read_bip32 :: "u8 list \<Rightarrow> u16 \<Rightarrow> u32 list \<Rightarrow> exn + u16 \<times> u32 list" where
  "io_read_bip32 buffer buffer_length bip_32_path =
     (case buffer of
        [] \<Rightarrow> Inl Fault
      | b # buffer \<Rightarrow>
          let bip_32_length = (ucast b :: u16)
          in if (bip_32_length < 0x01 \<or> bip_32_length > APDU_MAX_SIZE)
                \<or> (4 * ucast bip_32_length :: u32) > ucast buffer_length - 1
             then THROW SW_WRONG_LENGTH
             else bindE (bip32_loop 0 (unat bip_32_length) buffer bip_32_path)
                    (\<lambda>bip_32_path. Inr (bip_32_length, bip_32_path)))"

section \<open>Status words\<close>

text \<open>
  The pointers \<open>flags\<close> and \<open>tx\<close> may be null; \<open>buf\<close> is \<open>G_io_apdu_buffer\<close>.
\<close>

definition io_set_status ::
  "u16 \<Rightarrow> u8 option \<Rightarrow> u16 option \<Rightarrow> u8 list \<Rightarrow> exn + u8 option \<times> u16 option \<times> u8 list" where
  "io_set_status sw flags tx buf =
     (let flags = (case flags of None \<Rightarrow> None | Some f \<Rightarrow> Some (f OR IO_RETURN_AFTER_TX))
      in case tx of
           None \<Rightarrow> Inr (flags, None, buf)
         | Some tx \<Rightarrow>
             bindE (buf_write buf (unat tx) [ucast (drop_bit 8 sw)]) (\<lambda>buf.
             bindE (buf_write buf (unat (tx + 1)) [ucast (sw AND 0xFF)]) (\<lambda>buf.
             Inr (flags, Some (tx + 2), buf))))"

text \<open>
  \<open>io_exchange_status\<close>: the arguments of its call of \<open>io_exchange\<close>, that is the flags and the
  length, and the buffer.
\<close>

definition io_exchange_status :: "u16 \<Rightarrow> u16 \<Rightarrow> u8 list \<Rightarrow> exn + u8 \<times> u16 \<times> u8 list" where
  "io_exchange_status sw tx buf =
     bindE (io_set_status sw (Some CHANNEL_APDU) (Some tx) buf)
       (\<lambda>(flags, tx, buf). Inr (the flags, the tx, buf))"

section \<open>P1 and P2\<close>

definition io_check_p1p2 :: "u8 \<Rightarrow> u8 \<Rightarrow> exn + unit" where
  "io_check_p1p2 p1 p2 =
     (if p1 \<noteq> P1_CONFIRM \<and> p1 \<noteq> P1_SILENT then THROW SW_INVALID_P1P2
      else if p2 \<noteq> P2_MORE \<and> p2 AND P2_MORE \<noteq> P2_BIN \<and> p2 AND P2_MORE \<noteq> P2_HEX
              \<and> p2 AND P2_MORE \<noteq> P2_BASE58 then THROW SW_INVALID_P1P2
      else Inr ())"

section \<open>The stack canary\<close>

definition debug_init_stack_canary :: u32 where
  "debug_init_stack_canary = 0xDEADBEEF"

definition debug_check_stack_canary :: "u32 \<Rightarrow> exn + unit" where
  "debug_check_stack_canary canary =
     (if canary \<noteq> 0xDEADBEEF then THROW EXCEPTION_OVERFLOW else Inr ())"

definition debug_get_stack_canary :: "u32 \<Rightarrow> u32" where
  "debug_get_stack_canary canary = canary"

section \<open>What the path reader accepts\<close>

text \<open>The big-endian words of a byte list.\<close>

fun be_words :: "nat \<Rightarrow> u8 list \<Rightarrow> u32 list" where
  "be_words 0 bs = []"
| "be_words (Suc n) bs = of_nat (be_value (take 4 bs)) # be_words n (drop 4 bs)"

lemma length_be_words [simp]: "length (be_words n bs) = n"
  by (induction n arbitrary: bs) simp_all

lemma be_word_or:
  "(((0 OR push_bit 0x18 (ucast b0)) OR push_bit 0x10 (ucast b1)) OR push_bit 0x08 (ucast b2))
     OR push_bit 0x00 (ucast b3) = (of_nat (be_value [b0, b1, b2, b3]) :: u32)"
proof -
  let ?w = "(((0 OR push_bit 0x18 (ucast b0)) OR push_bit 0x10 (ucast b1)) OR push_bit 0x08 (ucast b2))
     OR push_bit 0x00 (ucast b3) :: u32"
  have sh: "unat (push_bit k (ucast (x :: u8)) :: u32) = push_bit k (unat x)" if "k \<le> 24" for k x
  proof -
    have "unat x * 2 ^ k < 2 ^ 8 * 2 ^ k" by (intro mult_strict_right_mono) simp_all
    also have "\<dots> \<le> 2 ^ 32" using that by (simp only: power_add [symmetric]) (intro power_increasing, simp_all)
    finally show ?thesis unfolding unat_push_bit by (simp add: push_bit_eq_mult)
  qed
  have w: "unat ?w = push_bit 24 (unat b0) OR (push_bit 16 (unat b1) OR (push_bit 8 (unat b2) OR unat b3))"
    using sh [of 24 b0] sh [of 16 b1] sh [of 8 b2] by (simp add: unsigned_or_eq or.assoc)
  have "unat b2 * 256 + unat b3 < 65536"
    using unat_u8_le [of b2] unat_u8_le [of b3] by linarith
  then have l2: "unat b2 * 2 ^ 8 + unat b3 < 2 ^ 16" by simp
  have "unat b1 * 65536 + (unat b2 * 256 + unat b3) < 16777216"
    using unat_u8_le [of b1] unat_u8_le [of b2] unat_u8_le [of b3] by linarith
  then have l1: "unat b1 * 2 ^ 16 + (unat b2 * 2 ^ 8 + unat b3) < 2 ^ 24" by simp
  note w
  also have "push_bit 8 (unat b2) OR unat b3 = unat b2 * 2 ^ 8 + unat b3"
    by (intro nat_or_shifted) simp
  also have "push_bit 16 (unat b1) OR (unat b2 * 2 ^ 8 + unat b3) = unat b1 * 2 ^ 16 + (unat b2 * 2 ^ 8 + unat b3)"
    by (rule nat_or_shifted [OF l2])
  also have "push_bit 24 (unat b0) OR (unat b1 * 2 ^ 16 + (unat b2 * 2 ^ 8 + unat b3))
      = unat b0 * 2 ^ 24 + (unat b1 * 2 ^ 16 + (unat b2 * 2 ^ 8 + unat b3))"
    by (rule nat_or_shifted [OF l1])
  also have "\<dots> = be_value [b0, b1, b2, b3]" by simp
  finally have "of_nat (unat ?w) = (of_nat (be_value [b0, b1, b2, b3]) :: u32)" by (rule arg_cong)
  then show ?thesis by (simp only: of_nat_unat ucast_id)
qed

lemma four_bytes: "4 \<le> length bs \<Longrightarrow> \<exists>b0 b1 b2 b3 r. bs = b0 # b1 # b2 # b3 # r"
  by (auto simp: numeral_eq_Suc Suc_le_length_iff)

lemma bip32_loop_spec:
  "i \<le> n \<Longrightarrow> n \<le> length path \<Longrightarrow>
    bip32_loop i n buffer path =
      (if 4 * (n - i) \<le> length buffer
       then Inr (take i path @ be_words (n - i) buffer @ drop n path) else Inl Fault)"
proof (induction "n - i" arbitrary: i buffer path)
  case 0
  then have "i = n" by simp
  then show ?case by (subst bip32_loop.simps) simp
next
  case (Suc k)
  then have i: "i < n" and k: "k = n - Suc i" by simp_all
  show ?case
  proof (cases "4 \<le> length buffer")
    case False
    then show ?thesis using i
      by (subst bip32_loop.simps) (auto split: list.splits)
  next
    case True
    then obtain b0 b1 b2 b3 r where b: "buffer = b0 # b1 # b2 # b3 # r"
      using four_bytes by blast
    let ?p = "path[i := of_nat (be_value [b0, b1, b2, b3])]"
    have "bip32_loop i n buffer path = bip32_loop (Suc i) n r ?p"
      using i Suc.prems by (subst bip32_loop.simps) (simp only: b list.case if_True be_word_or, simp)
    also have "\<dots> = (if 4 * (n - Suc i) \<le> length r
        then Inr (take (Suc i) ?p @ be_words (n - Suc i) r @ drop n ?p) else Inl Fault)"
      using Suc.hyps(1) [OF k, of ?p r] i Suc.prems by simp
    also have "take (Suc i) ?p = take i path @ [of_nat (be_value [b0, b1, b2, b3])]"
      using i Suc.prems by (simp add: take_Suc_conv_app_nth)
    also have "drop n ?p = drop n path" using i by simp
    moreover have "n - i = Suc (n - Suc i)" using i by simp
    ultimately show ?thesis
      by (simp add: b del: be_value.simps)
  qed
qed

lemma be_words_numeral:
  "be_words (numeral k) bs = of_nat (be_value (take 4 bs)) # be_words (pred_numeral k) (drop 4 bs)"
  by (simp add: numeral_eq_Suc)

lemma be_words_take: "4 * n \<le> m \<Longrightarrow> be_words n (take m bs) = be_words n bs"
proof (induction n arbitrary: m bs)
  case (Suc n)
  then show ?case by (simp add: drop_take min_def)
qed simp

lemma io_read_bip32_Cons:
  assumes "length path = BIP32_PATH_LENGTH"
  shows "io_read_bip32 (b # r) len path =
    (if unat b < 1 \<or> 5 < unat b \<or> unat (ucast len - 1 :: u32) < 4 * unat b then Inl (Throw SW_WRONG_LENGTH)
     else if 4 * unat b \<le> length r
       then Inr (ucast b, be_words (unat b) r @ drop (unat b) path) else Inl Fault)"
proof -
  have n: "unat (ucast b :: u16) = unat b" by (simp add: unat_ucast_up)
  have range: "((ucast b :: u16) < 0x01 \<or> (ucast b :: u16) > APDU_MAX_SIZE) = (unat b < 1 \<or> 5 < unat b)"
    by (simp add: word_less_nat_alt n APDU_MAX_SIZE_def)
  have "unat (4 * ucast (ucast b :: u16) :: u32) = 4 * unat b"
  proof -
    have "4 * unat b < 4294967296" using unat_u8_le [of b] by linarith
    then show ?thesis by (simp add: unat_word_ariths unat_ucast_up)
  qed
  then have cmp: "((4 * ucast (ucast b :: u16) :: u32) > ucast len - 1)
      = (unat (ucast len - 1 :: u32) < 4 * unat b)"
    by (simp only: word_less_nat_alt)
  show ?thesis
    using bip32_loop_spec [of 0 "unat b" path r] assms
    unfolding io_read_bip32_def list.case Let_def range cmp n
    by (simp add: BIP32_PATH_LENGTH_def)
qed

text \<open>
Property C33: \<open>io_read_bip32\<close> throws \<open>SW_WRONG_LENGTH\<close> unless the first byte announces one to
five path elements; with a buffer length of at least one they also have to lie within that
length, and nothing behind it is read.  With the length zero this check is void, because
\<open>buffer_length - 1\<close> is the unsigned number \<open>0xFFFFFFFF\<close>: the elements are taken from whatever
stands behind the pointer.  What is accepted is stored in big-endian order.
\<close>

theorem io_read_bip32_correct:
  assumes "buffer \<noteq> []" "unat len \<le> length buffer" and "length path = BIP32_PATH_LENGTH"
  shows "io_read_bip32 buffer len path =
    (let n = unat (hd buffer); visible = (if len = 0 then buffer else take (unat len) buffer)
     in if n < 1 \<or> 5 < n \<or> len \<noteq> 0 \<and> unat len < 1 + 4 * n then Inl (Throw SW_WRONG_LENGTH)
        else if 1 + 4 * n \<le> length visible then Inr (of_nat n, be_words n (tl visible) @ drop n path)
        else Inl Fault)"
proof -
  obtain b r where b: "buffer = b # r" using assms(1) by (cases buffer) auto
  show ?thesis
  proof (cases "len = 0")
    case True
    have "unat (- 1 :: u32) = 4294967295"
      by (simp add: unsigned_minus_1_eq_mask mask_eq_exp_minus_1)
    then show ?thesis
      using io_read_bip32_Cons [OF assms(3), of b r len] by (auto simp: b True Let_def)
  next
    case False
    then have pos: "0 < unat len" by (simp add: unat_gt_0)
    have l: "unat (ucast len - 1 :: u32) = unat len - 1"
      using pos by (simp add: unat_dec unat_ucast_up)
    obtain k where k: "unat len = Suc k" using pos by (cases "unat len") auto
    show ?thesis
      using assms False io_read_bip32_Cons [OF assms(3), of b r len]
      by (auto simp: b l k Let_def be_words_take)
  qed
qed

theorem io_read_bip32_correct_witness:
  "io_read_bip32 [2, 0x80, 0, 0, 44, 0x80, 0, 1, 0x23, 7] 9 [0, 0, 0, 0, 0]
      = Inr (2, [0x8000002C, 0x80000123, 0, 0, 0])
    \<and> io_read_bip32 [2, 0x80, 0, 0, 44, 0x80, 0, 1, 0x23, 7] 8 [0, 0, 0, 0, 0] = Inl (Throw SW_WRONG_LENGTH)
    \<and> io_read_bip32 [1, 0x80, 0, 0, 44] 0 [0, 0, 0, 0, 0] = Inr (1, [0x8000002C, 0, 0, 0, 0])"
  using io_read_bip32_correct [of "[2, 0x80, 0, 0, 44, 0x80, 0, 1, 0x23, 7]" 9 "[0, 0, 0, 0, 0]"]
    io_read_bip32_correct [of "[2, 0x80, 0, 0, 44, 0x80, 0, 1, 0x23, 7]" 8 "[0, 0, 0, 0, 0]"]
    io_read_bip32_correct [of "[1, 0x80, 0, 0, 44]" 0 "[0, 0, 0, 0, 0]"]
  by (simp add: BIP32_PATH_LENGTH_def be_words_numeral)

text \<open>The check of P1 and P2 as intervals.\<close>

lemma io_check_p1p2_intervals:
  "io_check_p1p2 p1 p2 =
     (if unat p1 \<le> 1 \<and> unat p2 \<le> 0x80 then Inr () else Inl (Throw SW_INVALID_P1P2))"
proof -
  have p2: "(p2 = 0x80 \<or> p2 AND 0x80 = 0 \<or> p2 AND 0x80 = 1 \<or> p2 AND 0x80 = 2) = (unat p2 \<le> 0x80)"
  proof -
    have "\<forall>n \<in> set [0..<256]. ((of_nat n :: u8) = 0x80 \<or> of_nat n AND (0x80 :: u8) = 0
        \<or> of_nat n AND (0x80 :: u8) = 1 \<or> of_nat n AND (0x80 :: u8) = 2) = (n \<le> 0x80)"
      by code_simp
    then show ?thesis using unat_u8_less [of p2] by (metis atLeastLessThan_iff of_nat_unat set_upt ucast_id zero_le)
  qed
  have p1: "(p1 = 0 \<or> p1 = 1) = (unat p1 \<le> 1)"
    by (simp add: word_unat_eq_iff le_Suc_eq)
  show ?thesis using p1 p2 by (auto simp: io_check_p1p2_def const_defs)
qed

lemma io_check_p1p2_range: "unat p1 \<le> 1 \<Longrightarrow> unat p2 \<le> 0x80 \<Longrightarrow> io_check_p1p2 p1 p2 = Inr ()"
  by (simp add: io_check_p1p2_intervals)

text \<open>
Property C34: \<open>io_check_p1p2\<close> masks P2 with \<open>P2_MORE\<close> before it compares it with the
output formats, so it accepts exactly the P1 values 0 and 1 and the P2 values 0 to \<open>0x80\<close>:
undefined formats such as \<open>0x55\<close> pass, and neither \<open>P2_HEX\<close> nor \<open>P2_BASE58\<close> can be combined
with \<open>P2_MORE\<close>.
\<close>

theorem io_check_p1p2_accepts:
  "io_check_p1p2 p1 p2 =
     (if unat p1 \<le> 1 \<and> unat p2 \<le> 0x80 then Inr () else Inl (Throw SW_INVALID_P1P2))"
  by (rule io_check_p1p2_intervals)

end
