(* ===== verification/Iost.thy ===== *)
theory Iost
  imports Globals
begin

text \<open>
  Key derivation, signing, hashing and the encoding of public keys, \<open>src/src/iost.c\<close>.
  The cryptographic services are system calls of the firmware, which is not part of the
  repository: they are the fields of a record \<open>crypto\<close> that every definition takes as an
  argument.  A call may throw.  \<open>io_seproxyhal_io_heartbeat\<close> has no effect on the state
  modelled here.
\<close>

section \<open>Keys and services\<close>

definition CX_CURVE_Ed25519 :: u8 where "CX_CURVE_Ed25519 = 0x41"

record cx_ecfp_public_key =
  pk_curve :: u8
  W_len :: u32
  W :: "u8 list"

record cx_ecfp_private_key =
  sk_curve :: u8
  d_len :: u32
  d :: "u8 list"

text \<open>The objects with all bytes zero, \<open>{}\<close> in the source.\<close>

definition zero_public_key :: cx_ecfp_public_key where
  "zero_public_key = \<lparr>pk_curve = 0, W_len = 0, W = replicate 65 0\<rparr>"

definition zero_private_key :: cx_ecfp_private_key where
  "zero_private_key = \<lparr>sk_curve = 0, d_len = 0, d = replicate 32 0\<rparr>"

text \<open>
  \<open>os_perso_derive_node_bip32_seed_key(HDW_ED25519_SLIP10, CX_CURVE_Ed25519, path, \<dots>)\<close>
  gives the bytes written to \<open>private_key\<close>; the calls that return an \<open>int\<close> give it with the
  objects they write.  \<open>cx_hash\<close> is split into the call that absorbs data and the call
  with \<open>CX_LAST\<close> that produces the digest.
\<close>

record 'h crypto =
  derive_node :: "u32 list \<Rightarrow> exn + u8 list"
  init_private_key :: "u8 list \<Rightarrow> cx_ecfp_private_key \<Rightarrow> exn + u32 \<times> cx_ecfp_private_key"
  init_public_key :: "cx_ecfp_public_key \<Rightarrow> exn + u32 \<times> cx_ecfp_public_key"
  generate_pair :: "cx_ecfp_public_key \<Rightarrow> cx_ecfp_private_key
    \<Rightarrow> exn + u32 \<times> cx_ecfp_public_key \<times> cx_ecfp_private_key"
  eddsa_sign :: "cx_ecfp_private_key \<Rightarrow> u8 list \<Rightarrow> exn + u32 \<times> u8 list"
  sha3_init :: "nat \<Rightarrow> exn + u32 \<times> 'h"
  hash_update :: "'h \<Rightarrow> u8 list \<Rightarrow> exn + u32 \<times> 'h"
  hash_last :: "'h \<Rightarrow> exn + u32 \<times> u8 list"

section \<open>iost_derive_keypair\<close>

text \<open>
  The value returned, the objects behind \<open>psk\<close> and \<open>ppk\<close> (the caller's, or the local
  ones when the caller passes null), and the local array \<open>private_key\<close> as it is left on
  the stack.
\<close>

record keypair =
  kp_result :: u16
  kp_secret :: cx_ecfp_private_key
  kp_public :: cx_ecfp_public_key
  kp_private_key :: "u8 list"

definition iost_derive_keypair ::
  "'h crypto \<Rightarrow> u32 list \<Rightarrow> u16 \<Rightarrow> cx_ecfp_private_key option \<Rightarrow> cx_ecfp_public_key option \<Rightarrow> exn + keypair"
where
  "iost_derive_keypair C bip_32_path bip_32_length secret_key public_key =
     (let result = - 1;
          private_key = replicate ED25519_KEY_SIZE 0;
          psk = (case secret_key of Some k \<Rightarrow> k | None \<Rightarrow> zero_private_key);
          ppk = (case public_key of Some k \<Rightarrow> k | None \<Rightarrow> zero_public_key)
      in
      bindE (buf_read bip_32_path 0 (unat bip_32_length)) (\<lambda>path.
      bindE (derive_node C path) (\<lambda>key.
      bindE (buf_write private_key 0 key) (\<lambda>private_key.
      bindE (init_private_key C private_key psk) (\<lambda>(r, psk).
        if 0 <s r then
          bindE (init_public_key C ppk) (\<lambda>(r, ppk).
            if r = 0 then
              bindE (generate_pair C ppk psk) (\<lambda>(r, ppk, psk).
                let result = ucast r;
                    private_key = replicate ED25519_KEY_SIZE 0;
                    psk = (if secret_key = None then zero_private_key else psk);
                    ppk = (if public_key = None then zero_public_key else ppk)
                in Inr \<lparr>kp_result = result, kp_secret = psk, kp_public = ppk, kp_private_key = private_key\<rparr>)
            else Inr \<lparr>kp_result = result, kp_secret = psk, kp_public = ppk, kp_private_key = private_key\<rparr>)
        else Inr \<lparr>kp_result = result, kp_secret = psk, kp_public = ppk, kp_private_key = private_key\<rparr>)))))"

section \<open>iost_sign\<close>

text \<open>
  \<open>hash_length\<close> is a \<open>uint8_t\<close>.  The result is the value returned, the array behind
  \<open>signature\<close> and the local private key as it is left on the stack.
\<close>

definition iost_sign ::
  "'h crypto \<Rightarrow> u32 list \<Rightarrow> u16 \<Rightarrow> u8 list \<Rightarrow> u8 \<Rightarrow> u8 list \<Rightarrow> exn + u16 \<times> u8 list \<times> cx_ecfp_private_key"
where
  "iost_sign C bip_32_path bip_32_length trx_hash hash_length signature =
     (let sk = zero_private_key; signature_length = 0
      in if hash_length \<noteq> 0 then
           bindE (iost_derive_keypair C bip_32_path bip_32_length (Some sk) None) (\<lambda>kp.
             let sk = kp_secret kp
             in if kp_result kp = 0 then
                  bindE (buf_read trx_hash 0 (unat hash_length)) (\<lambda>hash.
                  bindE (eddsa_sign C sk hash) (\<lambda>(len, sig).
                  bindE (if length sig \<le> ED25519_KEY_SIZE * 2 then buf_write signature 0 sig else Inl Fault)
                    (\<lambda>signature. Inr (ucast len, signature, zero_private_key))))
                else Inr (signature_length, signature, sk))
         else Inr (signature_length, signature, sk))"

section \<open>iost_hash_bytes\<close>

text \<open>\<open>in_bytes\<close> and \<open>hash_out\<close> may be the same memory: the input is read before the digest
  is moved.  The result is the length of the digest and the array behind \<open>hash_out\<close>.\<close>

definition iost_hash_bytes ::
  "'h crypto \<Rightarrow> u8 list \<Rightarrow> u16 \<Rightarrow> u8 list \<Rightarrow> exn + u16 \<times> u8 list" where
  "iost_hash_bytes C in_bytes in_length hash_out =
     (let hash_length = 0; hash_buffer = replicate ED25519_KEY_SIZE 0
      in bindE (sha3_init C 256) (\<lambda>(r, sha3).
           if r \<noteq> 0 then
             bindE (buf_read in_bytes 0 (unat in_length)) (\<lambda>input.
             bindE (hash_update C sha3 input) (\<lambda>(r, sha3).
               if r = 0 then
                 bindE (hash_last C sha3) (\<lambda>(len, digest).
                 bindE (buf_write hash_buffer 0 digest) (\<lambda>hash_buffer.
                   let hash_length = (ucast len :: u16)
                   in bindE (buf_read hash_buffer 0 (unat hash_length)) (\<lambda>out.
                      bindE (buf_write hash_out 0 out) (\<lambda>hash_out.
                      Inr (hash_length, hash_out)))))
               else Inr (hash_length, hash_out)))
           else Inr (hash_length, hash_out)))"

section \<open>iost_extract_bytes_from_public_key\<close>

text \<open>The loop \<open>for (i = 0; i < ED25519_KEY_SIZE; i++)\<close>.\<close>

function extract_loop :: "nat \<Rightarrow> u8 list \<Rightarrow> u8 list \<Rightarrow> exn + u8 list" where
  "extract_loop i w bytes_out =
     (if i < ED25519_KEY_SIZE then
        if ED25519_KEY_SIZE * 2 - i < length w \<and> i < length bytes_out
        then extract_loop (Suc i) w (bytes_out[i := w ! (ED25519_KEY_SIZE * 2 - i)])
        else Inl Fault
      else Inr bytes_out)"
  by pat_completeness auto
termination
  by (relation "measure (\<lambda>(i, w, b). ED25519_KEY_SIZE - i)") auto

declare extract_loop.simps [simp del]

text \<open>The bytes and the key length stored through \<open>key_length\<close>.\<close>

definition iost_extract_bytes_from_public_key ::
  "cx_ecfp_public_key \<Rightarrow> u8 list \<Rightarrow> exn + u8 list \<times> u16" where
  "iost_extract_bytes_from_public_key public_key bytes_out =
     bindE (extract_loop 0 (W public_key) bytes_out) (\<lambda>bytes_out.
       let bytes_out = (if W public_key ! ED25519_KEY_SIZE AND 1 = 1
                        then bytes_out[ED25519_KEY_SIZE - 1 := bytes_out ! (ED25519_KEY_SIZE - 1) OR 0x80]
                        else bytes_out)
       in Inr (bytes_out, of_nat ED25519_KEY_SIZE))"

section \<open>The encoding of public keys\<close>

lemma extract_loop_spec:
  "i \<le> 32 \<Longrightarrow> 65 \<le> length w \<Longrightarrow> 32 \<le> length out \<Longrightarrow>
    extract_loop i w out = Inr (take i out @ map (\<lambda>j. w ! (64 - j)) [i..<32] @ drop 32 out)"
proof (induction "32 - i" arbitrary: i out)
  case 0
  then have "i = 32" by simp
  with 0 show ?case by (subst extract_loop.simps) (simp add: ED25519_KEY_SIZE_def)
next
  case (Suc k)
  then have i: "i < 32" by simp
  let ?o = "out[i := w ! (64 - i)]"
  have "64 - i < length w" using Suc.prems by simp
  then have "extract_loop i w out = extract_loop (Suc i) w ?o"
    using i Suc.prems by (subst extract_loop.simps) (simp add: ED25519_KEY_SIZE_def)
  also have "\<dots> = Inr (take (Suc i) ?o @ map (\<lambda>j. w ! (64 - j)) [Suc i..<32] @ drop 32 ?o)"
    using Suc i by (intro Suc.hyps(1)) simp_all
  finally show ?case
    using i Suc.prems by (simp add: take_Suc_conv_app_nth upt_conv_Cons [of i])
qed

lemma odd_last_byte: "xs \<noteq> [] \<Longrightarrow> be_value xs mod 2 = unat (last xs) mod 2"
proof (induction xs)
  case (Cons x xs)
  show ?case
  proof (cases xs)
    case Nil
    then show ?thesis by simp
  next
    case tl: (Cons y ys)
    have "(256::nat) ^ length xs = 256 ^ length ys * 128 * 2" by (simp add: tl)
    then have "unat x * 256 ^ length xs + be_value xs = be_value xs + unat x * (256 ^ length ys * 128) * 2"
      by (simp only: ac_simps)
    then have "be_value (x # xs) mod 2 = be_value xs mod 2" by (simp only: be_value.simps mod_mult_self1)
    then show ?thesis using tl Cons.IH by simp
  qed
qed simp

lemma and_1_odd: "(b AND 1 = 1) = (unat b mod 2 = 1)" for b :: u8
proof -
  have "unat (b AND 1) = unat b mod 2"
    by (simp add: and_one_eq unat_mod)
  then show ?thesis by (metis unsigned_1 word_unat_eq_iff)
qed

lemma or_0x80: "unat b < 128 \<Longrightarrow> unat (b OR 0x80) = unat b + 128" for b :: u8
proof -
  assume "unat b < 128"
  then have "push_bit 7 1 OR unat b = 1 * 2 ^ 7 + unat b" by (intro nat_or_shifted) simp
  then show ?thesis by (simp add: unsigned_or_eq or.commute)
qed

text \<open>
Property C32: the bytes extracted from an uncompressed point \<open>04 || X || Y\<close> are the
Ed25519 encoding of RFC 8032: the coordinate \<open>Y\<close> in little-endian order, with the parity of
\<open>X\<close> in the top bit.
\<close>

theorem extract_is_ed25519_encoding:
  assumes "W pk = 4 # X @ Y" and "length X = 32" "length Y = 32" and "be_value Y < 2 ^ 255"
    and "length out = 32"
  shows "\<exists>bytes. iost_extract_bytes_from_public_key pk out = Inr (bytes, 32) \<and> length bytes = 32
    \<and> le_value bytes = be_value Y + be_value X mod 2 * 2 ^ 255"
proof -
  have "map (\<lambda>j. W pk ! (64 - j)) [0..<32] = rev Y"
  proof (rule nth_equalityI)
    fix j assume "j < length (map (\<lambda>j. W pk ! (64 - j)) [0..<32])"
    then have j: "j < 32" by simp
    then have "W pk ! (64 - j) = (4 # X @ Y) ! Suc (length X + (31 - j))"
      using assms(1,2) by simp
    also have "\<dots> = Y ! (31 - j)" by (simp only: nth_Cons_Suc nth_append_length_plus)
    finally show "map (\<lambda>j. W pk ! (64 - j)) [0..<32] ! j = rev Y ! j"
      using j assms(3) by (simp add: rev_nth)
  qed (use assms in simp)
  then have loop: "extract_loop 0 (W pk) out = Inr (rev Y)"
    using extract_loop_spec [of 0 "W pk" out] assms by simp
  obtain y ys where Y: "Y = y # ys" "length ys = 31" using assms(3) by (cases Y) auto
  have "unat y * 256 ^ 31 < 128 * 256 ^ 31"
    using assms(4) by (simp add: Y)
  then have y: "unat y < 128" by simp
  have x: "X \<noteq> []" using assms(2) by auto
  have "W pk ! 32 = last X" using assms(1,2) x by (simp add: nth_append last_conv_nth)
  then have parity: "(W pk ! 32 AND 1 = 1) = (be_value X mod 2 = 1)"
    by (simp add: and_1_odd odd_last_byte [OF x])
  have upd: "(rev Y)[31 := rev Y ! 31 OR 0x80] = rev ((y OR 0x80) # ys)"
    using Y by (simp add: list_update_append nth_append)
  show ?thesis
  proof (cases "be_value X mod 2 = 1")
    case True
    then have "iost_extract_bytes_from_public_key pk out = Inr (rev ((y OR 0x80) # ys), 32)"
      using upd by (simp add: iost_extract_bytes_from_public_key_def loop parity ED25519_KEY_SIZE_def)
    then show ?thesis using Y y True by (simp add: le_value_def or_0x80)
  next
    case False
    then have "be_value X mod 2 = 0" by simp
    moreover from False have "iost_extract_bytes_from_public_key pk out = Inr (rev Y, 32)"
      by (simp add: iost_extract_bytes_from_public_key_def loop parity ED25519_KEY_SIZE_def)
    ultimately show ?thesis using assms(3) by (simp add: le_value_def)
  qed
qed

theorem extract_is_ed25519_encoding_witness:
  "\<exists>bytes. iost_extract_bytes_from_public_key
      \<lparr>pk_curve = 0x41, W_len = 65, W = 4 # (replicate 31 0 @ [3]) @ (replicate 31 0 @ [1])\<rparr> (replicate 32 0)
      = Inr (bytes, 32) \<and> le_value bytes = 1 + 2 ^ 255"
proof -
  have "be_value (replicate 31 0 @ [1]) = 1" "be_value (replicate 31 0 @ [3]) = 3"
    by (simp_all add: be_value_append)
  then show ?thesis
    using extract_is_ed25519_encoding [of "\<lparr>pk_curve = 0x41, W_len = 65,
        W = 4 # (replicate 31 0 @ [3]) @ (replicate 31 0 @ [1])\<rparr>" "replicate 31 0 @ [3]"
        "replicate 31 0 @ [1]" "replicate 32 0"]
    by auto
qed

section \<open>The services\<close>

text \<open>
  What the documentation of the system calls says and the application relies on: they
  stay inside the objects they are given, a node is 32 bytes, a signature 64 bytes and a
  digest 32 bytes long.  They may throw.
\<close>

definition crypto_ok :: "'h crypto \<Rightarrow> bool" where
  "crypto_ok C \<longleftrightarrow>
     (\<forall>path. safe (\<lambda>key. length key = 32) (derive_node C path))
   \<and> (\<forall>key sk. safe (\<lambda>_. True) (init_private_key C key sk))
   \<and> (\<forall>pk. length (W pk) = 65 \<longrightarrow> safe (\<lambda>(r, pk). length (W pk) = 65) (init_public_key C pk))
   \<and> (\<forall>pk sk. length (W pk) = 65 \<longrightarrow> safe (\<lambda>(r, pk, sk). length (W pk) = 65) (generate_pair C pk sk))
   \<and> (\<forall>sk m. safe (\<lambda>(n, sig). n = 64 \<and> length sig = 64) (eddsa_sign C sk m))
   \<and> (\<forall>n. safe (\<lambda>_. True) (sha3_init C n)) \<and> (\<forall>h b. safe (\<lambda>_. True) (hash_update C h b))
   \<and> (\<forall>h. safe (\<lambda>(n, dig). n = 32 \<and> length dig = 32) (hash_last C h))"

text \<open>Services that satisfy it, for the examples: keys are derived from the path's length, a
  signature repeats the length of the message, a digest is the last byte absorbed.\<close>

definition sample_crypto :: "u8 crypto" where
  "sample_crypto =
     \<lparr>derive_node = (\<lambda>path. Inr (replicate 32 (of_nat (length path)))),
      init_private_key = (\<lambda>key sk. Inr (32, \<lparr>sk_curve = CX_CURVE_Ed25519, d_len = 32, d = key\<rparr>)),
      init_public_key = (\<lambda>pk. Inr (0, zero_public_key\<lparr>pk_curve := CX_CURVE_Ed25519\<rparr>)),
      generate_pair = (\<lambda>pk sk. Inr (0, pk\<lparr>W_len := 65, W := 4 # take 32 (d sk @ replicate 32 0)
        @ (0 # replicate 31 7)\<rparr>, sk)),
      eddsa_sign = (\<lambda>sk m. Inr (64, replicate 64 (of_nat (length m)))),
      sha3_init = (\<lambda>n. Inr (1, 0)),
      hash_update = (\<lambda>h b. Inr (0, last (h # b))),
      hash_last = (\<lambda>h. Inr (32, replicate 32 h))\<rparr>"

lemma sample_crypto_ok: "crypto_ok sample_crypto"
  by (auto simp: crypto_ok_def sample_crypto_def zero_public_key_def)

lemma iost_derive_keypair_safe:
  assumes C: "crypto_ok C" and n: "unat n \<le> length path" and pk: "\<And>k. pk = Some k \<Longrightarrow> length (W k) = 65"
  shows "safe (\<lambda>kp. length (W (kp_public kp)) = 65) (iost_derive_keypair C path n sk pk)"
proof -
  define ppk where "ppk = (case pk of Some k \<Rightarrow> k | None \<Rightarrow> zero_public_key)"
  have p: "length (W ppk) = 65" using pk by (auto simp: ppk_def zero_public_key_def split: option.split)
  have z: "length (W zero_public_key) = 65" by (simp add: zero_public_key_def)
  note c = C [unfolded crypto_ok_def]
  show ?thesis
    unfolding iost_derive_keypair_def Let_def ppk_def [symmetric]
  proof (rule safe_bindE [OF safe_buf_read], goal_cases)
    case (2 p)
    show ?case
    proof (rule safe_bindE [of "\<lambda>key. length key = 32"], goal_cases)
      case (2 key)
      show ?case
      proof (rule safe_bindE [OF safe_buf_write], goal_cases)
        case (2 key')
        show ?case
          by (rule safe_bindE [of "\<lambda>_. True"])
            (use c p z in \<open>auto intro!: safe_bindE [of "\<lambda>(r, pk). length (W pk) = 65"]
              safe_bindE [of "\<lambda>(r, pk, sk). length (W pk) = 65"] split: if_splits\<close>)
      qed (use 2 in \<open>simp add: ED25519_KEY_SIZE_def\<close>)
    qed (use c in blast)
  qed (use n in simp)
qed

lemma iost_extract_safe:
  assumes "length (W pk) = 65" "length out = 32"
  shows "\<exists>bytes. iost_extract_bytes_from_public_key pk out = Inr (bytes, 32) \<and> length bytes = 32"
  using assms extract_loop_spec [of 0 "W pk" out]
  by (simp add: iost_extract_bytes_from_public_key_def ED25519_KEY_SIZE_def Let_def)

lemma iost_sign_safe:
  assumes C: "crypto_ok C" and "unat n \<le> length path" "unat len \<le> length h" "64 \<le> length sig"
  shows "safe (\<lambda>(k, sig', sk). (k = 0 \<or> k = 64) \<and> length sig' = length sig) (iost_sign C path n h len sig)"
proof -
  note c = C [unfolded crypto_ok_def]
  have s: "safe (\<lambda>(n, sig). n = 64 \<and> length sig = 64) (eddsa_sign C sk m)" for sk m using c by blast
  show ?thesis
    unfolding iost_sign_def Let_def using assms(2-)
    by (auto simp: buf_read_def buf_write_def ED25519_KEY_SIZE_def
        intro!: safe_bindE [OF iost_derive_keypair_safe [OF C]] safe_bindE [OF s])
qed

lemma iost_hash_bytes_safe:
  assumes C: "crypto_ok C" and "unat n \<le> length b" "32 \<le> length out"
  shows "safe (\<lambda>(k, out'). (k = 0 \<and> out' = out \<or> k = 32 \<and> drop 32 out' = drop 32 out)
      \<and> length out' = length out) (iost_hash_bytes C b n out)"
proof -
  note c = C [unfolded crypto_ok_def]
  have s: "safe (\<lambda>(n, dig). n = 32 \<and> length dig = 32) (hash_last C h)"
    "safe (\<lambda>_. True) (sha3_init C k)" "safe (\<lambda>_. True) (hash_update C h m)" for h k m
    using c by blast+
  show ?thesis
    unfolding iost_hash_bytes_def Let_def using assms(2-)
    by (auto simp: buf_read_def buf_write_def ED25519_KEY_SIZE_def
        intro!: safe_bindE [OF s(1)] safe_bindE [OF s(2)] safe_bindE [OF s(3)])
qed

section \<open>Keys on the stack\<close>



text \<open>
\<open>iost_sign\<close> returns a nonzero length only with a signature over exactly the
first \<open>hash_length\<close> bytes under the key of the path, and then the secret key is wiped; for
the hash length zero, and when the key cannot be derived, it returns zero and leaves the
signature array alone.
\<close>

theorem iost_sign_signs:
  assumes "iost_sign C path n h len sig = Inr (k, sig', sk)"
  shows "if len = 0 then k = 0 \<and> sig' = sig
    else \<exists>kp. iost_derive_keypair C path n (Some zero_private_key) None = Inr kp
      \<and> (if kp_result kp = 0
         then \<exists>m s. eddsa_sign C (kp_secret kp) (take (unat len) h) = Inr (m, s) \<and> k = ucast m
           \<and> sig' = s @ drop (length s) sig \<and> sk = zero_private_key
         else k = 0 \<and> sig' = sig)"
  using assms unfolding iost_sign_def Let_def
  by (auto simp: bindE_eq_Inr buf_read_def buf_write_def split: if_splits)

theorem iost_sign_signs_witness:
  "\<exists>k sig' sk. iost_sign sample_crypto [1] 1 [5, 6, 7] 2 (replicate 64 0) = Inr (k, sig', sk)
    \<and> k = 64 \<and> sig' = replicate 64 2 \<and> sk = zero_private_key"
proof -
  have "iost_sign sample_crypto [1] 1 [5, 6, 7] 2 (replicate 64 0) = Inr (64, replicate 64 2, zero_private_key)"
    by (simp add: iost_sign_def iost_derive_keypair_def sample_crypto_def buf_read_def buf_write_def
        ED25519_KEY_SIZE_def Let_def word_sless_alt)
  with iost_sign_signs [OF this] show ?thesis by blast
qed

end
