(* ===== verification/Buttons.thy ===== *)
theory Buttons
  imports Ux_Menu
begin

text \<open>
  The button driver of \<open>src/sdk/nanos-secure-sdk/src/os_io_seproxyhal.c\<close>: the state
  \<open>G_ux_os\<close> and \<open>io_seproxyhal_button_push\<close>, which turns the buttons that are down (1 left,
  2 right, 3 both) as the microcontroller reports them every 100 milliseconds into the
  masks the button handlers of the screens switch on.
\<close>

section \<open>The code\<close>

record button_state =
  ux_button_mask :: u32
  ux_button_same_mask_counter :: u32

definition BUTTON_FAST_THRESHOLD_CS :: u32 where [const_defs]: "BUTTON_FAST_THRESHOLD_CS = 8"
definition BUTTON_FAST_ACTION_CS :: u32 where [const_defs]: "BUTTON_FAST_ACTION_CS = 3"

definition io_seproxyhal_init_button :: button_state where
  "io_seproxyhal_init_button = \<lparr>ux_button_mask = 0, ux_button_same_mask_counter = 0\<rparr>"

text \<open>The new state and the mask passed to the callback, which is not null.\<close>

definition io_seproxyhal_button_push :: "u32 \<Rightarrow> button_state \<Rightarrow> button_state \<times> u32" where
  "io_seproxyhal_button_push new_button_mask G_ux_os =
     (let G_ux_os = (if new_button_mask = ux_button_mask G_ux_os
                     then G_ux_os\<lparr>ux_button_same_mask_counter := ux_button_same_mask_counter G_ux_os + 1\<rparr>
                     else G_ux_os);
          mask = ux_button_mask G_ux_os OR new_button_mask;
          counter = ux_button_same_mask_counter G_ux_os;
          (G_ux_os, mask) =
            (if new_button_mask = 0
             then (G_ux_os\<lparr>ux_button_mask := 0, ux_button_same_mask_counter := 0\<rparr>, mask OR BUTTON_EVT_RELEASED)
             else (G_ux_os\<lparr>ux_button_mask := mask\<rparr>, mask));
          G_ux_os = (if new_button_mask \<noteq> ux_button_mask G_ux_os
                     then G_ux_os\<lparr>ux_button_same_mask_counter := 0\<rparr> else G_ux_os);
          mask =
            (if counter \<ge> BUTTON_FAST_THRESHOLD_CS then
               (if counter mod BUTTON_FAST_ACTION_CS = 0 then mask OR BUTTON_EVT_FAST else mask)
                 AND NOT BUTTON_EVT_RELEASED
             else mask)
      in (G_ux_os, mask))"

section \<open>Sequences of reports\<close>

text \<open>The masks the callback is called with, as long as no handler redraws the screen.\<close>

fun button_reports :: "u32 list \<Rightarrow> button_state \<Rightarrow> u32 list \<times> button_state" where
  "button_reports [] g = ([], g)"
| "button_reports (b # bs) g =
     (let (g, m) = io_seproxyhal_button_push b g; (ms, g) = button_reports bs g in (m # ms, g))"

lemma button_reports_append:
  "button_reports (xs @ ys) g =
     (let (ms, g) = button_reports xs g; (ns, g) = button_reports ys g in (ms @ ns, g))"
  by (induction xs arbitrary: g) (auto simp: Let_def split: prod.splits)

text \<open>The mask of the report number \<open>k\<close> of a button that is held down.\<close>

definition held_mask :: "u32 \<Rightarrow> nat \<Rightarrow> u32" where
  "held_mask b k = (if 8 \<le> k \<and> k mod 3 = 0 then b OR BUTTON_EVT_FAST else b)"

lemma push_first:
  "b \<noteq> 0 \<Longrightarrow> io_seproxyhal_button_push b io_seproxyhal_init_button
    = (\<lparr>ux_button_mask = b, ux_button_same_mask_counter = 0\<rparr>, b)"
  by (simp add: io_seproxyhal_button_push_def io_seproxyhal_init_button_def const_defs Let_def)

lemma buttons_no_event: "b = 1 \<or> b = 2 \<or> b = 3 \<Longrightarrow> b \<noteq> (0 :: u32) \<and> b AND NOT BUTTON_EVT_RELEASED = b
    \<and> (b OR BUTTON_EVT_FAST) AND NOT BUTTON_EVT_RELEASED = (b OR BUTTON_EVT_FAST)
    \<and> (b OR BUTTON_EVT_RELEASED) AND NOT BUTTON_EVT_RELEASED = b
    \<and> ((b OR BUTTON_EVT_RELEASED) OR BUTTON_EVT_FAST) AND NOT BUTTON_EVT_RELEASED = (b OR BUTTON_EVT_FAST)"
  by (auto simp: const_defs)

lemma fast_condition:
  assumes "k < 2 ^ 32"
  shows "((of_nat k :: u32) mod 3 = 0) = (k mod 3 = 0)" "(8 \<le> (of_nat k :: u32)) = (8 \<le> k)"
proof -
  have u: "unat (of_nat k :: u32) = k" using assms by (simp add: unat_of_nat)
  show "((of_nat k :: u32) mod 3 = 0) = (k mod 3 = 0)"
    by (simp add: word_unat_eq_iff unat_mod u)
  show "(8 \<le> (of_nat k :: u32)) = (8 \<le> k)"
    by (simp add: word_le_nat_alt u)
qed

lemma push_held:
  assumes b: "b = 1 \<or> b = 2 \<or> b = 3" and k: "Suc k < 2 ^ 32"
  shows "io_seproxyhal_button_push b \<lparr>ux_button_mask = b, ux_button_same_mask_counter = of_nat k\<rparr>
    = (\<lparr>ux_button_mask = b, ux_button_same_mask_counter = of_nat (Suc k)\<rparr>, held_mask b (Suc k))"
proof -
  note e = buttons_no_event [OF b] and c = fast_condition [OF k]
  have s: "of_nat k + 1 = (of_nat (Suc k) :: u32)" by simp
  show ?thesis
    unfolding io_seproxyhal_button_push_def held_mask_def Let_def button_state.simps s
      BUTTON_FAST_ACTION_CS_def BUTTON_FAST_THRESHOLD_CS_def c
    by (cases "8 \<le> Suc k"; cases "Suc k mod 3 = 0")
      (simp_all add: e c del: of_nat_Suc mod_eq_0_iff_dvd)
qed

lemma push_release:
  assumes b: "b = 1 \<or> b = 2 \<or> b = 3" and k: "k < 2 ^ 32"
  shows "io_seproxyhal_button_push 0 \<lparr>ux_button_mask = b, ux_button_same_mask_counter = of_nat k\<rparr>
    = (io_seproxyhal_init_button, if k < 8 then b OR BUTTON_EVT_RELEASED else held_mask b k)"
proof -
  note e = buttons_no_event [OF b] and c = fast_condition [OF k]
  show ?thesis
    unfolding io_seproxyhal_button_push_def held_mask_def Let_def button_state.simps
      BUTTON_FAST_ACTION_CS_def BUTTON_FAST_THRESHOLD_CS_def c io_seproxyhal_init_button_def
    by (cases "8 \<le> k"; cases "k mod 3 = 0") (simp_all add: e c del: mod_eq_0_iff_dvd)
qed

lemma reports_held:
  assumes b: "b = 1 \<or> b = 2 \<or> b = 3" and n: "n < 2 ^ 32"
  shows "button_reports (replicate (Suc n) b) io_seproxyhal_init_button
    = (map (held_mask b) [0..<Suc n], \<lparr>ux_button_mask = b, ux_button_same_mask_counter = of_nat n\<rparr>)"
  using n
proof (induction n)
  case 0
  then show ?case using push_first buttons_no_event [OF b] by (simp add: held_mask_def)
next
  case (Suc n)
  have r: "replicate (Suc (Suc n)) b = replicate (Suc n) b @ [b]" by (simp add: replicate_append_same)
  have "button_reports (replicate (Suc n) b) io_seproxyhal_init_button
      = (map (held_mask b) [0..<Suc n], \<lparr>ux_button_mask = b, ux_button_same_mask_counter = of_nat n\<rparr>)"
    using Suc by simp
  moreover have "button_reports [b] \<lparr>ux_button_mask = b, ux_button_same_mask_counter = of_nat n\<rparr>
      = ([held_mask b (Suc n)], \<lparr>ux_button_mask = b, ux_button_same_mask_counter = of_nat (Suc n)\<rparr>)"
    using push_held [OF b Suc.prems] by (simp del: of_nat_Suc)
  ultimately show ?case
    unfolding r button_reports_append by (simp del: of_nat_Suc replicate_Suc upt_Suc button_reports.simps, simp)
qed

text \<open>
A button that is held down for \<open>n + 1\<close> reports and then released gives its
mask for every report, with the fast bit on every third report from the ninth on; the
release is reported with the released bit after at most eight reports, and after a longer
push the released bit is discarded, so that a long push never confirms; afterwards the
driver is in its initial state.
\<close>

theorem button_push_masks:
  assumes "b = 1 \<or> b = 2 \<or> b = 3" and "n < 2 ^ 32"
  shows "button_reports (replicate (Suc n) b @ [0]) io_seproxyhal_init_button
    = (map (held_mask b) [0..<Suc n] @ [if n < 8 then b OR BUTTON_EVT_RELEASED else held_mask b n],
       io_seproxyhal_init_button)"
  unfolding button_reports_append
  using reports_held [OF assms] push_release [OF assms]
  by (simp del: replicate_Suc upt_Suc)

theorem button_push_masks_witness:
  "button_reports [2, 2, 0] io_seproxyhal_init_button
    = ([2, 2, 2 OR BUTTON_EVT_RELEASED], io_seproxyhal_init_button)"
  using button_push_masks [of 2 1] by (simp add: held_mask_def)

end
