(* ===== verification/Utils.thy ===== *)
theory Utils
  imports Prelude
begin

text \<open>
  The helpers of \<open>src/src/utils.c\<close>: hexadecimal output and the casts between
  character and byte pointers. \<open>callback_os_exit\<close> ends the application and is part of
  the machine of theory \<open>App_Main\<close>.
\<close>

section \<open>Casts between char and uint8_t\<close>

definition chars_2_bytes :: "string \<Rightarrow> u8 list" where
  "chars_2_bytes chars = map of_char chars"

definition bytes_2_chars :: "u8 list \<Rightarrow> string" where
  "bytes_2_chars bytes = map (\<lambda>b. char_of (unat b)) bytes"

lemma length_chars_2_bytes [simp]: "length (chars_2_bytes cs) = length cs"
  by (simp add: chars_2_bytes_def)

lemma length_bytes_2_chars [simp]: "length (bytes_2_chars bs) = length bs"
  by (simp add: bytes_2_chars_def)

lemma unat_of_char [simp]: "unat (of_char c :: u8) = of_char c"
proof -
  have "(of_char c :: u8) = of_nat (of_char c)" by (simp add: of_nat_of_char)
  then show ?thesis by (simp add: unat_of_nat del: of_nat_of_char)
qed

lemma of_char_char_of_unat [simp]: "(of_char (char_of (unat b)) :: u8) = b"
proof -
  have "(of_char (char_of (unat b)) :: u8) = of_nat (of_char (char_of (unat b)))"
    by (simp only: of_nat_of_char)
  also have "\<dots> = b" by (simp add: of_char_of)
  finally show ?thesis .
qed

lemma bytes_2_chars_2_bytes [simp]: "bytes_2_chars (chars_2_bytes cs) = cs"
  by (induction cs) (simp_all add: chars_2_bytes_def bytes_2_chars_def)

lemma chars_2_bytes_2_chars [simp]: "chars_2_bytes (bytes_2_chars bs) = bs"
  by (induction bs) (simp_all add: chars_2_bytes_def bytes_2_chars_def)

section \<open>bin2hex\<close>

definition hex :: string where
  "hex = ''0123456789abcdef''"

text \<open>The loop of \<open>bin2hex\<close>: two letters per byte, high nibble first, stored through the
  pointer \<open>dst\<close> (the rest of the array it points into).\<close>

function bin2hex_loop :: "u8 list \<Rightarrow> nat \<Rightarrow> nat \<Rightarrow> u8 list \<Rightarrow> exn + u8 list" where
  "bin2hex_loop data in_len i dst =
     (if i < in_len then
        if i < length data \<and> 2 * i + 1 < length dst then
          bin2hex_loop data in_len (Suc i)
            (dst[2 * i + 0 := of_char (hex ! unat (drop_bit 4 (data ! i) AND 0x0F)),
                 2 * i + 1 := of_char (hex ! unat (drop_bit 0 (data ! i) AND 0x0F))])
        else Inl Fault
      else Inr dst)"
  by pat_completeness auto
termination
  by (relation "measure (\<lambda>(d, n, i, b). n - i)") auto

declare bin2hex_loop.simps [simp del]

text \<open>Returns the number of letters and the array behind \<open>dst\<close>.\<close>

definition bin2hex :: "u8 list \<Rightarrow> nat \<Rightarrow> u8 list \<Rightarrow> exn + (nat \<times> u8 list)" where
  "bin2hex data in_len dst =
     (case bin2hex_loop data in_len 0 dst of
        Inl e \<Rightarrow> Inl e
      | Inr dst' \<Rightarrow> Inr (in_len * 2, dst'))"

section \<open>What bin2hex writes\<close>

definition hex_letters :: "u8 \<Rightarrow> u8 list" where
  "hex_letters b = [of_char (hex ! (unat b div 16)), of_char (hex ! (unat b mod 16))]"

definition hex_spec :: "u8 list \<Rightarrow> u8 list" where
  "hex_spec bs = concat (map hex_letters bs)"

lemma length_hex_spec [simp]: "length (hex_spec bs) = 2 * length bs"
  by (induction bs) (simp_all add: hex_spec_def hex_letters_def)

lemma high_nibble: "unat (drop_bit 4 (b :: u8)) mod 16 = unat b div 16"
proof -
  have "unat b div 16 < 16" using unat_u8_less [of b] by linarith
  then show ?thesis by (simp add: drop_bit_eq_div unat_div)
qed

lemma nibbles:
  "unat (drop_bit 4 (b :: u8) AND 0x0F) = unat b div 16" "unat (b AND 0x0F) = unat b mod 16"
proof -
  have m: "unat (x AND 0x0F) = unat x mod 16" for x :: u8
  proof -
    have "x AND 0x0F = take_bit 4 x" by (simp add: take_bit_eq_mask mask_eq_exp_minus_1)
    then show ?thesis by (simp add: unsigned_take_bit_eq take_bit_eq_mod unat_mod)
  qed
  show "unat (drop_bit 4 b AND 0x0F) = unat b div 16" by (simp only: m high_nibble)
  show "unat (b AND 0x0F) = unat b mod 16" by (rule m)
qed

lemma bin2hex_loop_spec:
  "i \<le> n \<Longrightarrow> n \<le> length data \<Longrightarrow> 2 * n \<le> length dst \<Longrightarrow>
    bin2hex_loop data n i dst
      = Inr (take (2 * i) dst @ hex_spec (slice i n data) @ drop (2 * n) dst)"
proof (induction "n - i" arbitrary: i dst)
  case 0
  then have "i = n" by simp
  then show ?case by (simp add: bin2hex_loop.simps [of data n n] hex_spec_def)
next
  case (Suc k)
  then have i: "i < n" by simp
  let ?w = "dst[2 * i := of_char (hex ! (unat (data ! i) div 16)),
                2 * i + 1 := of_char (hex ! (unat (data ! i) mod 16))]"
  have w: "take (2 * Suc i) ?w = take (2 * i) dst @ hex_letters (data ! i)"
    using i Suc.prems by (simp add: take_Suc_conv_app_nth hex_letters_def list_update_append)
  have "bin2hex_loop data n i dst = bin2hex_loop data n (Suc i) ?w"
    using i Suc.prems by (simp add: bin2hex_loop.simps [of data n i dst] nibbles(2) high_nibble)
  also have "\<dots> = Inr (take (2 * Suc i) ?w @ hex_spec (slice (Suc i) n data) @ drop (2 * n) ?w)"
    using Suc i by (intro Suc.hyps(1)) simp_all
  also have "drop (2 * n) ?w = drop (2 * n) dst" using i by simp
  finally show ?case
    using i Suc.prems w by (simp add: slice_step [of i n data] hex_spec_def)
qed

lemma bin2hex_spec:
  assumes "n \<le> length data" and "2 * n \<le> length dst"
  shows "bin2hex data n dst = Inr (2 * n, hex_spec (take n data) @ drop (2 * n) dst)"
  using bin2hex_loop_spec [of 0 n data dst] assms by (simp add: bin2hex_def slice_def)

lemma bin2hex_length: "bin2hex data n dst = Inr (k, dst') \<Longrightarrow> length dst' = length dst"
proof -
  have "bin2hex_loop data n i b = Inr b' \<Longrightarrow> length b' = length b" for i b b'
  proof (induction data n i b rule: bin2hex_loop.induct)
    case (1 data n i b)
    then show ?case
      by (subst (asm) (2) bin2hex_loop.simps) (auto split: if_splits)
  qed
  then show "bin2hex data n dst = Inr (k, dst') \<Longrightarrow> length dst' = length dst"
    by (auto simp: bin2hex_def split: sum.splits)
qed

text \<open>Reading the letters back.\<close>

definition unhex_letter :: "u8 \<Rightarrow> nat" where
  "unhex_letter c = length (takeWhile (\<lambda>h. of_char h \<noteq> c) hex)"

fun unhex :: "u8 list \<Rightarrow> u8 list" where
  "unhex (h # l # cs) = of_nat (16 * unhex_letter h + unhex_letter l) # unhex cs"
| "unhex _ = []"

lemma unhex_letter_hex: "d < 16 \<Longrightarrow> unhex_letter (of_char (hex ! d)) = d"
proof -
  have "\<forall>d \<in> set [0..<16]. unhex_letter (of_char (hex ! d)) = d" by code_simp
  then show "d < 16 \<Longrightarrow> unhex_letter (of_char (hex ! d)) = d" by simp
qed

lemma unhex_hex_spec: "unhex (hex_spec bs) = bs"
proof (induction bs)
  case Nil
  show ?case by (simp add: hex_spec_def)
next
  case (Cons b bs)
  have "unat b div 16 < 16" using unat_u8_less [of b] by linarith
  then have "16 * unhex_letter (of_char (hex ! (unat b div 16)))
      + unhex_letter (of_char (hex ! (unat b mod 16))) = unat b"
    by (simp add: unhex_letter_hex)
  with Cons show ?case by (simp add: hex_spec_def hex_letters_def)
qed

text \<open>
With room for two letters per byte, \<open>bin2hex\<close> writes exactly those letters
at the start of the destination, leaves the rest of it alone, returns their number, and
the letters read back give the input bytes.
\<close>

theorem bin2hex_roundtrip:
  assumes "in_len \<le> length data" and "2 * in_len \<le> length dst"
  shows "\<exists>dst'. bin2hex data in_len dst = Inr (2 * in_len, dst')
    \<and> length dst' = length dst \<and> drop (2 * in_len) dst' = drop (2 * in_len) dst
    \<and> unhex (take (2 * in_len) dst') = take in_len data"
  using bin2hex_spec [OF assms] assms by (simp add: unhex_hex_spec)

theorem bin2hex_roundtrip_witness:
  "\<exists>dst'. bin2hex [0x0A, 0xF1] 2 [0, 0, 0, 0, 7] = Inr (4, dst')
    \<and> length dst' = 5 \<and> drop 4 dst' = [7] \<and> unhex (take 4 dst') = [0x0A, 0xF1]"
  using bin2hex_roundtrip [of 2 "[0x0A, 0xF1]" "[0, 0, 0, 0, 7]"] by (simp add: numeral_eq_Suc)

end
