(* ===== verification/Digits.thy ===== *)
theory Digits
  imports Prelude
begin

text \<open>
  Positional notation, the specification shared by the three routines that print a
  number digit by digit (base 58, the decimal and hexadecimal \<open>printf\<close> conversions,
  the 128- and 256-bit \<open>tostring\<close>): the digits of a number without leading zeros,
  its digits in a fixed width, their value, and how the two notations differ.
\<close>

fun base_digits :: "nat \<Rightarrow> nat \<Rightarrow> nat list" where
  "base_digits L n = (if n = 0 \<or> L < 2 then [] else base_digits L (n div L) @ [n mod L])"

declare base_digits.simps [simp del]

fun width_digits :: "nat \<Rightarrow> nat \<Rightarrow> nat \<Rightarrow> nat list" where
  "width_digits L 0 n = []"
| "width_digits L (Suc k) n = width_digits L k (n div L) @ [n mod L]"

definition digits_value :: "nat \<Rightarrow> nat list \<Rightarrow> nat" where
  "digits_value L ds = foldl (\<lambda>v d. v * L + d) 0 ds"

lemma digits_value_Nil [simp]: "digits_value L [] = 0"
  by (simp add: digits_value_def)

lemma digits_value_snoc [simp]: "digits_value L (ds @ [d]) = digits_value L ds * L + d"
  by (simp add: digits_value_def)

lemma digits_value_append:
  "digits_value L (xs @ ys) = digits_value L xs * L ^ length ys + digits_value L ys"
proof (induction ys rule: rev_induct)
  case Nil
  show ?case by simp
next
  case (snoc y ys)
  have "digits_value L (xs @ ys @ [y]) = digits_value L ((xs @ ys) @ [y])" by simp
  also have "\<dots> = digits_value L (xs @ ys) * L + y" by (rule digits_value_snoc)
  finally show ?case using snoc.IH by (simp add: algebra_simps)
qed

lemma digits_value_Cons: "digits_value L (d # ds) = d * L ^ length ds + digits_value L ds"
  using digits_value_append [of L "[d]" ds] digits_value_snoc [of L "[]" d] by simp

lemma base_digits_0 [simp]: "base_digits L 0 = []"
  by (simp add: base_digits.simps)

lemma base_digits_step: "2 \<le> L \<Longrightarrow> 0 < n \<Longrightarrow> base_digits L n = base_digits L (n div L) @ [n mod L]"
  by (simp add: base_digits.simps [of L n])

lemma digits_value_base_digits: "2 \<le> L \<Longrightarrow> digits_value L (base_digits L n) = n"
proof (induction L n rule: base_digits.induct)
  case (1 L n)
  show ?case
  proof (cases "n = 0")
    case False
    with 1 show ?thesis by (simp add: base_digits_step)
  qed simp
qed

lemma base_digits_less: "2 \<le> L \<Longrightarrow> d \<in> set (base_digits L n) \<Longrightarrow> d < L"
proof (induction L n rule: base_digits.induct)
  case (1 L n)
  show ?case
  proof (cases "n = 0")
    case False
    with 1 show ?thesis by (auto simp: base_digits_step)
  qed (use 1 in simp)
qed

lemma base_digits_Nil_iff: "2 \<le> L \<Longrightarrow> base_digits L n = [] \<longleftrightarrow> n = 0"
  by (cases "n = 0") (simp_all add: base_digits_step)

lemma hd_base_digits: "2 \<le> L \<Longrightarrow> 0 < n \<Longrightarrow> hd (base_digits L n) \<noteq> 0"
proof (induction L n rule: base_digits.induct)
  case (1 L n)
  show ?case
  proof (cases "n div L = 0")
    case True
    then have "n mod L = n" using mult_div_mod_eq [of L n] by simp
    with True 1 show ?thesis by (simp add: base_digits_step)
  next
    case False
    with 1 show ?thesis by (auto simp: base_digits_step [of L n] base_digits_Nil_iff)
  qed
qed

lemma base_digits_length_le: "2 \<le> L \<Longrightarrow> n < L ^ k \<Longrightarrow> length (base_digits L n) \<le> k"
proof (induction k arbitrary: n)
  case 0
  then show ?case by simp
next
  case (Suc k)
  then have "n div L < L ^ k"
    by (simp add: div_less_iff_less_mult mult.commute)
  with Suc show ?case by (cases "n = 0") (auto simp: base_digits_step)
qed

lemma digits_value_less: "\<forall>d \<in> set ds. d < L \<Longrightarrow> digits_value L ds < L ^ length ds"
proof (induction ds rule: rev_induct)
  case Nil
  show ?case by simp
next
  case (snoc d ds)
  then have "digits_value L ds + 1 \<le> L ^ length ds" and "d < L" by simp_all
  then have "(digits_value L ds + 1) * L \<le> L ^ length ds * L"
    by (intro mult_le_mono1)
  with \<open>d < L\<close> show ?case by (simp add: algebra_simps)
qed

text \<open>Digits without leading zeros are determined by their value.\<close>

lemma base_digits_digits_value:
  "2 \<le> L \<Longrightarrow> \<forall>d \<in> set ds. d < L \<Longrightarrow> ds = [] \<or> hd ds \<noteq> 0 \<Longrightarrow>
     base_digits L (digits_value L ds) = ds"
proof (induction ds rule: rev_induct)
  case Nil
  show ?case by simp
next
  case (snoc d ds)
  have d: "d < L" using snoc.prems by simp
  have pos: "0 < digits_value L (ds @ [d])"
  proof (cases ds)
    case Nil
    then show ?thesis using snoc.prems by (simp add: digits_value_def)
  next
    case (Cons e es)
    then have "0 < digits_value L ds"
      using snoc.prems by (simp add: digits_value_Cons)
    then show ?thesis using snoc.prems by simp
  qed
  have "base_digits L (digits_value L ds) = ds"
    using snoc by (cases ds) auto
  then show ?case
    using pos d snoc.prems(1) by (simp add: base_digits_step)
qed

text \<open>Fixed width: leading zeros in front of the digits.\<close>

lemma length_width_digits [simp]: "length (width_digits L k n) = k"
  by (induction k arbitrary: n) simp_all

lemma width_digits_less: "0 < L \<Longrightarrow> d \<in> set (width_digits L k n) \<Longrightarrow> d < L"
  by (induction k arbitrary: n) auto

lemma width_digits_value: "0 < L \<Longrightarrow> digits_value L (width_digits L k n) = n mod L ^ k"
proof (induction k arbitrary: n)
  case 0
  show ?case by simp
next
  case (Suc k)
  have "n mod (L * L ^ k) = L * (n div L mod L ^ k) + n mod L"
    by (rule mod_mult2_eq)
  with Suc show ?case by (simp add: mult.commute)
qed

lemma dropWhile_width_digits:
  "2 \<le> L \<Longrightarrow> n < L ^ k \<Longrightarrow> dropWhile (\<lambda>d. d = 0) (width_digits L k n) = base_digits L n"
proof -
  assume L: "2 \<le> L" and n: "n < L ^ k"
  let ?w = "width_digits L k n" and ?z = "\<lambda>d. d = (0::nat)"
  have split: "takeWhile ?z ?w @ dropWhile ?z ?w = ?w" by simp
  have "digits_value L (takeWhile ?z ?w) = 0"
  proof -
    have "takeWhile ?z ?w = replicate (length (takeWhile ?z ?w)) 0"
      by (rule replicate_eqI [symmetric, THEN sym]) (auto dest: set_takeWhileD)
    moreover have "digits_value L (replicate j 0) = 0" for j
      by (induction j) (simp_all add: digits_value_Cons)
    ultimately show ?thesis by metis
  qed
  then have "digits_value L (dropWhile ?z ?w) = n"
    using digits_value_append [of L "takeWhile ?z ?w" "dropWhile ?z ?w"]
      width_digits_value [of L k n] L n by simp
  moreover have "\<forall>d \<in> set (dropWhile ?z ?w). d < L"
  proof
    fix d assume "d \<in> set (dropWhile ?z ?w)"
    then have "d \<in> set ?w" by (rule set_dropWhileD)
    with L show "d < L" by (intro width_digits_less [of L d k n]) simp_all
  qed
  moreover have "dropWhile ?z ?w = [] \<or> hd (dropWhile ?z ?w) \<noteq> 0"
    using hd_dropWhile [of ?z ?w] by blast
  ultimately show "dropWhile ?z ?w = base_digits L n"
    using base_digits_digits_value [OF L, of "dropWhile ?z ?w"] by simp
qed

text \<open>Bytes are digits in base 256.\<close>

lemma digits_value_256: "digits_value 256 (map unat bs) = be_value bs"
  by (induction bs) (simp_all add: digits_value_Cons)

lemma base_digits_256_be_value:
  "bs = [] \<or> hd bs \<noteq> 0 \<Longrightarrow> base_digits 256 (be_value bs) = map unat bs"
  using base_digits_digits_value [of 256 "map unat bs", unfolded digits_value_256]
  by (cases bs) (auto simp: unat_eq_0)


section \<open>The number of digits\<close>

lemma digits_length_upper: "2 \<le> L \<Longrightarrow> n < L ^ length (base_digits L n)"
  using digits_value_less [of "base_digits L n" L] base_digits_less [of L]
  by (auto simp: digits_value_base_digits)

lemma digits_length_lower:
  "2 \<le> L \<Longrightarrow> 0 < n \<Longrightarrow> L ^ (length (base_digits L n) - 1) \<le> n"
proof (induction L n rule: base_digits.induct)
  case (1 L n)
  show ?case
  proof (cases "n div L = 0")
    case True
    with 1 show ?thesis by (simp add: base_digits_step)
  next
    case False
    with 1 have "L ^ (length (base_digits L (n div L)) - 1) \<le> n div L" by simp
    then have "L ^ (length (base_digits L (n div L)) - 1) * L \<le> n div L * L" by (rule mult_le_mono1)
    also have "\<dots> \<le> n" by simp
    finally have "L ^ Suc (length (base_digits L (n div L)) - 1) \<le> n" by (simp add: mult.commute)
    moreover have "0 < length (base_digits L (n div L))"
      using False 1 by (simp add: base_digits_Nil_iff)
    ultimately have "L ^ length (base_digits L (n div L)) \<le> n" by (simp only: Suc_pred' [symmetric] Suc_diff_1)
    then show ?thesis using 1 by (simp add: base_digits_step [of L n])
  qed
qed

lemma digits_length_unique:
  assumes L: "2 \<le> L" and k: "L ^ k \<le> n" "n < L ^ Suc k"
  shows "length (base_digits L n) = Suc k"
proof -
  have n: "0 < n" using k(1) L by (cases n) auto
  have "L ^ (length (base_digits L n) - 1) < L ^ Suc k"
    using digits_length_lower [OF L n] k(2) by linarith
  then have "length (base_digits L n) - 1 < Suc k"
    by (rule power_less_imp_less_exp [rotated]) (use L in simp)
  moreover have "L ^ k < L ^ length (base_digits L n)"
    using digits_length_upper [OF L, of n] k(1) by linarith
  then have "k < length (base_digits L n)"
    by (rule power_less_imp_less_exp [rotated]) (use L in simp)
  ultimately show ?thesis by linarith
qed

lemma digits_length_shift:
  assumes L: "2 \<le> L" and h: "0 < h" and l: "l < L ^ k"
  shows "length (base_digits L (h * L ^ k + l)) = length (base_digits L h) + k"
proof -
  obtain j where j: "length (base_digits L h) = Suc j"
    using h base_digits_Nil_iff [OF L, of h] by (cases "base_digits L h") auto
  have lo: "L ^ j \<le> h" using digits_length_lower [OF L h] j by simp
  have hi: "h + 1 \<le> L ^ Suc j" using digits_length_upper [OF L, of h] j by simp
  have "L ^ (j + k) \<le> h * L ^ k + l"
  proof -
    have "L ^ j * L ^ k \<le> h * L ^ k" by (rule mult_le_mono1 [OF lo])
    then show ?thesis unfolding power_add by linarith
  qed
  moreover have "h * L ^ k + l < L ^ Suc (j + k)"
    using mult_le_mono1 [OF hi, of "L ^ k"] l by (simp add: power_add algebra_simps)
  ultimately show ?thesis using digits_length_unique [OF L] j by simp
qed

section \<open>The digits that are printed\<close>

text \<open>Zero is printed as one digit; \<open>lsd_digits\<close> is the order in which a loop that divides
  by the base produces the digits.\<close>

definition print_digits :: "nat \<Rightarrow> nat \<Rightarrow> nat list" where
  "print_digits L n = (if n = 0 then [0] else base_digits L n)"

definition lsd_digits :: "nat \<Rightarrow> nat \<Rightarrow> nat list" where
  "lsd_digits L n = rev (print_digits L n)"

lemma lsd_digits_step:
  "2 \<le> L \<Longrightarrow> lsd_digits L n = n mod L # (if n div L = 0 then [] else lsd_digits L (n div L))"
  by (cases "n = 0") (auto simp: lsd_digits_def print_digits_def base_digits_step)

lemma print_digits_less: "2 \<le> L \<Longrightarrow> d \<in> set (print_digits L n) \<Longrightarrow> d < L"
  by (auto simp: print_digits_def base_digits_less split: if_splits)

lemma print_digits_not_Nil [simp]: "2 \<le> L \<Longrightarrow> print_digits L n \<noteq> []"
  by (simp add: print_digits_def base_digits_Nil_iff)

lemma digits_value_print_digits: "2 \<le> L \<Longrightarrow> digits_value L (print_digits L n) = n"
  by (simp add: print_digits_def digits_value_base_digits digits_value_def [of L "[0]"])

lemma length_lsd_digits: "length (lsd_digits L n) = length (print_digits L n)"
  by (simp add: lsd_digits_def)

lemma length_print_digits_le: "2 \<le> L \<Longrightarrow> n < L ^ k \<Longrightarrow> 0 < k \<Longrightarrow> length (print_digits L n) \<le> k"
  by (simp add: print_digits_def base_digits_length_le Suc_leI)

text \<open>A conversion that stops after \<open>k\<close> digits keeps the \<open>k\<close> least significant ones.\<close>

lemma lsd_take_value: "2 \<le> L \<Longrightarrow> digits_value L (rev (take k (lsd_digits L n))) = n mod L ^ k"
proof (induction k arbitrary: n)
  case (Suc k)
  have m: "n mod (L * L ^ k) = L * (n div L mod L ^ k) + n mod L" by (rule mod_mult2_eq)
  show ?case
    using Suc m by (cases "n div L = 0") (simp_all add: lsd_digits_step [of L n] digits_value_Cons mult.commute)
qed simp

end
