(* ===== verification/Base58.thy ===== *)
theory Base58
  imports Utils Digits
begin

text \<open>
  The base-58 encoder, \<open>src/src/base58.c\<close>: \<open>encode_base_x\<close> divides the big-endian
  number held in \<open>tmp\<close> by the base in place, one digit per pass, and fills \<open>buffer\<close>
  from its end; \<open>encode_base_58\<close> fixes the alphabet. The theorems show that the
  result is the base-58 notation of the input with one leading \<open>1\<close> per leading zero
  byte, that it can be decoded, and that no access leaves \<open>tmp\<close> or \<open>buffer\<close>.
\<close>

section \<open>The code\<close>

text \<open>\<open>BASE_58_ALPHABET\<close>\<close>

definition BASE_58_ALPHABET :: string where
  "BASE_58_ALPHABET = ''123456789ABCDEFGHJKLMNPQRSTUVWXYZabcdefghijkmnopqrstuvwxyz''"

text \<open>The \<open>for (divLoop = startAt; divLoop < in_length; divLoop++)\<close> loop: one division of
  the number in \<open>tmp\<close> by \<open>alphabet_len\<close>. The dividend \<open>tmpDiv\<close> is an \<open>unsigned short\<close>.\<close>

function div_loop :: "u32 \<Rightarrow> nat \<Rightarrow> nat \<Rightarrow> u16 \<Rightarrow> u8 list \<Rightarrow> u8 list \<times> u16" where
  "div_loop alphabet_len in_length divLoop remainder tmp =
     (if divLoop < in_length then
        let digit256 = (ucast (tmp ! divLoop) :: u16);
            tmpDiv = remainder * 256 + digit256;
            tmp' = tmp[divLoop := ucast ((ucast tmpDiv :: u32) div alphabet_len)];
            remainder' = ucast ((ucast tmpDiv :: u32) mod alphabet_len)
        in div_loop alphabet_len in_length (Suc divLoop) remainder' tmp'
      else (tmp, remainder))"
  by pat_completeness auto
termination
  by (relation "measure (\<lambda>(a, n, i, r, t). n - i)") auto

declare div_loop.simps [simp del]

text \<open>The \<open>while (startAt < in_length)\<close> loop. \<open>buffer[--buffer_ix]\<close> is outside \<open>buffer\<close> when
  \<open>buffer_ix\<close> is 0 (the \<open>unsigned char\<close> index would wrap to 255).\<close>

function digit_loop ::
  "string \<Rightarrow> u32 \<Rightarrow> nat \<Rightarrow> nat \<Rightarrow> u8 list \<Rightarrow> string \<Rightarrow> nat \<Rightarrow> exn + (string \<times> nat)" where
  "digit_loop alphabet alphabet_len in_length startAt tmp buffer buffer_ix =
     (if startAt < in_length then
        (case div_loop alphabet_len in_length startAt 0 tmp of
          (tmp', remainder) \<Rightarrow>
            let startAt' = (if tmp' ! startAt = 0 then Suc startAt else startAt)
            in if buffer_ix = 0 then Inl Fault
               else digit_loop alphabet alphabet_len in_length startAt' tmp'
                      (buffer[buffer_ix - 1 := alphabet ! unat remainder]) (buffer_ix - 1))
      else Inr (buffer, buffer_ix))"
  by pat_completeness auto
termination
  by (relation "measure (\<lambda>(a, l, n, st, t, b, ix). ix)") auto

declare digit_loop.simps [simp del]

text \<open>\<open>while ((zeroCount < in_length) && (tmp[zeroCount] == 0)) ++zeroCount;\<close>\<close>

function zero_loop :: "nat \<Rightarrow> u8 list \<Rightarrow> nat \<Rightarrow> nat" where
  "zero_loop in_length tmp zeroCount =
     (if zeroCount < in_length \<and> tmp ! zeroCount = 0 then zero_loop in_length tmp (Suc zeroCount)
      else zeroCount)"
  by pat_completeness auto
termination
  by (relation "measure (\<lambda>(n, t, z). n - z)") auto

declare zero_loop.simps [simp del]

text \<open>\<open>while ((buffer_ix < (2 * in_length)) && (buffer[buffer_ix] == alphabet[0])) ++buffer_ix;\<close>\<close>

function strip_loop :: "string \<Rightarrow> nat \<Rightarrow> string \<Rightarrow> nat \<Rightarrow> nat" where
  "strip_loop alphabet in_length buffer buffer_ix =
     (if buffer_ix < 2 * in_length \<and> buffer ! buffer_ix = alphabet ! 0
      then strip_loop alphabet in_length buffer (Suc buffer_ix) else buffer_ix)"
  by pat_completeness auto
termination
  by (relation "measure (\<lambda>(a, n, b, i). 2 * n - i)") auto

declare strip_loop.simps [simp del]

text \<open>\<open>while (zeroCount-- > 0) buffer[--buffer_ix] = alphabet[0];\<close>\<close>

fun ones_loop :: "string \<Rightarrow> nat \<Rightarrow> string \<Rightarrow> nat \<Rightarrow> exn + (string \<times> nat)" where
  "ones_loop alphabet 0 buffer buffer_ix = Inr (buffer, buffer_ix)"
| "ones_loop alphabet (Suc zeroCount) buffer buffer_ix =
     (if buffer_ix = 0 then Inl Fault
      else ones_loop alphabet zeroCount (buffer[buffer_ix - 1 := alphabet ! 0]) (buffer_ix - 1))"

text \<open>The bytes written to \<open>out\<close>; their number is the C function's return value.\<close>

definition encode_base_x :: "string \<Rightarrow> u32 \<Rightarrow> u8 list \<Rightarrow> nat \<Rightarrow> exn + u8 list" where
  "encode_base_x alphabet alphabet_len input in_length =
     (if in_length \<le> 64 then
        case buf_read input 0 in_length of
          Inl e \<Rightarrow> Inl e
        | Inr bytes \<Rightarrow>
            let tmp = bytes @ replicate (64 - in_length) 0;
                zeroCount = zero_loop in_length tmp 0
            in if 2 * in_length \<le> 128 then
                 case digit_loop alphabet alphabet_len in_length zeroCount tmp
                        (replicate 128 (CHR 0x00)) (2 * in_length) of
                   Inl e \<Rightarrow> Inl e
                 | Inr (buffer, ix) \<Rightarrow>
                     (case ones_loop alphabet zeroCount buffer
                             (strip_loop alphabet in_length buffer ix) of
                        Inl e \<Rightarrow> Inl e
                      | Inr (buffer', ix') \<Rightarrow>
                          Inr (chars_2_bytes (take (2 * in_length - ix') (drop ix' buffer'))))
               else Inr []
      else Inr [])"

definition encode_base_58 :: "u8 list \<Rightarrow> nat \<Rightarrow> exn + u8 list" where
  "encode_base_58 input in_len =
     encode_base_x BASE_58_ALPHABET (of_nat (length BASE_58_ALPHABET)) input in_len"

text \<open>The reference notation: one zero letter per leading zero byte, then the digits of the
  big-endian number.\<close>

definition base_x_spec :: "string \<Rightarrow> u8 list \<Rightarrow> string" where
  "base_x_spec alphabet bs =
     replicate (length (takeWhile (\<lambda>b. b = 0) bs)) (alphabet ! 0)
       @ map ((!) alphabet) (base_digits (length alphabet) (be_value bs))"

section \<open>Correctness for any alphabet of 16 to 256 letters\<close>

locale base_x =
  fixes alphabet :: string and alphabet_len :: u32
  assumes alphabet_length: "length alphabet = unat alphabet_len"
    and base_range: "16 \<le> unat alphabet_len" "unat alphabet_len \<le> 256"
    and alphabet_distinct: "distinct alphabet"
begin

abbreviation L :: nat where "L \<equiv> unat alphabet_len"

lemma digit_step:
  fixes r :: u16 and d :: u8
  assumes r: "unat r < L"
  defines "t \<equiv> r * 256 + (ucast d :: u16)"
  shows "unat ((ucast ((ucast t :: u32) div alphabet_len)) :: u8) = (unat r * 256 + unat d) div L"
    and "unat ((ucast ((ucast t :: u32) mod alphabet_len)) :: u16) = (unat r * 256 + unat d) mod L"
proof -
  have rd: "unat r * 256 + unat d < L * 256"
  proof -
    have "unat r * 256 + unat d < unat r * 256 + 256" by simp
    also have "\<dots> \<le> L * 256" using r by simp
    finally show ?thesis .
  qed
  have q: "(unat r * 256 + unat d) div L < 256"
    using rd by (simp add: less_mult_imp_div_less mult.commute)
  have m: "(unat r * 256 + unat d) mod L < 65536"
    using base_range mod_less_divisor [of L "unat r * 256 + unat d"] by linarith
  have t: "unat t = unat r * 256 + unat d"
    using rd base_range unfolding t_def
    by (simp add: unat_word_ariths)
  show "unat ((ucast ((ucast t :: u32) div alphabet_len)) :: u8) = (unat r * 256 + unat d) div L"
    using q by (simp add: unat_ucast_mod unat_div t)
  show "unat ((ucast ((ucast t :: u32) mod alphabet_len)) :: u16) = (unat r * 256 + unat d) mod L"
    using m by (simp add: unat_ucast_mod unat_mod t)
qed


lemma div_loop_spec:
  assumes "i \<le> n" "n \<le> length tmp" "unat r < L"
    and "div_loop alphabet_len n i r tmp = (tmp', r')"
  shows "length tmp' = length tmp \<and> take i tmp' = take i tmp \<and> unat r' < L
    \<and> unat r * 256 ^ (n - i) + be_value (slice i n tmp) = be_value (slice i n tmp') * L + unat r'
    \<and> (i < n \<longrightarrow> unat (tmp' ! i) = (unat r * 256 + unat (tmp ! i)) div L)"
  using assms
proof (induction "n - i" arbitrary: i r tmp)
  case 0
    then have "tmp' = tmp" "r' = r" "i = n"
      by (simp_all add: div_loop.simps [of alphabet_len i i r tmp])
    then show ?case using 0 by (simp add: slice_def)
next
  case (Suc k)
    then have True: "i < n" by simp
    define d where "d = tmp ! i"
    define t where "t = r * 256 + (ucast d :: u16)"
    define q where "q = (ucast ((ucast t :: u32) div alphabet_len) :: u8)"
    define r1 where "r1 = (ucast ((ucast t :: u32) mod alphabet_len) :: u16)"
    have q: "unat q = (unat r * 256 + unat d) div L"
      and r1: "unat r1 = (unat r * 256 + unat d) mod L"
      using digit_step [OF Suc.prems(3), of d] by (simp_all add: q_def r1_def t_def)
    have L: "0 < L" using base_range by linarith
    have rec: "div_loop alphabet_len n (Suc i) r1 (tmp[i := q]) = (tmp', r')"
      using Suc.prems(4) True
      by (simp add: div_loop.simps [of alphabet_len n i r tmp] Let_def d_def t_def q_def r1_def)
    have IH: "length tmp' = length tmp \<and> take (Suc i) tmp' = take (Suc i) (tmp[i := q]) \<and> unat r' < L
      \<and> unat r1 * 256 ^ (n - Suc i) + be_value (slice (Suc i) n (tmp[i := q]))
          = be_value (slice (Suc i) n tmp') * L + unat r'"
      using Suc.hyps(1) [of "Suc i" "tmp[i := q]" r1] Suc.hyps(2) Suc.prems True L rec r1
      by simp
    have len: "i < length tmp" using True Suc.prems by simp
    have tmpi: "tmp' ! i = q"
    proof -
      have "tmp' ! i = take (Suc i) tmp' ! i" by simp
      also have "\<dots> = q" using IH len by simp
      finally show ?thesis .
    qed
    have tk: "take i tmp' = take i tmp"
      using arg_cong [OF conjunct1 [OF conjunct2 [OF IH]], of "take i"] by (simp add: min_def)
    have m: "n - i = Suc (n - Suc i)" using True by simp
    have e1: "slice i n tmp = d # slice (Suc i) n tmp"
      using slice_step [of i n tmp] True Suc.prems by (simp add: d_def)
    have e2: "slice i n tmp' = q # slice (Suc i) n tmp'"
      using slice_step [of i n tmp'] True Suc.prems IH tmpi by simp
    let ?B = "256 ^ (n - Suc i) :: nat"
    have "unat r * 256 ^ (n - i) + be_value (slice i n tmp)
        = (unat r * 256 + unat d) * ?B + be_value (slice (Suc i) n tmp)"
      using Suc.prems by (simp add: e1 m algebra_simps)
    also have "(unat r * 256 + unat d) = unat q * L + unat r1"
      by (simp add: q r1)
    finally have "unat r * 256 ^ (n - i) + be_value (slice i n tmp)
        = unat q * L * ?B + (unat r1 * ?B + be_value (slice (Suc i) n (tmp[i := q])))"
      by (simp add: algebra_simps)
    also have "\<dots> = be_value (slice i n tmp') * L + unat r'"
      using IH Suc.prems by (simp add: e2 algebra_simps)
    finally show ?case using IH tk tmpi q by (simp add: d_def)
qed


text \<open>Passes still needed: two per byte, one fewer once the leading byte is below the base.\<close>

definition need :: "nat \<Rightarrow> nat \<Rightarrow> u8 list \<Rightarrow> nat" where
  "need n st tmp =
     (if st < n then 2 * (n - st) - (if unat (tmp ! st) < L then 1 else 0) else 0)"

lemma digit_pass:
  assumes st: "st < n" "n \<le> length tmp"
    and dl: "div_loop alphabet_len n st 0 tmp = (tmp', r)"
  defines "st' \<equiv> if tmp' ! st = 0 then Suc st else st"
  shows "length tmp' = length tmp" "st' \<le> n"
    and "unat r = be_value (slice st n tmp) mod L"
    and "be_value (slice st' n tmp') = be_value (slice st n tmp) div L"
    and "need n st' tmp' < need n st tmp"
proof -
  have L: "0 < L" using base_range by linarith
  have spec: "length tmp' = length tmp" "unat r < L"
      "be_value (slice st n tmp) = be_value (slice st n tmp') * L + unat r"
      "unat (tmp' ! st) = unat (tmp ! st) div L"
    using div_loop_spec [OF less_imp_le [OF st(1)] st(2) _ dl] st L by simp_all
  show "length tmp' = length tmp" by (rule spec(1))
  show "st' \<le> n" using st by (simp add: st'_def)
  show "unat r = be_value (slice st n tmp) mod L" using spec by simp
  have "be_value (slice st' n tmp') = be_value (slice st n tmp')"
    using slice_step [of st n tmp'] st spec(1) by (simp add: st'_def)
  then show "be_value (slice st' n tmp') = be_value (slice st n tmp) div L"
    using spec(2,3) L by simp
  show "need n st' tmp' < need n st tmp"
  proof (cases "unat (tmp ! st) < L")
    case True
    then have "st' = Suc st" using spec(4) by (simp add: st'_def unat_eq_0)
    with True st show ?thesis by (auto simp: need_def)
  next
    case False
    have "L * L > 255"
      using mult_le_mono [OF base_range(1) base_range(1)] by simp
    then have "unat (tmp ! st) < L * L"
      using unat_u8_le [of "tmp ! st"] by linarith
    then have "unat (tmp' ! st) < L"
      using spec(4) by (simp add: less_mult_imp_div_less)
    with False st show ?thesis by (auto simp: need_def st'_def)
  qed
qed

lemma digit_loop_spec:
  assumes "st \<le> n" "n \<le> length tmp" "need n st tmp \<le> ix" "ix \<le> length buffer"
  shows "\<exists>k buffer'. digit_loop alphabet alphabet_len n st tmp buffer ix = Inr (buffer', ix - k)
    \<and> k \<le> need n st tmp \<and> length buffer' = length buffer \<and> drop ix buffer' = drop ix buffer
    \<and> take k (drop (ix - k) buffer') = map ((!) alphabet) (width_digits L k (be_value (slice st n tmp)))
    \<and> be_value (slice st n tmp) < L ^ k"
  using assms
proof (induction ix arbitrary: st tmp buffer)
  case 0
  then have "st = n" by (auto simp: need_def split: if_splits)
  then show ?case
    by (intro exI [of _ 0] exI [of _ buffer])
       (simp add: digit_loop.simps [of alphabet alphabet_len n n] slice_def)
next
  case (Suc ix)
  show ?case
  proof (cases "st < n")
    case False
    with Suc.prems(1) have "st = n" by simp
    with Suc.prems show ?thesis
      by (intro exI [of _ 0] exI [of _ buffer])
         (simp add: digit_loop.simps [of alphabet alphabet_len n n] slice_def)
  next
    case True
    obtain tmp' r where dl: "div_loop alphabet_len n st 0 tmp = (tmp', r)"
      by fastforce
    define st' where "st' = (if tmp' ! st = 0 then Suc st else st)"
    define b1 where "b1 = buffer[ix := alphabet ! unat r]"
    note pass = digit_pass [OF True Suc.prems(2) dl, folded st'_def]
    let ?V = "be_value (slice st n tmp)"
    have unf: "digit_loop alphabet alphabet_len n st tmp buffer (Suc ix)
        = digit_loop alphabet alphabet_len n st' tmp' b1 ix"
      using True by (simp add: digit_loop.simps [of alphabet alphabet_len n st tmp buffer] dl
          st'_def b1_def)
    obtain k b2 where IH: "digit_loop alphabet alphabet_len n st' tmp' b1 ix = Inr (b2, ix - k)"
        "k \<le> need n st' tmp'" "length b2 = length b1" "drop ix b2 = drop ix b1"
        "take k (drop (ix - k) b2) = map ((!) alphabet) (width_digits L k (?V div L))"
        "?V div L < L ^ k"
      using Suc.IH [of st' tmp' b1] pass Suc.prems by (auto simp: b1_def)
    have k: "k \<le> ix" using IH(2) pass(5) Suc.prems(3) by simp
    have ixl: "ix < length buffer" using Suc.prems(4) by simp
    have b2: "drop ix b2 = alphabet ! unat r # drop (Suc ix) buffer"
      using IH(4) ixl by (simp add: b1_def drop_update_swap Cons_nth_drop_Suc [symmetric])
    have d: "drop (Suc ix) b2 = drop (Suc ix) buffer"
      using arg_cong [OF b2, of tl] by (simp add: drop_Suc tl_drop)
    have "take (Suc k) (drop (ix - k) b2) = take k (drop (ix - k) b2) @ [b2 ! ix]"
      using k ixl IH(3) by (subst take_Suc_conv_app_nth) (simp_all add: b1_def)
    moreover have "b2 ! ix = alphabet ! (?V mod L)"
      using arg_cong [OF b2, of hd] ixl IH(3) pass(3) by (simp add: hd_drop_conv_nth b1_def)
    ultimately have "take (Suc k) (drop (ix - k) b2) = map ((!) alphabet) (width_digits L (Suc k) ?V)"
      using IH(5) by simp
    moreover have "?V < L ^ Suc k"
    proof -
      have "0 < L" using base_range by linarith
      then show ?thesis using IH(6) by (simp add: div_less_iff_less_mult mult.commute)
    qed
    ultimately show ?thesis
      using unf IH(1,2,3) pass(5) d
      by (intro exI [of _ "Suc k"] exI [of _ b2]) (simp add: b1_def)
  qed
qed


lemma alphabet_nth_eq_0:
  "d < L \<Longrightarrow> alphabet ! d = alphabet ! 0 \<longleftrightarrow> d = 0"
  using alphabet_distinct alphabet_length base_range by (auto simp: nth_eq_iff_index_eq)

lemma dropWhile_letters:
  assumes "v < L ^ k"
  shows "dropWhile (\<lambda>c. c = alphabet ! 0) (map ((!) alphabet) (width_digits L k v))
    = map ((!) alphabet) (base_digits L v)"
proof -
  have L: "2 \<le> L" using base_range by linarith
  have "dropWhile (\<lambda>c. c = alphabet ! 0) (map ((!) alphabet) (width_digits L k v))
      = map ((!) alphabet) (dropWhile (\<lambda>d. alphabet ! d = alphabet ! 0) (width_digits L k v))"
    by (simp add: dropWhile_map comp_def)
  also have "dropWhile (\<lambda>d. alphabet ! d = alphabet ! 0) (width_digits L k v)
      = dropWhile (\<lambda>d. d = 0) (width_digits L k v)"
    using width_digits_less [of L _ k v] L by (intro dropWhile_cong refl alphabet_nth_eq_0) auto
  also have "\<dots> = base_digits L v" by (rule dropWhile_width_digits [OF L assms])
  finally show ?thesis .
qed

end

lemma zero_loop_spec:
  "z \<le> n \<Longrightarrow> n \<le> length tmp \<Longrightarrow>
    zero_loop n tmp z = z + length (takeWhile (\<lambda>b. b = 0) (slice z n tmp))"
proof (induction "n - z" arbitrary: z)
  case 0
  then have "z = n" by simp
  then show ?case by (simp add: zero_loop.simps [of n tmp n] slice_def)
next
  case (Suc k)
  then have "z < n" by simp
  with Suc show ?case by (simp add: zero_loop.simps [of n tmp z] slice_step)
qed

lemma strip_loop_spec:
  "ix \<le> 2 * n \<Longrightarrow> 2 * n \<le> length buffer \<Longrightarrow>
    strip_loop alphabet n buffer ix
      = ix + length (takeWhile (\<lambda>c. c = alphabet ! 0) (slice ix (2 * n) buffer))"
proof (induction "2 * n - ix" arbitrary: ix)
  case 0
  then have "ix = 2 * n" by simp
  then show ?case by (simp add: strip_loop.simps [of alphabet n buffer "2 * n"] slice_def)
next
  case (Suc k)
  then have "ix < 2 * n" by simp
  with Suc show ?case by (simp add: strip_loop.simps [of alphabet n buffer ix] slice_step)
qed

lemma ones_loop_spec:
  "z \<le> ix \<Longrightarrow> ix \<le> length buffer \<Longrightarrow>
    \<exists>buffer'. ones_loop alphabet z buffer ix = Inr (buffer', ix - z)
      \<and> length buffer' = length buffer
      \<and> drop (ix - z) buffer' = replicate z (alphabet ! 0) @ drop ix buffer"
proof (induction z arbitrary: ix buffer)
  case 0
  show ?case by simp
next
  case (Suc z)
  let ?b = "buffer[ix - 1 := alphabet ! 0]"
  obtain b where b: "ones_loop alphabet z ?b (ix - 1) = Inr (b, ix - 1 - z)"
      "length b = length ?b"
      "drop (ix - 1 - z) b = replicate z (alphabet ! 0) @ drop (ix - 1) ?b"
    using Suc.IH [of "ix - 1" ?b] Suc.prems by fastforce
  have "drop (ix - 1) ?b = alphabet ! 0 # drop ix buffer"
    using Suc.prems Cons_nth_drop_Suc [of "ix - 1" ?b] by simp
  with b Suc.prems show ?case
    by (intro exI [of _ b]) (simp add: replicate_app_Cons_same)
qed


context base_x
begin

lemma encode_base_x_spec:
  assumes n: "n \<le> 64" "n \<le> length input"
  shows "encode_base_x alphabet alphabet_len input n
    = Inr (chars_2_bytes (base_x_spec alphabet (take n input)))"
proof -
  let ?bs = "take n input" and ?is0 = "\<lambda>b. b = (0::u8)" and ?isA = "\<lambda>c. c = alphabet ! 0"
  let ?V = "be_value ?bs"
  define tmp where "tmp = ?bs @ replicate (64 - n) 0"
  define z where "z = length (takeWhile ?is0 ?bs)"
  have len: "length ?bs = n" using n by simp
  have tl: "length tmp = 64" using n len by (simp add: tmp_def)
  have zn: "z \<le> n" using length_takeWhile_le [of ?is0 ?bs] len by (simp add: z_def)
  have sl: "slice 0 n tmp = ?bs" using len by (simp add: slice_def tmp_def)
  have zl: "zero_loop n tmp 0 = z"
    using zero_loop_spec [of 0 n tmp] tl n sl by (simp add: z_def)
  have V: "be_value (slice z n tmp) = ?V"
  proof -
    have "slice z n tmp = drop z ?bs"
      using zn len by (simp add: slice_def tmp_def)
    also have "\<dots> = dropWhile ?is0 ?bs" by (simp add: z_def dropWhile_drop)
    finally show ?thesis by (simp add: be_value_dropWhile_zero)
  qed
  have nd: "need n z tmp \<le> 2 * (n - z)" by (simp add: need_def)
  obtain k b where dl: "digit_loop alphabet alphabet_len n z tmp (replicate 128 (CHR 0x00)) (2 * n)
        = Inr (b, 2 * n - k)"
      and k: "k \<le> need n z tmp" and bl: "length b = 128"
      and bt: "take k (drop (2 * n - k) b) = map ((!) alphabet) (width_digits L k ?V)"
      and Vk: "?V < L ^ k"
    using digit_loop_spec [of z n tmp "2 * n" "replicate 128 (CHR 0x00)"] zn tl n nd V
    by (auto simp: le_trans [OF nd])
  define ix where "ix = 2 * n - k"
  have kix: "2 * n - ix = k" "ix \<le> 2 * n" "2 * z \<le> ix" using k nd zn by (simp_all add: ix_def)
  define w where "w = map ((!) alphabet) (width_digits L k ?V)"
  have slw: "slice ix (2 * n) b = w"
    using bt by (simp add: slice_def kix(1) w_def) (simp add: ix_def)
  define j where "j = length (takeWhile ?isA w)"
  have sp: "strip_loop alphabet n b ix = ix + j"
    using strip_loop_spec [of ix n b alphabet] kix bl n slw by (simp add: j_def)
  have jk: "j \<le> k"
    using length_takeWhile_le [of ?isA w] by (simp add: j_def w_def)
  then have ixj: "ix + j \<le> 2 * n" using kix by linarith
  obtain b' where ol: "ones_loop alphabet z b (ix + j) = Inr (b', ix + j - z)"
      and bd: "drop (ix + j - z) b' = replicate z (alphabet ! 0) @ drop (ix + j) b"
    using ones_loop_spec [of z "ix + j" b alphabet] kix ixj bl n by auto
  have "take (2 * n - (ix + j)) (drop (ix + j) b) = drop j w"
    unfolding slw [symmetric] slice_def by (simp add: drop_take add.commute)
  also have "\<dots> = map ((!) alphabet) (base_digits L ?V)"
    using dropWhile_letters [OF Vk] by (simp add: j_def w_def dropWhile_drop)
  finally have tail: "take (2 * n - (ix + j)) (drop (ix + j) b)
      = map ((!) alphabet) (base_digits L ?V)" .
  have "2 * n - (ix + j - z) = z + (2 * n - (ix + j))"
    using ixj kix by linarith
  then have out: "take (2 * n - (ix + j - z)) (drop (ix + j - z) b') = base_x_spec alphabet ?bs"
    using tail by (simp add: bd base_x_spec_def z_def [symmetric] alphabet_length)
  show ?thesis
    using n zl dl sp ol out
    by (simp add: encode_base_x_def buf_read_def tmp_def [symmetric] ix_def [symmetric] Let_def)
qed

lemma encode_base_x_too_long: "64 < n \<Longrightarrow> encode_base_x alphabet alphabet_len input n = Inr []"
  by (simp add: encode_base_x_def)

end

text \<open>Decoding, as a reference: leading ones are zero bytes, the rest is a number.\<close>

definition letter_index :: "string \<Rightarrow> char \<Rightarrow> nat" where
  "letter_index alphabet c = length (takeWhile (\<lambda>a. a \<noteq> c) alphabet)"

definition base_x_decode :: "string \<Rightarrow> string \<Rightarrow> u8 list" where
  "base_x_decode alphabet cs =
     replicate (length (takeWhile (\<lambda>c. c = alphabet ! 0) cs)) 0
       @ map of_nat (base_digits 256 (digits_value (length alphabet) (map (letter_index alphabet) cs)))"

lemma letter_index_nth: "distinct alphabet \<Longrightarrow> d < length alphabet \<Longrightarrow> letter_index alphabet (alphabet ! d) = d"
proof (induction alphabet arbitrary: d)
  case (Cons a as)
  then show ?case by (cases d) (auto simp: letter_index_def)
qed simp

context base_x
begin

lemma decode_spec: "base_x_decode alphabet (base_x_spec alphabet bs) = bs"
proof -
  let ?z = "length (takeWhile (\<lambda>b. b = 0) bs)" and ?ds = "base_digits L (be_value bs)"
  let ?r = "dropWhile (\<lambda>b. b = 0) bs" and ?a0 = "alphabet ! 0"
  have L: "2 \<le> L" using base_range by linarith
  have lt: "\<forall>d \<in> set ?ds. d < L" using base_digits_less [OF L] by blast
  have hd0: "?ds = [] \<or> hd ?ds \<noteq> 0"
    using hd_base_digits [OF L, of "be_value bs"] by (cases "be_value bs = 0") simp_all
  have tw: "takeWhile (\<lambda>c. c = ?a0) (map ((!) alphabet) ?ds) = []"
    using hd0 lt alphabet_nth_eq_0 by (cases ?ds) simp_all
  have idx: "map (letter_index alphabet) (map ((!) alphabet) ?ds) = ?ds"
    using lt alphabet_distinct alphabet_length by (auto intro!: map_idI simp: letter_index_nth)
  have i0: "letter_index alphabet ?a0 = 0"
    using letter_index_nth [OF alphabet_distinct, of 0] alphabet_length L by simp
  have zeros: "digits_value L (replicate n 0 @ ds) = digits_value L ds" for n ds
    by (induction n) (simp_all add: digits_value_Cons)
  have "digits_value L (map (letter_index alphabet) (base_x_spec alphabet bs)) = be_value bs"
    using idx by (simp add: base_x_spec_def alphabet_length i0 zeros
        digits_value_base_digits [OF L] map_replicate_const del: map_map)
  moreover have "base_digits 256 (be_value bs) = map unat ?r"
    using base_digits_256_be_value [of ?r] hd_dropWhile [of "\<lambda>b. b = 0" bs]
    by (auto simp: be_value_dropWhile_zero)
  moreover have "takeWhile (\<lambda>c. c = ?a0) (base_x_spec alphabet bs) = replicate ?z ?a0"
    using tw by (simp add: base_x_spec_def alphabet_length takeWhile_append)
  ultimately have "base_x_decode alphabet (base_x_spec alphabet bs) = replicate ?z 0 @ ?r"
    by (simp add: base_x_decode_def alphabet_length comp_def)
  also have "\<dots> = takeWhile (\<lambda>b. b = 0) bs @ ?r"
    by (simp only: takeWhile_zero_bytes [of bs, symmetric])
  finally show ?thesis by simp
qed

lemma base_x_spec_length:
  assumes "length bs = n" shows "length (base_x_spec alphabet bs) \<le> 2 * n"
proof -
  let ?z = "length (takeWhile (\<lambda>b. b = 0) bs)"
  have L: "2 \<le> L" using base_range by linarith
  have zn: "?z \<le> n" using length_takeWhile_le assms by metis
  have "length (dropWhile (\<lambda>b. b = 0) bs) = n - ?z" by (simp add: dropWhile_drop assms)
  then have "be_value bs < 256 ^ (n - ?z)"
    using be_value_less [of "dropWhile (\<lambda>b. b = 0) bs"] by (simp add: be_value_dropWhile_zero)
  also have "\<dots> \<le> (L * L) ^ (n - ?z)"
    using mult_le_mono [OF base_range(1) base_range(1)] by (intro power_mono) simp_all
  also have "\<dots> = L ^ (2 * (n - ?z))" by (simp add: power_mult power2_eq_square)
  finally have "length (base_digits L (be_value bs)) \<le> 2 * (n - ?z)"
    by (rule base_digits_length_le [OF L])
  with zn show ?thesis by (simp add: base_x_spec_def alphabet_length)
qed

end

section \<open>The base-58 encoder\<close>

interpretation b58: base_x BASE_58_ALPHABET "of_nat (length BASE_58_ALPHABET)"
  by unfold_locales (simp_all add: BASE_58_ALPHABET_def)

text \<open>
Property C36: for an input of at most 64 bytes the encoder returns its base-58 notation
(one letter 1 per leading zero byte, then the base-58 digits of the big-endian number
without leading zeros) and touches no byte outside its two work arrays.
\<close>

theorem encode_base_58_spec:
  assumes "in_len \<le> 64" and "in_len \<le> length input"
  shows "encode_base_58 input in_len
    = Inr (chars_2_bytes (base_x_spec BASE_58_ALPHABET (take in_len input)))"
  unfolding encode_base_58_def using assms by (rule b58.encode_base_x_spec)

theorem encode_base_58_spec_witness:
  "encode_base_58 [0, 1, 0] 3 = Inr (chars_2_bytes ''15R'')"
  using encode_base_58_spec [of 3 "[0, 1, 0]"]
  by (simp add: base_x_spec_def BASE_58_ALPHABET_def base_digits.simps)

text \<open>
Encoding loses nothing: the encoder returns at most two letters per byte,
and decoding the letters as a base-58 number with one zero byte per leading 1 gives the
input bytes back.
\<close>

theorem encode_base_58_roundtrip:
  assumes "length bs \<le> 64"
  shows "\<exists>out. encode_base_58 bs (length bs) = Inr out \<and> length out \<le> 2 * length bs
    \<and> base_x_decode BASE_58_ALPHABET (bytes_2_chars out) = bs"
  using b58.encode_base_x_spec [OF assms] b58.base_x_spec_length [of bs] b58.decode_spec [of bs]
  by (simp add: encode_base_58_def)

theorem encode_base_58_roundtrip_witness:
  "length (replicate 32 (255 :: u8)) \<le> 64
    \<and> (\<exists>out. encode_base_58 (replicate 32 255) 32 = Inr out \<and> length out \<le> 64
        \<and> base_x_decode BASE_58_ALPHABET (bytes_2_chars out) = replicate 32 255)"
  using encode_base_58_roundtrip [of "replicate 32 255"] by simp

text \<open>Inputs longer than the work array are refused: nothing is written.\<close>

lemma encode_base_58_too_long: "64 < in_len \<Longrightarrow> encode_base_58 input in_len = Inr []"
  unfolding encode_base_58_def by (rule b58.encode_base_x_too_long)

lemma encode_base_58_length:
  "in_len \<le> length input \<Longrightarrow> encode_base_58 input in_len = Inr out \<Longrightarrow> length out \<le> 128"
  using b58.base_x_spec_length [of "take in_len input"] b58.encode_base_x_spec [of in_len input]
    encode_base_58_too_long [of in_len input]
  by (cases "in_len \<le> 64") (auto simp: encode_base_58_def)

lemma encode_base_58_total:
  "in_len \<le> length input \<Longrightarrow> \<exists>out. encode_base_58 input in_len = Inr out \<and> length out \<le> 128"
  using b58.base_x_spec_length [of "take in_len input"] b58.encode_base_x_spec [of in_len input]
    encode_base_58_too_long [of in_len input]
  by (cases "in_len \<le> 64") (auto simp: encode_base_58_def)

end
