(* ===== verification/App_State.thy ===== *)
theory App_State
  imports Ui Io Iost Buttons Base58 Utils
begin

text \<open>
  The global state of the application, the part of \<open>io_exchange\<close>
  (\<open>src/sdk/nanos-secure-sdk/src/os_io_seproxyhal.c\<close>) that sends a reply and decides what
  happens next, and the operations the two commands with a user interface share.

  The transport is USB HID.  One value, \<open>apdu_media\<close>, stands for \<open>G_io_app.apdu_media\<close> and
  \<open>G_io_app.apdu_state\<close>, which the HID transport sets and resets together.  The packets of a
  reply are sent as one step: events that arrive during the transmission are not modelled.
\<close>

section \<open>State\<close>

datatype apdu_media = IO_APDU_MEDIA_NONE | IO_APDU_MEDIA_USB_HID

text \<open>The context of \<open>get_public_key.c\<close> and that of \<open>sign_message.c\<close>.\<close>

record gpk_context =
  public_key :: cx_ecfp_public_key
  gpk_output_length :: u16
  gpk_ui :: ui_context

record sign_tx_context =
  msg_body :: "u8 list"
  msg_length :: u16
  sgn_output_length :: u16
  sgn_ui :: ui_context

text \<open>
  The buffers, contexts and SDK globals; \<open>main_rx\<close>, \<open>main_tx\<close> and \<open>main_flags\<close> are the
  volatile variables of \<open>app_main\<close>, which handlers change through pointers; \<open>sent\<close> collects
  the replies handed to the transport, the latest one last.
\<close>

record app =
  G_io_apdu_buffer :: "u8 list"
  apdu_media :: apdu_media
  apdu_length :: u16
  gpk :: gpk_context
  sgn :: sign_tx_context
  ux :: screen
  ux_menu :: ux_menu_state
  G_ux_os :: button_state
  stack_canary :: u32
  main_rx :: u16
  main_tx :: u16
  main_flags :: u8
  sent :: "u8 list list"

definition INVALID_STATE :: u16 where [const_defs]: "INVALID_STATE = 9"

section \<open>Replies\<close>

text \<open>Sending the first \<open>tx_len\<close> bytes of the buffer when an APDU awaits its reply.\<close>

definition send_reply :: "u16 \<Rightarrow> (app, unit) cm" where
  "send_reply tx_len = (\<lambda>s.
     if apdu_media s = IO_APDU_MEDIA_NONE then (Inl (Throw INVALID_STATE), s)
     else case buf_read (G_io_apdu_buffer s) 0 (unat tx_len) of
         Inl e \<Rightarrow> (Inl e, s)
       | Inr reply \<Rightarrow>
           (Inr (), s\<lparr>sent := sent s @ [reply], apdu_media := IO_APDU_MEDIA_NONE, apdu_length := 0\<rparr>))"

text \<open>
  \<open>io_exchange\<close> up to the reception loop: it returns a length, leaves the application with
  an exit code, or starts to wait for the next APDU.
\<close>

datatype tx_result = Tx_Return u16 | Tx_Exit u32 | Tx_Receive

definition io_exchange_tx :: "u8 \<Rightarrow> u16 \<Rightarrow> (app, tx_result) cm" where
  "io_exchange_tx channel tx_len =
     bind_c
       (if tx_len \<noteq> 0 \<and> channel AND IO_ASYNCH_REPLY = 0 then
          bind_c (send_reply tx_len) (\<lambda>_. return_c
            (if channel AND IO_RETURN_AFTER_TX \<noteq> 0 then Some (Tx_Return 0)
             else if channel AND IO_RESET_AFTER_REPLIED \<noteq> 0 then Some (Tx_Exit (ucast EXCEPTION_IO_RESET))
             else None))
        else return_c None)
       (\<lambda>r. case r of
            Some result \<Rightarrow> return_c result
          | None \<Rightarrow>
              if channel AND IO_ASYNCH_REPLY = 0 then
                if channel AND (CHANNEL_APDU OR IO_RECEIVE_DATA) = (CHANNEL_APDU OR IO_RECEIVE_DATA) then
                  bind_c (gets_c apdu_length) (\<lambda>l. return_c (Tx_Return (l - 5)))
                else
                  bind_c (modify_c (\<lambda>s. s\<lparr>apdu_media := IO_APDU_MEDIA_NONE, apdu_length := 0\<rparr>))
                    (\<lambda>_. return_c Tx_Receive)
              else bind_c (modify_c (\<lambda>s. s\<lparr>apdu_length := 0\<rparr>)) (\<lambda>_. return_c Tx_Receive))"

text \<open>\<open>io_exchange_status\<close> of \<open>io.c\<close>; its call of \<open>io_exchange\<close> returns after sending.\<close>

definition exchange_status :: "u16 \<Rightarrow> u16 \<Rightarrow> (app, unit) cm" where
  "exchange_status sw tx =
     bind_c (gets_c G_io_apdu_buffer) (\<lambda>buf.
     bind_c (lift_c (io_exchange_status sw tx buf)) (\<lambda>(flags, tx, buf).
     bind_c (modify_c (\<lambda>s. s\<lparr>G_io_apdu_buffer := buf\<rparr>)) (\<lambda>_.
     bind_c (io_exchange_tx flags tx) (\<lambda>_.
     return_c ()))))"

section \<open>Screens\<close>

text \<open>\<open>UX_DISPLAY\<close> and \<open>UX_REDISPLAY\<close>, as far as they change the state.\<close>

definition ux_display :: "screen \<Rightarrow> (app, unit) cm" where
  "ux_display screen = modify_c (\<lambda>s. s\<lparr>ux := screen, G_ux_os := io_seproxyhal_init_button\<rparr>)"

definition ux_redisplay :: "(app, unit) cm" where
  "ux_redisplay = modify_c (\<lambda>s. s\<lparr>G_ux_os := io_seproxyhal_init_button\<rparr>)"

text \<open>\<open>ui_idle\<close> of \<open>ui.c\<close>.\<close>

definition ui_idle :: "(app, unit) cm" where
  "ui_idle =
     bind_c (gets_c ux_menu) (\<lambda>m.
     bind_c (lift_c (ux_menu_display 0 (Some Menu_Main) m)) (\<lambda>(m, screen).
     bind_c (modify_c (\<lambda>s. s\<lparr>ux_menu := m\<rparr>)) (\<lambda>_.
     ux_display screen)))"

section \<open>Output\<close>

text \<open>
  What \<open>get_pk\<close> and \<open>export_signature\<close> do with their result: the text for the viewer, and
  the bytes put into the APDU buffer, followed by a null byte.  The results are the context
  of the viewer, and the output length with the memory behind \<open>output\<close>.
\<close>

definition export_text :: "u8 list \<Rightarrow> u16 \<Rightarrow> ui_context \<Rightarrow> exn + ui_context" where
  "export_text bytes output_length ui =
     bindE (encode_base_58 bytes (unat output_length)) (\<lambda>letters.
     bindE (buf_write (ui_msg_body ui) 0 letters) (\<lambda>body.
     let ui = ui\<lparr>ui_msg_body := body, ui_msg_length := of_nat (length letters)\<rparr>
     in bindE (buf_write (ui_msg_body ui) (unat (ui_msg_length ui)) [0]) (\<lambda>body.
        Inr (ui\<lparr>ui_msg_body := body\<rparr>))))"

definition export_bytes ::
  "u8 \<Rightarrow> u8 list \<Rightarrow> u16 \<Rightarrow> ui_context \<Rightarrow> u8 list \<Rightarrow> exn + u16 \<times> u8 list" where
  "export_bytes p2 bytes output_length ui output =
     bindE
       (if p2 = P2_HEX then
          bindE (bin2hex bytes (unat output_length) output) (\<lambda>(n, output). Inr (of_nat n, output))
        else if p2 = P2_BASE58 then
          bindE (buf_read (ui_msg_body ui) 0 (unat (ui_msg_length ui))) (\<lambda>letters.
          bindE (buf_write output 0 letters) (\<lambda>output.
          Inr (ui_msg_length ui, output)))
        else
          bindE (buf_read bytes 0 (unat output_length)) (\<lambda>bytes.
          bindE (buf_write output 0 bytes) (\<lambda>output.
          Inr (output_length, output))))
       (\<lambda>(output_length, output).
          bindE (buf_write output (unat output_length) [0]) (\<lambda>output.
          Inr (output_length, output)))"

section \<open>What is exported\<close>

definition base58_text :: "u8 list \<Rightarrow> u8 list" where
  "base58_text bs = chars_2_bytes (base_x_spec BASE_58_ALPHABET bs)"

definition encoded :: "u8 \<Rightarrow> u8 list \<Rightarrow> u8 list" where
  "encoded p2 bs = (if p2 = P2_HEX then hex_spec bs else if p2 = P2_BASE58 then base58_text bs else bs)"

lemma length_base58_text: "length (base58_text bs) \<le> 2 * length bs"
  using b58.base_x_spec_length [of bs] by (simp add: base58_text_def chars_2_bytes_def)

lemma length_encoded: "length (encoded p2 bs) \<le> 2 * length bs"
  by (simp add: encoded_def length_base58_text)

lemma encode_base_58_text:
  "n \<le> 64 \<Longrightarrow> n \<le> length bytes \<Longrightarrow> encode_base_58 bytes n = Inr (base58_text (take n bytes))"
  unfolding encode_base_58_def base58_text_def by (rule b58.encode_base_x_spec)

text \<open>The context after \<open>export_text\<close>.\<close>

definition shows_text :: "ui_context \<Rightarrow> u8 list \<Rightarrow> ui_context" where
  "shows_text ui letters =
     ui\<lparr>ui_msg_body := letters @ 0 # drop (Suc (length letters)) (ui_msg_body ui),
        ui_msg_length := of_nat (length letters)\<rparr>"

lemma export_text_spec:
  assumes "ui_sized ui" "unat n \<le> 64" "unat n \<le> length bytes"
  shows "export_text bytes n ui = Inr (shows_text ui (base58_text (take (unat n) bytes)))"
proof -
  let ?t = "base58_text (take (unat n) bytes)"
  have l: "length ?t \<le> 128"
    using length_base58_text [of "take (unat n) bytes"] assms(2,3) by simp
  moreover have "length (ui_msg_body ui) = 324"
    using assms(1) by (simp add: ui_sized_def DISPLAY_SIZE_def)
  moreover have "unat (of_nat (length ?t) :: u16) = length ?t"
    using l by (simp add: unat_of_nat)
  ultimately show ?thesis
    by (simp add: export_text_def encode_base_58_text [OF assms(2,3)] buf_write_def shows_text_def)
qed

lemma shows_text_sized:
  "ui_sized ui \<Longrightarrow> length letters \<le> 128 \<Longrightarrow> ui_sized (shows_text ui letters)"
  by (simp add: ui_sized_def shows_text_def DISPLAY_SIZE_def)

lemma export_bytes_spec:
  assumes "ui = shows_text ui0 (base58_text bs)" "bs = take (unat n) bytes"
    and "unat n \<le> 64" "unat n \<le> length bytes" "129 \<le> length output"
  shows "export_bytes p2 bytes n ui output
    = Inr (of_nat (length (encoded p2 bs)),
           encoded p2 bs @ 0 # drop (Suc (length (encoded p2 bs))) output)"
proof -
  have lb: "length bs = unat n" using assms(2,4) by simp
  have lt: "length (base58_text bs) \<le> 128"
    using length_base58_text [of bs] assms(3) lb by simp
  have w: "k \<le> 128 \<Longrightarrow> unat (of_nat k :: u16) = k" for k by (simp add: unat_of_nat)
  have fin: "buf_write (x @ drop (length x) output) (length x) [0] = Inr (x @ 0 # drop (Suc (length x)) output)"
    if "length x \<le> 128" for x
    using that assms(5) by (simp add: buf_write_def)
  have body: "ui_msg_body ui = base58_text bs @ 0 # drop (Suc (length (base58_text bs))) (ui_msg_body ui0)"
    and len: "ui_msg_length ui = of_nat (length (base58_text bs))"
    by (simp_all add: assms(1) shows_text_def)
  consider (hex) "p2 = P2_HEX" | (base58) "p2 \<noteq> P2_HEX" "p2 = P2_BASE58" | (bin) "p2 \<noteq> P2_HEX" "p2 \<noteq> P2_BASE58"
    by blast
  then show ?thesis
  proof cases
    case hex
    have "unat (2 * n) = 2 * unat n" using assms(3) by (simp add: unat_word_ariths)
    with hex show ?thesis
      using bin2hex_spec [of "unat n" bytes "output"] fin [of "hex_spec bs"] assms(2-5) lb
      by (simp add: export_bytes_def encoded_def w)
  next
    case base58
    then show ?thesis
      using fin [OF lt] lt assms(5)
      by (simp add: export_bytes_def encoded_def buf_read_def body len w buf_write_def)
  next
    case bin
    then show ?thesis
      using fin [of bs] assms(2-5) lb
      by (simp add: export_bytes_def encoded_def buf_read_def buf_write_def)
  qed
qed

section \<open>Handlers of the transport\<close>

lemma exchange_status_run:
  assumes "unat tx + 2 \<le> length (G_io_apdu_buffer s)" "unat tx + 2 < 2 ^ 16"
    and "apdu_media s \<noteq> IO_APDU_MEDIA_NONE"
  shows "exchange_status sw tx s =
    (Inr (), s\<lparr>G_io_apdu_buffer := take (unat tx) (G_io_apdu_buffer s) @ [ucast (drop_bit 8 sw), ucast (sw AND 0xFF)]
        @ drop (unat tx + 2) (G_io_apdu_buffer s),
      sent := sent s @ [take (unat tx) (G_io_apdu_buffer s) @ [ucast (drop_bit 8 sw), ucast (sw AND 0xFF)]],
      apdu_media := IO_APDU_MEDIA_NONE, apdu_length := 0\<rparr>)"
proof -
  let ?b = "G_io_apdu_buffer s"
  have u: "unat (tx + 1) = unat tx + 1" "unat (tx + 2) = unat tx + 2"
    using assms(2) by (simp_all add: unat_word_ariths)
  have nz: "tx + 2 \<noteq> 0" using u(2) by (metis add_is_0 unat_0 zero_neq_numeral)
  have set: "io_exchange_status sw tx ?b = Inr (CHANNEL_APDU OR IO_RETURN_AFTER_TX, tx + 2,
      take (unat tx) ?b @ [ucast (drop_bit 8 sw), ucast (sw AND 0xFF)] @ drop (unat tx + 2) ?b)"
    using assms(1) by (simp add: io_exchange_status_def io_set_status_def Let_def buf_write_def u)
  show ?thesis
    using assms(1,3) nz
    by (simp add: exchange_status_def bind_c_def gets_c_def lift_c_def set modify_c_def return_c_def
        io_exchange_tx_def send_reply_def buf_read_def u const_defs)
qed

lemma ui_idle_run:
  "\<exists>m. ui_idle s = (Inr (), s\<lparr>ux_menu := m, ux := Menu_Screen, G_ux_os := io_seproxyhal_init_button\<rparr>) \<and> menu_ok m
    \<and> menu_entries m = Some Menu_Main \<and> current_entry m = 0"
  using ux_menu_display_0 [of Menu_Main "ux_menu s"]
  by (auto simp: ui_idle_def bind_c_def gets_c_def lift_c_def modify_c_def ux_display_def)

section \<open>Paths in commands\<close>

definition read_path :: "u8 list \<Rightarrow> u16 \<Rightarrow> exn + u16 \<times> u32 list" where
  "read_path buffer len = io_read_bip32 buffer len (replicate BIP32_PATH_LENGTH 0)"

definition last_element :: "u16 \<times> u32 list \<Rightarrow> u32" where
  "last_element r = (if fst r > 0 then snd r ! (unat (fst r) - 1) - BIP32_PATH_MASK else 0)"

lemma read_path_Inr:
  "read_path buffer len = Inr (n, path) \<Longrightarrow> 1 \<le> unat n \<and> unat n \<le> 5 \<and> length path = 5"
proof (cases buffer)
  case Nil
  then show "read_path buffer len = Inr (n, path) \<Longrightarrow> ?thesis" by (simp add: read_path_def io_read_bip32_def)
next
  case (Cons b r)
  then show "read_path buffer len = Inr (n, path) \<Longrightarrow> ?thesis"
    using io_read_bip32_Cons [of "replicate BIP32_PATH_LENGTH 0" b r len]
    by (auto simp: read_path_def BIP32_PATH_LENGTH_def split: if_splits)
qed

text \<open>With at least 21 bytes behind the pointer the reader stays inside the buffer.\<close>

lemma read_path_safe: "21 \<le> length buffer \<Longrightarrow> safe (\<lambda>_. True) (read_path buffer len)"
  using io_read_bip32_Cons [of "replicate BIP32_PATH_LENGTH 0" "hd buffer" "tl buffer" len]
  by (cases buffer) (auto simp: read_path_def)

lemma check_p1p2_safe: "safe (\<lambda>_. True) (io_check_p1p2 p1 p2)"
  by (simp add: io_check_p1p2_def)

lemma shows_text_keeps: "approve_l2 (shows_text ui t) = approve_l2 ui" "partial_msg (shows_text ui t) = partial_msg ui"
  "display_index (shows_text ui t) = display_index ui"
  by (simp_all add: shows_text_def)

end
