(* ===== verification/Get_Configuration.thy ===== *)
theory Get_Configuration
  imports App_State
begin

text \<open>
  The command GET CONFIGURATION, \<open>src/src/get_configuration.c\<close>: four bytes at the place
  \<open>tx\<close> points to, and the status word OK as an exception.
\<close>

definition APPVERSION_M :: u8 where "APPVERSION_M = 0"
definition APPVERSION_N :: u8 where "APPVERSION_N = 0"
definition APPVERSION_P :: u8 where "APPVERSION_P = 3"

text \<open>\<open>G_io_apdu_buffer[(*tx)++] = b\<close>\<close>

definition put_byte :: "u8 \<Rightarrow> (app, unit) cm" where
  "put_byte b = try_modify_c (\<lambda>s.
     bindE (buf_write (G_io_apdu_buffer s) (unat (main_tx s)) [b]) (\<lambda>buf.
     Inr (s\<lparr>G_io_apdu_buffer := buf, main_tx := main_tx s + 1\<rparr>)))"

definition clear_context_get_configuration :: "(app, unit) cm" where
  "clear_context_get_configuration = return_c ()"

definition handle_get_configuration :: "u8 \<Rightarrow> u8 \<Rightarrow> u8 list \<Rightarrow> u16 \<Rightarrow> (app, unit) cm" where
  "handle_get_configuration p1 p2 buffer buffer_length =
     bind_c (put_byte 0) (\<lambda>_.
     bind_c (put_byte APPVERSION_M) (\<lambda>_.
     bind_c (put_byte APPVERSION_N) (\<lambda>_.
     bind_c (put_byte APPVERSION_P) (\<lambda>_.
     bind_c clear_context_get_configuration (\<lambda>_.
     throw_c (Throw SW_OK))))))"

lemma put_byte_run:
  "unat (main_tx s) < length (G_io_apdu_buffer s) \<Longrightarrow>
    put_byte b s = (Inr (), s\<lparr>G_io_apdu_buffer := (G_io_apdu_buffer s)[unat (main_tx s) := b],
      main_tx := main_tx s + 1\<rparr>)"
  by (simp add: put_byte_def try_modify_c_def buf_write_def upd_conv_take_nth_drop)

lemma handle_get_configuration_run:
  assumes "main_tx s = 0" "4 \<le> length (G_io_apdu_buffer s)"
  shows "handle_get_configuration p1 p2 b l s = (Inl (Throw SW_OK),
    s\<lparr>G_io_apdu_buffer := [0, 0, 0, 3] @ drop 4 (G_io_apdu_buffer s), main_tx := 4\<rparr>)"
proof -
  obtain b0 b1 b2 b3 r where "G_io_apdu_buffer s = b0 # b1 # b2 # b3 # r"
    using four_bytes [OF assms(2)] by blast
  then show ?thesis
    using assms(1)
    by (simp add: handle_get_configuration_def bind_c_def put_byte_run throw_c_def
        clear_context_get_configuration_def return_c_def APPVERSION_M_def APPVERSION_N_def APPVERSION_P_def)
qed

end
