(* ===== verification/Printf.thy ===== *)
theory Printf
  imports Utils Digits
begin

text \<open>
  The formatted output of \<open>src/src/printf.c\<close> as the application builds it: without
  floating point, without \<open>ptrdiff_t\<close>, with \<open>PRINTF_NTOA_BUFFER_SIZE\<close> 9, for a 32-bit
  target (\<open>int\<close>, \<open>long\<close>, \<open>size_t\<close> and pointers of 32 bits, \<open>long long\<close> of 64,
  \<open>char\<close> unsigned, signed negation wrapping).  A format is the rest of the array the
  pointer points into: reading past the array is a \<open>Fault\<close>.  The output functions are
  values of the type \<open>out_fct\<close>, polymorphic in what they write to; every routine threads
  the pair of that object and \<open>idx\<close>.
\<close>

section \<open>Flags and output functions\<close>

definition FLAGS_ZEROPAD :: u32 where [const_defs]: "FLAGS_ZEROPAD = push_bit 0 1"
definition FLAGS_LEFT :: u32 where [const_defs]: "FLAGS_LEFT = push_bit 1 1"
definition FLAGS_PLUS :: u32 where [const_defs]: "FLAGS_PLUS = push_bit 2 1"
definition FLAGS_SPACE :: u32 where [const_defs]: "FLAGS_SPACE = push_bit 3 1"
definition FLAGS_HASH :: u32 where [const_defs]: "FLAGS_HASH = push_bit 4 1"
definition FLAGS_UPPERCASE :: u32 where [const_defs]: "FLAGS_UPPERCASE = push_bit 5 1"
definition FLAGS_CHAR :: u32 where [const_defs]: "FLAGS_CHAR = push_bit 6 1"
definition FLAGS_SHORT :: u32 where [const_defs]: "FLAGS_SHORT = push_bit 7 1"
definition FLAGS_LONG :: u32 where [const_defs]: "FLAGS_LONG = push_bit 8 1"
definition FLAGS_LONG_LONG :: u32 where [const_defs]: "FLAGS_LONG_LONG = push_bit 9 1"
definition FLAGS_PRECISION :: u32 where [const_defs]: "FLAGS_PRECISION = push_bit 10 1"

definition PRINTF_NTOA_BUFFER_SIZE :: nat where
  "PRINTF_NTOA_BUFFER_SIZE = 9"

abbreviation flag :: "u32 \<Rightarrow> u32 \<Rightarrow> bool" where
  "flag flags F \<equiv> flags AND F \<noteq> 0"

type_synonym 's out_fct = "u8 \<Rightarrow> 's \<Rightarrow> u32 \<Rightarrow> u32 \<Rightarrow> exn + 's"

definition out_buffer :: "u8 list out_fct" where
  "out_buffer character buffer idx maxlen =
     (if idx < maxlen then
        if unat idx < length buffer then Inr (buffer[unat idx := character]) else Inl Fault
      else Inr buffer)"

definition out_null :: "'s out_fct" where
  "out_null character buffer idx maxlen = Inr buffer"

text \<open>\<open>_putchar\<close> and the function of \<open>iost_fctprintf\<close> are a function on their own state.\<close>

definition out_char :: "(u8 \<Rightarrow> 's \<Rightarrow> 's) \<Rightarrow> 's out_fct" where
  "out_char putchar character dev idx maxlen =
     (if character \<noteq> 0 then Inr (putchar character dev) else Inr dev)"

definition out_fct :: "(u8 \<Rightarrow> 's \<Rightarrow> 's) \<Rightarrow> 's out_fct" where
  "out_fct fct character arg idx maxlen =
     (if character \<noteq> 0 then Inr (fct character arg) else Inr arg)"

text \<open>\<open>out(c, buffer, idx++, maxlen)\<close>\<close>

definition put :: "'s out_fct \<Rightarrow> u32 \<Rightarrow> u8 \<Rightarrow> 's \<times> u32 \<Rightarrow> exn + 's \<times> u32" where
  "put out maxlen c st =
     (case st of (buffer, idx) \<Rightarrow> bindE (out c buffer idx maxlen) (\<lambda>buffer. Inr (buffer, idx + 1)))"

section \<open>Strings and numbers in the format\<close>

text \<open>\<open>_strnlen_s\<close>: \<open>for (s = str; *s && maxsize--; ++s);\<close>\<close>

fun strnlen_s :: "u8 list \<Rightarrow> u32 \<Rightarrow> exn + u32" where
  "strnlen_s [] maxsize = Inl Fault"
| "strnlen_s (c # s) maxsize =
     (if c \<noteq> 0 \<and> maxsize \<noteq> 0 then bindE (strnlen_s s (maxsize - 1)) (\<lambda>n. Inr (n + 1)) else Inr 0)"

definition is_digit :: "u8 \<Rightarrow> bool" where
  "is_digit ch \<longleftrightarrow> ch \<ge> c8 CHR ''0'' \<and> ch \<le> c8 CHR ''9''"

text \<open>\<open>_atoi\<close>, with \<open>i\<close> so far; the pointer comes back with the value.\<close>

fun atoi :: "u8 list \<Rightarrow> u32 \<Rightarrow> exn + u32 \<times> u8 list" where
  "atoi [] i = Inl Fault"
| "atoi (c # str) i =
     (if is_digit c then atoi str (i * 10 + (ucast c - ucast (c8 CHR ''0''))) else Inr (i, c # str))"

section \<open>Padding and numbers\<close>

text \<open>The loops \<open>while (i < width) { out(' ', buffer, idx++, maxlen); i++; }\<close>, written
  \<open>for (i = len; i < width; i++)\<close> and \<open>while (l++ < width)\<close> in the source.\<close>

function pad_loop :: "'s out_fct \<Rightarrow> u32 \<Rightarrow> u32 \<Rightarrow> u32 \<Rightarrow> 's \<times> u32 \<Rightarrow> exn + 's \<times> u32" where
  "pad_loop out maxlen i width st =
     (if i < width
      then bindE (put out maxlen (c8 CHR '' '') st) (\<lambda>st. pad_loop out maxlen (i + 1) width st)
      else Inr st)"
  by pat_completeness auto
termination
  by (relation "measure (\<lambda>(out, maxlen, i, width, st). unat width - unat i)")
    (auto simp: unat_inc word_less_nat_alt)

declare pad_loop.simps [simp del]

text \<open>The loop \<open>while (idx - start_idx < width) out(' ', buffer, idx++, maxlen);\<close>\<close>

function post_pad_loop :: "'s out_fct \<Rightarrow> u32 \<Rightarrow> u32 \<Rightarrow> u32 \<Rightarrow> 's \<times> u32 \<Rightarrow> exn + 's \<times> u32" where
  "post_pad_loop out maxlen start_idx width st =
     (if snd st - start_idx < width
      then bindE (put out maxlen (c8 CHR '' '') st) (\<lambda>st. post_pad_loop out maxlen start_idx width st)
      else Inr st)"
  by pat_completeness auto
termination
proof (relation "measure (\<lambda>(out, maxlen, start_idx, width, st). unat width - unat (snd st - start_idx))")
  fix out :: "'s out_fct" and maxlen start_idx width :: u32 and st x :: "'s \<times> u32"
  assume lt: "snd st - start_idx < width" and "put out maxlen (c8 CHR '' '') st = Inr x"
  then have "snd x - start_idx = (snd st - start_idx) + 1"
    by (auto simp: put_def bindE_eq_Inr split: prod.splits)
  then have "unat (snd x - start_idx) = Suc (unat (snd st - start_idx))"
    by (simp only: unat_inc [OF lt])
  moreover have "unat (snd st - start_idx) < unat width" using lt by (simp add: word_less_nat_alt)
  ultimately show "((out, maxlen, start_idx, width, x), out, maxlen, start_idx, width, st)
      \<in> measure (\<lambda>(out, maxlen, start_idx, width, st). unat width - unat (snd st - start_idx))"
    by simp
qed simp

declare post_pad_loop.simps [simp del]

text \<open>\<open>while (len) out(buf[--len], buffer, idx++, maxlen);\<close>\<close>

primrec rev_loop :: "'s out_fct \<Rightarrow> u32 \<Rightarrow> u8 list \<Rightarrow> nat \<Rightarrow> 's \<times> u32 \<Rightarrow> exn + 's \<times> u32" where
  "rev_loop out maxlen buf 0 st = Inr st"
| "rev_loop out maxlen buf (Suc len) st =
     (if len < length buf
      then bindE (put out maxlen (buf ! len) st) (\<lambda>st. rev_loop out maxlen buf len st)
      else Inl Fault)"

definition out_rev ::
  "'s out_fct \<Rightarrow> u32 \<Rightarrow> u8 list \<Rightarrow> u32 \<Rightarrow> u32 \<Rightarrow> 's \<times> u32 \<Rightarrow> exn + 's \<times> u32" where
  "out_rev out maxlen buf width flags st =
     (let start_idx = snd st; len = length buf
      in bindE
           (if \<not> flag flags FLAGS_LEFT \<and> \<not> flag flags FLAGS_ZEROPAD
            then pad_loop out maxlen (of_nat len) width st else Inr st)
         (\<lambda>st. bindE (rev_loop out maxlen buf len st)
         (\<lambda>st. if flag flags FLAGS_LEFT then post_pad_loop out maxlen start_idx width st
               else Inr st)))"

text \<open>
  The conversion buffer \<open>buf\<close> is the list of the \<open>len\<close> characters stored so far:
  \<open>buf[len++] = c\<close> appends, \<open>len--\<close> drops the last one.
\<close>

function zeros_loop :: "u32 \<Rightarrow> u8 list \<Rightarrow> u8 list" where
  "zeros_loop bound buf =
     (if length buf < unat bound \<and> length buf < PRINTF_NTOA_BUFFER_SIZE
      then zeros_loop bound (buf @ [c8 CHR ''0'']) else buf)"
  by pat_completeness auto
termination
  by (relation "measure (\<lambda>(bound, buf). PRINTF_NTOA_BUFFER_SIZE - length buf)") auto

declare zeros_loop.simps [simp del]

definition ntoa_pad_zeros :: "u8 list \<Rightarrow> bool \<Rightarrow> u32 \<Rightarrow> u32 \<Rightarrow> u32 \<Rightarrow> u8 list \<times> u32" where
  "ntoa_pad_zeros buf negative prec width flags =
     (if \<not> flag flags FLAGS_LEFT then
        let width = (if width \<noteq> 0 \<and> flag flags FLAGS_ZEROPAD
                        \<and> (negative \<or> flag flags (FLAGS_PLUS OR FLAGS_SPACE))
                     then width - 1 else width);
            buf = zeros_loop prec buf;
            buf = (if flag flags FLAGS_ZEROPAD then zeros_loop width buf else buf)
        in (buf, width)
      else (buf, width))"

definition ntoa_hash :: "u8 list \<Rightarrow> u32 \<Rightarrow> u32 \<Rightarrow> u32 \<Rightarrow> u32 \<Rightarrow> u8 list" where
  "ntoa_hash buf base prec width flags =
     (if flag flags FLAGS_HASH then
        let buf = (if \<not> flag flags FLAGS_PRECISION \<and> buf \<noteq> []
                      \<and> (length buf = unat prec \<or> length buf = unat width)
                   then let buf = butlast buf
                        in if buf \<noteq> [] \<and> base = 16 then butlast buf else buf
                   else buf);
            buf = (if base = 16 \<and> \<not> flag flags FLAGS_UPPERCASE
                      \<and> length buf < PRINTF_NTOA_BUFFER_SIZE then buf @ [c8 CHR ''x'']
                   else if base = 16 \<and> flag flags FLAGS_UPPERCASE
                      \<and> length buf < PRINTF_NTOA_BUFFER_SIZE then buf @ [c8 CHR ''X'']
                   else if base = 2 \<and> length buf < PRINTF_NTOA_BUFFER_SIZE
                   then buf @ [c8 CHR ''b'']
                   else buf)
        in if length buf < PRINTF_NTOA_BUFFER_SIZE then buf @ [c8 CHR ''0''] else buf
      else buf)"

definition ntoa_sign :: "u8 list \<Rightarrow> bool \<Rightarrow> u32 \<Rightarrow> u8 list" where
  "ntoa_sign buf negative flags =
     (if length buf < PRINTF_NTOA_BUFFER_SIZE then
        if negative then buf @ [c8 CHR ''-'']
        else if flag flags FLAGS_PLUS then buf @ [c8 CHR ''+'']
        else if flag flags FLAGS_SPACE then buf @ [c8 CHR '' ''] else buf
      else buf)"

definition ntoa_format ::
  "'s out_fct \<Rightarrow> u32 \<Rightarrow> u8 list \<Rightarrow> bool \<Rightarrow> u32 \<Rightarrow> u32 \<Rightarrow> u32 \<Rightarrow> u32 \<Rightarrow> 's \<times> u32 \<Rightarrow> exn + 's \<times> u32"
where
  "ntoa_format out maxlen buf negative base prec width flags st =
     (let (buf, width) = ntoa_pad_zeros buf negative prec width flags;
          buf = ntoa_hash buf base prec width flags;
          buf = ntoa_sign buf negative flags
      in out_rev out maxlen buf width flags st)"

text \<open>The loop \<open>do { \<dots> } while (value && (len < PRINTF_NTOA_BUFFER_SIZE));\<close>\<close>

function ntoa_digits :: "'a::len word \<Rightarrow> 'a word \<Rightarrow> u32 \<Rightarrow> u8 list \<Rightarrow> u8 list" where
  "ntoa_digits val base flags buf =
     (let digit = (ucast (val mod base) :: u8);
          letter = (if digit < 10 then c8 CHR ''0'' + digit
                    else (if flag flags FLAGS_UPPERCASE then c8 CHR ''A'' else c8 CHR ''a'') + digit - 10);
          buf' = buf @ [letter];
          val = val div base
      in if val \<noteq> 0 \<and> length buf' < PRINTF_NTOA_BUFFER_SIZE then ntoa_digits val base flags buf'
         else buf')"
  by pat_completeness auto
termination
  by (relation "measure (\<lambda>(val, base, flags, buf). PRINTF_NTOA_BUFFER_SIZE - length buf)")
    auto

declare ntoa_digits.simps [simp del]

definition ntoa_long ::
  "'s out_fct \<Rightarrow> u32 \<Rightarrow> u32 \<Rightarrow> bool \<Rightarrow> u32 \<Rightarrow> u32 \<Rightarrow> u32 \<Rightarrow> u32 \<Rightarrow> 's \<times> u32 \<Rightarrow> exn + 's \<times> u32"
where
  "ntoa_long out maxlen val negative base prec width flags st =
     (let flags = (if val = 0 then flags AND NOT FLAGS_HASH else flags);
          buf = (if \<not> flag flags FLAGS_PRECISION \<or> val \<noteq> 0 then ntoa_digits val base flags [] else [])
      in ntoa_format out maxlen buf negative base prec width flags st)"

definition ntoa_long_long ::
  "'s out_fct \<Rightarrow> u32 \<Rightarrow> u64 \<Rightarrow> bool \<Rightarrow> u64 \<Rightarrow> u32 \<Rightarrow> u32 \<Rightarrow> u32 \<Rightarrow> 's \<times> u32 \<Rightarrow> exn + 's \<times> u32"
where
  "ntoa_long_long out maxlen val negative base prec width flags st =
     (let flags = (if val = 0 then flags AND NOT FLAGS_HASH else flags);
          buf = (if \<not> flag flags FLAGS_PRECISION \<or> val \<noteq> 0 then ntoa_digits val base flags [] else [])
      in ntoa_format out maxlen buf negative (ucast base) prec width flags st)"

section \<open>Conversion specifications\<close>

text \<open>
  The arguments behind a \<open>va_list\<close>: 32-bit integers, 64-bit integers and pointers (the
  address, and the rest of the array it points into).  Taking an argument that is not
  there, or of another size or kind, is a \<open>Fault\<close>.
\<close>

datatype va = VInt u32 | VLongLong u64 | VPtr u32 "u8 list"

fun va_int :: "va list \<Rightarrow> exn + u32 \<times> va list" where
  "va_int (VInt i # va) = Inr (i, va)"
| "va_int _ = Inl Fault"

fun va_long_long :: "va list \<Rightarrow> exn + u64 \<times> va list" where
  "va_long_long (VLongLong i # va) = Inr (i, va)"
| "va_long_long _ = Inl Fault"

fun va_ptr :: "va list \<Rightarrow> exn + (u32 \<times> u8 list) \<times> va list" where
  "va_ptr (VPtr a p # va) = Inr ((a, p), va)"
| "va_ptr _ = Inl Fault"

text \<open>\<open>*format\<close>\<close>

definition peek :: "u8 list \<Rightarrow> exn + u8" where
  "peek format = (case format of [] \<Rightarrow> Inl Fault | c # _ \<Rightarrow> Inr c)"

fun parse_flags :: "u8 list \<Rightarrow> u32 \<Rightarrow> exn + u32 \<times> u8 list" where
  "parse_flags [] flags = Inl Fault"
| "parse_flags (c # format) flags =
     (if c = c8 CHR ''0'' then parse_flags format (flags OR FLAGS_ZEROPAD)
      else if c = c8 CHR ''-'' then parse_flags format (flags OR FLAGS_LEFT)
      else if c = c8 CHR ''+'' then parse_flags format (flags OR FLAGS_PLUS)
      else if c = c8 CHR '' '' then parse_flags format (flags OR FLAGS_SPACE)
      else if c = c8 CHR ''#'' then parse_flags format (flags OR FLAGS_HASH)
      else Inr (flags, c # format))"

text \<open>The width field: the new flags, the width, the format and the arguments left.\<close>

definition parse_width ::
  "u8 list \<Rightarrow> u32 \<Rightarrow> va list \<Rightarrow> exn + u32 \<times> u32 \<times> u8 list \<times> va list" where
  "parse_width format flags va =
     bindE (peek format) (\<lambda>c.
       if is_digit c then bindE (atoi format 0) (\<lambda>(width, format). Inr (flags, width, format, va))
       else if c = c8 CHR ''*'' then
         bindE (va_int va) (\<lambda>(w, va).
           if w <s 0 then Inr (flags OR FLAGS_LEFT, - w, tl format, va)
           else Inr (flags, w, tl format, va))
       else Inr (flags, 0, format, va))"

definition parse_precision ::
  "u8 list \<Rightarrow> u32 \<Rightarrow> va list \<Rightarrow> exn + u32 \<times> u32 \<times> u8 list \<times> va list" where
  "parse_precision format flags va =
     bindE (peek format) (\<lambda>c.
       if c = c8 CHR ''.'' then
         let flags = flags OR FLAGS_PRECISION; format = tl format
         in bindE (peek format) (\<lambda>c.
              if is_digit c then bindE (atoi format 0) (\<lambda>(prec, format). Inr (flags, prec, format, va))
              else if c = c8 CHR ''*'' then
                bindE (va_int va) (\<lambda>(prec, va).
                  Inr (flags, if 0 <s prec then prec else 0, tl format, va))
              else Inr (flags, 0, format, va))
       else Inr (flags, 0, format, va))"

definition parse_length :: "u8 list \<Rightarrow> u32 \<Rightarrow> exn + u32 \<times> u8 list" where
  "parse_length format flags =
     bindE (peek format) (\<lambda>c.
       if c = c8 CHR ''l'' then
         let flags = flags OR FLAGS_LONG; format = tl format
         in bindE (peek format) (\<lambda>c.
              if c = c8 CHR ''l'' then Inr (flags OR FLAGS_LONG_LONG, tl format)
              else Inr (flags, format))
       else if c = c8 CHR ''h'' then
         let flags = flags OR FLAGS_SHORT; format = tl format
         in bindE (peek format) (\<lambda>c.
              if c = c8 CHR ''h'' then Inr (flags OR FLAGS_CHAR, tl format)
              else Inr (flags, format))
       else if c = c8 CHR ''j'' then Inr (flags OR FLAGS_LONG_LONG, tl format)
       else if c = c8 CHR ''z'' then Inr (flags OR FLAGS_LONG, tl format)
       else Inr (flags, format))"

text \<open>The magnitude \<open>(unsigned)(value > 0 ? value : 0 - value)\<close> of a signed integer.\<close>

definition magnitude :: "'a::len word \<Rightarrow> 'a word" where
  "magnitude val = (if 0 <s val then val else 0 - val)"

definition convert_integer ::
  "'s out_fct \<Rightarrow> u32 \<Rightarrow> u8 \<Rightarrow> u32 \<Rightarrow> u32 \<Rightarrow> u32 \<Rightarrow> va list \<Rightarrow> 's \<times> u32
   \<Rightarrow> exn + va list \<times> 's \<times> u32" where
  "convert_integer out maxlen c flags width precision va st =
     (let base = (if c = c8 CHR ''x'' \<or> c = c8 CHR ''X'' then 16
                  else if c = c8 CHR ''o'' then 8 else if c = c8 CHR ''b'' then 2 else 10) :: u32;
          flags = (if base = 10 then flags AND NOT FLAGS_HASH else flags);
          flags = (if c = c8 CHR ''X'' then flags OR FLAGS_UPPERCASE else flags);
          flags = (if c \<noteq> c8 CHR ''i'' \<and> c \<noteq> c8 CHR ''d''
                   then flags AND NOT (FLAGS_PLUS OR FLAGS_SPACE) else flags);
          flags = (if flag flags FLAGS_PRECISION then flags AND NOT FLAGS_ZEROPAD else flags)
      in if c = c8 CHR ''i'' \<or> c = c8 CHR ''d'' then
           if flag flags FLAGS_LONG_LONG then
             bindE (va_long_long va) (\<lambda>(val, va).
             bindE (ntoa_long_long out maxlen (magnitude val) (val <s 0) (ucast base) precision width flags st)
               (\<lambda>st. Inr (va, st)))
           else if flag flags FLAGS_LONG then
             bindE (va_int va) (\<lambda>(val, va).
             bindE (ntoa_long out maxlen (magnitude val) (val <s 0) base precision width flags st)
               (\<lambda>st. Inr (va, st)))
           else
             bindE (va_int va) (\<lambda>(arg, va).
               let val = (if flag flags FLAGS_CHAR then ucast (ucast arg :: u8)
                          else if flag flags FLAGS_SHORT then scast (ucast arg :: u16) else arg)
               in bindE (ntoa_long out maxlen (magnitude val) (val <s 0) base precision width flags st)
                    (\<lambda>st. Inr (va, st)))
         else
           if flag flags FLAGS_LONG_LONG then
             bindE (va_long_long va) (\<lambda>(val, va).
             bindE (ntoa_long_long out maxlen val False (ucast base) precision width flags st)
               (\<lambda>st. Inr (va, st)))
           else if flag flags FLAGS_LONG then
             bindE (va_int va) (\<lambda>(val, va).
             bindE (ntoa_long out maxlen val False base precision width flags st)
               (\<lambda>st. Inr (va, st)))
           else
             bindE (va_int va) (\<lambda>(arg, va).
               let val = (if flag flags FLAGS_CHAR then ucast (ucast arg :: u8)
                          else if flag flags FLAGS_SHORT then ucast (ucast arg :: u16) else arg)
               in bindE (ntoa_long out maxlen val False base precision width flags st)
                    (\<lambda>st. Inr (va, st))))"

definition convert_char ::
  "'s out_fct \<Rightarrow> u32 \<Rightarrow> u32 \<Rightarrow> u32 \<Rightarrow> va list \<Rightarrow> 's \<times> u32 \<Rightarrow> exn + va list \<times> 's \<times> u32" where
  "convert_char out maxlen flags width va st =
     bindE (if \<not> flag flags FLAGS_LEFT then pad_loop out maxlen 1 width st else Inr st) (\<lambda>st.
     bindE (va_int va) (\<lambda>(c, va).
     bindE (put out maxlen (ucast c) st) (\<lambda>st.
     bindE (if flag flags FLAGS_LEFT then pad_loop out maxlen 1 width st else Inr st) (\<lambda>st.
     Inr (va, st)))))"

text \<open>\<open>while ((*p != 0) && (!(flags & FLAGS_PRECISION) || precision--)) out(*(p++), \<dots>);\<close>\<close>

fun string_loop ::
  "'s out_fct \<Rightarrow> u32 \<Rightarrow> u32 \<Rightarrow> u8 list \<Rightarrow> u32 \<Rightarrow> 's \<times> u32 \<Rightarrow> exn + 's \<times> u32" where
  "string_loop out maxlen flags [] precision st = Inl Fault"
| "string_loop out maxlen flags (c # p) precision st =
     (if c \<noteq> 0 \<and> (\<not> flag flags FLAGS_PRECISION \<or> precision \<noteq> 0) then
        bindE (put out maxlen c st) (\<lambda>st.
          string_loop out maxlen flags p
            (if flag flags FLAGS_PRECISION then precision - 1 else precision) st)
      else Inr st)"

definition convert_string ::
  "'s out_fct \<Rightarrow> u32 \<Rightarrow> u32 \<Rightarrow> u32 \<Rightarrow> u32 \<Rightarrow> va list \<Rightarrow> 's \<times> u32 \<Rightarrow> exn + va list \<times> 's \<times> u32" where
  "convert_string out maxlen flags width precision va st =
     bindE (va_ptr va) (\<lambda>((_, p), va).
     bindE (strnlen_s p (if precision \<noteq> 0 then precision else - 1)) (\<lambda>l.
       let l = (if flag flags FLAGS_PRECISION then (if l < precision then l else precision) else l)
       in bindE (if \<not> flag flags FLAGS_LEFT then pad_loop out maxlen l width st else Inr st) (\<lambda>st.
          bindE (string_loop out maxlen flags p precision st) (\<lambda>st.
          bindE (if flag flags FLAGS_LEFT then pad_loop out maxlen l width st else Inr st) (\<lambda>st.
          Inr (va, st))))))"

definition convert_pointer ::
  "'s out_fct \<Rightarrow> u32 \<Rightarrow> u32 \<Rightarrow> u32 \<Rightarrow> va list \<Rightarrow> 's \<times> u32 \<Rightarrow> exn + va list \<times> 's \<times> u32" where
  "convert_pointer out maxlen flags precision va st =
     (let width = 4 * 2; flags = flags OR (FLAGS_ZEROPAD OR FLAGS_UPPERCASE)
      in bindE (va_ptr va) (\<lambda>((address, _), va).
         bindE (ntoa_long out maxlen address False 16 precision width flags st) (\<lambda>st.
         Inr (va, st))))"

text \<open>
  One conversion specification, the format behind its \<open>%\<close>: first the fields, giving
  flags, width, precision, the conversion character, the format from that character on and
  the arguments left; then the conversion.
\<close>

definition parse_spec ::
  "u8 list \<Rightarrow> va list \<Rightarrow> exn + u32 \<times> u32 \<times> u32 \<times> u8 \<times> u8 list \<times> va list" where
  "parse_spec format va =
     bindE (parse_flags format 0) (\<lambda>(flags, format).
     bindE (parse_width format flags va) (\<lambda>(flags, width, format, va).
     bindE (parse_precision format flags va) (\<lambda>(flags, precision, format, va).
     bindE (parse_length format flags) (\<lambda>(flags, format).
     bindE (peek format) (\<lambda>c.
     Inr (flags, width, precision, c, format, va))))))"

definition convert_spec ::
  "'s out_fct \<Rightarrow> u32 \<Rightarrow> u8 \<Rightarrow> u32 \<Rightarrow> u32 \<Rightarrow> u32 \<Rightarrow> va list \<Rightarrow> 's \<times> u32
   \<Rightarrow> exn + va list \<times> 's \<times> u32" where
  "convert_spec out maxlen c flags width precision va st =
     (if c \<in> set (chars_2_bytes ''diuxXob'')
      then convert_integer out maxlen c flags width precision va st
      else if c = c8 CHR ''c'' then convert_char out maxlen flags width va st
      else if c = c8 CHR ''s'' then convert_string out maxlen flags width precision va st
      else if c = c8 CHR ''p'' then convert_pointer out maxlen flags precision va st
      else if c = c8 CHR ''%'' then bindE (put out maxlen (c8 CHR ''%'') st) (\<lambda>st. Inr (va, st))
      else bindE (put out maxlen c st) (\<lambda>st. Inr (va, st)))"

definition convert ::
  "'s out_fct \<Rightarrow> u32 \<Rightarrow> u8 list \<Rightarrow> va list \<Rightarrow> 's \<times> u32 \<Rightarrow> exn + u8 list \<times> va list \<times> 's \<times> u32" where
  "convert out maxlen format va st =
     bindE (parse_spec format va) (\<lambda>(flags, width, precision, c, format, va).
     bindE (convert_spec out maxlen c flags width precision va st) (\<lambda>(va, st).
     Inr (tl format, va, st)))"

lemma length_tl_less: "peek format = Inr c \<Longrightarrow> length (tl format) < length format"
  by (auto simp: peek_def split: list.splits)

lemma parse_flags_shorter: "parse_flags format flags = Inr (f, r) \<Longrightarrow> length r \<le> length format"
  by (induction format flags rule: parse_flags.induct) (auto split: if_splits)

lemma atoi_shorter: "atoi format i = Inr (n, r) \<Longrightarrow> length r \<le> length format"
  by (induction format i rule: atoi.induct) (auto split: if_splits)

lemma parse_width_shorter:
  "parse_width format flags va = Inr (f, w, r, va') \<Longrightarrow> length r \<le> length format"
  by (auto simp: parse_width_def bindE_eq_Inr dest: atoi_shorter split: if_splits prod.splits)

lemma parse_precision_shorter:
  "parse_precision format flags va = Inr (f, w, r, va') \<Longrightarrow> length r \<le> length format"
  by (auto simp: parse_precision_def Let_def bindE_eq_Inr dest!: atoi_shorter split: if_splits prod.splits)

lemma parse_length_shorter:
  "parse_length format flags = Inr (f, r) \<Longrightarrow> length r \<le> length format"
  by (auto simp: parse_length_def Let_def bindE_eq_Inr split: if_splits)

lemma parse_spec_shorter:
  assumes "parse_spec format va = Inr (f, w, p, c, r, va')"
  shows "length (tl r) < length format"
proof -
  from assms obtain f1 r1 f2 r2 v2 f3 r3 where
    s: "parse_flags format 0 = Inr (f1, r1)" "parse_width r1 f1 va = Inr (f2, w, r2, v2)"
    "parse_precision r2 f2 v2 = Inr (f3, p, r3, va')" "parse_length r3 f3 = Inr (f, r)"
    "peek r = Inr c"
    unfolding parse_spec_def by (auto simp: bindE_eq_Inr)
  show ?thesis
    using parse_flags_shorter [OF s(1)] parse_width_shorter [OF s(2)] parse_precision_shorter [OF s(3)]
      parse_length_shorter [OF s(4)] length_tl_less [OF s(5)] by linarith
qed

lemma convert_shorter: "convert out maxlen format va st = Inr (r, va', st') \<Longrightarrow> length r < length format"
  by (auto simp: convert_def bindE_eq_Inr dest: parse_spec_shorter)

section \<open>The main loop and the entry points\<close>

function vsnprintf_loop ::
  "'s out_fct \<Rightarrow> u32 \<Rightarrow> u8 list \<Rightarrow> va list \<Rightarrow> 's \<times> u32 \<Rightarrow> exn + 's \<times> u32" where
  "vsnprintf_loop out maxlen format va st =
     bindE (peek format) (\<lambda>c.
       if c = 0 then Inr st
       else if c \<noteq> c8 CHR ''%'' then
         bindE (put out maxlen c st) (\<lambda>st. vsnprintf_loop out maxlen (tl format) va st)
       else bindE (convert out maxlen (tl format) va st) (\<lambda>(format, va, st).
              vsnprintf_loop out maxlen format va st))"
  by pat_completeness auto
termination
  by (relation "measure (\<lambda>(out, maxlen, format, va, st). length format)")
    (auto dest: length_tl_less convert_shorter)

declare vsnprintf_loop.simps [simp del]

text \<open>The terminating null character and the return value \<open>(int) idx\<close>.\<close>

definition vsnprintf_end :: "'s out_fct \<Rightarrow> u32 \<Rightarrow> 's \<times> u32 \<Rightarrow> exn + 's \<times> u32" where
  "vsnprintf_end out maxlen st =
     (case st of (buffer, idx) \<Rightarrow>
        bindE (out 0 buffer (if idx < maxlen then idx else maxlen - 1) maxlen)
          (\<lambda>buffer. Inr (buffer, idx)))"

definition vsnprintf :: "'s out_fct \<Rightarrow> 's \<Rightarrow> u32 \<Rightarrow> u8 list \<Rightarrow> va list \<Rightarrow> exn + 's \<times> u32" where
  "vsnprintf out buffer maxlen format va =
     bindE (vsnprintf_loop out maxlen format va (buffer, 0)) (vsnprintf_end out maxlen)"

text \<open>
  \<open>_iost_vsnprintf\<close> with a buffer (\<open>Some b\<close>) or the null pointer, for which the output
  function is replaced by \<open>_out_null\<close>.
\<close>

definition internal_vsnprintf ::
  "'s out_fct \<Rightarrow> 's option \<Rightarrow> u32 \<Rightarrow> u8 list \<Rightarrow> va list \<Rightarrow> exn + 's option \<times> u32" where
  "internal_vsnprintf out buffer maxlen format va =
     (case buffer of
        None \<Rightarrow> bindE (vsnprintf out_null () maxlen format va) (\<lambda>(_, n). Inr (None, n))
      | Some b \<Rightarrow> bindE (vsnprintf out b maxlen format va) (\<lambda>(b, n). Inr (Some b, n)))"

definition iost_printf :: "(u8 \<Rightarrow> 's \<Rightarrow> 's) \<Rightarrow> 's \<Rightarrow> u8 list \<Rightarrow> va list \<Rightarrow> exn + 's \<times> u32" where
  "iost_printf putchar dev format va = vsnprintf (out_char putchar) dev (- 1) format va"

definition iost_sprintf :: "u8 list option \<Rightarrow> u8 list \<Rightarrow> va list \<Rightarrow> exn + u8 list option \<times> u32" where
  "iost_sprintf buffer format va = internal_vsnprintf out_buffer buffer (- 1) format va"

definition iost_snprintf ::
  "u8 list option \<Rightarrow> u32 \<Rightarrow> u8 list \<Rightarrow> va list \<Rightarrow> exn + u8 list option \<times> u32" where
  "iost_snprintf buffer count format va = internal_vsnprintf out_buffer buffer count format va"

definition iost_vprintf :: "(u8 \<Rightarrow> 's \<Rightarrow> 's) \<Rightarrow> 's \<Rightarrow> u8 list \<Rightarrow> va list \<Rightarrow> exn + 's \<times> u32" where
  "iost_vprintf putchar dev format va = vsnprintf (out_char putchar) dev (- 1) format va"

definition iost_vsnprintf ::
  "u8 list option \<Rightarrow> u32 \<Rightarrow> u8 list \<Rightarrow> va list \<Rightarrow> exn + u8 list option \<times> u32" where
  "iost_vsnprintf buffer count format va = internal_vsnprintf out_buffer buffer count format va"

definition iost_fctprintf :: "(u8 \<Rightarrow> 's \<Rightarrow> 's) \<Rightarrow> 's \<Rightarrow> u8 list \<Rightarrow> va list \<Rightarrow> exn + 's \<times> u32" where
  "iost_fctprintf fct arg format va = vsnprintf (out_fct fct) arg (- 1) format va"

end
