(* ===== verification/Printf_Spec.thy ===== *)
theory Printf_Spec
  imports Printf
begin

text \<open>
  What the formatted output of theory \<open>Printf\<close> prints.  Every routine only hands a list
  of characters, its text, to the output function one by one; the text does not depend on
  the output function.  The locale \<open>sink\<close> states what the application's output functions
  have in common and holds the proof; it is interpreted on all four of them and on a
  fifth one, \<open>out_trace\<close>, that records the text.  From this follow what
  \<open>iost_snprintf\<close> leaves in its buffer and what the conversions print.
\<close>

section \<open>Characters handed to an output function\<close>

fun emit_all :: "'s out_fct \<Rightarrow> u32 \<Rightarrow> u8 list \<Rightarrow> 's \<times> u32 \<Rightarrow> exn + 's \<times> u32" where
  "emit_all out maxlen [] st = Inr st"
| "emit_all out maxlen (c # cs) st = bindE (put out maxlen c st) (emit_all out maxlen cs)"

lemma emit_all_append:
  "emit_all out m (xs @ ys) st = bindE (emit_all out m xs st) (emit_all out m ys)"
  by (induction xs arbitrary: st) (auto simp: bindE_assoc intro: bindE_cong)

lemma emit_all_idx: "emit_all out m cs st = Inr st' \<Longrightarrow> snd st' = snd st + of_nat (length cs)"
proof (induction cs arbitrary: st)
  case (Cons c cs)
  then obtain st1 where "put out m c st = Inr st1" "emit_all out m cs st1 = Inr st'"
    by (auto simp: bindE_eq_Inr)
  moreover from this(1) have "snd st1 = snd st + 1"
    by (auto simp: put_def bindE_eq_Inr split: prod.splits)
  ultimately show ?case using Cons.IH [of st1] by (simp add: ac_simps)
qed simp

section \<open>The texts of the routines\<close>

abbreviation "spaces n \<equiv> replicate n (c8 CHR '' '')"

lemma pad_loop_emit: "pad_loop out m i width st = emit_all out m (spaces (unat width - unat i)) st"
proof (induction out m i width st rule: pad_loop.induct)
  case (1 out m i width st)
  show ?case
  proof (cases "i < width")
    case True
    then have "unat width - unat i = Suc (unat width - unat (i + 1))"
      by (simp add: unat_inc) (simp add: word_less_nat_alt)
    with 1 True show ?thesis
      by (subst pad_loop.simps) (cases "put out m (c8 CHR '' '') st"; simp)
  next
    case False
    then show ?thesis by (simp add: pad_loop.simps [of out m i] word_less_nat_alt)
  qed
qed

lemma post_pad_loop_emit:
  "post_pad_loop out m start width st = emit_all out m (spaces (unat width - unat (snd st - start))) st"
proof (induction out m start width st rule: post_pad_loop.induct)
  case (1 out m start width st)
  show ?case
  proof (cases "snd st - start < width")
    case True
    show ?thesis
    proof (cases "put out m (c8 CHR '' '') st")
      case (Inl e)
      have "unat width - unat (snd st - start) \<noteq> 0" using True by (simp add: word_less_nat_alt)
      then obtain k where "unat width - unat (snd st - start) = Suc k" by (cases "unat width - unat (snd st - start)") auto
      with True Inl show ?thesis by (simp add: post_pad_loop.simps [of out m start])
    next
      case (Inr st')
      then have "snd st' - start = (snd st - start) + 1"
        by (auto simp: put_def bindE_eq_Inr split: prod.splits)
      then have "unat (snd st' - start) = Suc (unat (snd st - start))"
        by (simp only: unat_inc [OF True])
      moreover have "unat (snd st - start) < unat width" using True by (simp add: word_less_nat_alt)
      ultimately have "unat width - unat (snd st - start) = Suc (unat width - unat (snd st' - start))"
        by simp
      with 1 [OF True Inr] True Inr show ?thesis by (simp add: post_pad_loop.simps [of out m start _ st])
    qed
  next
    case False
    then show ?thesis by (simp add: post_pad_loop.simps [of out m start] word_less_nat_alt)
  qed
qed

lemma rev_loop_emit:
  "len \<le> length buf \<Longrightarrow> rev_loop out m buf len st = emit_all out m (rev (take len buf)) st"
proof (induction len arbitrary: st)
  case (Suc len)
  then show ?case by (cases "put out m (buf ! len) st") (simp_all add: take_Suc_conv_app_nth)
qed simp

definition out_rev_text :: "u8 list \<Rightarrow> u32 \<Rightarrow> u32 \<Rightarrow> u8 list" where
  "out_rev_text buf width flags =
     (if flag flags FLAGS_LEFT then rev buf @ spaces (unat width - length buf)
      else if flag flags FLAGS_ZEROPAD then rev buf
      else spaces (unat width - length buf) @ rev buf)"

lemma out_rev_emit:
  assumes "length buf < 2 ^ 32"
  shows "out_rev out m buf width flags st = emit_all out m (out_rev_text buf width flags) st"
proof -
  have len: "unat (of_nat (length buf) :: u32) = length buf"
    using assms by (simp add: unat_of_nat take_bit_nat_eq_self)
  have post: "bindE (emit_all out m (rev buf) st) (\<lambda>st'. post_pad_loop out m (snd st) width st')
      = emit_all out m (rev buf @ spaces (unat width - length buf)) st"
    unfolding emit_all_append
    by (rule bindE_cong) (auto simp: post_pad_loop_emit emit_all_idx len)
  show ?thesis
    using post
    by (auto simp: out_rev_def out_rev_text_def Let_def pad_loop_emit rev_loop_emit len emit_all_append)
qed

text \<open>The conversion buffer never holds more than nine characters.\<close>

lemma zeros_loop_length: "length buf \<le> 9 \<Longrightarrow> length (zeros_loop b buf) \<le> 9"
  by (induction b buf rule: zeros_loop.induct)
    (subst zeros_loop.simps, simp add: PRINTF_NTOA_BUFFER_SIZE_def)

lemma ntoa_pad_zeros_length: "length buf \<le> 9 \<Longrightarrow> length (fst (ntoa_pad_zeros buf negative prec width flags)) \<le> 9"
  by (simp add: ntoa_pad_zeros_def Let_def zeros_loop_length)

lemma ntoa_hash_length: "length buf \<le> 9 \<Longrightarrow> length (ntoa_hash buf base prec width flags) \<le> 9"
  by (auto simp: ntoa_hash_def Let_def PRINTF_NTOA_BUFFER_SIZE_def)

lemma ntoa_sign_length: "length buf \<le> 9 \<Longrightarrow> length (ntoa_sign buf negative flags) \<le> 9"
  by (simp add: ntoa_sign_def PRINTF_NTOA_BUFFER_SIZE_def)

lemma ntoa_digits_length: "length buf < 9 \<Longrightarrow> length (ntoa_digits val base flags buf) \<le> 9"
proof (induction val base flags buf rule: ntoa_digits.induct)
  case (1 val base flags buf)
  then show ?case
    by (subst ntoa_digits.simps) (simp add: Let_def PRINTF_NTOA_BUFFER_SIZE_def)
qed

definition ntoa_format_text :: "u8 list \<Rightarrow> bool \<Rightarrow> u32 \<Rightarrow> u32 \<Rightarrow> u32 \<Rightarrow> u32 \<Rightarrow> u8 list" where
  "ntoa_format_text buf negative base prec width flags =
     (let (buf, width) = ntoa_pad_zeros buf negative prec width flags
      in out_rev_text (ntoa_sign (ntoa_hash buf base prec width flags) negative flags) width flags)"

lemma ntoa_format_emit:
  assumes "length buf \<le> 9"
  shows "ntoa_format out m buf negative base prec width flags st
    = emit_all out m (ntoa_format_text buf negative base prec width flags) st"
proof -
  obtain buf' width' where p: "ntoa_pad_zeros buf negative prec width flags = (buf', width')"
    by fastforce
  have "length (ntoa_sign (ntoa_hash buf' base prec width' flags) negative flags) \<le> 9"
    using ntoa_pad_zeros_length [OF assms, of negative prec width flags] p
    by (intro ntoa_sign_length ntoa_hash_length) simp
  then have "length (ntoa_sign (ntoa_hash buf' base prec width' flags) negative flags) < 2 ^ 32" by simp
  then show ?thesis by (simp add: ntoa_format_def ntoa_format_text_def p Let_def out_rev_emit)
qed

definition ntoa_text :: "'a::len word \<Rightarrow> bool \<Rightarrow> 'a word \<Rightarrow> u32 \<Rightarrow> u32 \<Rightarrow> u32 \<Rightarrow> u8 list" where
  "ntoa_text val negative base prec width flags =
     (let flags = (if val = 0 then flags AND NOT FLAGS_HASH else flags);
          buf = (if \<not> flag flags FLAGS_PRECISION \<or> val \<noteq> 0 then ntoa_digits val base flags [] else [])
      in ntoa_format_text buf negative (ucast base) prec width flags)"

lemma ntoa_emit:
  "ntoa_long out m val32 negative base32 prec width flags st
     = emit_all out m (ntoa_text val32 negative base32 prec width flags) st"
  "ntoa_long_long out m val64 negative base64 prec width flags st
     = emit_all out m (ntoa_text val64 negative base64 prec width flags) st"
  unfolding ntoa_long_def ntoa_long_long_def ntoa_text_def Let_def
  by (simp_all add: ntoa_format_emit ntoa_digits_length)

section \<open>Output functions\<close>

text \<open>The state of an output function after a text, \<open>idx\<close> counting up.\<close>

fun emitted :: "(u8 \<Rightarrow> 's \<Rightarrow> u32 \<Rightarrow> u32 \<Rightarrow> 's) \<Rightarrow> u32 \<Rightarrow> u8 list \<Rightarrow> 's \<times> u32 \<Rightarrow> 's \<times> u32" where
  "emitted upd maxlen [] st = st"
| "emitted upd maxlen (c # cs) (b, idx) = emitted upd maxlen cs (upd c b idx maxlen, idx + 1)"

definition out_trace :: "u8 list out_fct" where
  "out_trace c b idx maxlen = Inr (b @ [c])"

lemma emit_trace: "emit_all out_trace m cs (b, i) = Inr (b @ cs, i + of_nat (length cs))"
  by (induction cs arbitrary: b i) (simp_all add: put_def out_trace_def)

lemma put_trace: "put out_trace m c (b, i) = Inr (b @ [c], i + 1)"
  by (simp add: put_def out_trace_def)

lemma emitted_trace: "emitted (\<lambda>c b i m. b @ [c]) m cs (b, i) = (b @ cs, i + of_nat (length cs))"
  by (induction cs arbitrary: b i) simp_all

text \<open>The text a format and its arguments stand for.\<close>

definition format_text :: "u8 list \<Rightarrow> va list \<Rightarrow> exn + u8 list" where
  "format_text format va =
     bindE (vsnprintf_loop out_trace 0 format va ([], 0)) (\<lambda>(t, _). Inr t)"

text \<open>A result that carries the recorded text, turned into one that carries the state of
  another output function after that text.\<close>

definition replay ::
  "(u8 \<Rightarrow> 's \<Rightarrow> u32 \<Rightarrow> u32 \<Rightarrow> 's) \<Rightarrow> u32 \<Rightarrow> 's \<times> u32 \<Rightarrow> exn + 'r \<times> u8 list \<times> u32 \<Rightarrow> exn + 'r \<times> 's \<times> u32"
where
  "replay upd m st r = bindE r (\<lambda>(x, t, _). Inr (x, emitted upd m t st))"

lemma replay_bindE: "replay upd m st (bindE r f) = bindE r (\<lambda>x. replay upd m st (f x))"
  by (simp add: replay_def bindE_assoc)

lemma replay_if: "replay upd m st (if b then r else s) = (if b then replay upd m st r else replay upd m st s)"
  by simp

lemma replay_prod: "replay upd m st (case p of (a, b) \<Rightarrow> f a b) = (case p of (a, b) \<Rightarrow> replay upd m st (f a b))"
  by (cases p) simp

lemma replay_Inr: "replay upd m st (Inr (x, t, n)) = Inr (x, emitted upd m t st)"
  by (simp add: replay_def)

lemma replay_Inl: "replay upd m st (Inl e) = Inl e"
  by (simp add: replay_def)

lemma emitted_append: "emitted upd m (xs @ ys) st = emitted upd m ys (emitted upd m xs st)"
  by (induction xs arbitrary: st) auto

lemma emitted_Cons: "emitted upd m (c # cs) st = emitted upd m cs (emitted upd m [c] st)"
  by (cases st) simp

text \<open>The characters \<open>%s\<close> prints.\<close>

fun string_text :: "u32 \<Rightarrow> u8 list \<Rightarrow> u32 \<Rightarrow> exn + u8 list" where
  "string_text flags [] precision = Inl Fault"
| "string_text flags (c # p) precision =
     (if c \<noteq> 0 \<and> (\<not> flag flags FLAGS_PRECISION \<or> precision \<noteq> 0) then
        bindE (string_text flags p (if flag flags FLAGS_PRECISION then precision - 1 else precision))
          (\<lambda>t. Inr (c # t))
      else Inr [])"

lemma if_emit: "(if b then emit_all o' m cs st else Inr st) = emit_all o' m (if b then cs else []) st"
  by simp

lemma put_emit: "put o' m c st = emit_all o' m [c] st"
  by (cases "put o' m c st") simp_all

lemma convert_char_emit:
  "convert_char o' m flags width va st =
     bindE (emit_all o' m (if \<not> flag flags FLAGS_LEFT then spaces (unat width - unat (1 :: u32)) else []) st) (\<lambda>st.
     bindE (va_int va) (\<lambda>(c, va).
     bindE (emit_all o' m [ucast c] st) (\<lambda>st.
     bindE (emit_all o' m (if flag flags FLAGS_LEFT then spaces (unat width - unat (1 :: u32)) else []) st) (\<lambda>st.
     Inr (va, st)))))"
  by (simp only: convert_char_def pad_loop_emit if_emit put_emit)

locale sink =
  fixes out :: "'s out_fct"
    and upd :: "u8 \<Rightarrow> 's \<Rightarrow> u32 \<Rightarrow> u32 \<Rightarrow> 's"
    and ok :: "'s \<Rightarrow> u32 \<Rightarrow> bool"
  assumes out_upd: "ok b m \<Longrightarrow> out c b idx m = Inr (upd c b idx m)"
    and ok_upd: "ok b m \<Longrightarrow> ok (upd c b idx m) m"
begin

lemma emit_emitted:
  "ok (fst st) m \<Longrightarrow> emit_all out m cs st = Inr (emitted upd m cs st) \<and> ok (fst (emitted upd m cs st)) m"
proof (induction cs arbitrary: st)
  case (Cons c cs)
  obtain b i where st: "st = (b, i)" by (cases st)
  with Cons show ?case by (simp add: put_def out_upd ok_upd)
qed simp

lemmas emit = emit_emitted [THEN conjunct1] and ok_emitted = emit_emitted [THEN conjunct2]

lemma put_emitted: "ok (fst st) m \<Longrightarrow> put out m c st = Inr (emitted upd m [c] st)"
  using emit [of st m "[c]"] by (simp add: bindE_def split: sum.splits)

lemma replay_put:
  "ok (fst st) m \<Longrightarrow> bindE (put out m c st) (\<lambda>st. Inr (x, st))
     = replay upd m st (bindE (put out_trace m' c ([], 0)) (\<lambda>st. Inr (x, st)))"
  by (simp add: put_emitted) (simp add: replay_def put_def out_trace_def)

lemma replay_emit:
  "ok (fst st) m \<Longrightarrow> bindE (emit_all out m cs st) (\<lambda>st. Inr (x, st))
     = replay upd m st (bindE (emit_all out_trace m' cs ([], 0)) (\<lambda>st. Inr (x, st)))"
  by (simp add: emit emit_trace replay_Inr)

lemma convert_integer_replay:
  "ok (fst st) m \<Longrightarrow> convert_integer out m c flags width precision va st
    = replay upd m st (convert_integer out_trace m' c flags width precision va ([], 0))"
  unfolding convert_integer_def Let_def ntoa_emit
  by (simp only: replay_bindE replay_if replay_prod replay_emit [where m' = m'] cong: if_cong)

lemma convert_char_replay:
  assumes ok: "ok (fst st) m"
  shows "convert_char out m flags width va st
    = replay upd m st (convert_char out_trace m' flags width va ([], 0))"
proof -
  note rules = convert_char_emit emit_trace bindE_simps emit [OF ok] emit [OF ok_emitted [OF ok]]
    emit [OF ok_emitted [OF ok_emitted [OF ok]]]
  show ?thesis
  proof (cases "va_int va")
    case (Inl e)
    then show ?thesis by (simp only: rules replay_Inl)
  next
    case (Inr x)
    obtain c va' where "x = (c, va')" by (cases x)
    with Inr show ?thesis
      by (simp only: rules prod.case replay_Inr emitted_append emitted.simps(1))
  qed
qed

lemma string_loop_text:
  "ok (fst st) m \<Longrightarrow> string_loop out m flags p precision st
    = bindE (string_text flags p precision) (\<lambda>t. emit_all out m t st)"
proof (induction p arbitrary: precision st)
  case (Cons c p)
  then show ?case
    by (simp add: put_emitted ok_emitted bindE_assoc)
qed simp

end

interpretation trace: sink out_trace "\<lambda>c b i m. b @ [c]" "\<lambda>b m. True"
  by unfold_locales (simp_all add: out_trace_def)

context sink
begin

lemma string_padded_replay:
  assumes ok: "ok (fst st) m"
  shows "bindE (emit_all out m pre st) (\<lambda>st. bindE (string_loop out m flags p precision st)
      (\<lambda>st. bindE (emit_all out m post st) (\<lambda>st. Inr (x, st))))
    = replay upd m st (bindE (emit_all out_trace m' pre ([], 0))
        (\<lambda>st. bindE (string_loop out_trace m' flags p precision st)
          (\<lambda>st. bindE (emit_all out_trace m' post st) (\<lambda>st. Inr (x, st)))))"
proof (cases "string_text flags p precision")
  note ok1 = ok_emitted [OF ok, of pre]
  note rules = emit [OF ok] string_loop_text [OF ok1] trace.string_loop_text [OF TrueI] emit_trace bindE_simps
  case (Inl e)
  then show ?thesis by (simp only: rules replay_Inl)
next
  note ok1 = ok_emitted [OF ok, of pre]
  note rules = emit [OF ok] string_loop_text [OF ok1] trace.string_loop_text [OF TrueI] emit_trace bindE_simps
  case (Inr t)
  then show ?thesis
    by (simp only: rules emit [OF ok1] emit [OF ok_emitted [OF ok1]] replay_Inr emitted_append emitted.simps(1))
qed

lemma convert_string_replay:
  assumes "ok (fst st) m"
  shows "convert_string out m flags width precision va st
    = replay upd m st (convert_string out_trace m' flags width precision va ([], 0))"
proof (cases "va_ptr va")
  case (Inr x)
  obtain a p va' where "x = ((a, p), va')" by (metis prod.collapse)
  with Inr assms show ?thesis
    by (cases "strnlen_s p (if precision \<noteq> 0 then precision else - 1)")
      (simp_all only: convert_string_def Let_def pad_loop_emit if_emit bindE_simps prod.case
        string_padded_replay [where m' = m'] replay_Inl)
qed (simp add: convert_string_def replay_Inl)

lemma convert_pointer_replay:
  assumes "ok (fst st) m"
  shows "convert_pointer out m flags precision va st
    = replay upd m st (convert_pointer out_trace m' flags precision va ([], 0))"
proof (cases "va_ptr va")
  case (Inr x)
  obtain a p va' where "x = ((a, p), va')" by (metis prod.collapse)
  with Inr assms show ?thesis
    by (simp only: convert_pointer_def Let_def ntoa_emit bindE_simps prod.case replay_emit [where m' = m'])
qed (simp add: convert_pointer_def replay_Inl)

lemma convert_spec_replay:
  "ok (fst st) m \<Longrightarrow> convert_spec out m c flags width precision va st
    = replay upd m st (convert_spec out_trace m' c flags width precision va ([], 0))"
  by (simp only: convert_spec_def convert_integer_replay [where m' = m']
      convert_char_replay [where m' = m'] convert_string_replay [where m' = m']
      convert_pointer_replay [where m' = m'] replay_put [where m' = m'] replay_if)

lemma convert_replay:
  assumes "ok (fst st) m"
  shows "convert out m format va st
    = bindE (convert out_trace m' format va ([], 0))
        (\<lambda>(format, va, t, _). Inr (format, va, emitted upd m t st))"
proof (cases "parse_spec format va")
  case (Inr x)
  obtain f w p c r v where "x = (f, w, p, c, r, v)" by (cases x)
  with Inr convert_spec_replay [OF assms, where m' = m'] show ?thesis
    by (cases "convert_spec out_trace m' c f w p v ([], 0)") (auto simp: convert_def replay_def)
qed (simp add: convert_def)

lemma loop_replay_from:
  assumes "ok (fst st) m"
  shows "vsnprintf_loop out m format va (emitted upd m t st)
    = bindE (vsnprintf_loop out_trace m' format va (t, i)) (\<lambda>(t, _). Inr (emitted upd m t st))"
proof (induction "length format" arbitrary: format va t i rule: less_induct)
  case less
  note ok = ok_emitted [OF assms]
  note steps = vsnprintf_loop.simps [of out m format] vsnprintf_loop.simps [of out_trace m' format]
  show ?case
  proof (cases "peek format")
    case (Inr c)
    note shorter = length_tl_less [OF Inr]
    consider "c = 0" | "c \<noteq> 0" "c \<noteq> c8 CHR ''%''" | "c \<noteq> 0" "c = c8 CHR ''%''" by blast
    then show ?thesis
    proof cases
      case 1
      with Inr show ?thesis by (simp add: steps)
    next
      case 2
      have "emitted upd m [c] (emitted upd m t st) = emitted upd m (t @ [c]) st"
        by (simp only: emitted_append)
      with 2 Inr less [OF shorter, of va "t @ [c]" "i + 1"] show ?thesis
        by (simp add: steps put_emitted [OF ok] put_trace del: emitted.simps)
    next
      case 3
      show ?thesis
      proof (cases "convert out_trace m' (tl format) va ([], 0)")
        case conv: (Inr x)
        obtain r v t' n where x: "x = (r, v, t', n)" by (cases x)
        have "length r < length format"
          using convert_shorter [OF conv [unfolded x]] shorter by linarith
        with 3 Inr conv x less [of r v "t @ t'" "i + of_nat (length t')"] show ?thesis
          by (simp add: steps convert_replay [OF ok, where m' = m'] trace.convert_replay [where st = "(t, i)" and m' = m']
              emitted_append emitted_trace)
      next
        case (Inl e)
        with 3 Inr show ?thesis
          by (simp add: steps convert_replay [OF ok, where m' = m'] trace.convert_replay [where st = "(t, i)" and m' = m'])
      qed
    qed
  qed (simp add: steps)
qed

lemma loop_text:
  "ok (fst st) m \<Longrightarrow> vsnprintf_loop out m format va st
    = bindE (format_text format va) (\<lambda>t. Inr (emitted upd m t st))"
  using loop_replay_from [of st m format va "[]" 0 0]
  by (cases "vsnprintf_loop out_trace 0 format va ([], 0)") (auto simp: format_text_def)

end

lemma format_text_step:
  "format_text format va = bindE (peek format) (\<lambda>c.
     if c = 0 then Inr []
     else if c \<noteq> c8 CHR ''%'' then bindE (format_text (tl format) va) (\<lambda>t. Inr (c # t))
     else bindE (convert out_trace 0 (tl format) va ([], 0)) (\<lambda>(format, va, t, _).
            bindE (format_text format va) (\<lambda>t'. Inr (t @ t'))))"
proof -
  have "vsnprintf_loop out_trace 0 f v (t, i) = bindE (format_text f v) (\<lambda>t'. Inr (t @ t', i + of_nat (length t')))"
    for f v t i
    using trace.loop_text [where st = "(t, i)" and m = 0 and format = f and va = v] by (simp add: emitted_trace)
  then show ?thesis
    by (subst format_text_def, subst vsnprintf_loop.simps)
      (auto simp: bindE_assoc put_def out_trace_def intro!: bindE_cong)
qed

section \<open>The output functions of the application\<close>

definition buffer_upd :: "u8 \<Rightarrow> u8 list \<Rightarrow> u32 \<Rightarrow> u32 \<Rightarrow> u8 list" where
  "buffer_upd c b idx maxlen = (if idx < maxlen then b[unat idx := c] else b)"

lemma length_buffer_upd [simp]: "length (buffer_upd c b idx m) = length b"
  by (simp add: buffer_upd_def)

interpretation buffer: sink out_buffer buffer_upd "\<lambda>b m. unat m \<le> length b"
  by unfold_locales (auto simp: out_buffer_def buffer_upd_def word_less_nat_alt)

interpretation null: sink out_null "\<lambda>c b idx m. b" "\<lambda>b m. True"
  by unfold_locales (simp_all add: out_null_def)

interpretation putchar: sink "out_char f" "\<lambda>c b idx m. if c \<noteq> 0 then f c b else b" "\<lambda>b m. True" for f
  by unfold_locales (simp_all add: out_char_def)

interpretation fct: sink "out_fct f" "\<lambda>c b idx m. if c \<noteq> 0 then f c b else b" "\<lambda>b m. True" for f
  by unfold_locales (simp_all add: out_fct_def)

lemma emitted_idx: "snd (emitted upd m t st) = snd st + of_nat (length t)"
  by (induction t arbitrary: st) (auto simp: ac_simps)

lemma emitted_fold:
  "fst (emitted (\<lambda>c b idx m. if c \<noteq> 0 then f c b else b) m t (b, i)) = fold f (filter (\<lambda>c. c \<noteq> 0) t) b"
  by (induction t arbitrary: b i) auto

lemma emitted_buffer:
  "unat m \<le> length b \<Longrightarrow> unat i + length t < 2 ^ 32 \<Longrightarrow>
    fst (emitted buffer_upd m t (b, i))
      = (let w = take (unat m - unat i) t in take (unat i) b @ w @ drop (unat i + length w) b)"
proof (induction t arbitrary: b i)
  case (Cons c t)
  have i1: "unat (i + 1) = Suc (unat i)" using Cons.prems(2) by (simp add: unat_word_ariths)
  have "fst (emitted buffer_upd m (c # t) (b, i)) = fst (emitted buffer_upd m t (buffer_upd c b i m, i + 1))"
    by simp
  also have "\<dots> = (let w = take (unat m - Suc (unat i)) t; b' = buffer_upd c b i m
      in take (Suc (unat i)) b' @ w @ drop (Suc (unat i) + length w) b')"
    using Cons.prems Cons.IH [of "buffer_upd c b i m" "i + 1"] by (simp add: i1 Let_def)
  also have "\<dots> = (let w = take (unat m - unat i) (c # t) in take (unat i) b @ w @ drop (unat i + length w) b)"
  proof (cases "i < m")
    case True
    then have "unat i < length b" "unat m - unat i = Suc (unat m - Suc (unat i))"
      using Cons.prems(1) by (simp_all add: word_less_nat_alt)
    with True show ?thesis by (simp add: buffer_upd_def Let_def take_Suc_conv_app_nth)
  next
    case False
    then show ?thesis by (simp add: buffer_upd_def Let_def word_less_nat_alt)
  qed
  finally show ?case .
qed (simp add: Let_def)

text \<open>What the buffer of \<open>iost_snprintf\<close> holds after the text \<open>t\<close>.\<close>

definition terminated :: "nat \<Rightarrow> u8 list \<Rightarrow> u8 list \<Rightarrow> u8 list" where
  "terminated count t b = take (count - 1) t @ [0] @ drop (Suc (min (count - 1) (length t))) b"

lemma snprintf_end:
  assumes "0 < unat count" "unat count \<le> length b" "length t < 2 ^ 32"
  shows "vsnprintf_end out_buffer count (emitted buffer_upd count t (b, 0))
    = Inr (terminated (unat count) t b, of_nat (length t))"
proof -
  let ?w = "take (unat count) t @ drop (length (take (unat count) t)) b"
  have e: "emitted buffer_upd count t (b, 0) = (?w, of_nat (length t))"
    using emitted_buffer [of count b 0 t] assms
    by (intro prod_eqI) (simp_all add: emitted_idx Let_def)
  have n: "unat (of_nat (length t) :: u32) = length t"
    using assms(3) by (simp add: unat_of_nat take_bit_nat_eq_self)
  have c1: "unat (count - 1) = unat count - 1" using assms(1) by (rule unat_dec)
  show ?thesis
  proof (cases "length t < unat count")
    case True
    then have "(of_nat (length t) :: u32) < count" by (simp add: word_less_nat_alt n)
    with True assms show ?thesis
      by (simp add: vsnprintf_end_def e out_buffer_def n terminated_def list_update_append
          Cons_nth_drop_Suc [symmetric] take_all_iff)
  next
    case False
    then have "\<not> (of_nat (length t) :: u32) < count" by (simp add: word_less_nat_alt n)
    moreover have "count - 1 < count" using assms(1) c1 by (simp add: word_less_nat_alt)
    moreover obtain k where "unat count = Suc k" using assms(1) by (cases "unat count") auto
    ultimately show ?thesis using False assms
      by (simp add: vsnprintf_end_def e out_buffer_def c1 terminated_def list_update_append
          take_Suc_conv_app_nth min_def)
  qed
qed

lemma snprintf_text:
  assumes "0 < unat count" "unat count \<le> length b"
    and "\<And>t. format_text format va = Inr t \<Longrightarrow> length t < 2 ^ 32"
  shows "iost_snprintf (Some b) count format va
    = bindE (format_text format va) (\<lambda>t. Inr (Some (terminated (unat count) t b), of_nat (length t)))"
proof (cases "format_text format va")
  case (Inr t)
  then show ?thesis
    using snprintf_end [OF assms(1,2) assms(3) [OF Inr]] assms(2)
    by (simp add: iost_snprintf_def internal_vsnprintf_def vsnprintf_def buffer.loop_text)
next
  case (Inl e)
  then show ?thesis using assms(2)
    by (simp add: iost_snprintf_def internal_vsnprintf_def vsnprintf_def buffer.loop_text)
qed

section \<open>What the conversions print\<close>

definition digit_letter :: "u32 \<Rightarrow> nat \<Rightarrow> u8" where
  "digit_letter flags d =
     (if d < 10 then c8 CHR ''0'' + of_nat d
      else (if flag flags FLAGS_UPPERCASE then c8 CHR ''A'' else c8 CHR ''a'') + of_nat d - 10)"

lemma ntoa_digits_lsd:
  assumes base: "2 \<le> unat base" "unat base \<le> 16"
  shows "length buf < 9 \<Longrightarrow> ntoa_digits val base flags buf
    = buf @ map (digit_letter flags) (take (9 - length buf) (lsd_digits (unat base) (unat val)))"
proof (induction "9 - length buf" arbitrary: val buf rule: less_induct)
  case less
  let ?d = "unat val mod unat base"
  have d: "?d < 16" using base mod_less_divisor [of "unat base" "unat val"] by linarith
  have u: "unat (ucast (val mod base) :: u8) = ?d"
    using d by (simp add: unat_ucast_mod unat_mod)
  then have letter: "(if (ucast (val mod base) :: u8) < 10 then c8 CHR ''0'' + ucast (val mod base)
      else (if flag flags FLAGS_UPPERCASE then c8 CHR ''A'' else c8 CHR ''a'') + ucast (val mod base) - 10)
      = digit_letter flags ?d"
    by (simp add: digit_letter_def word_less_nat_alt flip: u)
  have q: "unat (val div base) = unat val div unat base" "val div base \<noteq> 0 \<longleftrightarrow> unat val div unat base \<noteq> 0"
    by (simp_all add: unat_div word_unat_eq_iff)
  obtain r where r: "9 - length buf = Suc r" using less.prems by (cases "9 - length buf") auto
  have unfold: "ntoa_digits val base flags buf
    = (if unat val div unat base \<noteq> 0 \<and> Suc (length buf) < 9
       then ntoa_digits (val div base) base flags (buf @ [digit_letter flags ?d]) else buf @ [digit_letter flags ?d])"
    by (subst ntoa_digits.simps) (simp add: Let_def letter q PRINTF_NTOA_BUFFER_SIZE_def)
  show ?case
  proof (cases "unat val div unat base \<noteq> 0 \<and> Suc (length buf) < 9")
    case True
    have r8: "8 - length buf = r" using r by simp
    have "ntoa_digits (val div base) base flags (buf @ [digit_letter flags ?d])
      = (buf @ [digit_letter flags ?d]) @ map (digit_letter flags) (take r (lsd_digits (unat base) (unat val div unat base)))"
      using True r less.hyps [of "buf @ [digit_letter flags ?d]" "val div base"] by (simp add: q(1) r8)
    with True r show ?thesis using base by (simp add: unfold lsd_digits_step [of _ "unat val"])
  next
    case False
    with r show ?thesis using base by (auto simp: unfold lsd_digits_step [of _ "unat val"])
  qed
qed

lemma and_not_disjoint: "x AND y = 0 \<Longrightarrow> x AND NOT y = x" for x y :: "'a::len word"
  by (metis and.right_neutral bit.conj_disj_distrib bit.disj_cancel_right or.left_neutral)

text \<open>A number without width, precision, \<open>#\<close>, \<open>+\<close> and blank.\<close>

lemma ntoa_text_bare:
  assumes "2 \<le> unat base" "unat base \<le> 16"
    and "\<not> flag flags FLAGS_LEFT" "\<not> flag flags FLAGS_ZEROPAD" "\<not> flag flags FLAGS_HASH"
      "\<not> flag flags FLAGS_PLUS" "\<not> flag flags FLAGS_SPACE" "\<not> flag flags FLAGS_PRECISION"
  shows "ntoa_text val negative base 0 0 flags
    = (let ds = take 9 (lsd_digits (unat base) (unat val))
       in (if negative \<and> length ds < 9 then [c8 CHR ''-''] else []) @ map (digit_letter flags) (rev ds))"
proof -
  have z: "zeros_loop 0 buf = buf" for buf by (simp add: zeros_loop.simps [of 0])
  have f: "(if val = 0 then flags AND NOT FLAGS_HASH else flags) = flags"
    using assms(5) by (simp add: and_not_disjoint)
  show ?thesis
    using assms
    by (simp add: ntoa_text_def f Let_def ntoa_format_text_def ntoa_pad_zeros_def z ntoa_hash_def ntoa_sign_def
        out_rev_text_def ntoa_digits_lsd PRINTF_NTOA_BUFFER_SIZE_def rev_map min_def)
qed

lemma parse_spec_bare:
  "c \<in> set (chars_2_bytes ''diuxXobcsp%'') \<Longrightarrow> parse_spec (c # r) va = Inr (0, 0, 0, c, c # r, va)"
  by (auto simp: chars_2_bytes_def parse_spec_def parse_width_def parse_precision_def parse_length_def
      peek_def is_digit_def word_le_nat_alt)

lemma format_text_conversion:
  assumes "c \<in> set (chars_2_bytes ''diuxXobcsp%'')"
  shows "format_text (c8 CHR ''%'' # c # r) va =
    bindE (convert_spec out_trace 0 c 0 0 0 va ([], 0)) (\<lambda>(va, t, _).
      bindE (format_text r va) (\<lambda>t'. Inr (t @ t')))"
  by (subst format_text_step)
    (auto simp: peek_def convert_def parse_spec_bare [OF assms] bindE_assoc intro!: bindE_cong)

lemma format_text_end [simp]: "format_text (0 # r) va = Inr []"
  by (subst format_text_step) (simp add: peek_def)

text \<open>The characters in front of a conversion are copied.\<close>

lemma format_text_plain:
  "\<forall>c \<in> set s. c \<noteq> 0 \<and> c \<noteq> c8 CHR ''%'' \<Longrightarrow>
    format_text (s @ format) va = bindE (format_text format va) (\<lambda>t. Inr (s @ t))"
proof (induction s)
  case (Cons c s)
  then show ?case by (subst append_Cons, subst format_text_step) (simp add: peek_def bindE_assoc)
qed simp

definition conversion_base :: "u8 \<Rightarrow> u32" where
  "conversion_base c = (if c = c8 CHR ''x'' \<or> c = c8 CHR ''X'' then 16
     else if c = c8 CHR ''o'' then 8 else if c = c8 CHR ''b'' then 2 else 10)"

definition conversion_flags :: "u8 \<Rightarrow> u32" where
  "conversion_flags c = (if c = c8 CHR ''X'' then FLAGS_UPPERCASE else 0)"

lemma convert_unsigned_bare:
  assumes "c \<in> set (chars_2_bytes ''uxXob'')"
  shows "convert_spec out_trace 0 c 0 0 0 (VInt n # va) ([], 0)
    = bindE (emit_all out_trace 0 (ntoa_text n False (conversion_base c) 0 0 (conversion_flags c)) ([], 0))
        (\<lambda>st. Inr (va, st))"
  using assms
  by (auto simp: chars_2_bytes_def convert_spec_def convert_integer_def Let_def conversion_base_def
      conversion_flags_def ntoa_emit const_defs)

lemma unsigned_text:
  assumes "c \<in> set (chars_2_bytes ''uxXob'')"
  shows "format_text [c8 CHR ''%'', c, 0] [VInt n]
    = Inr (map (digit_letter (conversion_flags c))
        (rev (take 9 (lsd_digits (unat (conversion_base c)) (unat n)))))"
proof -
  have "format_text [c8 CHR ''%'', c, 0] [VInt n]
      = Inr (ntoa_text n False (conversion_base c) 0 0 (conversion_flags c))"
    using assms
    by (subst format_text_conversion)
      (auto simp: chars_2_bytes_def convert_unsigned_bare emit_trace)
  also have "ntoa_text n False (conversion_base c) 0 0 (conversion_flags c)
      = map (digit_letter (conversion_flags c)) (rev (take 9 (lsd_digits (unat (conversion_base c)) (unat n))))"
    by (subst ntoa_text_bare) (auto simp: conversion_base_def conversion_flags_def const_defs Let_def)
  finally show ?thesis .
qed

text \<open>A line with one decimal number in it.\<close>

definition decimal :: "u32 \<Rightarrow> u8 list" where
  "decimal n = map (digit_letter 0) (rev (take 9 (lsd_digits 10 (unat n))))"

lemma length_decimal: "length (decimal n) \<le> 9"
  by (simp add: decimal_def)

lemma format_text_number_line:
  assumes "\<forall>c \<in> set pre. c \<noteq> 0 \<and> c \<noteq> c8 CHR ''%''" "\<forall>c \<in> set post. c \<noteq> 0 \<and> c \<noteq> c8 CHR ''%''"
  shows "format_text (pre @ c8 CHR ''%'' # c8 CHR ''u'' # post @ [0]) [VInt n] = Inr (pre @ decimal n @ post)"
proof -
  have u: "c8 CHR ''u'' \<in> set (chars_2_bytes ''uxXob'')" by (simp add: chars_2_bytes_def)
  have "convert_spec out_trace 0 (c8 CHR ''u'') 0 0 0 [VInt n] ([], 0)
      = Inr ([], decimal n, of_nat (length (decimal n)))"
    unfolding convert_unsigned_bare [OF u]
    by (subst ntoa_text_bare)
      (auto simp: conversion_base_def conversion_flags_def const_defs Let_def decimal_def emit_trace)
  then have "format_text (c8 CHR ''%'' # c8 CHR ''u'' # post @ [0]) [VInt n]
      = bindE (format_text (post @ [0]) []) (\<lambda>t'. Inr (decimal n @ t'))"
    by (subst format_text_conversion) (auto simp: chars_2_bytes_def)
  also have "format_text (post @ [0]) [] = Inr post"
    using format_text_plain [OF assms(2), of "[0]" "[]"] by simp
  finally show ?thesis
    using format_text_plain [OF assms(1), of "c8 CHR ''%'' # c8 CHR ''u'' # post @ [0]" "[VInt n]"]
    by simp
qed

section \<open>Properties\<close>

text \<open>
Property C40: \<open>iost_snprintf\<close> with a nonzero \<open>count\<close> that is at most the length of the
buffer never writes outside the first \<open>count\<close> characters and always terminates them: for
every format and every arguments the buffer holds the text cut off after \<open>count - 1\<close>
characters, a null character and its old rest, and the length of the whole text is returned;
a fault can only come from the format or from its arguments.
\<close>

theorem iost_snprintf_bounded:
  assumes "0 < unat count" "unat count \<le> length b"
    and "\<forall>t. format_text format va = Inr t \<longrightarrow> length t < 2 ^ 32"
  shows "iost_snprintf (Some b) count format va
    = bindE (format_text format va) (\<lambda>t. Inr
        (Some (take (unat count - 1) t @ [0] @ drop (Suc (min (unat count - 1) (length t))) b),
         of_nat (length t)))"
  using snprintf_text [of count b format va] assms by (simp add: terminated_def)

theorem iost_snprintf_bounded_witness:
  "iost_snprintf (Some [9, 9, 9, 9]) 3 [0x61, 0x62, 0x63, 0] [] = Inr (Some [0x61, 0x62, 0, 9], 3)"
proof -
  have "format_text [0x61, 0x62, 0x63, 0] [] = Inr [0x61, 0x62, 0x63]"
    using format_text_plain [of "[0x61, 0x62, 0x63]" "[0]" "[]"] by simp
  then show ?thesis
    using iost_snprintf_bounded [of 3 "[9, 9, 9, 9]" "[0x61, 0x62, 0x63, 0]" "[]"] by simp
qed

text \<open>
Every entry point prints the same text.  For all formats and arguments
\<open>iost_printf\<close> and \<open>iost_fctprintf\<close> hand the characters of the text \<open>iost_snprintf\<close>
prints, null characters left out, to their function one by one, and with the null pointer
as buffer only the length is returned.
\<close>

theorem printf_one_text:
  "iost_printf f dev format va
     = bindE (format_text format va)
         (\<lambda>t. Inr (fold f (filter (\<lambda>c. c \<noteq> 0) t) dev, of_nat (length t)))
   \<and> iost_fctprintf f dev format va = iost_printf f dev format va
   \<and> iost_vprintf f dev format va = iost_printf f dev format va
   \<and> iost_snprintf None count format va
     = bindE (format_text format va) (\<lambda>t. Inr (None, of_nat (length t)))"
proof -
  have e: "emitted (\<lambda>c b idx m. if c \<noteq> 0 then f c b else b) (- 1) t (dev, 0)
      = (fold f (filter (\<lambda>c. c \<noteq> 0) t) dev, of_nat (length t))" for t
    by (intro prod_eqI) (simp_all add: emitted_fold emitted_idx)
  have n: "emitted (\<lambda>c b idx m. ()) count t ((), 0) = ((), of_nat (length t))" for t
    by (intro prod_eqI) (simp_all add: emitted_idx)
  show ?thesis
    by (cases "format_text format va")
      (auto simp: iost_printf_def iost_fctprintf_def iost_vprintf_def iost_snprintf_def
        internal_vsnprintf_def vsnprintf_def putchar.loop_text fct.loop_text null.loop_text e n
        vsnprintf_end_def out_char_def out_fct_def out_null_def split: prod.splits)
qed

text \<open>
Unsigned conversions: \<open>%u\<close>, \<open>%x\<close>, \<open>%X\<close>, \<open>%o\<close> and \<open>%b\<close> print the number in base 10, 16, 16, 8
and 2, but at most its nine least significant digits: all digits when the number is below
the ninth power of the base, otherwise the number modulo that power.
\<close>

theorem printf_unsigned:
  assumes "c \<in> set (chars_2_bytes ''uxXob'')"
  shows "\<exists>ds. format_text [c8 CHR ''%'', c, 0] [VInt n] = Inr (map (digit_letter (conversion_flags c)) ds)
    \<and> digits_value (unat (conversion_base c)) ds = unat n mod unat (conversion_base c) ^ 9
    \<and> (unat n < unat (conversion_base c) ^ 9 \<longrightarrow> ds = print_digits (unat (conversion_base c)) (unat n))"
proof -
  let ?L = "unat (conversion_base c)"
  have L: "2 \<le> ?L" by (simp add: conversion_base_def)
  have "take 9 (lsd_digits ?L (unat n)) = lsd_digits ?L (unat n)" if "unat n < ?L ^ 9"
    using length_print_digits_le [OF L that] by (simp add: length_lsd_digits)
  then show ?thesis
    using unsigned_text [OF assms, of n] lsd_take_value [OF L, of 9 "unat n"]
    by (intro exI [of _ "rev (take 9 (lsd_digits ?L (unat n)))"]) (auto simp: lsd_digits_def)
qed

theorem printf_unsigned_witness:
  "\<exists>ds. format_text [c8 CHR ''%'', c8 CHR ''u'', 0] [VInt 4294967295] = Inr (map (digit_letter 0) ds)
    \<and> digits_value 10 ds = 294967295"
  using printf_unsigned [of "c8 CHR ''u''" 4294967295]
  by (fastforce simp: chars_2_bytes_def conversion_base_def conversion_flags_def)

lemma convert_signed_bare:
  assumes "c \<in> set (chars_2_bytes ''di'')"
  shows "convert_spec out_trace 0 c 0 0 0 (VInt n # va) ([], 0)
    = bindE (emit_all out_trace 0 (ntoa_text (magnitude n) (n <s 0) (10 :: u32) 0 0 0) ([], 0))
        (\<lambda>st. Inr (va, st))"
  using assms
  by (auto simp: chars_2_bytes_def convert_spec_def convert_integer_def Let_def ntoa_emit const_defs)

lemma magnitude_sint: "unat (magnitude n) = nat \<bar>sint n\<bar>" for n :: u32
proof -
  have u: "uint n = sint n mod 2 ^ 32" by (simp add: uint_sint take_bit_eq_mod)
  have r: "- (2 ^ 31) \<le> sint n" "sint n < 2 ^ 31" using sint_ge [of n] sint_lt [of n] by simp_all
  show ?thesis
  proof (cases "0 < sint n")
    case True
    then have "uint n = sint n" using u r by simp
    with True show ?thesis by (simp add: magnitude_def word_sless_alt flip: nat_uint_eq)
  next
    case False
    have "uint (- n) = (- sint n) mod 2 ^ 32"
      by (simp add: uint_word_ariths u mod_minus_eq)
    also have "\<dots> = - sint n" using False r by (intro mod_pos_pos_trivial) simp_all
    finally show ?thesis using False by (simp add: magnitude_def word_sless_alt flip: nat_uint_eq)
  qed
qed

text \<open>
\<open>%d\<close> and \<open>%i\<close> print a minus sign and the magnitude of a negative number
when its magnitude has at most eight digits; with nine or more digits the nine least
significant ones are printed and the sign is lost.
\<close>

theorem printf_signed:
  assumes "c \<in> set (chars_2_bytes ''di'')"
  shows "format_text [c8 CHR ''%'', c, 0] [VInt n]
    = (let ds = take 9 (lsd_digits 10 (nat \<bar>sint n\<bar>))
       in Inr ((if sint n < 0 \<and> length ds < 9 then [c8 CHR ''-''] else [])
               @ map (digit_letter 0) (rev ds)))"
proof -
  have "format_text [c8 CHR ''%'', c, 0] [VInt n]
      = Inr (ntoa_text (magnitude n) (n <s 0) (10 :: u32) 0 0 0)"
    using assms
    by (subst format_text_conversion)
      (auto simp: chars_2_bytes_def convert_signed_bare emit_trace)
  then show ?thesis
    by (simp add: ntoa_text_bare Let_def magnitude_sint word_sless_alt)
qed

theorem printf_signed_witness:
  "format_text [c8 CHR ''%'', c8 CHR ''d'', 0] [VInt (- 123456789)]
     = Inr (map (digit_letter 0) [1, 2, 3, 4, 5, 6, 7, 8, 9])"
  using printf_signed [of "c8 CHR ''d''" "- 123456789"]
  by (simp add: chars_2_bytes_def lsd_digits_def print_digits_def base_digits.simps)

lemma strnlen_terminated: "\<exists>n. strnlen_s (q @ 0 # r) m = Inr n"
proof (induction q arbitrary: m)
  case (Cons c q)
  from Cons.IH [of "m - 1"] show ?case by auto
qed simp

lemma string_text_whole: "0 \<notin> set q \<Longrightarrow> string_text 0 (q @ 0 # r) precision = Inr q"
  by (induction q) auto

text \<open>
Characters other than \<open>%\<close> are copied, \<open>%s\<close> prints the string its argument
points to up to the null character, and what follows in the format is printed behind it.
\<close>

theorem printf_string:
  assumes "\<forall>c \<in> set s. c \<noteq> 0 \<and> c \<noteq> c8 CHR ''%''" and "0 \<notin> set q"
  shows "format_text (s @ c8 CHR ''%'' # c8 CHR ''s'' # format) (VPtr a (q @ 0 # r) # va)
    = bindE (format_text format va) (\<lambda>t. Inr (s @ q @ t))"
proof -
  obtain n where n: "strnlen_s (q @ 0 # r) (- 1) = Inr n" using strnlen_terminated by blast
  have "convert_spec out_trace 0 (c8 CHR ''s'') 0 0 0 (VPtr a (q @ 0 # r) # va) ([], 0)
      = Inr (va, q, of_nat (length q))"
    by (simp add: convert_spec_def chars_2_bytes_def convert_string_def n Let_def pad_loop_emit
        trace.string_loop_text string_text_whole [OF assms(2)] emit_trace)
  then show ?thesis
    using format_text_conversion [of "c8 CHR ''s''" format "VPtr a (q @ 0 # r) # va"]
    by (simp add: format_text_plain [OF assms(1)] chars_2_bytes_def bindE_assoc)
qed

theorem printf_string_witness:
  "format_text [0x3D, c8 CHR ''%'', c8 CHR ''s'', 0] [VPtr 7 [0x61, 0x62, 0, 0x63]]
     = Inr [0x3D, 0x61, 0x62]"
  using printf_string [of "[0x3D]" "[0x61, 0x62]" "[0]" 7 "[0x63]" "[]"] by simp

text \<open>
A format whose last character is a \<open>%\<close> is not terminated by its null
character: the null is printed as an unknown conversion and the bytes behind it are
interpreted as format, so the format is read past its end.
\<close>

theorem printf_trailing_percent:
  assumes "\<forall>c \<in> set s. c \<noteq> 0 \<and> c \<noteq> c8 CHR ''%''"
  shows "format_text (s @ c8 CHR ''%'' # 0 # r) va = bindE (format_text r va) (\<lambda>t. Inr (s @ 0 # t))
    \<and> format_text (s @ [c8 CHR ''%'', 0]) va = Inl Fault"
proof -
  have "parse_spec (0 # r) va = Inr (0, 0, 0, 0, 0 # r, va)" for r
    by (simp add: parse_spec_def parse_width_def parse_precision_def parse_length_def peek_def
        is_digit_def word_le_nat_alt)
  then have z: "format_text (c8 CHR ''%'' # 0 # r) va = bindE (format_text r va) (\<lambda>t. Inr (0 # t))" for r
    by (subst format_text_step)
      (simp add: peek_def convert_def convert_spec_def chars_2_bytes_def put_trace)
  moreover have "format_text [] va = Inl Fault"
    by (subst format_text_step) (simp add: peek_def)
  ultimately show ?thesis
    using z [of "[]"] by (simp add: format_text_plain [OF assms] bindE_assoc)
qed

theorem printf_trailing_percent_witness:
  "format_text [0x31, c8 CHR ''%'', 0] [] = Inl Fault"
  using printf_trailing_percent [of "[0x31]" "[]" "[]", THEN conjunct2] by simp

end
