(* ===== verification/Get_Public_Key.thy ===== *)
theory Get_Public_Key
  imports App_State Printf_Spec
begin

text \<open>
  The command GET PUBLIC KEY, \<open>src/src/get_public_key.c\<close>, for the Nano S: deriving the key
  and putting it into the APDU buffer, the answer or the screen that asks the user, and the
  button handlers of the two screens.
\<close>

section \<open>The context\<close>

definition zero_gpk_context :: gpk_context where
  "zero_gpk_context =
     \<lparr>public_key = zero_public_key, gpk_output_length = 0, gpk_ui = ui_clear_context\<rparr>"

definition clear_context_get_public_key :: "(app, unit) cm" where
  "clear_context_get_public_key = modify_c (\<lambda>s. s\<lparr>gpk := zero_gpk_context\<rparr>)"

definition set_gpk_ui :: "ui_context \<Rightarrow> app \<Rightarrow> app" where
  "set_gpk_ui ui s = s\<lparr>gpk := (gpk s)\<lparr>gpk_ui := ui\<rparr>\<rparr>"

definition set_gpk_length :: "u16 \<Rightarrow> app \<Rightarrow> app" where
  "set_gpk_length n s = s\<lparr>gpk := (gpk s)\<lparr>gpk_output_length := n\<rparr>\<rparr>"

section \<open>The screens\<close>

definition compare_pk :: "(app, unit) cm" where
  "compare_pk =
     bind_c (gets_c (\<lambda>s. gpk_ui (gpk s))) (\<lambda>ui.
     bind_c (lift_c (ui_compare_msg ui)) (\<lambda>ui.
     bind_c (modify_c (set_gpk_ui ui)) (\<lambda>_.
     ux_display Public_Key_Compare)))"

definition ui_get_public_key_compare_button :: "u32 \<Rightarrow> (app, unit) cm" where
  "ui_get_public_key_compare_button button_mask =
     bind_c (gets_c (\<lambda>s. gpk_ui (gpk s))) (\<lambda>ui.
     bind_c (lift_c (ui_compare_button button_mask ui)) (\<lambda>(ui, idle).
     bind_c (modify_c (set_gpk_ui ui)) (\<lambda>_.
     if idle then ui_idle
     else if ui_compare_redisplays button_mask then ux_redisplay
     else return_c ())))"

definition ui_prepro_get_public_key_compare :: "app \<Rightarrow> u8 \<Rightarrow> bool" where
  "ui_prepro_get_public_key_compare s element_userid = ui_prepro_compare (gpk_ui (gpk s)) element_userid"

definition ui_get_public_key_approve_button :: "u32 \<Rightarrow> (app, unit) cm" where
  "ui_get_public_key_approve_button button_mask =
     bind_c (gets_c (\<lambda>s. gpk_ui (gpk s))) (\<lambda>ui.
     if button_mask = (BUTTON_EVT_RELEASED OR BUTTON_LEFT) then
       bind_c (exchange_status SW_USER_REJECTED 0) (\<lambda>_.
       bind_c clear_context_get_public_key (\<lambda>_.
       ui_idle))
     else if button_mask = (BUTTON_EVT_RELEASED OR BUTTON_RIGHT) then
       bind_c (gets_c (\<lambda>s. gpk_output_length (gpk s))) (\<lambda>output_length.
       bind_c (exchange_status SW_OK (output_length + 1)) (\<lambda>_.
       bind_c clear_context_get_public_key (\<lambda>_.
       bind_c (modify_c (set_gpk_ui ui)) (\<lambda>_.
       compare_pk))))
     else return_c ())"

section \<open>The command\<close>

text \<open>\<open>output\<close> is the offset of the output in the APDU buffer.\<close>

definition get_pk :: "'h crypto \<Rightarrow> u32 list \<Rightarrow> u16 \<Rightarrow> u8 \<Rightarrow> u8 \<Rightarrow> nat \<Rightarrow> (app, unit) cm" where
  "get_pk C bip_32_path bip_32_length p1 p2 out_offset =
     bind_c (gets_c (\<lambda>s. public_key (gpk s))) (\<lambda>key.
     bind_c (lift_c (iost_derive_keypair C bip_32_path bip_32_length None (Some key))) (\<lambda>kp.
     bind_c (modify_c (\<lambda>s. s\<lparr>gpk := (gpk s)\<lparr>public_key := kp_public kp\<rparr>\<rparr>)) (\<lambda>_.
     if kp_result kp \<noteq> 0 then throw_c (Throw SW_INTERNAL_ERROR)
     else
       bind_c (lift_c (iost_extract_bytes_from_public_key (kp_public kp) (replicate ED25519_KEY_SIZE 0)))
         (\<lambda>(pk, output_length).
       bind_c (modify_c (set_gpk_length output_length)) (\<lambda>_.
       bind_c (gets_c (\<lambda>s. gpk_ui (gpk s))) (\<lambda>ui.
       bind_c (lift_c (export_text pk output_length ui)) (\<lambda>ui.
       bind_c (modify_c (set_gpk_ui ui)) (\<lambda>_.
       bind_c (gets_c G_io_apdu_buffer) (\<lambda>buf.
       bind_c (lift_c (export_bytes p2 pk output_length ui (drop out_offset buf))) (\<lambda>(output_length, out).
       bind_c (modify_c (\<lambda>s. s\<lparr>G_io_apdu_buffer := take out_offset buf @ out\<rparr>)) (\<lambda>_.
       modify_c (set_gpk_length output_length))))))))))))"

text \<open>
  The local array \<open>bip_32_path\<close> is not initialised in the source; its elements from
  \<open>bip_32_length\<close> on, here zero, are never read.
\<close>

text \<open>The format of the line that asks for the approval.\<close>

definition key_format :: "u8 list" where
  "key_format = chars_2_bytes ''Key #%u?'' @ [0]"

definition handle_get_public_key ::
  "'h crypto \<Rightarrow> u8 \<Rightarrow> u8 \<Rightarrow> u8 list \<Rightarrow> u16 \<Rightarrow> (app, unit) cm" where
  "handle_get_public_key C p1 p2 buffer buffer_length =
     bind_c (lift_c (io_check_p1p2 p1 p2)) (\<lambda>_.
     bind_c (lift_c (io_read_bip32 buffer buffer_length (replicate BIP32_PATH_LENGTH 0)))
       (\<lambda>(bip_32_length, bip_32_path).
     bind_c (gets_c main_tx) (\<lambda>tx.
     bind_c (get_pk C bip_32_path bip_32_length p1 p2 (unat tx)) (\<lambda>_.
     if p1 \<noteq> P1_CONFIRM then
       bind_c (modify_c (\<lambda>s. s\<lparr>main_tx := main_tx s + (gpk_output_length (gpk s) + 1)\<rparr>)) (\<lambda>_.
       bind_c clear_context_get_public_key (\<lambda>_.
       throw_c (Throw SW_OK)))
     else
       bind_c (gets_c (\<lambda>s. gpk_ui (gpk s))) (\<lambda>ui.
       bind_c (lift_c (iost_snprintf (Some (approve_l2 ui)) (of_nat DISPLAY_SIZE) key_format
                 [VInt (if bip_32_length > 0
                        then bip_32_path ! (unat bip_32_length - 1) - BIP32_PATH_MASK else 0)]))
         (\<lambda>(line, _).
       bind_c (modify_c (set_gpk_ui (ui\<lparr>approve_l2 := the line\<rparr>))) (\<lambda>_.
       bind_c (ux_display Public_Key_Approve) (\<lambda>_.
       modify_c (\<lambda>s. s\<lparr>main_flags := main_flags s OR IO_ASYNCH_REPLY\<rparr>)))))))))"

section \<open>Deriving and exporting\<close>

definition gpk_ok :: "gpk_context \<Rightarrow> bool" where
  "gpk_ok c \<longleftrightarrow> length (W (public_key c)) = 65 \<and> ui_sized (gpk_ui c)"

text \<open>The key behind a path: the object and its 32 bytes.\<close>

definition path_key ::
  "'h crypto \<Rightarrow> u32 list \<Rightarrow> u16 \<Rightarrow> cx_ecfp_public_key \<Rightarrow> exn + cx_ecfp_public_key \<times> u8 list" where
  "path_key C path n key =
     bindE (iost_derive_keypair C path n None (Some key)) (\<lambda>kp.
       if kp_result kp \<noteq> 0 then THROW SW_INTERNAL_ERROR
       else bindE (iost_extract_bytes_from_public_key (kp_public kp) (replicate ED25519_KEY_SIZE 0))
              (\<lambda>(pk, _). Inr (kp_public kp, pk)))"

text \<open>The state after \<open>get_pk\<close>.\<close>

definition pk_exported :: "cx_ecfp_public_key \<Rightarrow> u8 list \<Rightarrow> u8 \<Rightarrow> nat \<Rightarrow> app \<Rightarrow> app" where
  "pk_exported key pk p2 offset s =
     s\<lparr>gpk := \<lparr>public_key = key, gpk_output_length = of_nat (length (encoded p2 pk)),
               gpk_ui = shows_text (gpk_ui (gpk s)) (base58_text pk)\<rparr>,
       G_io_apdu_buffer := take offset (G_io_apdu_buffer s) @ encoded p2 pk
         @ 0 # drop (offset + Suc (length (encoded p2 pk))) (G_io_apdu_buffer s)\<rparr>"

lemma path_key_safe:
  assumes "crypto_ok C" "unat n \<le> length path" "length (W key) = 65"
  shows "safe (\<lambda>(key, pk). length (W key) = 65 \<and> length pk = 32) (path_key C path n key)"
proof -
  have d: "safe (\<lambda>kp. length (W (kp_public kp)) = 65) (iost_derive_keypair C path n None (Some key))"
    using assms by (intro iost_derive_keypair_safe) auto
  have x: "length (W k) = 65 \<Longrightarrow> \<exists>pk. iost_extract_bytes_from_public_key k (replicate ED25519_KEY_SIZE 0) = Inr (pk, 32)
      \<and> length pk = 32" for k
    by (rule iost_extract_safe) (simp_all add: ED25519_KEY_SIZE_def)
  show ?thesis
    unfolding path_key_def by (rule safe_bindE [OF d]) (use x in fastforce)
qed

lemma get_pk_run:
  assumes C: "crypto_ok C" "unat n \<le> length path" "gpk_ok (gpk s)"
    and off: "offset + 129 \<le> length (G_io_apdu_buffer s)"
  shows "case path_key C path n (public_key (gpk s)) of
      Inl (Throw e) \<Rightarrow> \<exists>key. length (W key) = 65
        \<and> get_pk C path n p1 p2 offset s = (Inl (Throw e), s\<lparr>gpk := (gpk s)\<lparr>public_key := key\<rparr>\<rparr>)
    | Inl Fault \<Rightarrow> False
    | Inr (key, pk) \<Rightarrow> length (W key) = 65 \<and> length pk = 32
        \<and> get_pk C path n p1 p2 offset s = (Inr (), pk_exported key pk p2 offset s)"
proof -
  have u: "ui_sized (gpk_ui (gpk s))" and w: "length (W (public_key (gpk s))) = 65"
    using C(3) by (simp_all add: gpk_ok_def)
  have d: "safe (\<lambda>kp. length (W (kp_public kp)) = 65) (iost_derive_keypair C path n None (Some (public_key (gpk s))))"
    using C w by (intro iost_derive_keypair_safe) auto
  show ?thesis
  proof (cases "iost_derive_keypair C path n None (Some (public_key (gpk s)))")
    case (Inl e)
    with d obtain c where "e = Throw c" by (cases e) simp_all
    then show ?thesis using w
      by (auto simp: path_key_def Inl get_pk_def bind_c_def gets_c_def lift_c_def intro!: exI [of _ "public_key (gpk s)"])
  next
    case (Inr kp)
    with d have k: "length (W (kp_public kp)) = 65" by simp
    show ?thesis
    proof (cases "kp_result kp = 0")
      case False
      then show ?thesis using k
        by (auto simp: path_key_def Inr get_pk_def bind_c_def gets_c_def lift_c_def modify_c_def throw_c_def)
    next
      case True
      obtain pk where pk: "iost_extract_bytes_from_public_key (kp_public kp) (replicate ED25519_KEY_SIZE 0) = Inr (pk, 32)"
        "length pk = 32"
        using iost_extract_safe [OF k, of "replicate ED25519_KEY_SIZE 0"] by (auto simp: ED25519_KEY_SIZE_def)
      have t: "export_text pk 32 (gpk_ui (gpk s)) = Inr (shows_text (gpk_ui (gpk s)) (base58_text pk))"
        using export_text_spec [OF u, of 32 pk] pk(2) by simp
      have b: "export_bytes p2 pk 32 (shows_text (gpk_ui (gpk s)) (base58_text pk)) (drop offset (G_io_apdu_buffer s))
          = Inr (of_nat (length (encoded p2 pk)), encoded p2 pk
              @ 0 # drop (Suc (length (encoded p2 pk))) (drop offset (G_io_apdu_buffer s)))"
        using off pk(2) by (intro export_bytes_spec [OF refl]) simp_all
      show ?thesis
        using k pk True
        by (simp add: path_key_def Inr get_pk_def bind_c_def gets_c_def lift_c_def modify_c_def t b
            set_gpk_length_def set_gpk_ui_def pk_exported_def add.commute)
    qed
  qed
qed

text \<open>The line that asks for the approval.\<close>

definition key_line :: "u32 \<Rightarrow> u8 list" where
  "key_line n = chars_2_bytes ''Key #'' @ decimal n @ chars_2_bytes ''?''"

lemma snprintf_key_line:
  assumes "length line = DISPLAY_SIZE + 1"
  shows "iost_snprintf (Some line) (of_nat DISPLAY_SIZE) key_format [VInt n]
    = Inr (Some (key_line n @ 0 # drop (Suc (length (key_line n))) line), of_nat (length (key_line n)))"
proof -
  have f: "format_text key_format [VInt n] = Inr (key_line n)"
    using format_text_number_line [of "chars_2_bytes ''Key #''" "chars_2_bytes ''?''" n]
    by (simp add: key_format_def key_line_def chars_2_bytes_def)
  have l: "length (key_line n) \<le> 15"
    using length_decimal [of n] by (simp add: key_line_def chars_2_bytes_def)
  show ?thesis
    using iost_snprintf_bounded [of "of_nat DISPLAY_SIZE" line key_format "[VInt n]"] assms l
    by (simp add: f DISPLAY_SIZE_def)
qed

section \<open>The handler\<close>

text \<open>
  The outcomes of the handler: an exception that leaves everything but the key object
  alone; the bytes in the buffer, an empty context and the status OK; or the approval
  screen, with the bytes in the buffer and the reply postponed.
\<close>

text \<open>What the command computes from its data: the key object and the key's 32 bytes.\<close>

definition command_key :: "'h crypto \<Rightarrow> u8 \<Rightarrow> u8 \<Rightarrow> u8 list \<Rightarrow> u16 \<Rightarrow> cx_ecfp_public_key
    \<Rightarrow> exn + (u16 \<times> u32 list) \<times> cx_ecfp_public_key \<times> u8 list" where
  "command_key C p1 p2 buffer len key =
     bindE (io_check_p1p2 p1 p2) (\<lambda>_.
     bindE (read_path buffer len) (\<lambda>path.
     bindE (path_key C (snd path) (fst path) key) (\<lambda>r. Inr (path, r))))"

definition pk_silent :: "cx_ecfp_public_key \<Rightarrow> u8 list \<Rightarrow> u8 \<Rightarrow> app \<Rightarrow> app" where
  "pk_silent key pk p2 s =
     (let s' = pk_exported key pk p2 (unat (main_tx s)) s
      in s'\<lparr>main_tx := main_tx s + (of_nat (length (encoded p2 pk)) + 1), gpk := zero_gpk_context\<rparr>)"

definition pk_confirm :: "cx_ecfp_public_key \<Rightarrow> u8 list \<Rightarrow> u8 \<Rightarrow> u32 \<Rightarrow> app \<Rightarrow> app" where
  "pk_confirm key pk p2 n s =
     (let s' = pk_exported key pk p2 (unat (main_tx s)) s;
          line = key_line n @ 0 # drop (Suc (length (key_line n))) (approve_l2 (gpk_ui (gpk s)))
      in s'\<lparr>gpk := (gpk s')\<lparr>gpk_ui := (gpk_ui (gpk s'))\<lparr>approve_l2 := line\<rparr>\<rparr>,
            ux := Public_Key_Approve, G_ux_os := io_seproxyhal_init_button,
            main_flags := main_flags s OR IO_ASYNCH_REPLY\<rparr>)"

lemma handle_get_public_key_run:
  assumes C: "crypto_ok C" "gpk_ok (gpk s)"
    and buf: "unat (main_tx s) + 129 \<le> length (G_io_apdu_buffer s)" "21 \<le> length buffer"
  shows "case command_key C p1 p2 buffer len (public_key (gpk s)) of
      Inl (Throw e) \<Rightarrow> \<exists>key. length (W key) = 65
        \<and> handle_get_public_key C p1 p2 buffer len s = (Inl (Throw e), s\<lparr>gpk := (gpk s)\<lparr>public_key := key\<rparr>\<rparr>)
    | Inl Fault \<Rightarrow> False
    | Inr (path, key, pk) \<Rightarrow> length (W key) = 65 \<and> length pk = 32
        \<and> handle_get_public_key C p1 p2 buffer len s =
            (if p1 \<noteq> P1_CONFIRM then (Inl (Throw SW_OK), pk_silent key pk p2 s)
             else (Inr (), pk_confirm key pk p2 (last_element path) s))"
proof -
  have w: "length (W (public_key (gpk s))) = 65" and u: "ui_sized (gpk_ui (gpk s))"
    using C(2) by (simp_all add: gpk_ok_def)
  have same: "s = s\<lparr>gpk := (gpk s)\<lparr>public_key := public_key (gpk s)\<rparr>\<rparr>" by simp
  note run = handle_get_public_key_def bind_c_def lift_c_def gets_c_def read_path_def [symmetric]
  show ?thesis
  proof (cases "io_check_p1p2 p1 p2")
    case (Inl e)
    with check_p1p2_safe [of p1 p2] obtain c where "e = Throw c" by (cases e) simp_all
    then show ?thesis using w same by (auto simp: command_key_def Inl run)
  next
    case p: (Inr x)
    show ?thesis
    proof (cases "read_path buffer len")
      case (Inl e)
      with read_path_safe [OF buf(2), of len] obtain c where "e = Throw c" by (cases e) simp_all
      then show ?thesis using w same by (auto simp: command_key_def p Inl run)
    next
      case (Inr r)
      obtain n path where r: "r = (n, path)" by (cases r)
      with Inr have n: "unat n \<le> length path" using read_path_Inr [of buffer len n path] by simp
      have g: "get_pk C path n p1 p2 (unat (main_tx s)) s = (Inl (Throw e), s') \<Longrightarrow>
          handle_get_public_key C p1 p2 buffer len s = (Inl (Throw e), s')" for e s'
        by (simp add: run p Inr r)
      show ?thesis
      proof (cases "path_key C path n (public_key (gpk s))")
        case (Inl e)
        with path_key_safe [OF C(1) n w] obtain c where e: "e = Throw c" by (cases e) simp_all
        with get_pk_run [OF C(1) n C(2) buf(1), of p1 p2] Inl obtain key where
          "length (W key) = 65" "get_pk C path n p1 p2 (unat (main_tx s)) s
            = (Inl (Throw c), s\<lparr>gpk := (gpk s)\<lparr>public_key := key\<rparr>\<rparr>)" by auto
        with g show ?thesis by (auto simp: command_key_def p Inr r Inl e)
      next
        case k: (Inr v)
        obtain key pk where v: "v = (key, pk)" by (cases v)
        from get_pk_run [OF C(1) n C(2) buf(1), of p1 p2] k v have
          kp: "length (W key) = 65" "length pk = 32" and
          g: "get_pk C path n p1 p2 (unat (main_tx s)) s = (Inr (), pk_exported key pk p2 (unat (main_tx s)) s)"
          by auto
        have l: "length (approve_l2 (gpk_ui (gpk s))) = DISPLAY_SIZE + 1" using u by (simp add: ui_sized_def)
        have "handle_get_public_key C p1 p2 buffer len s =
            (if p1 \<noteq> P1_CONFIRM then (Inl (Throw SW_OK), pk_silent key pk p2 s)
             else (Inr (), pk_confirm key pk p2 (last_element (n, path)) s))"
          using l snprintf_key_line
          by (simp add: run p Inr r g modify_c_def throw_c_def clear_context_get_public_key_def pk_silent_def
              pk_confirm_def pk_exported_def last_element_def ux_display_def set_gpk_ui_def shows_text_keeps Let_def)
        then show ?thesis using kp by (simp add: command_key_def p Inr r k v)
      qed
    qed
  qed
qed

section \<open>The buttons\<close>

lemma compare_pk_run:
  assumes "ui_sized (gpk_ui (gpk s))"
  shows "\<exists>ui. ui_compare_msg (gpk_ui (gpk s)) = Inr ui \<and> viewing ui \<and> display_index ui = 0
    \<and> ui_msg_body ui = ui_msg_body (gpk_ui (gpk s)) \<and> ui_msg_length ui = ui_msg_length (gpk_ui (gpk s))
    \<and> compare_pk s = (Inr (), (set_gpk_ui ui s)\<lparr>ux := Public_Key_Compare, G_ux_os := io_seproxyhal_init_button\<rparr>)"
  using ui_compare_msg_viewing [OF assms]
  by (auto simp: compare_pk_def bind_c_def gets_c_def lift_c_def modify_c_def ux_display_def)

end
