(* ===== verification/Sign_Message.thy ===== *)
theory Sign_Message
  imports App_State Printf_Spec
begin

text \<open>
  The command SIGN MESSAGE, \<open>src/src/sign_message.c\<close>, for the Nano S: collecting the message
  in chunks, hashing and signing it, exporting the signature, and the button handlers of the
  two screens.
\<close>

section \<open>The context\<close>

definition zero_sign_context :: sign_tx_context where
  "zero_sign_context =
     \<lparr>msg_body = replicate MAX_MSG_SIZE 0, msg_length = 0, sgn_output_length = 0, sgn_ui = ui_clear_context\<rparr>"

definition clear_context_sign_message :: "(app, unit) cm" where
  "clear_context_sign_message = modify_c (\<lambda>s. s\<lparr>sgn := zero_sign_context\<rparr>)"

definition set_sgn_ui :: "ui_context \<Rightarrow> app \<Rightarrow> app" where
  "set_sgn_ui ui s = s\<lparr>sgn := (sgn s)\<lparr>sgn_ui := ui\<rparr>\<rparr>"

definition set_sgn_length :: "u16 \<Rightarrow> app \<Rightarrow> app" where
  "set_sgn_length n s = s\<lparr>sgn := (sgn s)\<lparr>sgn_output_length := n\<rparr>\<rparr>"

definition set_msg_length :: "u16 \<Rightarrow> app \<Rightarrow> app" where
  "set_msg_length n s = s\<lparr>sgn := (sgn s)\<lparr>msg_length := n\<rparr>\<rparr>"

definition set_msg_body :: "u8 list \<Rightarrow> app \<Rightarrow> app" where
  "set_msg_body body s = s\<lparr>sgn := (sgn s)\<lparr>msg_body := body\<rparr>\<rparr>"

section \<open>The screens\<close>

definition compare_signature :: "(app, unit) cm" where
  "compare_signature =
     bind_c (gets_c (\<lambda>s. sgn_ui (sgn s))) (\<lambda>ui.
     bind_c (lift_c (ui_compare_msg ui)) (\<lambda>ui.
     bind_c (modify_c (set_sgn_ui ui)) (\<lambda>_.
     ux_display Message_Compare)))"

definition ui_sign_message_compare_button :: "u32 \<Rightarrow> (app, unit) cm" where
  "ui_sign_message_compare_button button_mask =
     bind_c (gets_c (\<lambda>s. sgn_ui (sgn s))) (\<lambda>ui.
     bind_c (lift_c (ui_compare_button button_mask ui)) (\<lambda>(ui, idle).
     bind_c (modify_c (set_sgn_ui ui)) (\<lambda>_.
     if idle then ui_idle
     else if ui_compare_redisplays button_mask then ux_redisplay
     else return_c ())))"

definition ui_prepro_sign_message_compare :: "app \<Rightarrow> u8 \<Rightarrow> bool" where
  "ui_prepro_sign_message_compare s element_userid = ui_prepro_compare (sgn_ui (sgn s)) element_userid"

definition ui_sign_message_approve_button :: "u32 \<Rightarrow> (app, unit) cm" where
  "ui_sign_message_approve_button button_mask =
     bind_c (gets_c (\<lambda>s. sgn_ui (sgn s))) (\<lambda>ui.
     if button_mask = (BUTTON_EVT_RELEASED OR BUTTON_LEFT) then
       bind_c (exchange_status SW_USER_REJECTED 0) (\<lambda>_.
       bind_c clear_context_sign_message (\<lambda>_.
       ui_idle))
     else if button_mask = (BUTTON_EVT_RELEASED OR BUTTON_RIGHT) then
       bind_c (gets_c (\<lambda>s. sgn_output_length (sgn s))) (\<lambda>output_length.
       bind_c (exchange_status SW_OK (output_length + 1)) (\<lambda>_.
       bind_c clear_context_sign_message (\<lambda>_.
       bind_c (modify_c (set_sgn_ui ui)) (\<lambda>_.
       compare_signature))))
     else return_c ())"

section \<open>The command\<close>

text \<open>\<open>context.msg_length + buffer_length\<close> is computed as an \<open>int\<close>.\<close>

definition read_message :: "u8 list \<Rightarrow> u16 \<Rightarrow> (app, unit) cm" where
  "read_message buffer buffer_length =
     bind_c (gets_c sgn) (\<lambda>context.
     if unat (msg_length context) + unat buffer_length > MAX_MSG_SIZE then throw_c (Throw SW_WRONG_LENGTH)
     else if buffer_length \<noteq> 0 then
       bind_c (lift_c (buf_read buffer 0 (unat buffer_length))) (\<lambda>chunk.
       bind_c (lift_c (buf_write (msg_body context) (unat (msg_length context)) chunk)) (\<lambda>body.
       bind_c (modify_c (set_msg_body body)) (\<lambda>_.
       modify_c (set_msg_length (msg_length context + buffer_length)))))
     else return_c ())"

text \<open>
  \<open>sign_message\<close> returns the array behind \<open>signature\<close>.  \<open>iost_sign\<close> takes the message length
  as a \<open>uint8_t\<close>.
\<close>

definition sign_message :: "'h crypto \<Rightarrow> bool \<Rightarrow> u8 list \<Rightarrow> (app, u8 list) cm" where
  "sign_message C hash_before_sign signature =
     bind_c (gets_c sgn) (\<lambda>context.
     if msg_length context = 0 then throw_c (Throw SW_WRONG_LENGTH)
     else if unat (msg_length context) > MAX_MSG_SIZE then throw_c (Throw SW_WRONG_LENGTH)
     else
       bind_c (lift_c (io_read_bip32 (msg_body context) (msg_length context) (replicate BIP32_PATH_LENGTH 0)))
         (\<lambda>(bip_32_length, bip_32_path).
       let msg_offset = 1 + bip_32_length * 4
       in
       bind_c (modify_c (set_msg_length (msg_length context - msg_offset))) (\<lambda>_.
       bind_c
         (if hash_before_sign then
            bind_c (gets_c sgn) (\<lambda>context.
            let body = drop (unat msg_offset) (msg_body context)
            in bind_c (lift_c (iost_hash_bytes C body (msg_length context) body)) (\<lambda>(length, body).
               bind_c (modify_c (set_msg_body (take (unat msg_offset) (msg_body context) @ body))) (\<lambda>_.
               modify_c (set_msg_length length))))
          else return_c ())
         (\<lambda>_.
       bind_c (gets_c sgn) (\<lambda>context.
       bind_c (lift_c (iost_sign C bip_32_path bip_32_length (drop (unat msg_offset) (msg_body context))
                 (ucast (msg_length context)) signature))
         (\<lambda>(output_length, signature, _).
       bind_c (modify_c (set_sgn_length output_length)) (\<lambda>_.
       return_c signature)))))))"

definition export_signature :: "u8 \<Rightarrow> u8 list \<Rightarrow> nat \<Rightarrow> (app, unit) cm" where
  "export_signature p2 signature out_offset =
     bind_c (gets_c (\<lambda>s. sgn_output_length (sgn s))) (\<lambda>output_length.
     bind_c (gets_c (\<lambda>s. sgn_ui (sgn s))) (\<lambda>ui.
     bind_c (lift_c (export_text signature output_length ui)) (\<lambda>ui.
     bind_c (modify_c (set_sgn_ui ui)) (\<lambda>_.
     bind_c (gets_c G_io_apdu_buffer) (\<lambda>buf.
     bind_c (lift_c (export_bytes p2 signature output_length ui (drop out_offset buf)))
       (\<lambda>(output_length, out).
     bind_c (modify_c (\<lambda>s. s\<lparr>G_io_apdu_buffer := take out_offset buf @ out\<rparr>)) (\<lambda>_.
     modify_c (set_sgn_length output_length))))))))"

definition with_key_format :: "u8 list" where
  "with_key_format = chars_2_bytes ''With Key #%u?'' @ [0]"

definition handle_sign_message ::
  "'h crypto \<Rightarrow> u8 \<Rightarrow> u8 \<Rightarrow> u8 list \<Rightarrow> u16 \<Rightarrow> (app, unit) cm" where
  "handle_sign_message C p1 p2 buffer buffer_length =
     bind_c (lift_c (io_check_p1p2 p1 p2)) (\<lambda>_.
     bind_c (read_message buffer buffer_length) (\<lambda>_.
     bind_c
       (if p2 AND P2_MORE \<noteq> P2_MORE \<or> buffer_length = 0
        then sign_message C (buffer_length = 0) (replicate MAX_MSG_SIZE 0)
        else throw_c (Throw SW_OK))
       (\<lambda>signature.
     bind_c (gets_c sgn) (\<lambda>context.
     bind_c (lift_c (io_read_bip32 (msg_body context) (msg_length context) (replicate BIP32_PATH_LENGTH 0)))
       (\<lambda>(bip_32_length, bip_32_path).
     bind_c (gets_c main_tx) (\<lambda>tx.
     bind_c (export_signature p2 signature (unat tx)) (\<lambda>_.
     if p1 \<noteq> P1_CONFIRM then
       bind_c (modify_c (\<lambda>s. s\<lparr>main_tx := main_tx s + (sgn_output_length (sgn s) + 1)\<rparr>)) (\<lambda>_.
       bind_c clear_context_sign_message (\<lambda>_.
       throw_c (Throw SW_OK)))
     else
       bind_c (gets_c (\<lambda>s. sgn_ui (sgn s))) (\<lambda>ui.
       bind_c (lift_c (iost_snprintf (Some (approve_l2 ui)) (of_nat DISPLAY_SIZE) with_key_format
                 [VInt (if bip_32_length > 0
                        then bip_32_path ! (unat bip_32_length - 1) - BIP32_PATH_MASK else 0)]))
         (\<lambda>(line, _).
       bind_c (modify_c (set_sgn_ui (ui\<lparr>approve_l2 := the line\<rparr>))) (\<lambda>_.
       bind_c (ux_display Message_Approve) (\<lambda>_.
       modify_c (\<lambda>s. s\<lparr>main_flags := main_flags s OR IO_ASYNCH_REPLY\<rparr>))))))))))))"

section \<open>Collecting the message\<close>

definition sgn_ok :: "sign_tx_context \<Rightarrow> bool" where
  "sgn_ok c \<longleftrightarrow> length (msg_body c) = MAX_MSG_SIZE \<and> unat (msg_length c) \<le> MAX_MSG_SIZE \<and> ui_sized (sgn_ui c)"

text \<open>The message collected so far.\<close>

definition message :: "sign_tx_context \<Rightarrow> u8 list" where
  "message c = take (unat (msg_length c)) (msg_body c)"

lemma length_message: "sgn_ok c \<Longrightarrow> length (message c) = unat (msg_length c)"
  by (simp add: message_def sgn_ok_def)

lemma read_message_run:
  assumes ok: "sgn_ok (sgn s)" and len: "unat len \<le> length buffer"
  shows "if length (message (sgn s)) + unat len \<le> MAX_MSG_SIZE
    then \<exists>c. read_message buffer len s = (Inr (), s\<lparr>sgn := c\<rparr>) \<and> sgn_ok c
      \<and> message c = message (sgn s) @ take (unat len) buffer \<and> sgn_ui c = sgn_ui (sgn s)
      \<and> (len = 0 \<longrightarrow> c = sgn s)
    else read_message buffer len s = (Inl (Throw SW_WRONG_LENGTH), s)"
proof -
  let ?c = "sgn s"
  have l: "length (msg_body ?c) = 512" "length (message ?c) = unat (msg_length ?c)"
    using ok length_message by (simp_all add: sgn_ok_def MAX_MSG_SIZE_def)
  consider (long) "unat (msg_length ?c) + unat len > 512" | (none) "len = 0" "unat (msg_length ?c) \<le> 512"
    | (chunk) "len \<noteq> 0" "unat (msg_length ?c) + unat len \<le> 512"
    using ok by (fastforce simp: sgn_ok_def MAX_MSG_SIZE_def)
  then show ?thesis
  proof cases
    case long
    then show ?thesis
      by (simp add: l MAX_MSG_SIZE_def read_message_def bind_c_def gets_c_def throw_c_def)
  next
    case none
    then show ?thesis using ok
      by (auto simp: l MAX_MSG_SIZE_def read_message_def bind_c_def gets_c_def return_c_def intro!: exI [of _ ?c])
  next
    case chunk
    let ?n = "unat (msg_length ?c)"
    let ?body = "take ?n (msg_body ?c) @ take (unat len) buffer @ drop (?n + unat len) (msg_body ?c)"
    have u: "unat (msg_length ?c + len) = ?n + unat len"
      using chunk by (simp add: unat_word_ariths)
    have "read_message buffer len s = (Inr (), s\<lparr>sgn := ?c\<lparr>msg_body := ?body, msg_length := msg_length ?c + len\<rparr>\<rparr>)"
      using chunk len l
      by (simp add: read_message_def bind_c_def gets_c_def lift_c_def modify_c_def buf_read_def buf_write_def
          set_msg_body_def set_msg_length_def MAX_MSG_SIZE_def)
    moreover have "sgn_ok (?c\<lparr>msg_body := ?body, msg_length := msg_length ?c + len\<rparr>)"
      using ok chunk len by (simp add: sgn_ok_def u MAX_MSG_SIZE_def)
    moreover have "message (?c\<lparr>msg_body := ?body, msg_length := msg_length ?c + len\<rparr>) = message ?c @ take (unat len) buffer"
      using chunk len l by (simp add: message_def u)
    ultimately show ?thesis using chunk l by (auto simp: MAX_MSG_SIZE_def)
  qed
qed

section \<open>Signing\<close>

text \<open>The context and the signature that \<open>sign_message\<close> computes from a context.\<close>

definition message_signature ::
  "'h crypto \<Rightarrow> bool \<Rightarrow> sign_tx_context \<Rightarrow> exn + sign_tx_context \<times> u8 list" where
  "message_signature C hash c =
     (if msg_length c = 0 \<or> unat (msg_length c) > MAX_MSG_SIZE then THROW SW_WRONG_LENGTH
      else bindE (read_path (msg_body c) (msg_length c)) (\<lambda>(n, path).
        let offset = 1 + n * 4; len = msg_length c - offset; body = drop (unat offset) (msg_body c)
        in bindE (if hash then iost_hash_bytes C body len body else Inr (len, body)) (\<lambda>(len, body).
           bindE (iost_sign C path n body (ucast len) (replicate MAX_MSG_SIZE 0)) (\<lambda>(k, sig, _).
           Inr (c\<lparr>msg_body := take (unat offset) (msg_body c) @ body, msg_length := len,
                   sgn_output_length := k\<rparr>, sig)))))"

lemma read_path_Inr_length:
  assumes "read_path buffer len = Inr (n, path)" "len \<noteq> 0"
  shows "unat (1 + n * 4) = 1 + 4 * unat n" "1 + 4 * unat n \<le> unat len"
    "unat (len - (1 + n * 4)) = unat len - (1 + 4 * unat n)"
proof -
  obtain b r where b: "buffer = b # r" using assms(1) by (cases buffer) (auto simp: read_path_def io_read_bip32_def)
  have l: "unat (ucast len - 1 :: u32) = unat len - 1" using assms(2)
    by (simp add: unat_dec unat_gt_0)
  have n: "unat n \<le> 5" "4 * unat n \<le> unat len - 1"
    using assms(1) io_read_bip32_Cons [of "replicate BIP32_PATH_LENGTH 0" b r len]
    by (auto simp: read_path_def b l BIP32_PATH_LENGTH_def split: if_splits)
  show o: "unat (1 + n * 4) = 1 + 4 * unat n" using n(1) by (simp add: unat_word_ariths)
  have "0 < unat len" using assms(2) by (simp add: unat_gt_0)
  then show le: "1 + 4 * unat n \<le> unat len" using n(2) by linarith
  then show "unat (len - (1 + n * 4)) = unat len - (1 + 4 * unat n)"
    using o by (simp add: unat_sub word_le_nat_alt)
qed

lemma hash_step_safe:
  assumes "crypto_ok C" "unat l \<le> length b" "32 \<le> length b"
  shows "safe (\<lambda>(k, b'). unat k \<le> length b \<and> length b' = length b)
    (if hash then iost_hash_bytes C b l b else Inr (l, b))"
  by (cases hash) (use assms in \<open>auto intro!: safe_weaken [OF iost_hash_bytes_safe]\<close>)

lemma sign_message_run:
  assumes C: "crypto_ok C" and ok: "sgn_ok (sgn s)"
  shows "case message_signature C hash (sgn s) of
      Inl (Throw e) \<Rightarrow> \<exists>c. sgn_ok c \<and> sign_message C hash (replicate MAX_MSG_SIZE 0) s = (Inl (Throw e), s\<lparr>sgn := c\<rparr>)
    | Inl Fault \<Rightarrow> False
    | Inr (c, sig) \<Rightarrow> sgn_ok c \<and> length sig = MAX_MSG_SIZE \<and> sgn_ui c = sgn_ui (sgn s)
        \<and> (sgn_output_length c = 0 \<or> sgn_output_length c = 64)
        \<and> sign_message C hash (replicate MAX_MSG_SIZE 0) s = (Inr sig, s\<lparr>sgn := c\<rparr>)"
proof -
  let ?c = "sgn s" and ?sig = "replicate MAX_MSG_SIZE 0 :: u8 list"
  have same: "s\<lparr>sgn := ?c\<rparr> = s" by simp
  have l: "length (msg_body ?c) = 512" using ok by (simp add: sgn_ok_def MAX_MSG_SIZE_def)
  note run = sign_message_def bind_c_def lift_c_def gets_c_def throw_c_def return_c_def modify_c_def
    read_path_def [symmetric] Let_def set_msg_length_def set_msg_body_def set_sgn_length_def
  show ?thesis
  proof (cases "msg_length ?c = 0 \<or> unat (msg_length ?c) > MAX_MSG_SIZE")
    case True
    then have "message_signature C hash ?c = THROW SW_WRONG_LENGTH"
      "sign_message C hash ?sig s = (Inl (Throw SW_WRONG_LENGTH), s)"
      by (auto simp: message_signature_def run)
    with ok same show ?thesis by auto
  next
    case len: False
    show ?thesis
    proof (cases "read_path (msg_body ?c) (msg_length ?c)")
      case (Inl e)
      with read_path_safe [of "msg_body ?c" "msg_length ?c"] l obtain x where e: "e = Throw x" by (cases e) simp_all
      then have "message_signature C hash ?c = THROW x" "sign_message C hash ?sig s = (Inl (Throw x), s)"
        using len by (auto simp: message_signature_def run Inl)
      with ok same show ?thesis by auto
    next
      case p: (Inr r)
      obtain n path where r: "r = (n, path)" by (cases r)
      note path = read_path_Inr_length [OF p [unfolded r]] read_path_Inr [OF p [unfolded r]]
      define off where "off = 1 + n * 4"
      have off: "unat off = 1 + 4 * unat n" "unat off \<le> 21" "1 + 4 * unat n \<le> unat (msg_length ?c)"
        "unat (msg_length ?c - off) = unat (msg_length ?c) - unat off"
        using path len by (simp_all add: off_def)
      have fit: "unat (msg_length ?c - off) \<le> length (drop (unat off) (msg_body ?c))"
      proof -
        have "unat (msg_length ?c) \<le> 512" using ok by (simp add: sgn_ok_def MAX_MSG_SIZE_def)
        then show ?thesis unfolding off(4) length_drop l by (rule diff_le_mono)
      qed
      let ?b = "drop (unat off) (msg_body ?c)" and ?l = "msg_length ?c - off"
      let ?pre = "if hash then iost_hash_bytes C ?b ?l ?b else Inr (?l, ?b)"
      have pre: "safe (\<lambda>(k, b). unat k \<le> length ?b \<and> length b = length ?b) ?pre"
        using hash_step_safe [OF C fit] l off(2) by simp
      have red: "sgn_ok (?c\<lparr>msg_length := ?l\<rparr>)"
        using ok off(4) by (auto simp: sgn_ok_def intro: le_trans [OF diff_le_self])
      show ?thesis
      proof (cases ?pre)
        case (Inl e)
        with pre obtain x where e: "e = Throw x" by (cases e) simp_all
        then have "message_signature C hash ?c = THROW x"
          "sign_message C hash ?sig s = (Inl (Throw x), s\<lparr>sgn := ?c\<lparr>msg_length := ?l\<rparr>\<rparr>)"
          using Inl len by (auto simp: message_signature_def run p r off_def [symmetric] split: if_splits)
        with red show ?thesis by auto
      next
        case h: (Inr v)
        obtain k b where v: "v = (k, b)" by (cases v)
        have kb: "unat k \<le> length ?b" "length b = length ?b" using pre by (simp_all add: h v)
        define c' where "c' = ?c\<lparr>msg_body := take (unat off) (msg_body ?c) @ b, msg_length := k\<rparr>"
        have b: "msg_body c' = take (unat off) (msg_body ?c) @ b" by (simp add: c'_def)
        have dropb: "drop (unat off) (msg_body c') = b" using off l by (simp add: b)
        have ok': "sgn_ok c'" using ok kb l off by (simp add: c'_def sgn_ok_def MAX_MSG_SIZE_def)
        have s': "sgn_ok (c'\<lparr>sgn_output_length := m\<rparr>)" for m using ok' by (simp add: sgn_ok_def)
        have id: "c' = ?c\<lparr>msg_length := ?l\<rparr>" if "\<not> hash"
        proof -
          have "b = ?b" "k = ?l" using h that by (simp_all add: v)
          then show ?thesis by (simp add: c'_def)
        qed
        have u8: "unat (ucast k :: u8) \<le> length b"
          using kb unat_ucast_mod [of k, where 'b = 8] by (metis le_trans mod_less_eq_dividend)
        have sg: "safe (\<lambda>(m, sig, sk). (m = 0 \<or> m = 64) \<and> length sig = 512) (iost_sign C path n b (ucast k) ?sig)"
          using iost_sign_safe [OF C _ u8, of n path ?sig] path(4) by (simp add: MAX_MSG_SIZE_def)
        have m: "message_signature C hash ?c = bindE (iost_sign C path n b (ucast k) ?sig)
            (\<lambda>(m, sig, _). Inr (c'\<lparr>sgn_output_length := m\<rparr>, sig))"
          unfolding message_signature_def if_not_P [OF len] p r bindE_simps prod.case Let_def off_def [symmetric]
            h [unfolded v] c'_def by simp
        have sm: "sign_message C hash ?sig s = (case iost_sign C path n b (ucast k) ?sig of
            Inl e \<Rightarrow> (Inl e, s\<lparr>sgn := c'\<rparr>) | Inr (m, sig, _) \<Rightarrow> (Inr sig, s\<lparr>sgn := c'\<lparr>sgn_output_length := m\<rparr>\<rparr>))"
        proof (cases hash)
          case True
          with len h dropb show ?thesis
            by (simp add: run p r off_def [symmetric] v c'_def split: sum.split)
        next
          case False
          with len h dropb id show ?thesis
            by (simp add: run p r off_def [symmetric] v split: sum.split)
        qed
        show ?thesis
        proof (cases "iost_sign C path n b (ucast k) ?sig")
          case (Inl e)
          with sg obtain x where "e = Throw x" by (cases e) simp_all
          with m sm ok' Inl show ?thesis by auto
        next
          case (Inr w)
          with sg m sm s' show ?thesis
            by (cases w) (auto simp: MAX_MSG_SIZE_def c'_def)
        qed
      qed
    qed
  qed
qed

section \<open>Exporting the signature\<close>

text \<open>The signature in the array, as long as the context says.\<close>

definition signature_bytes :: "sign_tx_context \<Rightarrow> u8 list \<Rightarrow> u8 list" where
  "signature_bytes c sig = take (unat (sgn_output_length c)) sig"

definition sig_exported :: "sign_tx_context \<Rightarrow> u8 list \<Rightarrow> u8 \<Rightarrow> nat \<Rightarrow> app \<Rightarrow> app" where
  "sig_exported c sig p2 offset s =
     (let out = encoded p2 (signature_bytes c sig)
      in s\<lparr>sgn := c\<lparr>sgn_output_length := of_nat (length out),
                    sgn_ui := shows_text (sgn_ui c) (base58_text (signature_bytes c sig))\<rparr>,
           G_io_apdu_buffer := take offset (G_io_apdu_buffer s) @ out
             @ 0 # drop (offset + Suc (length out)) (G_io_apdu_buffer s)\<rparr>)"

lemma export_signature_run:
  assumes "sgn_ok (sgn s)" "unat (sgn_output_length (sgn s)) \<le> 64" "64 \<le> length sig"
    and off: "offset + 129 \<le> length (G_io_apdu_buffer s)"
  shows "export_signature p2 sig offset s = (Inr (), sig_exported (sgn s) sig p2 offset s)"
proof -
  let ?n = "sgn_output_length (sgn s)" and ?bs = "signature_bytes (sgn s) sig"
  have u: "ui_sized (sgn_ui (sgn s))" using assms(1) by (simp add: sgn_ok_def)
  have t: "export_text sig ?n (sgn_ui (sgn s)) = Inr (shows_text (sgn_ui (sgn s)) (base58_text ?bs))"
    using export_text_spec [OF u, of ?n sig] assms(2,3) by (simp add: signature_bytes_def)
  have b: "export_bytes p2 sig ?n (shows_text (sgn_ui (sgn s)) (base58_text ?bs)) (drop offset (G_io_apdu_buffer s))
      = Inr (of_nat (length (encoded p2 ?bs)), encoded p2 ?bs
          @ 0 # drop (Suc (length (encoded p2 ?bs))) (drop offset (G_io_apdu_buffer s)))"
    using off assms(2,3) by (intro export_bytes_spec [OF refl]) (simp_all add: signature_bytes_def)
  show ?thesis
    by (simp add: export_signature_def bind_c_def gets_c_def lift_c_def modify_c_def t b set_sgn_ui_def
        set_sgn_length_def sig_exported_def Let_def add.commute)
qed

text \<open>The line that asks for the approval, cut off after 17 characters.\<close>

definition with_key_line :: "u32 \<Rightarrow> u8 list" where
  "with_key_line n = take 17 (chars_2_bytes ''With Key #'' @ decimal n @ chars_2_bytes ''?'')"

lemma snprintf_with_key_line:
  assumes "length line = DISPLAY_SIZE + 1"
  shows "\<exists>m. iost_snprintf (Some line) (of_nat DISPLAY_SIZE) with_key_format [VInt n]
    = Inr (Some (with_key_line n @ 0 # drop (Suc (length (with_key_line n))) line), m)"
proof -
  let ?t = "chars_2_bytes ''With Key #'' @ decimal n @ chars_2_bytes ''?''"
  have f: "format_text with_key_format [VInt n] = Inr ?t"
    using format_text_number_line [of "chars_2_bytes ''With Key #''" "chars_2_bytes ''?''" n]
    by (simp add: with_key_format_def chars_2_bytes_def)
  have l: "length ?t \<le> 20"
    using length_decimal [of n] by (simp add: chars_2_bytes_def)
  obtain t where t: "t = ?t" by blast
  have k: "with_key_line n = take 17 t" "length t < 4294967296" using l by (simp_all add: with_key_line_def t)
  show ?thesis
    using iost_snprintf_bounded [of "of_nat DISPLAY_SIZE" line with_key_format "[VInt n]"] assms k(2)
    unfolding f t [symmetric] k(1) by (auto simp: DISPLAY_SIZE_def min.commute)
qed

section \<open>The handler\<close>

text \<open>
  The last command of a message: the context after signing, the signature, and the path the
  handler reads from the context a second time.
\<close>

definition signed :: "'h crypto \<Rightarrow> bool \<Rightarrow> sign_tx_context
    \<Rightarrow> exn + sign_tx_context \<times> u8 list \<times> u16 \<times> u32 list" where
  "signed C hash c =
     bindE (message_signature C hash c) (\<lambda>(c, sig).
     bindE (read_path (msg_body c) (msg_length c)) (\<lambda>path. Inr (c, sig, path)))"

definition sig_silent :: "sign_tx_context \<Rightarrow> u8 list \<Rightarrow> u8 \<Rightarrow> app \<Rightarrow> app" where
  "sig_silent c sig p2 s =
     (let s' = sig_exported c sig p2 (unat (main_tx s)) s
      in s'\<lparr>main_tx := main_tx s + (of_nat (length (encoded p2 (signature_bytes c sig))) + 1),
            sgn := zero_sign_context\<rparr>)"

definition sig_confirm :: "sign_tx_context \<Rightarrow> u8 list \<Rightarrow> u8 \<Rightarrow> u32 \<Rightarrow> app \<Rightarrow> app" where
  "sig_confirm c sig p2 n s =
     (let s' = sig_exported c sig p2 (unat (main_tx s)) s;
          line = with_key_line n @ 0 # drop (Suc (length (with_key_line n))) (approve_l2 (sgn_ui c))
      in s'\<lparr>sgn := (sgn s')\<lparr>sgn_ui := (sgn_ui (sgn s'))\<lparr>approve_l2 := line\<rparr>\<rparr>,
            ux := Message_Approve, G_ux_os := io_seproxyhal_init_button,
            main_flags := main_flags s OR IO_ASYNCH_REPLY\<rparr>)"

text \<open>Invalid parameters, and a message that does not fit.\<close>

lemma handle_sign_message_refused:
  assumes "sgn_ok (sgn s)" "unat len \<le> length buffer"
  shows "io_check_p1p2 p1 p2 = Inl (Throw e) \<Longrightarrow>
      handle_sign_message C p1 p2 buffer len s = (Inl (Throw e), s)"
    and "io_check_p1p2 p1 p2 = Inr () \<Longrightarrow> length (message (sgn s)) + unat len > MAX_MSG_SIZE \<Longrightarrow>
      handle_sign_message C p1 p2 buffer len s = (Inl (Throw SW_WRONG_LENGTH), s)"
  using read_message_run [OF assms]
  by (simp_all add: handle_sign_message_def bind_c_def lift_c_def split: if_splits)

text \<open>A chunk that is not the last one.\<close>

lemma handle_sign_message_more:
  assumes "io_check_p1p2 p1 p2 = Inr ()" "read_message buffer len s = (Inr (), s')"
    and "p2 AND P2_MORE = P2_MORE" "len \<noteq> 0"
  shows "handle_sign_message C p1 p2 buffer len s = (Inl (Throw SW_OK), s')"
  using assms by (simp add: handle_sign_message_def bind_c_def lift_c_def throw_c_def)

lemma handle_sign_message_last:
  assumes C: "crypto_ok C" "io_check_p1p2 p1 p2 = Inr ()"
    and c: "read_message buffer len s = (Inr (), s\<lparr>sgn := c\<rparr>)" "sgn_ok c"
    and last: "p2 AND P2_MORE \<noteq> P2_MORE \<or> len = 0"
    and buf: "unat (main_tx s) + 129 \<le> length (G_io_apdu_buffer s)"
  shows "case signed C (len = 0) c of
      Inl (Throw e) \<Rightarrow> \<exists>c'. sgn_ok c'
        \<and> handle_sign_message C p1 p2 buffer len s = (Inl (Throw e), s\<lparr>sgn := c'\<rparr>)
    | Inl Fault \<Rightarrow> False
    | Inr (c', sig, path) \<Rightarrow> sgn_ok c' \<and> length sig = MAX_MSG_SIZE \<and> sgn_ui c' = sgn_ui c
        \<and> (sgn_output_length c' = 0 \<or> sgn_output_length c' = 64)
        \<and> handle_sign_message C p1 p2 buffer len s =
            (if p1 \<noteq> P1_CONFIRM then (Inl (Throw SW_OK), sig_silent c' sig p2 s)
             else (Inr (), sig_confirm c' sig p2 (last_element path) s))"
proof -
  let ?s = "s\<lparr>sgn := c\<rparr>"
  note run = handle_sign_message_def bind_c_def lift_c_def gets_c_def throw_c_def modify_c_def C(2) c(1)
    read_path_def [symmetric]
  have sm: "case message_signature C (len = 0) c of
      Inl (Throw e) \<Rightarrow> \<exists>c'. sgn_ok c' \<and> sign_message C (len = 0) (replicate MAX_MSG_SIZE 0) ?s = (Inl (Throw e), s\<lparr>sgn := c'\<rparr>)
    | Inl Fault \<Rightarrow> False
    | Inr (c', sig) \<Rightarrow> sgn_ok c' \<and> length sig = MAX_MSG_SIZE \<and> sgn_ui c' = sgn_ui c
        \<and> (sgn_output_length c' = 0 \<or> sgn_output_length c' = 64)
        \<and> sign_message C (len = 0) (replicate MAX_MSG_SIZE 0) ?s = (Inr sig, s\<lparr>sgn := c'\<rparr>)"
    using sign_message_run [OF C(1), of ?s "len = 0"] c(2)
    by (cases "message_signature C (len = 0) c") (auto split: exn.splits)
  show ?thesis
  proof (cases "message_signature C (len = 0) c")
    case (Inl e)
    with sm obtain x c' where "e = Throw x" "sgn_ok c'"
      "sign_message C (len = 0) (replicate MAX_MSG_SIZE 0) ?s = (Inl (Throw x), s\<lparr>sgn := c'\<rparr>)"
      by (cases e) auto
    with Inl last show ?thesis by (auto simp: signed_def run)
  next
    case m: (Inr v)
    obtain c' sig where v: "v = (c', sig)" by (cases v)
    with sm m have c': "sgn_ok c'" "length sig = MAX_MSG_SIZE" "sgn_ui c' = sgn_ui c"
      "sgn_output_length c' = 0 \<or> sgn_output_length c' = 64"
      and r: "sign_message C (len = 0) (replicate MAX_MSG_SIZE 0) ?s = (Inr sig, s\<lparr>sgn := c'\<rparr>)" by auto
    show ?thesis
    proof (cases "read_path (msg_body c') (msg_length c')")
      case (Inl e)
      have "21 \<le> length (msg_body c')" using c'(1) by (simp add: sgn_ok_def MAX_MSG_SIZE_def)
      with read_path_safe Inl obtain x where "e = Throw x" by (cases e) (metis safe_simps(3))+
      with Inl m v r last c'(1) show ?thesis by (auto simp: signed_def run)
    next
      case p: (Inr path)
      obtain n els where path: "path = (n, els)" by (cases path)
      have x: "export_signature p2 sig (unat (main_tx s)) (s\<lparr>sgn := c'\<rparr>)
          = (Inr (), sig_exported c' sig p2 (unat (main_tx s)) s)"
        using export_signature_run [of "s\<lparr>sgn := c'\<rparr>" sig "unat (main_tx s)" p2] c' buf
        by (auto simp: MAX_MSG_SIZE_def sig_exported_def Let_def)
      have "length (approve_l2 (sgn_ui c')) = DISPLAY_SIZE + 1" using c'(1) by (simp add: sgn_ok_def ui_sized_def)
      from snprintf_with_key_line [OF this, of "last_element path"] obtain k where
        l: "iost_snprintf (Some (approve_l2 (sgn_ui c'))) (of_nat DISPLAY_SIZE) with_key_format [VInt (last_element path)]
          = Inr (Some (with_key_line (last_element path)
              @ 0 # drop (Suc (length (with_key_line (last_element path)))) (approve_l2 (sgn_ui c'))), k)" by blast
      have "handle_sign_message C p1 p2 buffer len s =
            (if p1 \<noteq> P1_CONFIRM then (Inl (Throw SW_OK), sig_silent c' sig p2 s)
             else (Inr (), sig_confirm c' sig p2 (last_element path) s))"
        using last l [unfolded path last_element_def fst_conv snd_conv] r p [unfolded path] x
        by (simp add: run path last_element_def clear_context_sign_message_def sig_silent_def sig_confirm_def
            sig_exported_def ux_display_def set_sgn_ui_def shows_text_keeps Let_def)
      with c' show ?thesis by (simp add: signed_def m v p)
    qed
  qed
qed

end
