(* ===== verification/App_Main.thy ===== *)
theory App_Main
  imports Get_Configuration Get_Public_Key Sign_Message
begin

text \<open>
  The application: \<open>main\<close>, \<open>app_main\<close> and \<open>app_exit\<close> of \<open>src/src/main.c\<close>, \<open>io_event\<close> of \<open>io.c\<close>,
  and the reception loop of the SDK's \<open>io_exchange\<close> with the commands it answers itself, as
  a step relation on configurations.  A configuration is a control location and a state; the
  labels are the events of the outside world.
\<close>

section \<open>The reserved commands of \<open>io_exchange\<close>\<close>

text \<open>
  What the firmware answers to the system calls used there: the tags \<open>BOLOS_TAG_APPNAME\<close>
  and \<open>BOLOS_TAG_APPVERSION\<close>, \<open>os_flags\<close>, whether the PIN is validated, the seed cookie.
\<close>

record firmware =
  app_name :: "u8 list"
  app_version :: "u8 list"
  os_flags :: u8
  pin_is_validated :: bool
  os_perso_seed_cookie :: "u8 list"

definition IO_FLAGS :: u8 where [const_defs]: "IO_FLAGS = 0xF8"

text \<open>Appending a tag with its length in front.\<close>

definition append_tag :: "u8 list \<Rightarrow> u8 list \<Rightarrow> nat \<Rightarrow> exn + u8 list \<times> nat" where
  "append_tag tag buf tx_len =
     bindE (buf_write buf (tx_len + 1) tag) (\<lambda>buf.
     bindE (buf_write buf tx_len [of_nat (length tag)]) (\<lambda>buf.
     Inr (buf, tx_len + 1 + length tag)))"

definition os_io_seproxyhal_get_app_name_and_version :: "firmware \<Rightarrow> u8 list \<Rightarrow> exn + u8 list \<times> nat" where
  "os_io_seproxyhal_get_app_name_and_version F buf =
     bindE (buf_write buf 0 [1]) (\<lambda>buf.
     bindE (append_tag (app_name F) buf 1) (\<lambda>(buf, tx_len).
     bindE (append_tag (app_version F) buf tx_len) (\<lambda>(buf, tx_len).
     bindE (buf_write buf tx_len [1]) (\<lambda>buf.
     bindE (buf_write buf (tx_len + 1) [os_flags F]) (\<lambda>buf.
     bindE (buf_write buf (tx_len + 2) [0x90]) (\<lambda>buf.
     bindE (buf_write buf (tx_len + 3) [0x00]) (\<lambda>buf.
     Inr (buf, tx_len + 4))))))))"

text \<open>
  The buffer, the length of the reply and the channel with its flags, when the buffer starts
  with a reserved command.
\<close>

definition reserved_apdu :: "firmware \<Rightarrow> u8 \<Rightarrow> u8 list \<Rightarrow> (exn + u8 list \<times> nat \<times> u8) option" where
  "reserved_apdu F channel buf =
     (if take 4 buf = [0xB0, 0x01, 0x00, 0x00] then
        Some (bindE (os_io_seproxyhal_get_app_name_and_version F buf) (\<lambda>(buf, tx_len).
          Inr (buf, tx_len, channel AND NOT IO_FLAGS)))
      else if take 4 buf = [0xB0, 0xA7, 0x00, 0x00] then
        Some (bindE (buf_write buf 0 [0x90, 0x00]) (\<lambda>buf.
          Inr (buf, 2, channel OR IO_RESET_AFTER_REPLIED)))
      else if take 4 buf = [0xB0, 0x02, 0x00, 0x00] then
        Some (if pin_is_validated F then
            let cookie = os_perso_seed_cookie F
            in bindE (buf_write buf 0 [0x01]) (\<lambda>buf.
               bindE (buf_write buf 2 cookie) (\<lambda>buf.
               bindE (buf_write buf 1 [of_nat (length cookie)]) (\<lambda>buf.
               bindE (buf_write buf (2 + length cookie) [0x90, 0x00]) (\<lambda>buf.
               Inr (buf, 4 + length cookie, channel AND NOT IO_FLAGS)))))
          else
            bindE (buf_write buf 0 [0x69, 0x85]) (\<lambda>buf.
            Inr (buf, 2, channel AND NOT IO_FLAGS)))
      else None)"

section \<open>Events\<close>

text \<open>
  A complete or an aborted transmission of a command over USB, a report of the buttons that
  are down, a reset of the USB bus, a status event of a device without USB power, and the
  other events (tickers, displayed elements).
\<close>

datatype event =
  Apdu "u8 list"
| Apdu_Part "u8 list"
| Button_Report u32
| Usb_Reset
| Usb_Unpowered
| Other_Event

text \<open>
  The transport drops everything while a command has not been replied to, and resets on
  commands longer than the buffer (theory \<open>Usb_Hid\<close>).
\<close>

definition usb_receive :: "u8 list \<Rightarrow> bool \<Rightarrow> app \<Rightarrow> app" where
  "usb_receive data complete s =
     (if apdu_media s \<noteq> IO_APDU_MEDIA_NONE \<or> length data > length (G_io_apdu_buffer s) then s
      else
        let s = s\<lparr>G_io_apdu_buffer := data @ drop (length data) (G_io_apdu_buffer s)\<rparr>
        in if complete
           then s\<lparr>apdu_media := IO_APDU_MEDIA_USB_HID, apdu_length := of_nat (length data)\<rparr> else s)"

text \<open>\<open>callback_os_exit\<close> of \<open>utils.c\<close>: \<open>os_sched_exit\<close> with the given code.\<close>

definition callback_os_exit :: "u32 \<Rightarrow> (app, u32 option) cm" where
  "callback_os_exit exit_code = return_c (Some exit_code)"

text \<open>The button handlers of the screens; a result is the code the application exits with.\<close>

definition button_push_handler :: "screen \<Rightarrow> u32 \<Rightarrow> (app, u32 option) cm" where
  "button_push_handler screen button_mask =
     (case screen of
        No_Screen \<Rightarrow> return_c None
      | Menu_Screen \<Rightarrow>
          bind_c (gets_c ux_menu) (\<lambda>m.
          bind_c (lift_c (ux_menu_elements_button button_mask m)) (\<lambda>(m, cb, _, redraw).
          bind_c (modify_c (\<lambda>s. s\<lparr>ux_menu := m\<rparr>)) (\<lambda>_.
          bind_c (if redraw then ux_redisplay else return_c ()) (\<lambda>_.
          case cb of
            None \<Rightarrow> return_c None
          | Some (Callback_Os_Exit, code) \<Rightarrow> callback_os_exit code))))
      | Public_Key_Approve \<Rightarrow> bind_c (ui_get_public_key_approve_button button_mask) (\<lambda>_. return_c None)
      | Public_Key_Compare \<Rightarrow> bind_c (ui_get_public_key_compare_button button_mask) (\<lambda>_. return_c None)
      | Message_Approve \<Rightarrow> bind_c (ui_sign_message_approve_button button_mask) (\<lambda>_. return_c None)
      | Message_Compare \<Rightarrow> bind_c (ui_sign_message_compare_button button_mask) (\<lambda>_. return_c None))"

text \<open>\<open>UX_BUTTON_PUSH_EVENT\<close>, when the firmware's own user interface leaves the event to the
  application.\<close>

definition ux_button_push_event :: "u32 \<Rightarrow> (app, u32 option) cm" where
  "ux_button_push_event new_button_mask =
     bind_c (gets_c ux) (\<lambda>screen.
     if screen = No_Screen then return_c None
     else
       bind_c (gets_c G_ux_os) (\<lambda>g.
       let (g, button_mask) = io_seproxyhal_button_push new_button_mask g
       in bind_c (modify_c (\<lambda>s. s\<lparr>G_ux_os := g\<rparr>)) (\<lambda>_.
          button_push_handler screen button_mask)))"

text \<open>\<open>io_event\<close> of \<open>io.c\<close>.\<close>

definition io_event :: "event \<Rightarrow> (app, u32 option) cm" where
  "io_event ev =
     bind_c (gets_c stack_canary) (\<lambda>canary.
     bind_c (lift_c (debug_check_stack_canary canary)) (\<lambda>_.
     case ev of
       Button_Report buttons \<Rightarrow> ux_button_push_event buttons
     | Usb_Unpowered \<Rightarrow>
         bind_c (gets_c apdu_media) (\<lambda>media.
         if media = IO_APDU_MEDIA_USB_HID then throw_c (Throw EXCEPTION_IO_RESET)
         else return_c None)
     | _ \<Rightarrow> return_c None))"

text \<open>\<open>io_seproxyhal_handle_event\<close>: USB events go to the transport, the others to \<open>io_event\<close>.\<close>

definition io_seproxyhal_handle_event :: "event \<Rightarrow> (app, u32 option) cm" where
  "io_seproxyhal_handle_event ev =
     (case ev of
        Apdu data \<Rightarrow> bind_c (modify_c (usb_receive data True)) (\<lambda>_. return_c None)
      | Apdu_Part data \<Rightarrow> bind_c (modify_c (usb_receive data False)) (\<lambda>_. return_c None)
      | Usb_Reset \<Rightarrow>
          bind_c (gets_c apdu_media) (\<lambda>media.
          if media \<noteq> IO_APDU_MEDIA_NONE then throw_c (Throw EXCEPTION_IO_RESET)
          else return_c None)
      | _ \<Rightarrow> io_event ev)"

section \<open>The reception loop of \<open>io_exchange\<close>\<close>

datatype rx_result = Rx_Wait u8 | Rx_Apdu u16 | Rx_Exit u32

text \<open>When a command has arrived: reserved commands are answered at once.\<close>

definition io_exchange_apdu :: "firmware \<Rightarrow> u8 \<Rightarrow> (app, rx_result) cm" where
  "io_exchange_apdu F channel =
     bind_c (gets_c G_io_apdu_buffer) (\<lambda>buf.
     case reserved_apdu F channel buf of
       None \<Rightarrow> bind_c (gets_c apdu_length) (\<lambda>l. return_c (Rx_Apdu l))
     | Some r \<Rightarrow>
         bind_c (lift_c r) (\<lambda>(buf, tx_len, channel).
         bind_c (modify_c (\<lambda>s. s\<lparr>G_io_apdu_buffer := buf\<rparr>)) (\<lambda>_.
         bind_c (io_exchange_tx channel (of_nat tx_len)) (\<lambda>t.
         return_c (case t of
             Tx_Return l \<Rightarrow> Rx_Apdu l
           | Tx_Exit code \<Rightarrow> Rx_Exit code
           | Tx_Receive \<Rightarrow> Rx_Wait channel)))))"

definition io_exchange_rx :: "firmware \<Rightarrow> u8 \<Rightarrow> event \<Rightarrow> (app, rx_result) cm" where
  "io_exchange_rx F channel ev =
     bind_c (io_seproxyhal_handle_event ev) (\<lambda>exit.
     case exit of
       Some code \<Rightarrow> return_c (Rx_Exit code)
     | None \<Rightarrow>
         bind_c (gets_c (\<lambda>s. apdu_media s \<noteq> IO_APDU_MEDIA_NONE \<and> apdu_length s > 0)) (\<lambda>received.
         if received then io_exchange_apdu F channel else return_c (Rx_Wait channel)))"

section \<open>\<open>app_main\<close>\<close>

definition clear_all_contexts :: "(app, unit) cm" where
  "clear_all_contexts =
     bind_c clear_context_get_configuration (\<lambda>_.
     bind_c clear_context_get_public_key (\<lambda>_.
     clear_context_sign_message))"

text \<open>The \<open>switch\<close> on the instruction; the result is true for the jump to
  \<open>return_to_dashboard\<close>.\<close>

definition app_main_command ::
  "'h crypto \<Rightarrow> u8 \<Rightarrow> u8 \<Rightarrow> u8 \<Rightarrow> u8 list \<Rightarrow> u16 \<Rightarrow> u16 \<Rightarrow> (app, bool) cm" where
  "app_main_command C ins p1 p2 buffer len rx =
     (if ins = INS_RESET then
        bind_c (modify_c (\<lambda>s. s\<lparr>main_flags := main_flags s OR IO_RESET_AFTER_REPLIED\<rparr>)) (\<lambda>_.
        throw_c (Throw SW_OK))
      else if ins = INS_ECHO then
        bind_c (modify_c (\<lambda>s. s\<lparr>main_tx := rx\<rparr>)) (\<lambda>_. throw_c (Throw SW_OK))
      else if ins = INS_GET_CONFIGURATION then
        bind_c (handle_get_configuration p1 p2 buffer len) (\<lambda>_. return_c False)
      else if ins = INS_GET_PUBLIC_KEY then
        bind_c (handle_get_public_key C p1 p2 buffer len) (\<lambda>_. return_c False)
      else if ins = INS_SIGN_MESSAGE then
        bind_c (handle_sign_message C p1 p2 buffer len) (\<lambda>_. return_c False)
      else if ins = INS_RETURN_TO_DASHBOARD then return_c True
      else throw_c (Throw SW_INS_NOT_SUPPORTED))"

text \<open>
  The body of the loop from the return of \<open>io_exchange\<close> to the end of the \<open>TRY\<close> block.
\<close>

definition app_main_dispatch :: "'h crypto \<Rightarrow> u16 \<Rightarrow> (app, bool) cm" where
  "app_main_dispatch C rx =
     bind_c (modify_c (\<lambda>s. s\<lparr>main_rx := rx, main_flags := 0\<rparr>)) (\<lambda>_.
     if rx < APDU_MIN_SIZE then throw_c (Throw EXCEPTION_IO_RESET)
     else
       bind_c (gets_c G_io_apdu_buffer) (\<lambda>buf.
       bind_c (lift_c (buf_read buf 0 OFFSET_CDATA)) (\<lambda>header.
       if header ! OFFSET_CLA \<noteq> CLA then throw_c (Throw SW_CLA_NOT_SUPPORTED)
       else
         let p1 = header ! OFFSET_P1; p2 = header ! OFFSET_P2;
             length = (ucast (header ! OFFSET_LC) :: u16);
             buffer = drop OFFSET_CDATA buf
         in if length = 0 \<and> p2 AND P2_MORE = 0 then throw_c (Throw SW_WRONG_LENGTH)
            else if unat length + unat APDU_MAX_SIZE \<noteq> unat rx then throw_c (Throw SW_WRONG_LENGTH)
            else app_main_command C (header ! OFFSET_INS) p1 p2 buffer length rx)))"

text \<open>The status word for a caught exception.\<close>

definition status_word :: "u16 \<Rightarrow> u16" where
  "status_word e =
     (if e AND 0xF000 = 0x6000 \<or> e AND 0xF000 = 0x9000 then e else 0x6800 OR (e AND 0x7FF))"

text \<open>The \<open>CATCH_OTHER\<close> block.\<close>

definition app_main_catch :: "u16 \<Rightarrow> (app, unit) cm" where
  "app_main_catch e =
     bind_c (if e AND 0xF000 = 0x9000 then return_c () else clear_all_contexts) (\<lambda>_.
     try_modify_c (\<lambda>s.
       bindE (io_set_status (status_word e) None (Some (main_tx s)) (G_io_apdu_buffer s)) (\<lambda>(_, tx, buf).
       Inr (s\<lparr>main_tx := the tx, G_io_apdu_buffer := buf\<rparr>))))"

section \<open>Configurations and steps\<close>

text \<open>
  \<open>Main_Head\<close>: the loop of \<open>main\<close>; \<open>Loop_Head\<close>: the loop of \<open>app_main\<close>; \<open>Receiving channel\<close>:
  inside \<open>io_exchange\<close>, waiting for an event; \<open>Exited code\<close>: after \<open>os_sched_exit\<close>;
  \<open>Crashed\<close>: an object was left.
\<close>

datatype control = Main_Head | Loop_Head | Receiving u8 | Exited u32 | Crashed

text \<open>The \<open>CATCH\<close> blocks of \<open>main\<close>: \<open>continue\<close>, or \<open>break\<close> and \<open>app_exit\<close>.\<close>

definition app_exit :: control where
  "app_exit = Exited (- 1)"

definition main_catch :: "exn \<Rightarrow> control" where
  "main_catch e = (case e of
     Fault \<Rightarrow> Crashed
   | Throw e \<Rightarrow> if e = EXCEPTION_IO_RESET then Main_Head else app_exit)"

text \<open>The end of an iteration of \<open>app_main\<close>.\<close>

definition app_main_end :: "(exn + bool) \<times> app \<Rightarrow> control \<times> app" where
  "app_main_end r =
     (case r of
        (Inr dashboard, s) \<Rightarrow> (if dashboard then Main_Head else Loop_Head, s)
      | (Inl Fault, s) \<Rightarrow> (Crashed, s)
      | (Inl (Throw e), s) \<Rightarrow>
          if e = EXCEPTION_IO_RESET then (main_catch (Throw e), s)
          else case app_main_catch e s of
              (Inr _, s) \<Rightarrow> (Loop_Head, s)
            | (Inl e, s) \<Rightarrow> (main_catch e, s))"

text \<open>
  \<open>UX_INIT\<close>, \<open>io_seproxyhal_init\<close>, \<open>ui_idle\<close> and the start of \<open>app_main\<close>.
\<close>

definition main_start :: "(app, unit) cm" where
  "main_start =
     bind_c (modify_c (\<lambda>s. s\<lparr>ux := No_Screen\<rparr>)) (\<lambda>_.
     bind_c (modify_c (\<lambda>s. s\<lparr>apdu_media := IO_APDU_MEDIA_NONE, apdu_length := 0,
                              G_ux_os := io_seproxyhal_init_button\<rparr>)) (\<lambda>_.
     bind_c ui_idle (\<lambda>_.
     bind_c (modify_c (\<lambda>s. s\<lparr>main_rx := 0, main_tx := 0, main_flags := 0\<rparr>)) (\<lambda>_.
     clear_all_contexts))))"

definition main_head :: "app \<Rightarrow> control \<times> app" where
  "main_head s = (case main_start s of (Inr _, s) \<Rightarrow> (Loop_Head, s) | (Inl e, s) \<Rightarrow> (main_catch e, s))"

text \<open>The head of the loop of \<open>app_main\<close>, into \<open>io_exchange\<close>.\<close>

definition loop_head :: "'h crypto \<Rightarrow> app \<Rightarrow> control \<times> app" where
  "loop_head C s =
     (let tx_len = main_tx s; channel = CHANNEL_APDU OR main_flags s;
          s = s\<lparr>main_rx := tx_len, main_tx := 0\<rparr>
      in case io_exchange_tx channel tx_len s of
           (Inr Tx_Receive, s) \<Rightarrow> (Receiving channel, s)
         | (Inr (Tx_Exit code), s) \<Rightarrow> (Exited code, s)
         | (Inr (Tx_Return l), s) \<Rightarrow> app_main_end (app_main_dispatch C l s)
         | (Inl e, s) \<Rightarrow> app_main_end (Inl e, s))"

definition receive :: "'h crypto \<Rightarrow> firmware \<Rightarrow> u8 \<Rightarrow> event \<Rightarrow> app \<Rightarrow> control \<times> app" where
  "receive C F channel ev s =
     (case io_exchange_rx F channel ev s of
        (Inr (Rx_Wait channel), s) \<Rightarrow> (Receiving channel, s)
      | (Inr (Rx_Exit code), s) \<Rightarrow> (Exited code, s)
      | (Inr (Rx_Apdu l), s) \<Rightarrow> app_main_end (app_main_dispatch C l s)
      | (Inl e, s) \<Rightarrow> app_main_end (Inl e, s))"

inductive app_step ::
  "'h crypto \<Rightarrow> firmware \<Rightarrow> control \<times> app \<Rightarrow> event option \<Rightarrow> control \<times> app \<Rightarrow> bool"
  for C :: "'h crypto" and F :: firmware
where
  main_head: "app_step C F (Main_Head, s) None (main_head s)"
| loop_head: "app_step C F (Loop_Head, s) None (loop_head C s)"
| receive: "app_step C F (Receiving channel, s) (Some ev) (receive C F channel ev s)"

text \<open>Runs, with the events that occur.\<close>

inductive app_run ::
  "'h crypto \<Rightarrow> firmware \<Rightarrow> control \<times> app \<Rightarrow> event list \<Rightarrow> control \<times> app \<Rightarrow> bool"
  for C :: "'h crypto" and F :: firmware
where
  none: "app_run C F c [] c"
| internal: "app_step C F c None c' \<Longrightarrow> app_run C F c' evs c'' \<Longrightarrow> app_run C F c evs c''"
| external: "app_step C F c (Some ev) c' \<Longrightarrow> app_run C F c' evs c'' \<Longrightarrow> app_run C F c (ev # evs) c''"

inductive_cases main_stepE: "app_step C F (Main_Head, s) l c"
inductive_cases loop_stepE: "app_step C F (Loop_Head, s) l c"
inductive_cases receive_stepE: "app_step C F (Receiving channel, s) l c"
inductive_simps final_step_iff:
  "app_step C F (Exited code, s) l c" "app_step C F (Crashed, s) l c"

end
