(* ===== verification/App_Inv.thy ===== *)
theory App_Inv
  imports App_Main
begin

text \<open>
  The invariant of the configurations, one preservation lemma per kind of step, and memory
  safety of every run.
\<close>

section \<open>The invariant\<close>

definition base_ok :: "app \<Rightarrow> bool" where
  "base_ok s \<longleftrightarrow> length (G_io_apdu_buffer s) = IO_APDU_BUFFER_SIZE
     \<and> stack_canary s = debug_init_stack_canary \<and> gpk_ok (gpk s) \<and> sgn_ok (sgn s)"

definition approving :: "app \<Rightarrow> bool" where
  "approving s \<longleftrightarrow> ux s = Public_Key_Approve \<or> ux s = Message_Approve"

text \<open>The menu is one of the menus, and the output of an approval fits its encodings.\<close>

definition screen_ok :: "app \<Rightarrow> bool" where
  "screen_ok s \<longleftrightarrow> (ux s = Menu_Screen \<longrightarrow> menu_ok (ux_menu s))
     \<and> (ux s = Public_Key_Approve \<longrightarrow> unat (gpk_output_length (gpk s)) \<le> 128)
     \<and> (ux s = Message_Approve \<longrightarrow> unat (sgn_output_length (sgn s)) \<le> 128)"

fun config_inv :: "control \<times> app \<Rightarrow> bool" where
  "config_inv (Main_Head, s) = base_ok s"
| "config_inv (Loop_Head, s) = (base_ok s \<and> screen_ok s \<and> unat (main_tx s) \<le> 262
     \<and> (apdu_media s = IO_APDU_MEDIA_NONE \<longrightarrow> main_tx s = 0)
     \<and> (if approving s then main_flags s = IO_ASYNCH_REPLY \<and> main_tx s = 0 \<and> apdu_media s = IO_APDU_MEDIA_USB_HID
        else main_flags s = 0 \<or> main_flags s = IO_RESET_AFTER_REPLIED))"
| "config_inv (Receiving channel, s) = (base_ok s \<and> screen_ok s
     \<and> channel \<in> {0, IO_ASYNCH_REPLY, IO_RESET_AFTER_REPLIED, IO_ASYNCH_REPLY OR IO_RESET_AFTER_REPLIED}
     \<and> (approving s \<longrightarrow> apdu_media s = IO_APDU_MEDIA_USB_HID \<and> channel = IO_ASYNCH_REPLY)
     \<and> (apdu_media s = IO_APDU_MEDIA_USB_HID \<longrightarrow> apdu_length s = 0) \<and> main_tx s = 0)"
| "config_inv (Exited code, s) = True"
| "config_inv (Crashed, s) = False"

text \<open>The strings of the firmware are those of the application's registry entries; name,
  version and cookie fit the buffer.\<close>

definition firmware_ok :: "firmware \<Rightarrow> bool" where
  "firmware_ok F \<longleftrightarrow> length (app_name F) + length (app_version F) \<le> 128 \<and> length (os_perso_seed_cookie F) \<le> 64"

lemma zero_contexts_ok: "gpk_ok zero_gpk_context" "sgn_ok zero_sign_context"
  by (simp_all add: gpk_ok_def zero_gpk_context_def zero_public_key_def sgn_ok_def zero_sign_context_def
      MAX_MSG_SIZE_def ui_sized_def ui_clear_context_def)

lemma media_cases: "apdu_media s \<noteq> IO_APDU_MEDIA_NONE \<longleftrightarrow> apdu_media s = IO_APDU_MEDIA_USB_HID"
  by (cases "apdu_media s") simp_all

section \<open>\<open>main\<close> and the head of the loop\<close>

text \<open>The state in which \<open>app_main\<close> starts.\<close>

lemma main_head_run:
  "\<exists>m. main_head s = (Loop_Head, s\<lparr>apdu_media := IO_APDU_MEDIA_NONE, apdu_length := 0, gpk := zero_gpk_context,
      sgn := zero_sign_context, ux := Menu_Screen, ux_menu := m, G_ux_os := io_seproxyhal_init_button,
      main_rx := 0, main_tx := 0, main_flags := 0\<rparr>)
    \<and> menu_ok m \<and> menu_entries m = Some Menu_Main \<and> current_entry m = 0"
proof -
  let ?s = "s\<lparr>ux := No_Screen, apdu_media := IO_APDU_MEDIA_NONE, apdu_length := 0,
    G_ux_os := io_seproxyhal_init_button\<rparr>"
  from ui_idle_run [of ?s] obtain m where
    m: "ui_idle ?s = (Inr (), ?s\<lparr>ux_menu := m, ux := Menu_Screen, G_ux_os := io_seproxyhal_init_button\<rparr>)" "menu_ok m"
      "menu_entries m = Some Menu_Main" "current_entry m = 0" by blast
  have "main_head s = (Loop_Head, s\<lparr>apdu_media := IO_APDU_MEDIA_NONE, apdu_length := 0, gpk := zero_gpk_context,
      sgn := zero_sign_context, ux := Menu_Screen, ux_menu := m, G_ux_os := io_seproxyhal_init_button,
      main_rx := 0, main_tx := 0, main_flags := 0\<rparr>)"
    using m(1)
    by (simp add: main_head_def main_start_def bind_c_def modify_c_def clear_all_contexts_def return_c_def
        clear_context_get_configuration_def clear_context_get_public_key_def clear_context_sign_message_def)
  with m show ?thesis by blast
qed

lemma main_head_inv: "base_ok s \<Longrightarrow> config_inv (main_head s)"
  using main_head_run [of s] zero_contexts_ok
  by (auto simp: base_ok_def screen_ok_def approving_def)

text \<open>Sending a reply, and waiting.\<close>

lemma io_exchange_tx_send:
  assumes "tx \<noteq> 0" "unat tx \<le> length (G_io_apdu_buffer s)" "apdu_media s \<noteq> IO_APDU_MEDIA_NONE"
    and "channel = 0 \<or> channel = IO_RESET_AFTER_REPLIED"
  shows "io_exchange_tx channel tx s =
    (Inr (if channel = 0 then Tx_Receive else Tx_Exit (ucast EXCEPTION_IO_RESET)),
     s\<lparr>sent := sent s @ [take (unat tx) (G_io_apdu_buffer s)], apdu_media := IO_APDU_MEDIA_NONE, apdu_length := 0\<rparr>)"
  using assms
  by (auto simp: io_exchange_tx_def bind_c_def send_reply_def buf_read_def return_c_def modify_c_def const_defs)

lemma io_exchange_tx_asynch:
  "channel AND IO_ASYNCH_REPLY \<noteq> 0 \<Longrightarrow> io_exchange_tx channel tx s = (Inr Tx_Receive, s\<lparr>apdu_length := 0\<rparr>)"
  by (simp add: io_exchange_tx_def bind_c_def return_c_def modify_c_def)

lemma io_exchange_tx_none:
  "channel = 0 \<or> channel = IO_RESET_AFTER_REPLIED \<Longrightarrow>
    io_exchange_tx channel 0 s = (Inr Tx_Receive, s\<lparr>apdu_media := IO_APDU_MEDIA_NONE, apdu_length := 0\<rparr>)"
  by (auto simp: io_exchange_tx_def bind_c_def return_c_def modify_c_def const_defs)

lemma loop_head_inv:
  assumes "config_inv (Loop_Head, s)"
  shows "config_inv (loop_head C s)"
proof (cases "approving s")
  case True
  with assms have "main_flags s = IO_ASYNCH_REPLY" "main_tx s = 0" "apdu_media s = IO_APDU_MEDIA_USB_HID" "base_ok s"
    "screen_ok s" by simp_all
  then show ?thesis
    by (simp add: loop_head_def Let_def io_exchange_tx_asynch CHANNEL_APDU_def IO_ASYNCH_REPLY_def base_ok_def
        screen_ok_def)
next
  case False
  with assms have b: "main_flags s = 0 \<or> main_flags s = IO_RESET_AFTER_REPLIED" "base_ok s" "screen_ok s"
    "unat (main_tx s) \<le> 337" "apdu_media s = IO_APDU_MEDIA_NONE \<Longrightarrow> main_tx s = 0" by auto
  have na: "approving (s\<lparr>main_rx := a, main_tx := b, sent := c, apdu_media := e, apdu_length := f\<rparr>) = False"
    "approving (s\<lparr>main_rx := a, main_tx := b, apdu_media := e, apdu_length := f\<rparr>) = False" for a b c e f
    using False by (simp_all add: approving_def)
  show ?thesis
  proof (cases "main_tx s = 0")
    case True
    then show ?thesis using b na(2) io_exchange_tx_none [of "main_flags s"]
      by (auto simp: loop_head_def Let_def CHANNEL_APDU_def base_ok_def screen_ok_def)
  next
    case tx: False
    then have m: "apdu_media s \<noteq> IO_APDU_MEDIA_NONE" using b(5) by blast
    have "io_exchange_tx (main_flags s) (main_tx s) (s\<lparr>main_rx := main_tx s, main_tx := 0\<rparr>) =
      (Inr (if main_flags s = 0 then Tx_Receive else Tx_Exit (ucast EXCEPTION_IO_RESET)),
       s\<lparr>main_rx := main_tx s, main_tx := 0, sent := sent s @ [take (unat (main_tx s)) (G_io_apdu_buffer s)],
         apdu_media := IO_APDU_MEDIA_NONE, apdu_length := 0\<rparr>)"
      using b(1,2,4) m io_exchange_tx_send [OF tx, of "s\<lparr>main_rx := main_tx s, main_tx := 0\<rparr>" "main_flags s"]
      by (auto simp: base_ok_def IO_APDU_BUFFER_SIZE_def)
    then show ?thesis using b na(1) by (auto simp: loop_head_def Let_def CHANNEL_APDU_def base_ok_def screen_ok_def)
  qed
qed

section \<open>The end of an iteration\<close>

text \<open>The contexts after a caught exception, and the reply.\<close>

definition caught :: "u16 \<Rightarrow> app \<Rightarrow> app" where
  "caught e s = (if e AND 0xF000 = 0x9000 then s else s\<lparr>gpk := zero_gpk_context, sgn := zero_sign_context\<rparr>)"

definition sw_bytes :: "u16 \<Rightarrow> u8 list" where
  "sw_bytes sw = [ucast (drop_bit 8 sw), ucast (sw AND 0xFF)]"

definition with_status :: "u16 \<Rightarrow> app \<Rightarrow> app" where
  "with_status sw s =
     s\<lparr>G_io_apdu_buffer := take (unat (main_tx s)) (G_io_apdu_buffer s) @ sw_bytes sw
         @ drop (unat (main_tx s) + 2) (G_io_apdu_buffer s),
       main_tx := main_tx s + 2\<rparr>"

lemma app_main_end_throw:
  assumes "e \<noteq> EXCEPTION_IO_RESET" "unat (main_tx s) + 2 \<le> length (G_io_apdu_buffer s)" "unat (main_tx s) \<le> 1000"
  shows "app_main_end (Inl (Throw e), s) = (Loop_Head, with_status (status_word e) (caught e s))"
proof -
  have u: "unat (main_tx s + 1) = unat (main_tx s) + 1"
    using assms(3) by (simp add: unat_word_ariths)
  have "app_main_catch e s = (Inr (), with_status (status_word e) (caught e s))"
    using assms(2)
    by (simp add: app_main_catch_def bind_c_def try_modify_c_def io_set_status_def buf_write_def u Let_def
        with_status_def sw_bytes_def caught_def return_c_def clear_all_contexts_def modify_c_def
        clear_context_get_configuration_def clear_context_get_public_key_def clear_context_sign_message_def)
  with assms(1) show ?thesis by (simp add: app_main_end_def)
qed

lemma length_sw_bytes [simp]: "length (sw_bytes sw) = 2"
  by (simp add: sw_bytes_def)

lemma app_main_end_inv:
  assumes "base_ok s" "screen_ok s" "\<not> approving s" "apdu_media s = IO_APDU_MEDIA_USB_HID"
    and "unat (main_tx s) \<le> 260" "main_flags s = 0 \<or> main_flags s = IO_RESET_AFTER_REPLIED"
  shows "config_inv (app_main_end (Inl (Throw e), s))"
proof (cases "e = EXCEPTION_IO_RESET")
  case True
  then show ?thesis using assms(1) by (simp add: app_main_end_def main_catch_def)
next
  case False
  have l: "length (G_io_apdu_buffer s) = 337" using assms(1) by (simp add: base_ok_def IO_APDU_BUFFER_SIZE_def)
  have "unat (main_tx s + 2) = unat (main_tx s) + 2"
    using assms(5) by (simp add: unat_word_ariths)
  then show ?thesis
    using assms l app_main_end_throw [OF False, of s] zero_contexts_ok
    by (auto simp: with_status_def caught_def base_ok_def screen_ok_def approving_def IO_APDU_BUFFER_SIZE_def)
qed

section \<open>Commands\<close>

lemma shows_text_ok: "ui_sized ui \<Longrightarrow> length t \<le> 128 \<Longrightarrow> ui_sized (shows_text ui t)"
  by (rule shows_text_sized)

lemma encoded_bound: "length bs \<le> 64 \<Longrightarrow> length (encoded p2 bs) \<le> 128"
  using length_encoded [of p2 bs] by linarith

lemma unat_of_nat_small: "n \<le> 128 \<Longrightarrow> unat (of_nat n :: u16) = n" "n \<le> 128 \<Longrightarrow> unat (of_nat n + 1 :: u16) = n + 1"
  by (simp_all add: unat_of_nat unat_word_ariths)

lemma pk_silent_ok:
  assumes "base_ok s" "screen_ok s" "\<not> approving s" "main_tx s = 0" "length pk = 32"
  shows "base_ok (pk_silent key pk p2 s)" "screen_ok (pk_silent key pk p2 s)" "\<not> approving (pk_silent key pk p2 s)"
    "unat (main_tx (pk_silent key pk p2 s)) \<le> 260"
    "apdu_media (pk_silent key pk p2 s) = apdu_media s" "main_flags (pk_silent key pk p2 s) = main_flags s"
  using assms encoded_bound [of pk p2] zero_contexts_ok unat_of_nat_small(2) [of "length (encoded p2 pk)"]
  by (auto simp: pk_silent_def pk_exported_def Let_def base_ok_def screen_ok_def approving_def IO_APDU_BUFFER_SIZE_def)

lemma pk_confirm_ok:
  assumes "base_ok s" "length (W key) = 65" "main_tx s = 0" "length pk = 32" "main_flags s = 0"
    and "apdu_media s = IO_APDU_MEDIA_USB_HID"
  shows "config_inv (Loop_Head, pk_confirm key pk p2 n s)"
proof -
  have u: "ui_sized (gpk_ui (gpk s))" using assms(1) by (simp add: base_ok_def gpk_ok_def)
  have t: "length (base58_text pk) \<le> 128" using length_base58_text [of pk] assms(4) by simp
  have k: "length (key_line n) \<le> 15" using length_decimal [of n] by (simp add: key_line_def chars_2_bytes_def)
  have "ui_sized ((shows_text (gpk_ui (gpk s)) (base58_text pk))\<lparr>approve_l2 :=
      key_line n @ 0 # drop (Suc (length (key_line n))) (approve_l2 (gpk_ui (gpk s)))\<rparr>)"
    using shows_text_ok [OF u t] k u by (simp add: ui_sized_def DISPLAY_SIZE_def)
  then show ?thesis
    using assms encoded_bound [of pk p2] unat_of_nat_small(1) [of "length (encoded p2 pk)"]
    by (simp add: pk_confirm_def pk_exported_def Let_def base_ok_def screen_ok_def approving_def gpk_ok_def
        IO_APDU_BUFFER_SIZE_def)
qed

lemma length_signature_bytes:
  "sgn_output_length c = 0 \<or> sgn_output_length c = 64 \<Longrightarrow> length (signature_bytes c sig) \<le> 64"
  by (auto simp: signature_bytes_def)

lemma sig_silent_ok:
  assumes "base_ok s" "screen_ok s" "\<not> approving s" "main_tx s = 0"
    and "sgn_output_length c = 0 \<or> sgn_output_length c = 64"
  shows "base_ok (sig_silent c sig p2 s)" "screen_ok (sig_silent c sig p2 s)" "\<not> approving (sig_silent c sig p2 s)"
    "unat (main_tx (sig_silent c sig p2 s)) \<le> 260"
    "apdu_media (sig_silent c sig p2 s) = apdu_media s" "main_flags (sig_silent c sig p2 s) = main_flags s"
  using assms(1-4) encoded_bound [OF length_signature_bytes [OF assms(5)], of p2 sig] zero_contexts_ok
    unat_of_nat_small(2) [of "length (encoded p2 (signature_bytes c sig))"]
  by (auto simp: sig_silent_def sig_exported_def Let_def base_ok_def screen_ok_def approving_def
      IO_APDU_BUFFER_SIZE_def)

lemma length_with_key_line: "length (with_key_line n) \<le> 17"
  by (simp add: with_key_line_def)

lemma sig_confirm_ok:
  assumes "base_ok s" "sgn_ok c" "main_tx s = 0" "main_flags s = 0" "apdu_media s = IO_APDU_MEDIA_USB_HID"
    and "sgn_output_length c = 0 \<or> sgn_output_length c = 64"
  shows "config_inv (Loop_Head, sig_confirm c sig p2 n s)"
proof -
  let ?b = "signature_bytes c sig"
  have u: "ui_sized (sgn_ui c)" using assms(2) by (simp add: sgn_ok_def)
  have b: "length ?b \<le> 64" using length_signature_bytes [OF assms(6)] .
  have t: "length (base58_text ?b) \<le> 128" using length_base58_text [of ?b] b by simp
  have "ui_sized ((shows_text (sgn_ui c) (base58_text ?b))\<lparr>approve_l2 :=
      with_key_line n @ 0 # drop (Suc (length (with_key_line n))) (approve_l2 (sgn_ui c))\<rparr>)"
    using shows_text_ok [OF u t] length_with_key_line [of n] u by (simp add: ui_sized_def DISPLAY_SIZE_def)
  then show ?thesis
    using assms encoded_bound [OF b, of p2] unat_of_nat_small(1) [of "length (encoded p2 ?b)"]
    by (simp add: sig_confirm_def sig_exported_def Let_def base_ok_def screen_ok_def approving_def sgn_ok_def
        IO_APDU_BUFFER_SIZE_def)
qed

text \<open>States in which a command is dispatched.\<close>

definition dispatching :: "app \<Rightarrow> bool" where
  "dispatching s \<longleftrightarrow> base_ok s \<and> screen_ok s \<and> \<not> approving s \<and> main_tx s = 0
     \<and> apdu_media s = IO_APDU_MEDIA_USB_HID \<and> main_flags s = 0"

lemma dispatching_end: "dispatching s \<Longrightarrow> config_inv (app_main_end (Inl (Throw e), s))"
  by (intro app_main_end_inv) (simp_all add: dispatching_def)

lemma get_public_key_inv:
  assumes C: "crypto_ok C" and s: "dispatching s"
  shows "config_inv (app_main_end (bind_c (handle_get_public_key C p1 p2 (drop OFFSET_CDATA (G_io_apdu_buffer s)) len)
    (\<lambda>_. return_c False) s))"
proof -
  let ?buffer = "drop OFFSET_CDATA (G_io_apdu_buffer s)"
  have g: "gpk_ok (gpk s)" and l: "unat (main_tx s) + 129 \<le> length (G_io_apdu_buffer s)" "21 \<le> length ?buffer"
    using s by (simp_all add: dispatching_def base_ok_def IO_APDU_BUFFER_SIZE_def OFFSET_CDATA_def)
  note run = handle_get_public_key_run [OF C g l, of p1 p2 len]
  show ?thesis
  proof (cases "command_key C p1 p2 ?buffer len (public_key (gpk s))")
    case (Inl x)
    with run obtain e key where
      h: "length (W key) = 65" "handle_get_public_key C p1 p2 ?buffer len s
        = (Inl (Throw e), s\<lparr>gpk := (gpk s)\<lparr>public_key := key\<rparr>\<rparr>)" by (cases x) auto
    have "dispatching (s\<lparr>gpk := (gpk s)\<lparr>public_key := key\<rparr>\<rparr>)"
      using s h(1) by (simp add: dispatching_def base_ok_def screen_ok_def approving_def gpk_ok_def)
    then show ?thesis using dispatching_end h(2) by (simp add: bind_c_def)
  next
    case (Inr v)
    obtain path key pk where v: "v = (path, key, pk)" by (cases v)
    with run Inr have k: "length (W key) = 65" "length pk = 32" and
      h: "handle_get_public_key C p1 p2 ?buffer len s =
        (if p1 \<noteq> P1_CONFIRM then (Inl (Throw SW_OK), pk_silent key pk p2 s)
         else (Inr (), pk_confirm key pk p2 (last_element path) s))" by auto
    have b: "base_ok s" "screen_ok s" "\<not> approving s" "main_tx s = 0" "apdu_media s = IO_APDU_MEDIA_USB_HID"
      "main_flags s = 0" using s by (simp_all add: dispatching_def)
    show ?thesis
    proof (cases "p1 = P1_CONFIRM")
      case True
      with h have "handle_get_public_key C p1 p2 ?buffer len s = (Inr (), pk_confirm key pk p2 (last_element path) s)"
        by simp
      then show ?thesis
        using pk_confirm_ok [OF b(1) k(1) b(4) k(2) b(6,5)]
        by (simp only: bind_c_Inr return_c_def app_main_end_def prod.case sum.case if_False)
    next
      case False
      have "config_inv (app_main_end (Inl (Throw SW_OK), pk_silent key pk p2 s))"
        using pk_silent_ok [OF b(1-4) k(2)] b by (intro app_main_end_inv) simp_all
      moreover from h False have "handle_get_public_key C p1 p2 ?buffer len s = (Inl (Throw SW_OK), pk_silent key pk p2 s)"
        by simp
      ultimately show ?thesis by (simp only: bind_c_Inl)
    qed
  qed
qed

lemma sign_message_inv:
  assumes C: "crypto_ok C" and s: "dispatching s" and len: "unat len \<le> length (drop OFFSET_CDATA (G_io_apdu_buffer s))"
  shows "config_inv (app_main_end (bind_c (handle_sign_message C p1 p2 (drop OFFSET_CDATA (G_io_apdu_buffer s)) len)
    (\<lambda>_. return_c False) s))"
proof -
  let ?buffer = "drop OFFSET_CDATA (G_io_apdu_buffer s)"
  have b: "base_ok s" "screen_ok s" "\<not> approving s" "main_tx s = 0" "apdu_media s = IO_APDU_MEDIA_USB_HID"
    "main_flags s = 0" "sgn_ok (sgn s)" using s by (simp_all add: dispatching_def base_ok_def)
  have l: "unat (main_tx s) + 129 \<le> length (G_io_apdu_buffer s)"
    using b by (simp add: base_ok_def IO_APDU_BUFFER_SIZE_def)
  have d: "dispatching (s\<lparr>sgn := c\<rparr>)" if "sgn_ok c" for c
    using s that by (simp add: dispatching_def base_ok_def screen_ok_def approving_def)
  note refused = handle_sign_message_refused [OF b(7) len]
  show ?thesis
  proof (cases "io_check_p1p2 p1 p2")
    case (Inl x)
    with check_p1p2_safe [of p1 p2] obtain e where "x = Throw e" by (cases x) simp_all
    with refused(1) Inl have "handle_sign_message C p1 p2 ?buffer len s = (Inl (Throw e), s)" by simp
    then show ?thesis using dispatching_end [OF s] by (simp only: bind_c_Inl)
  next
    case p: (Inr u)
    then have p: "io_check_p1p2 p1 p2 = Inr ()" by simp
    show ?thesis
    proof (cases "length (message (sgn s)) + unat len \<le> MAX_MSG_SIZE")
      case False
      then have "handle_sign_message C p1 p2 ?buffer len s = (Inl (Throw SW_WRONG_LENGTH), s)"
        by (intro refused(2) [OF p]) simp
      then show ?thesis using dispatching_end [OF s] by (simp only: bind_c_Inl)
    next
      case True
      with read_message_run [OF b(7) len] obtain c where
        c: "read_message ?buffer len s = (Inr (), s\<lparr>sgn := c\<rparr>)" "sgn_ok c" by auto
      show ?thesis
      proof (cases "p2 AND P2_MORE \<noteq> P2_MORE \<or> len = 0")
        case False
        then have "handle_sign_message C p1 p2 ?buffer len s = (Inl (Throw SW_OK), s\<lparr>sgn := c\<rparr>)"
          by (intro handle_sign_message_more [OF p c(1)]) simp_all
        then show ?thesis using dispatching_end [OF d [OF c(2)]] by (simp only: bind_c_Inl)
      next
        case last: True
        note run = handle_sign_message_last [OF C p c last l]
        show ?thesis
        proof (cases "signed C (len = 0) c")
          case (Inl x)
          with run obtain e c' where
            "sgn_ok c'" "handle_sign_message C p1 p2 ?buffer len s = (Inl (Throw e), s\<lparr>sgn := c'\<rparr>)"
            by (cases x) auto
          then show ?thesis using dispatching_end [OF d] by (simp add: bind_c_Inl)
        next
          case (Inr v)
          obtain c' sig path where v: "v = (c', sig, path)" by (cases v)
          with run Inr have k: "sgn_ok c'" "sgn_output_length c' = 0 \<or> sgn_output_length c' = 64" and
            h: "handle_sign_message C p1 p2 ?buffer len s =
              (if p1 \<noteq> P1_CONFIRM then (Inl (Throw SW_OK), sig_silent c' sig p2 s)
               else (Inr (), sig_confirm c' sig p2 (last_element path) s))" by auto
          show ?thesis
          proof (cases "p1 = P1_CONFIRM")
            case True
            with h have "handle_sign_message C p1 p2 ?buffer len s = (Inr (), sig_confirm c' sig p2 (last_element path) s)"
              by simp
            then show ?thesis using sig_confirm_ok [OF b(1) k(1) b(4,6,5) k(2)]
              by (simp only: bind_c_Inr return_c_def app_main_end_def prod.case sum.case if_False)
          next
            case False
            have "config_inv (app_main_end (Inl (Throw SW_OK), sig_silent c' sig p2 s))"
              using sig_silent_ok [OF b(1-4) k(2)] b by (intro app_main_end_inv) simp_all
            moreover from h False have "handle_sign_message C p1 p2 ?buffer len s = (Inl (Throw SW_OK), sig_silent c' sig p2 s)"
              by simp
            ultimately show ?thesis by (simp only: bind_c_Inl)
          qed
        qed
      qed
    qed
  qed
qed

section \<open>Dispatching\<close>

text \<open>The checks in front of the switch.\<close>

definition header_check :: "u8 list \<Rightarrow> u16 \<Rightarrow> exn + unit" where
  "header_check header rx =
     (if rx < APDU_MIN_SIZE then THROW EXCEPTION_IO_RESET
      else if header ! OFFSET_CLA \<noteq> CLA then THROW SW_CLA_NOT_SUPPORTED
      else if header ! OFFSET_LC = 0 \<and> header ! OFFSET_P2 AND P2_MORE = 0 then THROW SW_WRONG_LENGTH
      else if unat (header ! OFFSET_LC) + 5 \<noteq> unat rx then THROW SW_WRONG_LENGTH
      else Inr ())"

lemma app_main_dispatch_run:
  fixes s :: app
  defines "header \<equiv> take 5 (G_io_apdu_buffer s)"
  assumes "5 \<le> length (G_io_apdu_buffer s)"
  shows "app_main_dispatch C rx s =
    (case header_check header rx of
       Inl e \<Rightarrow> (Inl e, s\<lparr>main_rx := rx, main_flags := 0\<rparr>)
     | Inr _ \<Rightarrow> app_main_command C (header ! OFFSET_INS) (header ! OFFSET_P1) (header ! OFFSET_P2)
         (drop OFFSET_CDATA (G_io_apdu_buffer s)) (ucast (header ! OFFSET_LC)) rx (s\<lparr>main_rx := rx, main_flags := 0\<rparr>))"
proof -
  have h: "buf_read (G_io_apdu_buffer s) 0 OFFSET_CDATA = Inr header"
    using assms(2) by (simp add: buf_read_def OFFSET_CDATA_def header_def)
  have z: "((ucast (header ! OFFSET_LC) :: u16) = 0) = (header ! OFFSET_LC = 0)"
    by (simp add: word_unat_eq_iff)
  show ?thesis
    unfolding app_main_dispatch_def header_check_def
    by (simp add: bind_c_def modify_c_def gets_c_def lift_c_def h throw_c_def z Let_def APDU_MAX_SIZE_def)
qed

lemma dispatch_inv:
  assumes C: "crypto_ok C" and s: "base_ok s" "screen_ok s" "\<not> approving s" "main_tx s = 0"
    "apdu_media s = IO_APDU_MEDIA_USB_HID"
  shows "config_inv (app_main_end (app_main_dispatch C rx s))"
proof -
  let ?s = "s\<lparr>main_rx := rx, main_flags := 0\<rparr>"
  let ?buf = "G_io_apdu_buffer s"
  let ?header = "take 5 ?buf"
  have d: "dispatching ?s" using s by (simp add: dispatching_def base_ok_def screen_ok_def approving_def)
  have l: "length ?buf = 337" using s(1) by (simp add: base_ok_def IO_APDU_BUFFER_SIZE_def)
  note e = dispatching_end [OF d]
  show ?thesis
  proof (cases "header_check ?header rx")
    case (Inl x)
    then obtain c where "x = Throw c" by (auto simp: header_check_def split: if_splits)
    with Inl e l show ?thesis by (simp add: app_main_dispatch_run)
  next
    case (Inr u)
    define len where "len = (ucast (?header ! OFFSET_LC) :: u16)"
    define ins where "ins = ?header ! OFFSET_INS"
    define p1 where "p1 = ?header ! OFFSET_P1"
    define p2 where "p2 = ?header ! OFFSET_P2"
    have len: "unat len \<le> 255" by (simp add: len_def)
    have rx: "unat rx = unat len + 5" using Inr by (auto simp: header_check_def len_def split: if_splits)
    have flagged: "config_inv (app_main_end (Inl (Throw SW_OK), ?s\<lparr>main_flags := IO_RESET_AFTER_REPLIED\<rparr>))"
      using s by (intro app_main_end_inv) (simp_all add: base_ok_def screen_ok_def approving_def)
    have echo: "config_inv (app_main_end (Inl (Throw SW_OK), ?s\<lparr>main_tx := rx\<rparr>))"
      using s rx len by (intro app_main_end_inv) (simp_all add: base_ok_def screen_ok_def approving_def)
    have conf: "config_inv (app_main_end (bind_c (handle_get_configuration p1 p2 (drop OFFSET_CDATA ?buf) len)
        (\<lambda>_. return_c False) ?s))"
    proof -
      let ?s' = "?s\<lparr>G_io_apdu_buffer := [0, 0, 0, 3] @ drop 4 ?buf, main_tx := 4\<rparr>"
      have "handle_get_configuration p1 p2 (drop OFFSET_CDATA ?buf) len ?s = (Inl (Throw SW_OK), ?s')"
        using handle_get_configuration_run [of ?s p1 p2 "drop OFFSET_CDATA ?buf" len] s(4) l by simp
      moreover have "config_inv (app_main_end (Inl (Throw SW_OK), ?s'))"
        using s l by (intro app_main_end_inv)
          (simp_all add: base_ok_def screen_ok_def approving_def IO_APDU_BUFFER_SIZE_def)
      ultimately show ?thesis by (simp only: bind_c_Inl)
    qed
    have gpk: "config_inv (app_main_end (bind_c (handle_get_public_key C p1 p2 (drop OFFSET_CDATA ?buf) len)
        (\<lambda>_. return_c False) ?s))"
      using get_public_key_inv [OF C d, of p1 p2 len] by simp
    have sgn: "config_inv (app_main_end (bind_c (handle_sign_message C p1 p2 (drop OFFSET_CDATA ?buf) len)
        (\<lambda>_. return_c False) ?s))"
      using sign_message_inv [OF C d, of len p1 p2] l len by (simp add: OFFSET_CDATA_def)
    have dash: "config_inv (app_main_end (Inr True, ?s))"
      using d by (simp add: app_main_end_def dispatching_def)
    have reset: "bind_c (modify_c (\<lambda>s. s\<lparr>main_flags := main_flags s OR IO_RESET_AFTER_REPLIED\<rparr>)) (\<lambda>_. throw_c (Throw SW_OK)) ?s
        = ((Inl (Throw SW_OK), ?s\<lparr>main_flags := IO_RESET_AFTER_REPLIED\<rparr>) :: (exn + bool) \<times> app)"
      "bind_c (modify_c (\<lambda>s. s\<lparr>main_tx := rx\<rparr>)) (\<lambda>_. throw_c (Throw SW_OK)) ?s
        = ((Inl (Throw SW_OK), ?s\<lparr>main_tx := rx\<rparr>) :: (exn + bool) \<times> app)"
      by (simp_all add: bind_c_def modify_c_def throw_c_def)
    have "config_inv (app_main_end (app_main_command C ins p1 p2 (drop OFFSET_CDATA ?buf) len rx ?s))"
      unfolding app_main_command_def if_distrib [of "\<lambda>f. f ?s"] if_distrib [of app_main_end]
        if_distrib [of config_inv] reset throw_c_def [of "Throw SW_INS_NOT_SUPPORTED"] return_c_def [of True]
      by (simp only: flagged echo conf gpk sgn dash e if_cancel)
    then show ?thesis
      using Inr l by (simp add: app_main_dispatch_run len_def ins_def p1_def p2_def)
  qed
qed

section \<open>Buttons\<close>

lemma ui_compare_button_sized:
  assumes "ui_sized ui"
  shows "\<exists>ui' idle. ui_compare_button m ui = Inr (ui', idle) \<and> ui_sized ui'"
proof -
  have shift: "\<exists>u'. ui_shift_msg u = Inr u' \<and> ui_sized u'" if "ui_sized u" for u
  proof -
    have "unat (display_index u) \<le> 306" using unat_u8_le [of "display_index u"] by linarith
    with that show ?thesis
      by (simp add: ui_shift_msg_def buf_read_def buf_write_def ui_sized_def DISPLAY_SIZE_def)
  qed
  have s: "ui_sized (ui\<lparr>display_index := i\<rparr>)" for i using assms by (simp add: ui_sized_def)
  have c: "ui_sized ui_clear_context" by (simp add: ui_sized_def ui_clear_context_def)
  show ?thesis
    using shift [OF assms] shift [OF s, of "display_index ui - 1"] shift [OF s, of "display_index ui + 1"] c assms
    by (auto simp: ui_compare_button_def Let_def)
qed

text \<open>A state is still waiting when only the buttons' state or the screen contexts change.\<close>

definition waiting :: "u8 \<Rightarrow> app \<Rightarrow> bool" where
  "waiting channel s \<longleftrightarrow> config_inv (Receiving channel, s)"

definition stays :: "u8 \<Rightarrow> (exn + u32 option) \<times> app \<Rightarrow> bool" where
  "stays channel r \<longleftrightarrow> (\<exists>c s. r = (Inr c, s) \<and> (c = None \<longrightarrow> waiting channel s))"

lemma waiting_buttons: "waiting channel s \<Longrightarrow> waiting channel (s\<lparr>G_ux_os := g\<rparr>)"
  by (simp add: waiting_def base_ok_def screen_ok_def approving_def)

lemma waiting_idle:
  assumes "waiting channel s" "apdu_media s = IO_APDU_MEDIA_NONE \<or> \<not> approving s"
  shows "\<exists>s'. ui_idle s = (Inr (), s') \<and> waiting channel s'"
  using assms ui_idle_run [of s] by (auto simp: waiting_def base_ok_def screen_ok_def approving_def)

lemma menu_stays:
  assumes "waiting channel s" "ux s = Menu_Screen"
  shows "stays channel (button_push_handler Menu_Screen m s)"
proof -
  have m: "menu_ok (ux_menu s)" using assms by (simp add: waiting_def screen_ok_def)
  obtain m' cb v d where b: "ux_menu_elements_button m (ux_menu s) = Inr (m', cb, v, d)" "menu_ok m'"
    using ux_menu_button_ok [OF m] by blast
  have w: "waiting channel (s\<lparr>ux_menu := m'\<rparr>)" "waiting channel (s\<lparr>ux_menu := m', G_ux_os := io_seproxyhal_init_button\<rparr>)"
    using assms b(2) by (simp_all add: waiting_def base_ok_def screen_ok_def approving_def)
  show ?thesis
  proof (cases cb)
    case None
    then show ?thesis using w
      by (simp add: stays_def button_push_handler_def bind_c_def gets_c_def lift_c_def modify_c_def b(1) ux_redisplay_def
          return_c_def)
  next
    case (Some c)
    then show ?thesis
      by (cases "fst c"; cases c)
        (simp add: stays_def button_push_handler_def bind_c_def gets_c_def lift_c_def modify_c_def b(1) ux_redisplay_def
          return_c_def callback_os_exit_def)
  qed
qed

lemma pk_compare_stays:
  assumes "waiting channel s" "ux s = Public_Key_Compare"
  shows "stays channel (button_push_handler Public_Key_Compare m s)"
proof -
  have "ui_sized (gpk_ui (gpk s))" using assms(1) by (simp add: waiting_def base_ok_def gpk_ok_def)
  then obtain ui idle where u: "ui_compare_button m (gpk_ui (gpk s)) = Inr (ui, idle)" "ui_sized ui"
    using ui_compare_button_sized by blast
  have w: "waiting channel (set_gpk_ui ui s)" "\<not> approving (set_gpk_ui ui s)"
    using assms u(2) by (simp_all add: waiting_def base_ok_def screen_ok_def approving_def gpk_ok_def set_gpk_ui_def)
  obtain s' where i: "ui_idle (set_gpk_ui ui s) = (Inr (), s')" "waiting channel s'"
    using waiting_idle [OF w(1)] w(2) by blast
  show ?thesis
    using w(1) i waiting_buttons [OF w(1)]
    by (simp add: stays_def button_push_handler_def ui_get_public_key_compare_button_def bind_c_def gets_c_def lift_c_def
        modify_c_def u(1) ux_redisplay_def return_c_def)
qed

lemma sgn_compare_stays:
  assumes "waiting channel s" "ux s = Message_Compare"
  shows "stays channel (button_push_handler Message_Compare m s)"
proof -
  have "ui_sized (sgn_ui (sgn s))" using assms(1) by (simp add: waiting_def base_ok_def sgn_ok_def)
  then obtain ui idle where u: "ui_compare_button m (sgn_ui (sgn s)) = Inr (ui, idle)" "ui_sized ui"
    using ui_compare_button_sized by blast
  have w: "waiting channel (set_sgn_ui ui s)" "\<not> approving (set_sgn_ui ui s)"
    using assms u(2) by (simp_all add: waiting_def base_ok_def screen_ok_def approving_def sgn_ok_def set_sgn_ui_def)
  obtain s' where i: "ui_idle (set_sgn_ui ui s) = (Inr (), s')" "waiting channel s'"
    using waiting_idle [OF w(1)] w(2) by blast
  show ?thesis
    using w(1) i waiting_buttons [OF w(1)]
    by (simp add: stays_def button_push_handler_def ui_sign_message_compare_button_def bind_c_def gets_c_def lift_c_def
        modify_c_def u(1) ux_redisplay_def return_c_def)
qed

text \<open>The state after a reply sent by a button handler.\<close>

definition replied :: "u16 \<Rightarrow> nat \<Rightarrow> app \<Rightarrow> app" where
  "replied sw tx s =
     s\<lparr>G_io_apdu_buffer := take tx (G_io_apdu_buffer s) @ sw_bytes sw @ drop (tx + 2) (G_io_apdu_buffer s),
       sent := sent s @ [take tx (G_io_apdu_buffer s) @ sw_bytes sw],
       apdu_media := IO_APDU_MEDIA_NONE, apdu_length := 0\<rparr>"

lemma exchange_status_replied:
  assumes "base_ok s" "apdu_media s = IO_APDU_MEDIA_USB_HID" "unat tx \<le> 129"
  shows "exchange_status sw tx s = (Inr (), replied sw (unat tx) s)"
  using exchange_status_run [of tx s sw] assms
  by (simp add: base_ok_def IO_APDU_BUFFER_SIZE_def replied_def sw_bytes_def)

lemma replied_base: "base_ok s \<Longrightarrow> tx \<le> 129 \<Longrightarrow> base_ok (replied sw tx s)"
  by (simp add: base_ok_def replied_def IO_APDU_BUFFER_SIZE_def)

lemma approving_state:
  assumes "waiting channel s" "approving s"
  shows "base_ok s" "apdu_media s = IO_APDU_MEDIA_USB_HID" "channel = IO_ASYNCH_REPLY" "main_tx s = 0"
    "ux s = Public_Key_Approve \<Longrightarrow> unat (gpk_output_length (gpk s)) \<le> 128"
    "ux s = Message_Approve \<Longrightarrow> unat (sgn_output_length (sgn s)) \<le> 128"
  using assms by (simp_all add: waiting_def screen_ok_def)

text \<open>Rejecting: the status word alone is sent, the context is cleared, the menu is shown.\<close>

lemma pk_reject:
  assumes "waiting channel s" "ux s = Public_Key_Approve"
  shows "\<exists>s'. button_push_handler Public_Key_Approve (BUTTON_EVT_RELEASED OR BUTTON_LEFT) s = (Inr None, s')
    \<and> waiting channel s' \<and> sent s' = sent s @ [sw_bytes SW_USER_REJECTED] \<and> gpk s' = zero_gpk_context
    \<and> ux s' = Menu_Screen"
proof -
  have ap: "approving s" using assms(2) by (simp add: approving_def)
  note a = approving_state [OF assms(1) ap]
  have x: "exchange_status SW_USER_REJECTED 0 s = (Inr (), replied SW_USER_REJECTED 0 s)"
    using exchange_status_replied [OF a(1,2), of 0] by simp
  let ?s = "(replied SW_USER_REJECTED 0 s)\<lparr>gpk := zero_gpk_context\<rparr>"
  have b: "base_ok ?s" using replied_base [OF a(1), of 0 SW_USER_REJECTED] zero_contexts_ok by (simp add: base_ok_def)
  obtain m where m: "ui_idle ?s = (Inr (), ?s\<lparr>ux_menu := m, ux := Menu_Screen, G_ux_os := io_seproxyhal_init_button\<rparr>)"
    "menu_ok m" using ui_idle_run [of ?s] by blast
  show ?thesis
    using x m b a(3,4)
    by (simp add: button_push_handler_def ui_get_public_key_approve_button_def bind_c_def gets_c_def
        clear_context_get_public_key_def modify_c_def return_c_def waiting_def screen_ok_def approving_def)
      (simp add: replied_def base_ok_def)
qed

lemma sgn_reject:
  assumes "waiting channel s" "ux s = Message_Approve"
  shows "\<exists>s'. button_push_handler Message_Approve (BUTTON_EVT_RELEASED OR BUTTON_LEFT) s = (Inr None, s')
    \<and> waiting channel s' \<and> sent s' = sent s @ [sw_bytes SW_USER_REJECTED] \<and> sgn s' = zero_sign_context
    \<and> ux s' = Menu_Screen"
proof -
  have ap: "approving s" using assms(2) by (simp add: approving_def)
  note a = approving_state [OF assms(1) ap]
  have x: "exchange_status SW_USER_REJECTED 0 s = (Inr (), replied SW_USER_REJECTED 0 s)"
    using exchange_status_replied [OF a(1,2), of 0] by simp
  let ?s = "(replied SW_USER_REJECTED 0 s)\<lparr>sgn := zero_sign_context\<rparr>"
  have b: "base_ok ?s" using replied_base [OF a(1), of 0 SW_USER_REJECTED] zero_contexts_ok by (simp add: base_ok_def)
  obtain m where m: "ui_idle ?s = (Inr (), ?s\<lparr>ux_menu := m, ux := Menu_Screen, G_ux_os := io_seproxyhal_init_button\<rparr>)"
    "menu_ok m" using ui_idle_run [of ?s] by blast
  show ?thesis
    using x m b a(3,4)
    by (simp add: button_push_handler_def ui_sign_message_approve_button_def bind_c_def gets_c_def
        clear_context_sign_message_def modify_c_def return_c_def waiting_def screen_ok_def approving_def)
      (simp add: replied_def base_ok_def)
qed

text \<open>Approving: the output and the status OK are sent, and the viewer shows the text.\<close>

lemma pk_accept:
  assumes "waiting channel s" "ux s = Public_Key_Approve"
  shows "\<exists>s'. button_push_handler Public_Key_Approve (BUTTON_EVT_RELEASED OR BUTTON_RIGHT) s = (Inr None, s')
    \<and> waiting channel s' \<and> ux s' = Public_Key_Compare \<and> apdu_media s' = IO_APDU_MEDIA_NONE
    \<and> sent s' = sent s @ [take (unat (gpk_output_length (gpk s)) + 1) (G_io_apdu_buffer s) @ sw_bytes SW_OK]
    \<and> viewing (gpk_ui (gpk s')) \<and> display_index (gpk_ui (gpk s')) = 0
    \<and> ui_msg_body (gpk_ui (gpk s')) = ui_msg_body (gpk_ui (gpk s))
    \<and> ui_msg_length (gpk_ui (gpk s')) = ui_msg_length (gpk_ui (gpk s))"
proof -
  have ap: "approving s" using assms(2) by (simp add: approving_def)
  note a = approving_state [OF assms(1) ap]
  let ?n = "gpk_output_length (gpk s)" and ?ui = "gpk_ui (gpk s)"
  have n: "unat (?n + 1) = unat ?n + 1" using a(5) [OF assms(2)] by (simp add: unat_word_ariths)
  have x: "exchange_status SW_OK (?n + 1) s = (Inr (), replied SW_OK (unat ?n + 1) s)"
    using exchange_status_replied [OF a(1,2), of "?n + 1" SW_OK] a(5) [OF assms(2)] by (simp add: n)
  let ?s = "set_gpk_ui ?ui ((replied SW_OK (unat ?n + 1) s)\<lparr>gpk := zero_gpk_context\<rparr>)"
  have u: "ui_sized ?ui" using a(1) by (simp add: base_ok_def gpk_ok_def)
  obtain ui where ui: "viewing ui" "display_index ui = 0" "ui_msg_body ui = ui_msg_body ?ui"
      "ui_msg_length ui = ui_msg_length ?ui"
    and c: "compare_pk ?s = (Inr (), (set_gpk_ui ui ?s)\<lparr>ux := Public_Key_Compare, G_ux_os := io_seproxyhal_init_button\<rparr>)"
    using compare_pk_run [of ?s] u by (auto simp: set_gpk_ui_def)
  have us: "ui_sized ui" using ui(1) by (simp add: viewing_def)
  have h: "button_push_handler Public_Key_Approve (BUTTON_EVT_RELEASED OR BUTTON_RIGHT) s
      = (Inr None, (set_gpk_ui ui ?s)\<lparr>ux := Public_Key_Compare, G_ux_os := io_seproxyhal_init_button\<rparr>)"
    using x c
    by (simp add: button_push_handler_def ui_get_public_key_approve_button_def bind_c_def gets_c_def const_defs
        clear_context_get_public_key_def modify_c_def return_c_def)
  have "base_ok (replied SW_OK (unat ?n + 1) s)" using a(1,5) assms(2) by (intro replied_base) simp_all
  then have "waiting channel ((set_gpk_ui ui ?s)\<lparr>ux := Public_Key_Compare, G_ux_os := io_seproxyhal_init_button\<rparr>)"
    using us zero_contexts_ok a(3,4)
    by (simp add: waiting_def base_ok_def screen_ok_def approving_def set_gpk_ui_def gpk_ok_def replied_def)
  with h ui show ?thesis by (simp add: set_gpk_ui_def replied_def)
qed

lemma compare_signature_run:
  assumes "ui_sized (sgn_ui (sgn s))"
  shows "\<exists>ui. ui_compare_msg (sgn_ui (sgn s)) = Inr ui \<and> viewing ui \<and> display_index ui = 0
    \<and> ui_msg_body ui = ui_msg_body (sgn_ui (sgn s)) \<and> ui_msg_length ui = ui_msg_length (sgn_ui (sgn s))
    \<and> compare_signature s = (Inr (), (set_sgn_ui ui s)\<lparr>ux := Message_Compare, G_ux_os := io_seproxyhal_init_button\<rparr>)"
  using ui_compare_msg_viewing [OF assms]
  by (auto simp: compare_signature_def bind_c_def gets_c_def lift_c_def modify_c_def ux_display_def)

lemma sgn_accept:
  assumes "waiting channel s" "ux s = Message_Approve"
  shows "\<exists>s'. button_push_handler Message_Approve (BUTTON_EVT_RELEASED OR BUTTON_RIGHT) s = (Inr None, s')
    \<and> waiting channel s' \<and> ux s' = Message_Compare
    \<and> sent s' = sent s @ [take (unat (sgn_output_length (sgn s)) + 1) (G_io_apdu_buffer s) @ sw_bytes SW_OK]
    \<and> viewing (sgn_ui (sgn s')) \<and> display_index (sgn_ui (sgn s')) = 0
    \<and> ui_msg_body (sgn_ui (sgn s')) = ui_msg_body (sgn_ui (sgn s))
    \<and> ui_msg_length (sgn_ui (sgn s')) = ui_msg_length (sgn_ui (sgn s))"
proof -
  have ap: "approving s" using assms(2) by (simp add: approving_def)
  note a = approving_state [OF assms(1) ap]
  let ?n = "sgn_output_length (sgn s)" and ?ui = "sgn_ui (sgn s)"
  have n: "unat (?n + 1) = unat ?n + 1" using a(6) [OF assms(2)] by (simp add: unat_word_ariths)
  have x: "exchange_status SW_OK (?n + 1) s = (Inr (), replied SW_OK (unat ?n + 1) s)"
    using exchange_status_replied [OF a(1,2), of "?n + 1" SW_OK] a(6) [OF assms(2)] by (simp add: n)
  let ?s = "set_sgn_ui ?ui ((replied SW_OK (unat ?n + 1) s)\<lparr>sgn := zero_sign_context\<rparr>)"
  have u: "ui_sized ?ui" using a(1) by (simp add: base_ok_def sgn_ok_def)
  obtain ui where ui: "viewing ui" "display_index ui = 0" "ui_msg_body ui = ui_msg_body ?ui"
      "ui_msg_length ui = ui_msg_length ?ui"
    and c: "compare_signature ?s = (Inr (), (set_sgn_ui ui ?s)\<lparr>ux := Message_Compare, G_ux_os := io_seproxyhal_init_button\<rparr>)"
    using compare_signature_run [of ?s] u by (auto simp: set_sgn_ui_def)
  have us: "ui_sized ui" using ui(1) by (simp add: viewing_def)
  have h: "button_push_handler Message_Approve (BUTTON_EVT_RELEASED OR BUTTON_RIGHT) s
      = (Inr None, (set_sgn_ui ui ?s)\<lparr>ux := Message_Compare, G_ux_os := io_seproxyhal_init_button\<rparr>)"
    using x c
    by (simp add: button_push_handler_def ui_sign_message_approve_button_def bind_c_def gets_c_def const_defs
        clear_context_sign_message_def modify_c_def return_c_def)
  have "base_ok (replied SW_OK (unat ?n + 1) s)" using a(1,6) assms(2) by (intro replied_base) simp_all
  then have "waiting channel ((set_sgn_ui ui ?s)\<lparr>ux := Message_Compare, G_ux_os := io_seproxyhal_init_button\<rparr>)"
    using us zero_contexts_ok a(3,4)
    by (simp add: waiting_def base_ok_def screen_ok_def approving_def set_sgn_ui_def sgn_ok_def replied_def)
  with h ui show ?thesis by (simp add: set_sgn_ui_def replied_def)
qed

lemma approve_other:
  assumes "m \<noteq> (BUTTON_EVT_RELEASED OR BUTTON_LEFT)" "m \<noteq> (BUTTON_EVT_RELEASED OR BUTTON_RIGHT)"
  shows "button_push_handler Public_Key_Approve m s = (Inr None, s)"
    and "button_push_handler Message_Approve m s = (Inr None, s)"
  using assms
  by (simp_all add: button_push_handler_def ui_get_public_key_approve_button_def ui_sign_message_approve_button_def
      bind_c_def gets_c_def return_c_def)

lemma button_push_stays:
  assumes w: "waiting channel s"
  shows "stays channel (button_push_handler (ux s) m s)"
proof (cases "ux s")
  case No_Screen
  then show ?thesis using w by (simp add: button_push_handler_def stays_def return_c_def)
next
  case Menu_Screen
  then show ?thesis using menu_stays [OF w] by simp
next
  case Public_Key_Approve
  then show ?thesis using pk_reject [OF w] pk_accept [OF w] approve_other(1) [of m s] w
    by (cases "m = (BUTTON_EVT_RELEASED OR BUTTON_LEFT)"; cases "m = (BUTTON_EVT_RELEASED OR BUTTON_RIGHT)")
      (auto simp: stays_def)
next
  case Public_Key_Compare
  then show ?thesis using pk_compare_stays [OF w] by simp
next
  case Message_Approve
  then show ?thesis using sgn_reject [OF w] sgn_accept [OF w] approve_other(2) [of m s] w
    by (cases "m = (BUTTON_EVT_RELEASED OR BUTTON_LEFT)"; cases "m = (BUTTON_EVT_RELEASED OR BUTTON_RIGHT)")
      (auto simp: stays_def)
next
  case Message_Compare
  then show ?thesis using sgn_compare_stays [OF w] by simp
qed

lemma ux_button_push_event_stays:
  assumes "waiting channel s"
  shows "stays channel (ux_button_push_event b s)"
proof (cases "ux s = No_Screen")
  case True
  then show ?thesis using assms
    by (simp add: ux_button_push_event_def bind_c_def gets_c_def return_c_def stays_def)
next
  case False
  obtain g m where p: "io_seproxyhal_button_push b (G_ux_os s) = (g, m)"
    by (cases "io_seproxyhal_button_push b (G_ux_os s)")
  have "stays channel (button_push_handler (ux (s\<lparr>G_ux_os := g\<rparr>)) m (s\<lparr>G_ux_os := g\<rparr>))"
    by (rule button_push_stays [OF waiting_buttons [OF assms]])
  with False p show ?thesis
    by (simp add: ux_button_push_event_def bind_c_def gets_c_def modify_c_def)
qed

section \<open>Receiving\<close>

lemma io_event_run:
  assumes "base_ok s"
  shows "io_event ev s = (case ev of
       Button_Report buttons \<Rightarrow> ux_button_push_event buttons s
     | Usb_Unpowered \<Rightarrow> (if apdu_media s = IO_APDU_MEDIA_USB_HID then (Inl (Throw EXCEPTION_IO_RESET), s) else (Inr None, s))
     | _ \<Rightarrow> (Inr None, s))"
  using assms
  by (simp add: io_event_def bind_c_def gets_c_def lift_c_def debug_check_stack_canary_def base_ok_def
      debug_init_stack_canary_def throw_c_def return_c_def split: event.split)

text \<open>The reserved commands stay inside the buffer.\<close>

lemma reserved_apdu_safe:
  assumes "firmware_ok F" "length buf = 337" "reserved_apdu F channel buf = Some r"
  shows "safe (\<lambda>(buf', n, ch). length buf' = 337 \<and> 0 < n \<and> n \<le> 200
    \<and> (ch = channel AND NOT IO_FLAGS \<or> ch = channel OR IO_RESET_AFTER_REPLIED)) r"
  using assms
  by (auto simp: reserved_apdu_def os_io_seproxyhal_get_app_name_and_version_def append_tag_def buf_write_def
      firmware_ok_def Let_def split: if_splits)

lemma usb_receive_base: "base_ok s \<Longrightarrow> base_ok (usb_receive data complete s)"
  by (simp add: usb_receive_def base_ok_def Let_def)

definition between :: "app \<Rightarrow> bool" where
  "between s \<longleftrightarrow> base_ok s \<and> screen_ok s \<and> \<not> approving s \<and> main_tx s = 0"

lemma between_buffer: "between s \<Longrightarrow> length buf = 337 \<Longrightarrow> between (s\<lparr>G_io_apdu_buffer := buf\<rparr>)"
  by (simp add: between_def base_ok_def screen_ok_def approving_def IO_APDU_BUFFER_SIZE_def)

lemma between_waiting:
  assumes "between s" "ch = 0 \<or> ch = IO_ASYNCH_REPLY OR IO_RESET_AFTER_REPLIED" "apdu_length s = 0"
  shows "config_inv (Receiving ch, s)"
  using assms by (auto simp: between_def)

lemma between_sent: "between s \<Longrightarrow> between (s\<lparr>sent := x, apdu_media := a, apdu_length := l\<rparr>)"
  by (simp add: between_def base_ok_def screen_ok_def approving_def)

lemma channel_flags:
  assumes "channel \<in> {0, IO_ASYNCH_REPLY, IO_RESET_AFTER_REPLIED, IO_ASYNCH_REPLY OR IO_RESET_AFTER_REPLIED}"
  shows "channel AND NOT IO_FLAGS = 0"
    and "channel OR IO_RESET_AFTER_REPLIED
      = (if channel AND IO_ASYNCH_REPLY = 0 then IO_RESET_AFTER_REPLIED else IO_ASYNCH_REPLY OR IO_RESET_AFTER_REPLIED)"
  using assms by (auto simp: const_defs IO_FLAGS_def)

lemma io_exchange_apdu_inv:
  assumes F: "firmware_ok F" and s: "between s" "apdu_media s = IO_APDU_MEDIA_USB_HID"
    and ch: "channel \<in> {0, IO_ASYNCH_REPLY, IO_RESET_AFTER_REPLIED, IO_ASYNCH_REPLY OR IO_RESET_AFTER_REPLIED}"
  shows "(\<exists>l. io_exchange_apdu F channel s = (Inr (Rx_Apdu l), s))
    \<or> (\<exists>c s'. io_exchange_apdu F channel s = (Inr (Rx_Exit c), s'))
    \<or> (\<exists>c s'. io_exchange_apdu F channel s = (Inr (Rx_Wait c), s') \<and> config_inv (Receiving c, s'))"
proof (cases "reserved_apdu F channel (G_io_apdu_buffer s)")
  case None
  then show ?thesis by (simp add: io_exchange_apdu_def bind_c_def gets_c_def return_c_def)
next
  case (Some r)
  have l: "length (G_io_apdu_buffer s) = 337" using s(1) by (simp add: between_def base_ok_def IO_APDU_BUFFER_SIZE_def)
  have sf: "safe (\<lambda>(buf', n, c). length buf' = 337 \<and> 0 < n \<and> n \<le> 200
    \<and> (c = channel AND NOT IO_FLAGS \<or> c = channel OR IO_RESET_AFTER_REPLIED)) r"
    by (rule reserved_apdu_safe [OF F l Some])
  obtain buf n c where r: "r = Inr (buf, n, c)" "length buf = 337" "0 < n" "n \<le> 200"
    "c = 0 \<or> c = IO_RESET_AFTER_REPLIED \<or> c = IO_ASYNCH_REPLY OR IO_RESET_AFTER_REPLIED"
  proof (cases r)
    case (Inl e)
    have False
      using Some Inl F l
      by (auto simp: reserved_apdu_def os_io_seproxyhal_get_app_name_and_version_def append_tag_def buf_write_def
          firmware_ok_def Let_def split: if_splits)
    then show ?thesis ..
  next
    case (Inr v)
    with sf that channel_flags [OF ch] show ?thesis by (cases v) (auto split: if_splits)
  qed
  let ?s = "s\<lparr>G_io_apdu_buffer := buf\<rparr>"
  have b: "between ?s" by (rule between_buffer [OF s(1) r(2)])
  have n: "unat (of_nat n :: u16) = n" "(of_nat n :: u16) \<noteq> 0"
    using r(3,4) by (simp_all add: unat_of_nat word_unat_eq_iff)
  have x: "io_exchange_apdu F channel s = (case io_exchange_tx c (of_nat n) ?s of
      (Inl e, s) \<Rightarrow> (Inl e, s)
    | (Inr t, s) \<Rightarrow> (Inr (case t of Tx_Return l \<Rightarrow> Rx_Apdu l | Tx_Exit code \<Rightarrow> Rx_Exit code | Tx_Receive \<Rightarrow> Rx_Wait c), s))"
    by (simp add: io_exchange_apdu_def bind_c_def gets_c_def lift_c_def modify_c_def return_c_def Some r(1))
  consider "c = 0" | "c = IO_RESET_AFTER_REPLIED" | "c = IO_ASYNCH_REPLY OR IO_RESET_AFTER_REPLIED"
    using r(5) by blast
  then show ?thesis
  proof cases
    case 1
    let ?t = "?s\<lparr>sent := sent s @ [take n buf], apdu_media := IO_APDU_MEDIA_NONE, apdu_length := 0\<rparr>"
    have "io_exchange_tx c (of_nat n) ?s = (Inr Tx_Receive, ?t)"
      using 1 n r s(2) io_exchange_tx_send [OF n(2), of ?s 0] by simp
    moreover have "config_inv (Receiving c, ?t)"
      using between_sent [OF b] 1 by (intro between_waiting) simp_all
    ultimately show ?thesis
      by (intro disjI2 exI [of _ c] exI [of _ ?t]) (simp only: x prod.case sum.case tx_result.case simp_thms)
  next
    case 2
    with n r s(2) io_exchange_tx_send [OF n(2), of ?s c] have
      "\<exists>t. io_exchange_tx c (of_nat n) ?s = (Inr (Tx_Exit (ucast EXCEPTION_IO_RESET)), t)"
      by (simp add: IO_RESET_AFTER_REPLIED_def)
    then show ?thesis by (auto simp: x)
  next
    case 3
    have "c AND IO_ASYNCH_REPLY \<noteq> 0" by (simp add: 3 const_defs)
    then have "io_exchange_tx c (of_nat n) ?s = (Inr Tx_Receive, ?s\<lparr>apdu_length := 0\<rparr>)"
      by (rule io_exchange_tx_asynch)
    moreover have "between (?s\<lparr>apdu_length := 0\<rparr>)"
      using b by (simp add: between_def base_ok_def screen_ok_def approving_def)
    then have "config_inv (Receiving c, ?s\<lparr>apdu_length := 0\<rparr>)"
      using 3 by (intro between_waiting) simp_all
    ultimately show ?thesis
      by (intro disjI2 exI [of _ c] exI [of _ "?s\<lparr>apdu_length := 0\<rparr>"])
        (simp only: x prod.case sum.case tx_result.case simp_thms)
  qed
qed

lemma app_main_end_reset: "base_ok s \<Longrightarrow> config_inv (app_main_end (Inl (Throw EXCEPTION_IO_RESET), s))"
  by (simp add: app_main_end_def main_catch_def)

lemma receive_quiet:
  assumes "stays channel (io_seproxyhal_handle_event ev s)"
  shows "config_inv (receive C F channel ev s)"
proof -
  from assms obtain c s' where h: "io_seproxyhal_handle_event ev s = (Inr c, s')" "c = None \<longrightarrow> waiting channel s'"
    by (auto simp: stays_def)
  show ?thesis
  proof (cases c)
    case (Some code)
    then show ?thesis
      by (simp add: receive_def io_exchange_rx_def bind_c_def h(1) return_c_def)
  next
    case None
    with h(2) have w: "config_inv (Receiving channel, s')" by (simp add: waiting_def)
    then have q: "\<not> (apdu_media s' \<noteq> IO_APDU_MEDIA_NONE \<and> apdu_length s' > 0)"
      by (auto simp: media_cases)
    have "receive C F channel ev s = (Receiving channel, s')"
      unfolding receive_def io_exchange_rx_def bind_c_def h(1) None prod.case sum.case option.case gets_c_def
        if_not_P [OF q] return_c_def rx_result.case by (rule refl)
    with w show ?thesis by simp
  qed
qed

lemma receive_apdu_inv:
  assumes C: "crypto_ok C" and F: "firmware_ok F" and s: "config_inv (Receiving channel, s)"
  shows "config_inv (receive C F channel (Apdu data) s)"
proof -
  have w: "waiting channel s" using s by (simp add: waiting_def)
  have b: "base_ok s" and l: "length (G_io_apdu_buffer s) = 337"
    using s by (simp_all add: base_ok_def IO_APDU_BUFFER_SIZE_def)
  let ?s = "usb_receive data True s"
  have h: "io_seproxyhal_handle_event (Apdu data) s = (Inr None, ?s)"
    by (simp add: io_seproxyhal_handle_event_def bind_c_def modify_c_def return_c_def)
  show ?thesis
  proof (cases "apdu_media s \<noteq> IO_APDU_MEDIA_NONE \<or> length data > 337 \<or> data = []")
    case True
    have "waiting channel ?s"
      using w True l by (auto simp: usb_receive_def Let_def waiting_def base_ok_def screen_ok_def approving_def)
    then show ?thesis using h by (intro receive_quiet) (simp add: stays_def)
  next
    case False
    then have m: "apdu_media s = IO_APDU_MEDIA_NONE" "length data \<le> 337" "data \<noteq> []" by auto
    then have na: "\<not> approving s" using s by auto
    have eq: "?s = s\<lparr>G_io_apdu_buffer := data @ drop (length data) (G_io_apdu_buffer s),
        apdu_media := IO_APDU_MEDIA_USB_HID, apdu_length := of_nat (length data)\<rparr>"
      using m l by (simp add: usb_receive_def Let_def)
    have bt: "between ?s" using s m(2) na l
      by (simp add: between_def eq base_ok_def screen_ok_def approving_def IO_APDU_BUFFER_SIZE_def)
    have md: "apdu_media ?s = IO_APDU_MEDIA_USB_HID" by (simp add: eq)
    have al: "apdu_length ?s > 0"
      using m(2,3) by (simp add: eq word_gt_0 word_unat_eq_iff unat_of_nat)
    have r: "io_exchange_rx F channel (Apdu data) s = io_exchange_apdu F channel ?s"
      using al by (simp add: io_exchange_rx_def bind_c_def h gets_c_def md)
    have ch: "channel \<in> {0, IO_ASYNCH_REPLY, IO_RESET_AFTER_REPLIED, IO_ASYNCH_REPLY OR IO_RESET_AFTER_REPLIED}"
      using s by simp
    have d: "config_inv (app_main_end (app_main_dispatch C rx ?s))" for rx
      using bt md by (intro dispatch_inv [OF C]) (simp_all add: between_def)
    from io_exchange_apdu_inv [OF F bt md ch] show ?thesis
    proof (elim disjE exE)
      fix l assume "io_exchange_apdu F channel ?s = (Inr (Rx_Apdu l), ?s)"
      then show ?thesis using d by (simp only: receive_def r prod.case sum.case rx_result.case)
    next
      fix c s' assume "io_exchange_apdu F channel ?s = (Inr (Rx_Exit c), s')"
      then show ?thesis by (simp add: receive_def r)
    next
      fix c s' assume "io_exchange_apdu F channel ?s = (Inr (Rx_Wait c), s') \<and> config_inv (Receiving c, s')"
      then show ?thesis by (simp only: receive_def r prod.case sum.case rx_result.case)
    qed
  qed
qed

lemma receive_inv:
  assumes C: "crypto_ok C" and F: "firmware_ok F" and s: "config_inv (Receiving channel, s)"
  shows "config_inv (receive C F channel ev s)"
proof -
  have w: "waiting channel s" using s by (simp add: waiting_def)
  have b: "base_ok s" using s by simp
  have quiet: "stays channel (Inr None, s)" using w by (simp add: stays_def)
  show ?thesis
  proof (cases ev)
    case (Apdu data)
    then show ?thesis using receive_apdu_inv [OF assms] by simp
  next
    case (Apdu_Part data)
    have "waiting channel (usb_receive data False s)"
      using w by (auto simp: usb_receive_def Let_def waiting_def base_ok_def screen_ok_def approving_def)
    then show ?thesis
      by (intro receive_quiet)
        (simp add: stays_def io_seproxyhal_handle_event_def bind_c_def modify_c_def return_c_def Apdu_Part)
  next
    case (Button_Report buttons)
    then show ?thesis using ux_button_push_event_stays [OF w]
      by (intro receive_quiet) (simp add: io_seproxyhal_handle_event_def io_event_run [OF b])
  next
    case Usb_Reset
    show ?thesis
    proof (cases "apdu_media s = IO_APDU_MEDIA_NONE")
      case True
      then show ?thesis using quiet Usb_Reset
        by (intro receive_quiet) (simp add: io_seproxyhal_handle_event_def bind_c_def gets_c_def return_c_def)
    next
      case False
      then show ?thesis using app_main_end_reset [OF b] Usb_Reset
        by (simp add: receive_def io_exchange_rx_def io_seproxyhal_handle_event_def bind_c_def gets_c_def throw_c_def)
    qed
  next
    case Usb_Unpowered
    show ?thesis
    proof (cases "apdu_media s = IO_APDU_MEDIA_USB_HID")
      case False
      then show ?thesis using quiet Usb_Unpowered
        by (intro receive_quiet) (simp add: io_seproxyhal_handle_event_def io_event_run [OF b])
    next
      case True
      then show ?thesis using app_main_end_reset [OF b] Usb_Unpowered
        by (simp add: receive_def io_exchange_rx_def io_seproxyhal_handle_event_def bind_c_def io_event_run [OF b])
    qed
  next
    case Other_Event
    then show ?thesis using quiet
      by (intro receive_quiet) (simp add: io_seproxyhal_handle_event_def io_event_run [OF b])
  qed
qed

lemma app_step_inv:
  assumes "crypto_ok C" "firmware_ok F" "app_step C F c l c'" "config_inv c"
  shows "config_inv c'"
  using assms(3,4)
proof cases
  case (main_head s)
  then show ?thesis using main_head_inv assms(4) by simp
next
  case (loop_head s)
  then show ?thesis using loop_head_inv assms(4) by simp
next
  case (receive channel s ev)
  then show ?thesis using receive_inv [OF assms(1,2)] assms(4) by simp
qed

lemma app_run_inv:
  assumes "crypto_ok C" "firmware_ok F" "app_run C F c evs c'" "config_inv c"
  shows "config_inv c'"
  using assms(3,4) by induction (auto dest: app_step_inv [OF assms(1,2)])

end
