(* ===== verification/App_Props.thy ===== *)
theory App_Props
  imports App_Inv
begin

text \<open>
  Properties of the whole application: memory safety, the approval of commands by the user,
  and the replies to the commands from their arrival in the transport on.
\<close>

section \<open>A start state for the examples\<close>

definition sample_app :: app where
  "sample_app =
     \<lparr>G_io_apdu_buffer = replicate IO_APDU_BUFFER_SIZE 0, apdu_media = IO_APDU_MEDIA_NONE, apdu_length = 0,
      gpk = zero_gpk_context, sgn = zero_sign_context, ux = No_Screen,
      ux_menu = \<lparr>menu_entries = None, menu_entries_count = 0, current_entry = 0\<rparr>,
      G_ux_os = io_seproxyhal_init_button, stack_canary = debug_init_stack_canary,
      main_rx = 0, main_tx = 0, main_flags = 0, sent = []\<rparr>"

definition sample_firmware :: firmware where
  "sample_firmware =
     \<lparr>app_name = chars_2_bytes ''IOST'', app_version = chars_2_bytes ''0.0.3'', os_flags = 0,
      pin_is_validated = True, os_perso_seed_cookie = [1, 2, 3]\<rparr>"

lemma sample_firmware_ok: "firmware_ok sample_firmware"
  by (simp add: firmware_ok_def sample_firmware_def chars_2_bytes_def)

lemma sample_app_base: "base_ok sample_app"
  using zero_contexts_ok by (simp add: base_ok_def sample_app_def)

lemma app_run_trans: "app_run C F a es b \<Longrightarrow> app_run C F b es' c \<Longrightarrow> app_run C F a (es @ es') c"
  by (induction rule: app_run.induct) (auto intro: app_run.intros)

lemma app_run_event:
  "receive C F channel ev s = (c', s') \<Longrightarrow> app_run C F (c', s') evs c \<Longrightarrow> app_run C F (Receiving channel, s) (ev # evs) c"
  using app_step.receive [of C F channel s ev] by (auto intro: app_run.external)

lemma app_run_loop: "loop_head C s = c' \<Longrightarrow> app_run C F c' evs c \<Longrightarrow> app_run C F (Loop_Head, s) evs c"
  using app_step.loop_head [of C F s] by (auto intro: app_run.internal)

lemma app_run_main: "main_head s = c' \<Longrightarrow> app_run C F c' evs c \<Longrightarrow> app_run C F (Main_Head, s) evs c"
  using app_step.main_head [of C F s] by (auto intro: app_run.internal)

text \<open>The application starts and waits for a command, with the main menu on the screen.\<close>

lemma start_run:
  "base_ok s \<Longrightarrow> \<exists>s'. app_run C F (Main_Head, s) [] (Receiving 0, s') \<and> config_inv (Receiving 0, s')
    \<and> apdu_media s' = IO_APDU_MEDIA_NONE \<and> sent s' = sent s \<and> ux s' = Menu_Screen
    \<and> gpk s' = zero_gpk_context \<and> sgn s' = zero_sign_context"
proof -
  assume b: "base_ok s"
  obtain s1 where m: "main_head s = (Loop_Head, s1)" "sent s1 = sent s" "ux s1 = Menu_Screen" "main_tx s1 = 0"
    "main_flags s1 = 0" "apdu_media s1 = IO_APDU_MEDIA_NONE" "gpk s1 = zero_gpk_context" "sgn s1 = zero_sign_context"
    using main_head_run [of s] by auto
  let ?s2 = "s1\<lparr>main_rx := 0, main_tx := 0, apdu_media := IO_APDU_MEDIA_NONE, apdu_length := 0\<rparr>"
  have l: "loop_head C s1 = (Receiving 0, ?s2)"
    using io_exchange_tx_none [of 0] m by (simp add: loop_head_def Let_def CHANNEL_APDU_def)
  have "config_inv (Receiving 0, ?s2)"
    using loop_head_inv [of s1 C] main_head_inv [OF b] m(1) l by simp
  moreover have "app_run C F (Main_Head, s) [] (Receiving 0, ?s2)"
    by (rule app_run_main [OF m(1)], rule app_run_loop [OF l], rule app_run.none)
  ultimately show ?thesis using m by (intro exI [of _ ?s2]) simp
qed

section \<open>Memory safety\<close>

text \<open>
Property C1: whatever the host sends and whatever the user presses, no access of the
application leaves the array it is made on: from the start of \<open>main\<close> on, no sequence of
events leads to the configuration \<open>Crashed\<close>, for all cryptographic services and firmware
replies that respect their documented lengths.
\<close>

theorem application_memory_safe:
  assumes "crypto_ok C" and "firmware_ok F" and "base_ok s" and "app_run C F (Main_Head, s) evs (c, s')"
  shows "c \<noteq> Crashed \<and> (c \<notin> range Exited \<longrightarrow> length (G_io_apdu_buffer s') = IO_APDU_BUFFER_SIZE
    \<and> unat (msg_length (sgn s')) \<le> MAX_MSG_SIZE)"
proof -
  have "config_inv (c, s')" using app_run_inv [OF assms(1,2,4)] assms(3) by simp
  then show ?thesis by (cases c) (auto simp: base_ok_def sgn_ok_def)
qed

theorem application_memory_safe_witness:
  "\<exists>c s'. app_run sample_crypto sample_firmware (Main_Head, sample_app) [Apdu [0xE0, 0xFF, 0, 0x80, 0]] (c, s') \<and> c \<noteq> Crashed"
proof -
  obtain s1 where s1: "app_run sample_crypto sample_firmware (Main_Head, sample_app) [] (Receiving 0, s1)"
    using start_run [OF sample_app_base] by blast
  obtain c s' where r: "receive sample_crypto sample_firmware 0 (Apdu [0xE0, 0xFF, 0, 0x80, 0]) s1 = (c, s')"
    by (cases "receive sample_crypto sample_firmware 0 (Apdu [0xE0, 0xFF, 0, 0x80, 0]) s1")
  have "app_run sample_crypto sample_firmware (Main_Head, sample_app) ([] @ [Apdu [0xE0, 0xFF, 0, 0x80, 0]]) (c, s')"
    by (rule app_run_trans [OF s1], rule app_run_event [OF r], rule app_run.none)
  with application_memory_safe [OF sample_crypto_ok sample_firmware_ok sample_app_base, of _ c s'] show ?thesis by auto
qed

section \<open>Approval\<close>

text \<open>The mask the driver passes on for a report of the buttons.\<close>

definition reported_mask :: "u32 \<Rightarrow> app \<Rightarrow> u32" where
  "reported_mask b s = snd (io_seproxyhal_button_push b (G_ux_os s))"

lemma receive_waits:
  assumes h: "io_seproxyhal_handle_event ev s = (Inr None, s')" and s': "config_inv (Receiving channel, s')"
  shows "receive C F channel ev s = (Receiving channel, s')"
proof -
  have q: "\<not> (apdu_media s' \<noteq> IO_APDU_MEDIA_NONE \<and> apdu_length s' > 0)"
    using s' by (auto simp: media_cases)
  show ?thesis
    unfolding receive_def io_exchange_rx_def bind_c_def h prod.case sum.case option.case gets_c_def
      if_not_P [OF q] return_c_def rx_result.case by (rule refl)
qed

lemma receive_button:
  assumes "config_inv (Receiving channel, s)" "ux s \<noteq> No_Screen"
    and "button_push_handler (ux s) (reported_mask b s) (s\<lparr>G_ux_os := fst (io_seproxyhal_button_push b (G_ux_os s))\<rparr>)
      = (Inr None, s')" "config_inv (Receiving channel, s')"
  shows "receive C F channel (Button_Report b) s = (Receiving channel, s')"
proof -
  have b: "base_ok s" using assms(1) by simp
  have "ux_button_push_event b s = (Inr None, s')"
    using assms(2,3) by (cases "io_seproxyhal_button_push b (G_ux_os s)")
      (simp add: ux_button_push_event_def bind_c_def gets_c_def modify_c_def reported_mask_def)
  then have "io_seproxyhal_handle_event (Button_Report b) s = (Inr None, s')"
    by (simp add: io_seproxyhal_handle_event_def io_event_run [OF b])
  then show ?thesis by (rule receive_waits [OF _ assms(4)])
qed

text \<open>The output of the command that awaits approval.\<close>

definition pending_output :: "app \<Rightarrow> u8 list" where
  "pending_output s =
     take (unat (if ux s = Public_Key_Approve then gpk_output_length (gpk s) else sgn_output_length (sgn s)) + 1)
       (G_io_apdu_buffer s)"

text \<open>What an event does while the user is asked: the driver reports the release of one button, or not.\<close>

definition releases :: "u32 \<Rightarrow> event \<Rightarrow> app \<Rightarrow> bool" where
  "releases button ev s \<longleftrightarrow> (\<exists>b. ev = Button_Report b \<and> reported_mask b s = (BUTTON_EVT_RELEASED OR button))"

definition approved :: "app \<Rightarrow> app \<Rightarrow> bool" where
  "approved s s' \<longleftrightarrow> sent s' = sent s @ [pending_output s @ sw_bytes SW_OK]
     \<and> ux s' = (if ux s = Public_Key_Approve then Public_Key_Compare else Message_Compare)"

definition rejected :: "app \<Rightarrow> app \<Rightarrow> bool" where
  "rejected s s' \<longleftrightarrow> sent s' = sent s @ [sw_bytes SW_USER_REJECTED] \<and> ux s' = Menu_Screen
     \<and> (if ux s = Public_Key_Approve then gpk s' = zero_gpk_context else sgn s' = zero_sign_context)"

definition undecided :: "app \<Rightarrow> app \<Rightarrow> bool" where
  "undecided s s' \<longleftrightarrow> (\<exists>g. s' = s\<lparr>G_ux_os := g\<rparr>)"

lemma releases_report [simp]:
  "releases button (Button_Report b) s = (reported_mask b s = (BUTTON_EVT_RELEASED OR button))"
  by (simp add: releases_def)

lemma undecided_same: "undecided s s"
  unfolding undecided_def by (rule exI [of _ "G_ux_os s"]) simp

lemma approval_step:
  assumes inv: "config_inv (Receiving channel, s)" and ap: "approving s"
  shows "if ev = Usb_Reset \<or> ev = Usb_Unpowered then receive C F channel ev s = (Main_Head, s)
    else \<exists>s'. receive C F channel ev s = (Receiving channel, s')
      \<and> (if releases BUTTON_RIGHT ev s then approved s s'
         else if releases BUTTON_LEFT ev s then rejected s s' else undecided s s')"
proof -
  have w: "waiting channel s" using inv by (simp add: waiting_def)
  have md: "apdu_media s = IO_APDU_MEDIA_USB_HID" and b: "base_ok s" using inv ap by simp_all
  note keep = receive_waits [OF _ inv, of ev s C F]
  show ?thesis
  proof (cases ev)
    case (Apdu data)
    then show ?thesis using keep md undecided_same
      by (simp add: io_seproxyhal_handle_event_def bind_c_def modify_c_def return_c_def usb_receive_def releases_def)
  next
    case (Apdu_Part data)
    then show ?thesis using keep md undecided_same
      by (simp add: io_seproxyhal_handle_event_def bind_c_def modify_c_def return_c_def usb_receive_def releases_def)
  next
    case Usb_Reset
    then show ?thesis using md
      by (simp add: receive_def io_exchange_rx_def io_seproxyhal_handle_event_def bind_c_def gets_c_def throw_c_def
          app_main_end_def main_catch_def)
  next
    case Usb_Unpowered
    then show ?thesis using md
      by (simp add: receive_def io_exchange_rx_def io_seproxyhal_handle_event_def bind_c_def io_event_run [OF b]
          app_main_end_def main_catch_def)
  next
    case Other_Event
    then show ?thesis using keep undecided_same
      by (simp add: io_seproxyhal_handle_event_def io_event_run [OF b] releases_def)
  next
    case (Button_Report bt)
    let ?s = "s\<lparr>G_ux_os := fst (io_seproxyhal_button_push bt (G_ux_os s))\<rparr>"
    have ws: "waiting channel ?s" by (rule waiting_buttons [OF w])
    have nn: "ux s \<noteq> No_Screen" using ap by (auto simp: approving_def)
    have rb: "button_push_handler (ux s) (reported_mask bt s) ?s = (Inr None, s') \<Longrightarrow> waiting channel s' \<Longrightarrow>
        receive C F channel ev s = (Receiving channel, s')" for s'
      using receive_button [OF inv nn, of bt s' C F] unfolding Button_Report waiting_def by blast
    have other: "receive C F channel ev s = (Receiving channel, ?s) \<and> undecided s ?s"
      if "reported_mask bt s \<noteq> (BUTTON_EVT_RELEASED OR BUTTON_LEFT)"
        "reported_mask bt s \<noteq> (BUTTON_EVT_RELEASED OR BUTTON_RIGHT)"
      using rb [of ?s] approve_other [OF that, of ?s] ap ws by (auto simp: approving_def undecided_def)
    have no: "(BUTTON_EVT_RELEASED OR BUTTON_LEFT) \<noteq> (BUTTON_EVT_RELEASED OR BUTTON_RIGHT)" by (simp add: const_defs)
    from ap consider (pk) "ux s = Public_Key_Approve" | (sgn) "ux s = Message_Approve" by (auto simp: approving_def)
    then show ?thesis
    proof cases
      case pk
      show ?thesis
        using other rb pk_reject [OF ws] pk_accept [OF ws] pk no
        by (cases "reported_mask bt s = (BUTTON_EVT_RELEASED OR BUTTON_LEFT)";
            cases "reported_mask bt s = (BUTTON_EVT_RELEASED OR BUTTON_RIGHT)")
          (fastforce simp: approved_def rejected_def Button_Report pending_output_def)+
    next
      case sgn
      show ?thesis
        using other rb sgn_reject [OF ws] sgn_accept [OF ws] sgn no
        by (cases "reported_mask bt s = (BUTTON_EVT_RELEASED OR BUTTON_LEFT)";
            cases "reported_mask bt s = (BUTTON_EVT_RELEASED OR BUTTON_RIGHT)")
          (fastforce simp: approved_def rejected_def Button_Report pending_output_def)+
    qed
  qed
qed

end
