(* ===== verification/Commands.thy ===== *)
theory Commands
  imports App_Props
begin

text \<open>
  The commands end to end: from a command the transport receives to the reply it is handed,
  through \<open>io_exchange\<close>, the checks of \<open>app_main\<close>, the handler and the status word.
\<close>

section \<open>Arrival and reply\<close>

definition apdu_bytes :: "u8 \<Rightarrow> u8 \<Rightarrow> u8 \<Rightarrow> u8 list \<Rightarrow> u8 list" where
  "apdu_bytes ins p1 p2 data = [CLA, ins, p1, p2, of_nat (length data)] @ data"

text \<open>An idle device: the application waits for a command.\<close>

definition idle :: "u8 \<Rightarrow> app \<Rightarrow> bool" where
  "idle channel s \<longleftrightarrow> config_inv (Receiving channel, s) \<and> apdu_media s = IO_APDU_MEDIA_NONE"

text \<open>The state in which the command is dispatched.\<close>

definition arrived :: "u8 list \<Rightarrow> app \<Rightarrow> app" where
  "arrived apdu s =
     s\<lparr>G_io_apdu_buffer := apdu @ drop (length apdu) (G_io_apdu_buffer s), apdu_media := IO_APDU_MEDIA_USB_HID,
       apdu_length := of_nat (length apdu), main_rx := of_nat (length apdu), main_flags := 0\<rparr>"

lemma length_apdu_bytes [simp]: "length (apdu_bytes ins p1 p2 data) = 5 + length data"
  by (simp add: apdu_bytes_def)

lemma idle_dispatching:
  assumes "idle channel s" "length apdu \<le> 337"
  shows "dispatching (arrived apdu s)"
proof -
  have "\<not> approving s" using assms(1) by (auto simp: idle_def)
  with assms show ?thesis
    by (simp add: idle_def dispatching_def arrived_def base_ok_def screen_ok_def approving_def IO_APDU_BUFFER_SIZE_def)
qed

text \<open>Every command of at most 337 bytes is dispatched, unless it starts like a reserved one.\<close>

text \<open>A command \<open>io_exchange\<close> does not answer itself, whatever bytes of an earlier one stand behind it.\<close>

definition unreserved :: "u8 list \<Rightarrow> bool" where
  "unreserved apdu \<longleftrightarrow> hd apdu \<noteq> 0xB0
     \<or> 4 \<le> length apdu \<and> take 4 apdu \<notin> {[0xB0, 0x01, 0x00, 0x00], [0xB0, 0xA7, 0x00, 0x00], [0xB0, 0x02, 0x00, 0x00]}"

lemma unreserved_None:
  assumes "unreserved apdu" "apdu \<noteq> []"
  shows "reserved_apdu F channel (apdu @ rest) = None"
proof (cases "hd apdu = 0xB0")
  case True
  then show ?thesis using assms by (auto simp: unreserved_def reserved_apdu_def)
next
  case False
  then show ?thesis using assms(2) by (cases apdu) (auto simp: reserved_apdu_def)
qed

lemma receive_unreserved:
  assumes i: "idle channel s" and d: "apdu \<noteq> []" "length apdu \<le> 337" "unreserved apdu"
  shows "receive C F channel (Apdu apdu) s
    = app_main_end (app_main_dispatch C (of_nat (length apdu)) (arrived apdu s))"
proof -
  let ?s1 = "s\<lparr>G_io_apdu_buffer := apdu @ drop (length apdu) (G_io_apdu_buffer s), apdu_media := IO_APDU_MEDIA_USB_HID,
    apdu_length := of_nat (length apdu)\<rparr>"
  have l: "length (G_io_apdu_buffer s) = 337" and m: "apdu_media s = IO_APDU_MEDIA_NONE"
    using i by (simp_all add: idle_def base_ok_def IO_APDU_BUFFER_SIZE_def)
  have "io_seproxyhal_handle_event (Apdu apdu) s = (Inr None, ?s1)"
    using l m d(2)
    by (simp add: io_seproxyhal_handle_event_def bind_c_def modify_c_def return_c_def usb_receive_def Let_def)
  moreover have "apdu_length ?s1 > 0"
    using d(1,2) by (simp add: word_gt_0 word_unat_eq_iff unat_of_nat)
  moreover have "reserved_apdu F channel (G_io_apdu_buffer ?s1) = None"
    using unreserved_None [OF d(3,1)] by simp
  ultimately have "io_exchange_rx F channel (Apdu apdu) s = (Inr (Rx_Apdu (of_nat (length apdu))), ?s1)"
    by (simp add: io_exchange_rx_def io_exchange_apdu_def bind_c_def gets_c_def return_c_def)
  moreover have "app_main_dispatch C rx ?s1 = app_main_dispatch C rx (arrived apdu s)" for rx
    by (simp add: app_main_dispatch_def bind_c_def modify_c_def arrived_def)
  ultimately show ?thesis by (simp add: receive_def)
qed

lemma receive_command:
  assumes "idle channel s" and "apdu \<noteq> []" "length apdu \<le> 337" "hd apdu \<noteq> 0xB0"
  shows "receive C F channel (Apdu apdu) s
    = app_main_end (app_main_dispatch C (of_nat (length apdu)) (arrived apdu s))"
  using assms by (intro receive_unreserved) (simp_all add: unreserved_def)

lemma header_nth:
  "[x0, x1, x2, x3, x4] ! 0 = x0" "[x0, x1, x2, x3, x4] ! 1 = x1" "[x0, x1, x2, x3, x4] ! 2 = x2"
  "[x0, x1, x2, x3, x4] ! 3 = x3" "[x0, x1, x2, x3, x4] ! 4 = x4"
  by simp_all

lemma header_check_ok:
  assumes "length data \<le> 255" "data \<noteq> [] \<or> p2 AND P2_MORE \<noteq> 0"
  shows "header_check [CLA, ins, p1, p2, of_nat (length data)] (of_nat (5 + length data)) = Inr ()"
proof -
  have u: "unat (of_nat (length data) :: u8) = length data" "unat (of_nat (5 + length data) :: u16) = 5 + length data"
    using assms(1) by (simp_all add: unat_of_nat unat_word_ariths)
  have z: "(of_nat (length data) :: u8) = 0 \<longleftrightarrow> data = []"
    by (simp add: word_unat_eq_iff u(1) del: of_nat_eq_0_iff)
  have m: "\<not> (of_nat (5 + length data) :: u16) < APDU_MIN_SIZE"
    by (simp only: word_less_nat_alt u(2)) (simp add: APDU_MIN_SIZE_def)
  show ?thesis
    unfolding header_check_def if_not_P [OF m] OFFSET_CLA_def OFFSET_LC_def OFFSET_P2_def header_nth z u
    using assms(2) by auto
qed

text \<open>A well-formed command reaches the switch.\<close>

lemma receive_well_formed:
  fixes ins p1 p2 :: u8 and data :: "u8 list"
  assumes i: "idle channel s" and d: "length data \<le> 255" "data \<noteq> [] \<or> p2 AND P2_MORE \<noteq> 0"
  defines "apdu \<equiv> apdu_bytes ins p1 p2 data"
  shows "receive C F channel (Apdu apdu) s
    = app_main_end (app_main_command C ins p1 p2 (drop OFFSET_CDATA (G_io_apdu_buffer (arrived apdu s)))
        (of_nat (length data)) (of_nat (length apdu)) (arrived apdu s))"
proof -
  let ?s = "arrived apdu s"
  have b: "G_io_apdu_buffer ?s = apdu @ drop (length apdu) (G_io_apdu_buffer s)" by (simp add: arrived_def)
  have h: "take 5 (G_io_apdu_buffer ?s) = [CLA, ins, p1, p2, of_nat (length data)]"
    unfolding b by (simp add: apdu_def apdu_bytes_def)
  have u: "unat (of_nat (length data) :: u8) = length data" "unat (of_nat (5 + length data) :: u16) = 5 + length data"
    using d(1) by (simp_all add: unat_of_nat unat_word_ariths)
  have c: "(ucast (of_nat (length data) :: u8) :: u16) = of_nat (length data)"
    by (simp add: word_unat_eq_iff u unat_of_nat) (use d(1) in simp)
  have same: "?s\<lparr>main_rx := of_nat (length apdu), main_flags := 0\<rparr> = ?s" by (simp add: arrived_def)
  have ok: "header_check [CLA, ins, p1, p2, of_nat (length data)] (of_nat (length apdu)) = Inr ()"
    using header_check_ok [OF d] by (simp add: apdu_def)
  have l5: "5 \<le> length (G_io_apdu_buffer ?s)" unfolding b by (simp add: apdu_def)
  have "app_main_dispatch C (of_nat (length apdu)) ?s
      = app_main_command C ins p1 p2 (drop OFFSET_CDATA (G_io_apdu_buffer ?s)) (of_nat (length data)) (of_nat (length apdu)) ?s"
    unfolding app_main_dispatch_run [OF l5] h ok sum.case same
    by (simp only: OFFSET_INS_def OFFSET_P1_def OFFSET_P2_def OFFSET_LC_def header_nth c)
  then show ?thesis
    using receive_command [OF i, of apdu C F] d(1) by (simp add: apdu_def apdu_bytes_def CLA_def)
qed

text \<open>The reply to a command whose iteration ends with an exception.\<close>

definition status_reply :: "u16 \<Rightarrow> app \<Rightarrow> u8 list" where
  "status_reply e s = take (unat (main_tx s)) (G_io_apdu_buffer s) @ sw_bytes (status_word e)"

definition after_reply :: "u16 \<Rightarrow> app \<Rightarrow> app" where
  "after_reply e s =
     (let s' = with_status (status_word e) (caught e s)
      in s'\<lparr>main_rx := main_tx s', main_tx := 0, sent := sent s @ [status_reply e s],
            apdu_media := IO_APDU_MEDIA_NONE, apdu_length := 0\<rparr>)"

lemma reply_run:
  assumes s: "base_ok s" "screen_ok s" "\<not> approving s" "apdu_media s = IO_APDU_MEDIA_USB_HID" "unat (main_tx s) \<le> 260"
    "main_flags s = 0" and e: "e \<noteq> EXCEPTION_IO_RESET"
    and r: "receive C F channel ev s0 = app_main_end (Inl (Throw e), s)"
  shows "app_run C F (Receiving channel, s0) [ev] (Receiving 0, after_reply e s)
    \<and> idle 0 (after_reply e s)"
proof -
  let ?s = "with_status (status_word e) (caught e s)"
  have l: "length (G_io_apdu_buffer s) = 337" using s(1) by (simp add: base_ok_def IO_APDU_BUFFER_SIZE_def)
  have ending: "app_main_end (Inl (Throw e), s) = (Loop_Head, ?s)"
    using app_main_end_throw [OF e, of s] s(5) l by simp
  have f: "main_flags ?s = 0" "apdu_media ?s = IO_APDU_MEDIA_USB_HID" "sent ?s = sent s"
    "main_tx ?s = main_tx s + 2" "length (G_io_apdu_buffer ?s) = 337"
    using s l by (simp_all add: with_status_def caught_def)
  have u: "unat (main_tx s + 2) = unat (main_tx s) + 2" using s(5) by (simp add: unat_word_ariths)
  have nz: "main_tx ?s \<noteq> 0" using u f(4) by (metis add_is_0 unat_0 zero_neq_numeral)
  have rep: "take (unat (main_tx ?s)) (G_io_apdu_buffer ?s) = status_reply e s"
    using l s(5) by (simp add: f(4) u with_status_def caught_def status_reply_def)
  have "loop_head C ?s = (Receiving 0, after_reply e s)"
    using io_exchange_tx_send [OF nz, of "?s\<lparr>main_rx := main_tx ?s, main_tx := 0\<rparr>" 0] f u s(5) rep
    by (simp add: loop_head_def Let_def CHANNEL_APDU_def after_reply_def)
  note lh = this
  have "config_inv (Loop_Head, ?s)" using app_main_end_inv [OF s(1-5), of e] s(6) ending by simp
  from loop_head_inv [OF this, of C] have inv: "config_inv (Receiving 0, after_reply e s)" unfolding lh .
  have "app_run C F (Receiving channel, s0) [ev] (Receiving 0, after_reply e s)"
    by (rule app_run_event [OF r [unfolded ending]], rule app_run_loop [OF lh], rule app_run.none)
  moreover have "apdu_media (after_reply e s) = IO_APDU_MEDIA_NONE" by (simp add: after_reply_def Let_def)
  ultimately show ?thesis using inv by (simp only: idle_def simp_thms)
qed

lemma after_reply_simps [simp]:
  "sent (after_reply e s) = sent s @ [status_reply e s]"
  "ux (after_reply e s) = ux s" "ux_menu (after_reply e s) = ux_menu s" "main_tx (after_reply e s) = 0"
  "gpk (after_reply e s) = (if e AND 0xF000 = 0x9000 then gpk s else zero_gpk_context)"
  "sgn (after_reply e s) = (if e AND 0xF000 = 0x9000 then sgn s else zero_sign_context)"
  by (simp_all add: after_reply_def with_status_def caught_def Let_def)

section \<open>GET PUBLIC KEY\<close>

text \<open>The path at the start of a byte list, as an array of five words.\<close>

definition path_ok :: "u8 list \<Rightarrow> bool" where
  "path_ok m \<longleftrightarrow> m \<noteq> [] \<and> 1 \<le> unat (hd m) \<and> unat (hd m) \<le> 5 \<and> 1 + 4 * unat (hd m) \<le> length m"

definition path_words :: "u8 list \<Rightarrow> u32 list" where
  "path_words m = be_words (unat (hd m)) (tl m) @ replicate (5 - unat (hd m)) 0"

definition path_length :: "u8 list \<Rightarrow> u16" where
  "path_length m = of_nat (unat (hd m))"

lemma path_reads:
  assumes m: "path_ok m" "take (1 + 4 * unat (hd m)) buffer = take (1 + 4 * unat (hd m)) m"
  shows "read_path buffer len = (if len = 0 \<or> 1 + 4 * unat (hd m) \<le> unat len
    then Inr (path_length m, path_words m) else THROW SW_WRONG_LENGTH)"
proof -
  let ?n = "unat (hd m)"
  obtain b r where r: "buffer = b # r" "hd m = b" "take (4 * unat b) r = take (4 * unat b) (tl m)"
    using m by (cases buffer; cases m) (auto simp: path_ok_def)
  have w: "be_words (unat b) r = be_words (unat b) (tl m)" using r(3) be_words_take by (metis order_refl)
  have n: "1 \<le> unat b" "unat b \<le> 5" "4 * unat b \<le> length r"
    using m(1) r by (auto simp: path_ok_def) (metis diff_Suc_1 length_take length_tl min.absorb_iff2 min.commute nat_le_linear
      Suc_le_eq diff_le_mono)
  have "unat (ucast len - 1 :: u32) < 4 * unat b \<longleftrightarrow> \<not> (len = 0 \<or> 1 + 4 * unat b \<le> unat len)"
  proof (cases "len = 0")
    case True
    have "unat (- 1 :: u32) = 4294967295" by (simp add: unsigned_minus_1_eq_mask mask_eq_exp_minus_1)
    with True n(2) show ?thesis by simp
  next
    case False
    then have "unat (ucast len - 1 :: u32) = unat len - 1" by (simp add: unat_dec unat_gt_0 unat_ucast_up)
    moreover have "0 < unat len" using False by (simp add: unat_gt_0)
    ultimately show ?thesis using False by auto
  qed
  then show ?thesis
    using io_read_bip32_Cons [of "replicate BIP32_PATH_LENGTH 0" b r len] n w
    by (simp add: read_path_def r path_length_def path_words_def BIP32_PATH_LENGTH_def)
qed

lemma check_p1p2_ok: "unat p1 \<le> 1 \<Longrightarrow> unat p2 \<le> 0x80 \<Longrightarrow> io_check_p1p2 p1 p2 = Inr ()"
  by (rule io_check_p1p2_range)

lemma arrived_data:
  "drop OFFSET_CDATA (G_io_apdu_buffer (arrived (apdu_bytes ins p1 p2 data) s))
    = data @ drop (length data + 5) (G_io_apdu_buffer s)"
  by (simp add: arrived_def apdu_bytes_def OFFSET_CDATA_def) (simp add: numeral_eq_Suc)

lemma arrived_simps [simp]:
  "gpk (arrived apdu s) = gpk s" "sgn (arrived apdu s) = sgn s" "main_tx (arrived apdu s) = main_tx s"
  "sent (arrived apdu s) = sent s" "ux (arrived apdu s) = ux s" "main_flags (arrived apdu s) = 0"
  "apdu_media (arrived apdu s) = IO_APDU_MEDIA_USB_HID" "ux_menu (arrived apdu s) = ux_menu s"
  by (simp_all add: arrived_def)

lemma sw_bytes_ok: "sw_bytes (status_word SW_OK) = [0x90, 0x00]"
  by (simp add: sw_bytes_def status_word_def SW_OK_def)

lemma ok_keeps: "SW_OK AND 0xF000 = (0x9000 :: u16)"
  by (simp add: SW_OK_def)

lemma command_get_public_key:
  "app_main_command C INS_GET_PUBLIC_KEY p1 p2 buffer len rx s
    = (case handle_get_public_key C p1 p2 buffer len s of (Inl e, s) \<Rightarrow> (Inl e, s) | (Inr _, s) \<Rightarrow> (Inr False, s))"
  by (simp add: app_main_command_def const_defs bind_c_def return_c_def)

text \<open>Where the handler reads the path from: the data, or, when the command has no data, the
  bytes an earlier command left behind the header.\<close>

definition path_source :: "u8 list \<Rightarrow> u8 \<Rightarrow> app \<Rightarrow> u8 list \<Rightarrow> bool" where
  "path_source data p2 s m \<longleftrightarrow> path_ok m
     \<and> (data \<noteq> [] \<and> m = data \<or> data = [] \<and> p2 AND P2_MORE \<noteq> 0 \<and> m = drop OFFSET_CDATA (G_io_apdu_buffer s))"

lemma path_source_data: "path_ok data \<Longrightarrow> path_source data p2 s data"
  by (auto simp: path_source_def path_ok_def)

lemma path_source_reads:
  assumes "path_source data p2 s m" "length data \<le> 255"
  shows "read_path (drop OFFSET_CDATA (G_io_apdu_buffer (arrived (apdu_bytes ins p1 p2 data) s))) (of_nat (length data))
    = Inr (path_length m, path_words m)"
proof (cases "data = []")
  case True
  with assms(1) show ?thesis
    unfolding arrived_data using path_reads [of m m 0, OF _ refl] by (auto simp: path_source_def OFFSET_CDATA_def)
next
  case False
  with assms have "path_ok data" "m = data" by (auto simp: path_source_def)
  then show ?thesis
    using path_reads [of data "data @ drop (length data + 5) (G_io_apdu_buffer s)" "of_nat (length data)"] assms(2)
    by (simp add: arrived_data path_ok_def unat_of_nat)
qed

lemma gpk_command_runs:
  assumes C: "crypto_ok C" and i: "idle channel s" and d: "path_source data p2 s m" "length data \<le> 255"
    and p: "unat p1 \<le> 1" "unat p2 \<le> 0x80"
    and k: "path_key C (path_words m) (path_length m) (public_key (gpk s)) = Inr (key, pk)"
  defines "s1 \<equiv> arrived (apdu_bytes INS_GET_PUBLIC_KEY p1 p2 data) s"
  shows "dispatching s1" "length pk = 32" "length (W key) = 65"
    and "receive C F channel (Apdu (apdu_bytes INS_GET_PUBLIC_KEY p1 p2 data)) s =
      app_main_end (if p1 \<noteq> P1_CONFIRM then (Inl (Throw SW_OK), pk_silent key pk p2 s1)
        else (Inr False, pk_confirm key pk p2 (last_element (path_length m, path_words m)) s1))"
proof -
  let ?b = "drop OFFSET_CDATA (G_io_apdu_buffer s1)"
  show ds: "dispatching s1" unfolding s1_def by (rule idle_dispatching [OF i]) (use d in simp)
  have g: "gpk_ok (gpk s1)" "unat (main_tx s1) + 129 \<le> length (G_io_apdu_buffer s1)" "21 \<le> length ?b"
    using ds by (simp_all add: dispatching_def base_ok_def IO_APDU_BUFFER_SIZE_def OFFSET_CDATA_def)
  have r: "read_path ?b (of_nat (length data)) = Inr (path_length m, path_words m)"
    unfolding s1_def by (rule path_source_reads [OF d])
  have "gpk s1 = gpk s" by (simp add: s1_def)
  then have c: "command_key C p1 p2 ?b (of_nat (length data)) (public_key (gpk s1))
      = Inr ((path_length m, path_words m), key, pk)"
    by (simp add: command_key_def check_p1p2_ok [OF p] r k)
  note run = handle_get_public_key_run [OF C g, of p1 p2 "of_nat (length data)"]
  then show "length pk = 32" "length (W key) = 65" by (simp_all add: c)
  have h: "handle_get_public_key C p1 p2 ?b (of_nat (length data)) s1 =
      (if p1 \<noteq> P1_CONFIRM then (Inl (Throw SW_OK), pk_silent key pk p2 s1)
       else (Inr (), pk_confirm key pk p2 (last_element (path_length m, path_words m)) s1))"
    using run by (simp only: c sum.case prod.case)
  have ne: "data \<noteq> [] \<or> p2 AND P2_MORE \<noteq> 0" using d(1) by (auto simp: path_source_def)
  show "receive C F channel (Apdu (apdu_bytes INS_GET_PUBLIC_KEY p1 p2 data)) s =
      app_main_end (if p1 \<noteq> P1_CONFIRM then (Inl (Throw SW_OK), pk_silent key pk p2 s1)
        else (Inr False, pk_confirm key pk p2 (last_element (path_length m, path_words m)) s1))"
    using receive_well_formed [OF i d(2) ne, of C F INS_GET_PUBLIC_KEY p1]
    unfolding s1_def [symmetric] command_get_public_key h
    by (cases "p1 \<noteq> P1_CONFIRM") (simp_all add: bind_c_def return_c_def)
qed

lemma silent_key_run:
  assumes "crypto_ok C" and "idle channel s" and "path_source data p2 s m" "length data \<le> 255" and "unat p2 \<le> 0x80"
    and "path_key C (path_words m) (path_length m) (public_key (gpk s)) = Inr (key, pk)"
  shows "\<exists>s'. app_run C F (Receiving channel, s) [Apdu (apdu_bytes INS_GET_PUBLIC_KEY P1_SILENT p2 data)] (Receiving 0, s')
    \<and> idle 0 s' \<and> sent s' = sent s @ [encoded p2 pk @ [0, 0x90, 0x00]]
    \<and> gpk s' = zero_gpk_context \<and> sgn s' = sgn s \<and> ux s' = ux s"
proof -
  let ?s1 = "arrived (apdu_bytes INS_GET_PUBLIC_KEY P1_SILENT p2 data) s"
  let ?s2 = "pk_silent key pk p2 ?s1"
  have p1: "unat P1_SILENT \<le> 1" "P1_SILENT \<noteq> P1_CONFIRM" by (simp_all add: const_defs)
  note run = gpk_command_runs [OF assms(1-4) p1(1) assms(5,6)]
  have b: "base_ok ?s1" "screen_ok ?s1" "\<not> approving ?s1" "main_tx ?s1 = 0" "main_flags ?s1 = 0"
    using run(1) by (simp_all add: dispatching_def)
  note ok = pk_silent_ok [OF b(1-4) run(2), of key p2]
  have "app_run C F (Receiving channel, s) [Apdu (apdu_bytes INS_GET_PUBLIC_KEY P1_SILENT p2 data)]
      (Receiving 0, after_reply SW_OK ?s2) \<and> idle 0 (after_reply SW_OK ?s2)"
    using run(4) p1(2) ok b by (intro reply_run) (simp_all add: const_defs)
  moreover have "status_reply SW_OK ?s2 = encoded p2 pk @ [0, 0x90, 0x00]"
    using encoded_bound [of pk p2] run(2) b(4) unat_of_nat_small(2) [of "length (encoded p2 pk)"]
    by (simp add: status_reply_def sw_bytes_ok pk_silent_def pk_exported_def Let_def)
  ultimately show ?thesis
    by (intro exI [of _ "after_reply SW_OK ?s2"]) (simp add: ok_keeps pk_silent_def pk_exported_def Let_def)
qed

section \<open>Asking the user\<close>

definition asked :: "app \<Rightarrow> app" where
  "asked s = s\<lparr>main_rx := 0, main_tx := 0, apdu_length := 0\<rparr>"

lemma ask_run:
  assumes r: "receive C F channel ev s0 = app_main_end (Inr False, s)"
    and s: "config_inv (Loop_Head, s)" "approving s"
  shows "app_run C F (Receiving channel, s0) [ev] (Receiving IO_ASYNCH_REPLY, asked s)"
    and "config_inv (Receiving IO_ASYNCH_REPLY, asked s)"
proof -
  have f: "main_flags s = IO_ASYNCH_REPLY" "main_tx s = 0" using s by auto
  have a: "(CHANNEL_APDU OR IO_ASYNCH_REPLY) AND IO_ASYNCH_REPLY \<noteq> 0" "CHANNEL_APDU OR IO_ASYNCH_REPLY = IO_ASYNCH_REPLY"
    by (simp_all add: const_defs)
  have l: "loop_head C s = (Receiving IO_ASYNCH_REPLY, asked s)"
    using io_exchange_tx_asynch [OF a(1)] by (simp add: loop_head_def Let_def f a(2) asked_def)
  have "receive C F channel ev s0 = (Loop_Head, s)" by (simp add: r app_main_end_def)
  then show "app_run C F (Receiving channel, s0) [ev] (Receiving IO_ASYNCH_REPLY, asked s)"
    by (rule app_run_event) (rule app_run_loop [OF l], rule app_run.none)
  show "config_inv (Receiving IO_ASYNCH_REPLY, asked s)" using loop_head_inv [OF s(1), of C] unfolding l .
qed

text \<open>A button pressed and released again, from the state in which a screen is displayed.\<close>

definition press :: "u32 \<Rightarrow> event list" where
  "press b = [Button_Report b, Button_Report 0]"

lemma press_masks:
  assumes "G_ux_os s = io_seproxyhal_init_button" "b = BUTTON_LEFT \<or> b = BUTTON_RIGHT"
  defines "s1 \<equiv> s\<lparr>G_ux_os := fst (io_seproxyhal_button_push b (G_ux_os s))\<rparr>"
  shows "reported_mask b s = b" "reported_mask 0 s1 = (BUTTON_EVT_RELEASED OR b)"
    "fst (io_seproxyhal_button_push 0 (G_ux_os s1)) = io_seproxyhal_init_button"
  using push_first [of b] push_release [of b 0] assms(1,2)
  by (auto simp: reported_mask_def s1_def const_defs)

lemma press_run:
  assumes inv: "config_inv (Receiving channel, s)" "approving s"
    and init: "G_ux_os s = io_seproxyhal_init_button" and b: "b = BUTTON_LEFT \<or> b = BUTTON_RIGHT"
    and h: "\<exists>s'. button_push_handler (ux s) (BUTTON_EVT_RELEASED OR b) s = (Inr None, s')
      \<and> waiting channel s' \<and> Q s'"
  shows "\<exists>s'. app_run C F (Receiving channel, s) (press b) (Receiving channel, s') \<and> waiting channel s' \<and> Q s'"
proof -
  let ?s1 = "s\<lparr>G_ux_os := fst (io_seproxyhal_button_push b (G_ux_os s))\<rparr>"
  note m = press_masks [OF init b]
  have w1: "waiting channel ?s1" using inv(1) by (intro waiting_buttons) (simp add: waiting_def)
  have nn: "ux s \<noteq> No_Screen" using inv(2) by (auto simp: approving_def)
  have nb: "b \<noteq> (BUTTON_EVT_RELEASED OR BUTTON_LEFT)" "b \<noteq> (BUTTON_EVT_RELEASED OR BUTTON_RIGHT)"
    using b by (auto simp: const_defs)
  have "button_push_handler (ux s) (reported_mask b s) ?s1 = (Inr None, ?s1)"
    using approve_other [OF nb, of ?s1] inv(2) m(1) by (auto simp: approving_def)
  then have r1: "receive C F channel (Button_Report b) s = (Receiving channel, ?s1)"
    by (rule receive_button [OF inv(1) nn _ w1 [unfolded waiting_def]])
  have again: "?s1\<lparr>G_ux_os := fst (io_seproxyhal_button_push 0 (G_ux_os ?s1))\<rparr> = s" using m(3) init by simp
  obtain s' where s': "button_push_handler (ux s) (BUTTON_EVT_RELEASED OR b) s = (Inr None, s')" "waiting channel s'" "Q s'"
    using h by blast
  have i1: "config_inv (Receiving channel, ?s1)" using w1 by (simp only: waiting_def)
  have r2: "receive C F channel (Button_Report 0) ?s1 = (Receiving channel, s')"
    by (rule receive_button [OF i1]) (use nn again m(2) s' in \<open>simp_all add: waiting_def\<close>)
  have "app_run C F (Receiving channel, s) (press b) (Receiving channel, s')"
    unfolding press_def by (rule app_run_event [OF r1], rule app_run_event [OF r2], rule app_run.none)
  with s' show ?thesis by blast
qed

text \<open>The question the user is asked: the output it is about, the line on the screen, the text.\<close>

definition asks_key :: "u8 \<Rightarrow> u8 list \<Rightarrow> u32 \<Rightarrow> app \<Rightarrow> bool" where
  "asks_key p2 pk n s \<longleftrightarrow> ux s = Public_Key_Approve \<and> pending_output s = encoded p2 pk @ [0]
     \<and> take (length (key_line n) + 1) (approve_l2 (gpk_ui (gpk s))) = key_line n @ [0]
     \<and> take (unat (ui_msg_length (gpk_ui (gpk s)))) (ui_msg_body (gpk_ui (gpk s))) = base58_text pk"

lemma length_key_line: "length (key_line n) \<le> 16"
  using length_decimal [of n] by (simp add: key_line_def chars_2_bytes_def)

lemma pk_confirm_asks:
  assumes s: "base_ok s" "main_tx s = 0" and pk: "length pk = 32"
  shows "asks_key p2 pk n (pk_confirm key pk p2 n s)"
proof -
  have l: "length (approve_l2 (gpk_ui (gpk s))) = 19"
    using s(1) by (simp add: base_ok_def gpk_ok_def ui_sized_def DISPLAY_SIZE_def)
  have e: "length (encoded p2 pk) \<le> 128" "length (base58_text pk) \<le> 128"
    using encoded_bound [of pk p2] length_base58_text [of pk] pk by simp_all
  show ?thesis
    using l length_key_line [of n] unat_of_nat_small(1) [OF e(1)] unat_of_nat_small(1) [OF e(2)] s(2)
    by (simp add: asks_key_def pk_confirm_def pk_exported_def Let_def pending_output_def shows_text_def)
qed

lemma asks_key_asked: "asks_key p2 pk n (asked s) = asks_key p2 pk n s"
  by (simp add: asks_key_def asked_def pending_output_def)

section \<open>The properties\<close>

text \<open>The examples: the path 0' on a device that has just been started.\<close>

definition sample_path :: "u8 list" where
  "sample_path = [1, 0x80, 0, 0, 0]"

definition sample_key :: "u8 list" where
  "sample_key = replicate 31 7 @ [0x80]"

lemma sample_path_words: "path_words sample_path = [0x80000000, 0, 0, 0, 0]" "path_length sample_path = 1"
  by (simp_all add: path_words_def path_length_def sample_path_def) (simp add: numeral_eq_Suc)

lemma sample_path_key:
  "\<exists>key. path_key sample_crypto (path_words sample_path) (path_length sample_path) zero_public_key = Inr (key, sample_key)"
proof -
  have "case path_key sample_crypto [0x80000000, 0, 0, 0, 0] 1 zero_public_key of
      Inl _ \<Rightarrow> False | Inr (key, pk) \<Rightarrow> pk = sample_key"
    by code_simp
  then show ?thesis unfolding sample_path_words by (auto split: sum.splits)
qed

lemma sample_state:
  "\<exists>s key. app_run sample_crypto sample_firmware (Main_Head, sample_app) [] (Receiving 0, s) \<and> idle 0 s
    \<and> sgn s = zero_sign_context \<and> path_key sample_crypto (path_words sample_path) (path_length sample_path)
      (public_key (gpk s)) = Inr (key, sample_key)"
  using start_run [OF sample_app_base, of sample_crypto sample_firmware] sample_path_key
  by (auto simp: idle_def zero_gpk_context_def)

text \<open>
Property C3: GET PUBLIC KEY without confirmation, end to end: an idle device that receives
the command with a path of one to five elements sends one reply, the key in the requested
encoding, a null byte and the status 9000; the screen stays, the context is cleared and the
device is idle again.
\<close>

theorem get_public_key_silent:
  assumes "crypto_ok C" and "idle channel s" and "path_ok data" "length data \<le> 255" and "unat p2 \<le> 0x80"
    and "path_key C (path_words data) (path_length data) (public_key (gpk s)) = Inr (key, pk)"
  shows "\<exists>s'. app_run C F (Receiving channel, s) [Apdu (apdu_bytes INS_GET_PUBLIC_KEY P1_SILENT p2 data)] (Receiving 0, s')
    \<and> idle 0 s' \<and> sent s' = sent s @ [encoded p2 pk @ [0, 0x90, 0x00]]
    \<and> gpk s' = zero_gpk_context \<and> sgn s' = sgn s \<and> ux s' = ux s"
  by (rule silent_key_run [OF assms(1,2) path_source_data [OF assms(3)] assms(4-6)])

theorem get_public_key_silent_witness:
  "\<exists>s s'. app_run sample_crypto sample_firmware (Receiving 0, s)
       [Apdu [0xE0, 0x04, 0x01, 0x01, 5, 1, 0x80, 0, 0, 0]] (Receiving 0, s')
     \<and> sent s' = sent s @ [encoded P2_HEX sample_key @ [0, 0x90, 0x00]]"
proof -
  obtain s key where s: "idle 0 s" "path_key sample_crypto (path_words sample_path) (path_length sample_path)
      (public_key (gpk s)) = Inr (key, sample_key)"
    using sample_state by blast
  have "path_ok sample_path" "length sample_path \<le> 255" "unat P2_HEX \<le> 0x80"
    by (simp_all add: path_ok_def sample_path_def const_defs)
  from get_public_key_silent [OF sample_crypto_ok s(1) this s(2), of sample_firmware] show ?thesis
    by (auto simp: apdu_bytes_def sample_path_def const_defs)
qed

text \<open>
Property C10: GET PUBLIC KEY without data, which \<open>app_main\<close> lets through when the bit
\<open>P2_MORE\<close> is set, derives and sends the key of whatever path an earlier command left in the
buffer: \<open>io_read_bip32\<close> compares with \<open>buffer_length - 1\<close>, which is huge for the length zero.
\<close>

theorem get_public_key_stale_path:
  assumes "crypto_ok C" and "idle channel s" and "path_ok (drop OFFSET_CDATA (G_io_apdu_buffer s))"
    and "path_key C (path_words (drop OFFSET_CDATA (G_io_apdu_buffer s)))
      (path_length (drop OFFSET_CDATA (G_io_apdu_buffer s))) (public_key (gpk s)) = Inr (key, pk)"
  shows "\<exists>s'. app_run C F (Receiving channel, s) [Apdu (apdu_bytes INS_GET_PUBLIC_KEY P1_SILENT P2_MORE [])] (Receiving 0, s')
    \<and> sent s' = sent s @ [pk @ [0, 0x90, 0x00]]"
proof -
  have "path_source [] P2_MORE s (drop OFFSET_CDATA (G_io_apdu_buffer s))" "unat P2_MORE \<le> 0x80"
    using assms(3) by (simp_all add: path_source_def P2_MORE_def)
  moreover have "encoded P2_MORE pk = pk" by (simp add: encoded_def const_defs)
  ultimately show ?thesis using silent_key_run [OF assms(1,2) _ _ _ assms(4), of "[]" P2_MORE F] by auto
qed

text \<open>A transmission that has not been completed leaves its bytes in the buffer.\<close>

lemma part_run:
  assumes i: "idle channel s" and d: "length data \<le> 337"
  defines "s1 \<equiv> s\<lparr>G_io_apdu_buffer := data @ drop (length data) (G_io_apdu_buffer s)\<rparr>"
  shows "app_run C F (Receiving channel, s) [Apdu_Part data] (Receiving channel, s1) \<and> idle channel s1"
proof -
  have l: "length (G_io_apdu_buffer s) = 337" and m: "apdu_media s = IO_APDU_MEDIA_NONE"
    using i by (simp_all add: idle_def base_ok_def IO_APDU_BUFFER_SIZE_def)
  have "io_seproxyhal_handle_event (Apdu_Part data) s = (Inr None, s1)"
    using l m d
    by (simp add: io_seproxyhal_handle_event_def bind_c_def modify_c_def return_c_def usb_receive_def s1_def)
  moreover have i1: "idle channel s1"
    using i l d by (auto simp: idle_def s1_def base_ok_def screen_ok_def approving_def IO_APDU_BUFFER_SIZE_def)
  ultimately have "receive C F channel (Apdu_Part data) s = (Receiving channel, s1)"
    using receive_waits [of "Apdu_Part data" s s1 channel C F] unfolding idle_def by blast
  from app_run_event [OF this app_run.none] i1 show ?thesis by blast
qed

theorem get_public_key_stale_path_witness:
  "\<exists>s s'. app_run sample_crypto sample_firmware (Receiving 0, s)
      [Apdu_Part [0xE0, 0x08, 0, 0x80, 20, 1, 0x80, 0, 0, 0], Apdu [0xE0, 0x04, 0x01, 0x80, 0]] (Receiving 0, s')
    \<and> sent s' = sent s @ [sample_key @ [0, 0x90, 0x00]]"
proof -
  obtain s key where s: "idle 0 s" "path_key sample_crypto (path_words sample_path) (path_length sample_path)
      (public_key (gpk s)) = Inr (key, sample_key)"
    using sample_state by blast
  let ?d = "[0xE0, 0x08, 0, 0x80, 20, 1, 0x80, 0, 0, 0] :: u8 list"
  let ?s = "s\<lparr>G_io_apdu_buffer := ?d @ drop (length ?d) (G_io_apdu_buffer s)\<rparr>"
  have r: "app_run sample_crypto sample_firmware (Receiving 0, s) [Apdu_Part ?d] (Receiving 0, ?s)" "idle 0 ?s"
    using part_run [OF s(1), of ?d sample_crypto sample_firmware] by simp_all
  obtain stale where st: "drop OFFSET_CDATA (G_io_apdu_buffer ?s) = sample_path @ stale"
    by (simp add: OFFSET_CDATA_def sample_path_def)
  have p: "path_ok (sample_path @ stale)" "path_words (sample_path @ stale) = path_words sample_path"
    "path_length (sample_path @ stale) = path_length sample_path"
    by (simp_all add: path_ok_def sample_path_def path_words_def path_length_def)
  have "path_key sample_crypto (path_words (sample_path @ stale)) (path_length (sample_path @ stale)) (public_key (gpk ?s))
      = Inr (key, sample_key)" using s(2) p by simp
  from get_public_key_stale_path [OF sample_crypto_ok r(2), unfolded st, OF p(1) this, of sample_firmware] obtain s' where
    "app_run sample_crypto sample_firmware (Receiving 0, ?s) [Apdu (apdu_bytes INS_GET_PUBLIC_KEY P1_SILENT P2_MORE [])]
      (Receiving 0, s')" "sent s' = sent s @ [sample_key @ [0, 0x90, 0x00]]" by auto
  with app_run_trans [OF r(1) this(1)] show ?thesis
    by (intro exI [of _ s] exI [of _ s']) (simp add: apdu_bytes_def const_defs)
qed

lemma key_question:
  assumes "crypto_ok C" and "idle channel s" and "path_ok data" "length data \<le> 255" and "unat p2 \<le> 0x80"
    and "path_key C (path_words data) (path_length data) (public_key (gpk s)) = Inr (key, pk)"
  shows "\<exists>s1. app_run C F (Receiving channel, s) [Apdu (apdu_bytes INS_GET_PUBLIC_KEY P1_CONFIRM p2 data)]
        (Receiving IO_ASYNCH_REPLY, s1)
    \<and> config_inv (Receiving IO_ASYNCH_REPLY, s1) \<and> G_ux_os s1 = io_seproxyhal_init_button
    \<and> sent s1 = sent s \<and> asks_key p2 pk (last_element (path_length data, path_words data)) s1"
proof -
  let ?n = "last_element (path_length data, path_words data)"
  let ?a = "arrived (apdu_bytes INS_GET_PUBLIC_KEY P1_CONFIRM p2 data) s"
  let ?c = "pk_confirm key pk p2 ?n ?a"
  have p1: "unat P1_CONFIRM \<le> 1" by (simp add: const_defs)
  note run = gpk_command_runs [OF assms(1,2) path_source_data [OF assms(3)] assms(4) p1 assms(5,6)]
  have b: "base_ok ?a" "main_tx ?a = 0" "main_flags ?a = 0" "apdu_media ?a = IO_APDU_MEDIA_USB_HID"
    using run(1) by (simp_all add: dispatching_def)
  note inv = pk_confirm_ok [OF b(1) run(3) b(2) run(2) b(3,4), of p2 ?n]
  have ap: "approving ?c" and g: "G_ux_os ?c = io_seproxyhal_init_button" "sent ?c = sent s"
    by (simp_all add: approving_def pk_confirm_def pk_exported_def Let_def)
  have r: "receive C F channel (Apdu (apdu_bytes INS_GET_PUBLIC_KEY P1_CONFIRM p2 data)) s = app_main_end (Inr False, ?c)"
    using run(4) by simp
  note ask = ask_run [OF r inv ap]
  have "asks_key p2 pk ?n (asked ?c)"
    unfolding asks_key_asked by (rule pk_confirm_asks [OF b(1,2) run(2)])
  moreover have "G_ux_os (asked ?c) = io_seproxyhal_init_button" "sent (asked ?c) = sent s"
    using g by (simp_all add: asked_def)
  ultimately show ?thesis using ask by blast
qed

text \<open>
Property C4: GET PUBLIC KEY with confirmation, end to end: nothing is sent, the approval
screen shows the number of the key, and the output that waits is the key in the requested
encoding.  When the user then presses and releases the right button, the reply is this
output with the status 9000, and the viewer opens on the key's Base58 text; with the left
button the reply is the status 6985 alone, and the main menu comes back.
\<close>

theorem get_public_key_confirm:
  assumes "crypto_ok C" and "idle channel s" and "path_ok data" "length data \<le> 255" and "unat p2 \<le> 0x80"
    and "path_key C (path_words data) (path_length data) (public_key (gpk s)) = Inr (key, pk)"
  shows "\<exists>s1. app_run C F (Receiving channel, s) [Apdu (apdu_bytes INS_GET_PUBLIC_KEY P1_CONFIRM p2 data)]
        (Receiving IO_ASYNCH_REPLY, s1)
    \<and> sent s1 = sent s \<and> asks_key p2 pk (last_element (path_length data, path_words data)) s1
    \<and> (\<exists>s2. app_run C F (Receiving IO_ASYNCH_REPLY, s1) (press BUTTON_RIGHT) (Receiving IO_ASYNCH_REPLY, s2)
        \<and> sent s2 = sent s @ [encoded p2 pk @ [0, 0x90, 0x00]] \<and> ux s2 = Public_Key_Compare
        \<and> viewing (gpk_ui (gpk s2))
        \<and> take (unat (ui_msg_length (gpk_ui (gpk s2)))) (ui_msg_body (gpk_ui (gpk s2))) = base58_text pk)
    \<and> (\<exists>s2. app_run C F (Receiving IO_ASYNCH_REPLY, s1) (press BUTTON_LEFT) (Receiving IO_ASYNCH_REPLY, s2)
        \<and> sent s2 = sent s @ [[0x69, 0x85]] \<and> ux s2 = Menu_Screen \<and> gpk s2 = zero_gpk_context)"
proof -
  let ?n = "last_element (path_length data, path_words data)"
  obtain s1 where q: "app_run C F (Receiving channel, s) [Apdu (apdu_bytes INS_GET_PUBLIC_KEY P1_CONFIRM p2 data)]
        (Receiving IO_ASYNCH_REPLY, s1)"
    and inv: "config_inv (Receiving IO_ASYNCH_REPLY, s1)" and g: "G_ux_os s1 = io_seproxyhal_init_button" "sent s1 = sent s"
    and k: "asks_key p2 pk ?n s1"
    using key_question [OF assms, of F] by blast
  have s: "approving s1" "ux s1 = Public_Key_Approve"
    using k by (simp_all add: approving_def asks_key_def)
  have w: "waiting IO_ASYNCH_REPLY s1" using inv by (simp only: waiting_def)
  have out: "take (unat (gpk_output_length (gpk s1)) + 1) (G_io_apdu_buffer s1) = encoded p2 pk @ [0]"
    using k s(2) by (simp add: asks_key_def pending_output_def)
  have shown: "take (unat (ui_msg_length (gpk_ui (gpk s1)))) (ui_msg_body (gpk_ui (gpk s1))) = base58_text pk"
    using k by (simp add: asks_key_def)
  have sw: "sw_bytes SW_OK = [0x90, 0x00]" "sw_bytes SW_USER_REJECTED = [0x69, 0x85]"
    by (simp_all add: sw_bytes_def const_defs)
  let ?R = "\<lambda>s2. sent s2 = sent s @ [encoded p2 pk @ [0, 0x90, 0x00]] \<and> ux s2 = Public_Key_Compare
      \<and> viewing (gpk_ui (gpk s2))
      \<and> take (unat (ui_msg_length (gpk_ui (gpk s2)))) (ui_msg_body (gpk_ui (gpk s2))) = base58_text pk"
  have right: "\<exists>s2. button_push_handler (ux s1) (BUTTON_EVT_RELEASED OR BUTTON_RIGHT) s1 = (Inr None, s2)
      \<and> waiting IO_ASYNCH_REPLY s2 \<and> ?R s2"
    using pk_accept [OF w s(2)] unfolding out g(2) s(2) sw by (metis append.assoc append_Cons append_Nil shown)
  have left: "\<exists>s2. button_push_handler (ux s1) (BUTTON_EVT_RELEASED OR BUTTON_LEFT) s1 = (Inr None, s2)
      \<and> waiting IO_ASYNCH_REPLY s2
      \<and> sent s2 = sent s @ [[0x69, 0x85]] \<and> ux s2 = Menu_Screen \<and> gpk s2 = zero_gpk_context"
    using pk_reject [OF w s(2)] unfolding g(2) s(2) sw by blast
  show ?thesis
    using q g(2) k press_run [OF inv s(1) g(1) _ right, of C F] press_run [OF inv s(1) g(1) _ left, of C F]
    by blast
qed

theorem get_public_key_confirm_witness:
  "\<exists>s s1 s2. app_run sample_crypto sample_firmware (Receiving 0, s)
       [Apdu [0xE0, 0x04, 0x00, 0x02, 5, 1, 0x80, 0, 0, 0]] (Receiving IO_ASYNCH_REPLY, s1)
     \<and> app_run sample_crypto sample_firmware (Receiving IO_ASYNCH_REPLY, s1) (press BUTTON_RIGHT)
         (Receiving IO_ASYNCH_REPLY, s2)
     \<and> sent s1 = sent s \<and> sent s2 = sent s @ [encoded P2_BASE58 sample_key @ [0, 0x90, 0x00]]"
proof -
  obtain s key where s: "idle 0 s" "path_key sample_crypto (path_words sample_path) (path_length sample_path)
      (public_key (gpk s)) = Inr (key, sample_key)"
    using sample_state by blast
  have "path_ok sample_path" "length sample_path \<le> 255" "unat P2_BASE58 \<le> 0x80"
    by (simp_all add: path_ok_def sample_path_def const_defs)
  from get_public_key_confirm [OF sample_crypto_ok s(1) this s(2), of sample_firmware]
  have "apdu_bytes INS_GET_PUBLIC_KEY P1_CONFIRM P2_BASE58 sample_path = [0xE0, 0x04, 0x00, 0x02, 5, 1, 0x80, 0, 0, 0]
    \<longrightarrow> ?thesis" by metis
  then show ?thesis by (simp add: apdu_bytes_def sample_path_def const_defs)
qed

end
