(* ===== verification/Signing.thy ===== *)
theory Signing
  imports Commands
begin

text \<open>
  SIGN MESSAGE end to end: what is signed, in terms of the message that the chunks make up,
  and the replies.
\<close>

section \<open>What is signed\<close>

text \<open>The bytes of a message behind its path, the bytes to sign, and the signature.\<close>

definition message_rest :: "u8 list \<Rightarrow> u8 list" where
  "message_rest m = drop (1 + 4 * unat (hd m)) m"

definition bytes_to_sign :: "'h crypto \<Rightarrow> bool \<Rightarrow> u8 list \<Rightarrow> exn + u8 list" where
  "bytes_to_sign C hash body =
     (if hash then
        bindE (iost_hash_bytes C body (of_nat (length body)) (replicate ED25519_KEY_SIZE 0)) (\<lambda>(k, digest).
        Inr (take (unat k) digest))
      else Inr body)"

definition signature_of :: "'h crypto \<Rightarrow> bool \<Rightarrow> u8 list \<Rightarrow> exn + u8 list \<times> u8 list" where
  "signature_of C hash m =
     bindE (bytes_to_sign C hash (message_rest m)) (\<lambda>b.
     bindE (iost_sign C (path_words m) (path_length m) b (of_nat (length b)) (replicate MAX_MSG_SIZE 0)) (\<lambda>(k, sig, _).
     Inr (b, take (unat k) sig)))"

lemma iost_sign_prefix:
  assumes "unat len \<le> length b" "take (unat len) b = take (unat len) b'" "unat len \<le> length b'"
  shows "iost_sign C path n b len sig = iost_sign C path n b' len sig"
proof -
  have "buf_read b 0 (unat len) = buf_read b' 0 (unat len)"
    using assms by (simp add: buf_read_def)
  then show ?thesis unfolding iost_sign_def by (subst \<open>buf_read b 0 (unat len) = _\<close>) (rule refl)
qed

lemma iost_hash_bytes_prefix:
  assumes C: "crypto_ok C" and "unat len \<le> length b" "32 \<le> length out"
  shows "iost_hash_bytes C b len out =
    (case iost_hash_bytes C (take (unat len) b) len (replicate 32 0) of
       Inl e \<Rightarrow> Inl e | Inr (k, digest) \<Rightarrow> Inr (k, take (unat k) digest @ drop (unat k) out))"
proof -
  have s: "safe (\<lambda>(n, dig). n = 32 \<and> length dig = 32) (hash_last C h)" for h
    using C unfolding crypto_ok_def by blast
  show ?thesis
    using assms(2-)
  proof (cases "sha3_init C 256")
    case (Inr v)
    obtain r h where v: "v = (r, h)" by (cases v)
    show ?thesis
    proof (cases "hash_update C h (take (unat len) b)")
      case u: (Inr w)
      obtain r' h' where w: "w = (r', h')" by (cases w)
      show ?thesis
        using s [of h'] assms(2-) Inr v u w
        by (cases "hash_last C h'") (auto simp: iost_hash_bytes_def buf_read_def buf_write_def Let_def ED25519_KEY_SIZE_def)
    qed (use assms(2-) Inr v in \<open>simp add: iost_hash_bytes_def buf_read_def Let_def\<close>)
  qed (simp add: iost_hash_bytes_def Let_def)
qed

lemma hash_step:
  assumes C: "crypto_ok C" and b: "length body \<le> 512" "take (length body) buffer = body" "32 \<le> length buffer"
    "length body \<le> length buffer"
  shows "case bytes_to_sign C hash body of
      Inl e \<Rightarrow> (if hash then iost_hash_bytes C buffer (of_nat (length body)) buffer
         else Inr (of_nat (length body), buffer)) = Inl e
    | Inr t \<Rightarrow> \<exists>k buffer'. (if hash then iost_hash_bytes C buffer (of_nat (length body)) buffer
         else Inr (of_nat (length body), buffer)) = Inr (k, buffer')
         \<and> unat k = length t \<and> take (length t) buffer' = t \<and> length buffer' = length buffer"
proof -
  have u: "unat (of_nat (length body) :: u16) = length body" using b(1) by (simp add: unat_of_nat)
  show ?thesis
  proof (cases hash)
    case False
    then show ?thesis using b by (simp add: bytes_to_sign_def u)
  next
    case True
    have h: "iost_hash_bytes C buffer (of_nat (length body)) buffer =
      (case iost_hash_bytes C body (of_nat (length body)) (replicate 32 0) of
        Inl e \<Rightarrow> Inl e | Inr (k, digest) \<Rightarrow> Inr (k, take (unat k) digest @ drop (unat k) buffer))"
      using iost_hash_bytes_prefix [OF C, of "of_nat (length body)" buffer buffer] b by (simp add: u)
    have s: "safe (\<lambda>(k, out). (k = 0 \<or> k = 32) \<and> length out = 32)
        (iost_hash_bytes C body (of_nat (length body)) (replicate 32 0))"
      by (rule safe_weaken [OF iost_hash_bytes_safe [OF C]]) (auto simp: u)
    show ?thesis
    proof (cases "iost_hash_bytes C body (of_nat (length body)) (replicate 32 0)")
      case (Inl e)
      then show ?thesis using True by (simp add: h bytes_to_sign_def ED25519_KEY_SIZE_def)
    next
      case (Inr v)
      then obtain k out where v: "v = (k, out)" by (cases v)
      with s Inr have k: "unat k \<le> 32" "length out = 32" by auto
      then show ?thesis using True Inr v b(3)
        by (simp add: h bytes_to_sign_def ED25519_KEY_SIZE_def)
    qed
  qed
qed

text \<open>
  The signature the handler computes, and the path it reads from the context a second time,
  when the length of the context is that of the signed bytes.
\<close>

lemma signed_spec:
  assumes C: "crypto_ok C" and ok: "sgn_ok c" and m: "path_ok (message c)"
  defines "m \<equiv> message c"
  shows "case signature_of C hash m of
      Inl e \<Rightarrow> signed C hash c = Inl e
    | Inr (b, t) \<Rightarrow> if b \<noteq> [] \<and> length b < 1 + 4 * unat (hd m) then signed C hash c = THROW SW_WRONG_LENGTH
        else \<exists>c' sig. signed C hash c = Inr (c', sig, path_length m, path_words m) \<and> signature_bytes c' sig = t"
proof -
  let ?n = "unat (hd m)" and ?len = "msg_length c" and ?body = "msg_body c"
  let ?off = "1 + path_length m * 4" and ?sig = "replicate MAX_MSG_SIZE 0"
  have l: "length ?body = 512" "unat ?len \<le> 512" "length m = unat ?len" "take (unat ?len) ?body = m"
    using ok length_message [OF ok] by (simp_all add: sgn_ok_def MAX_MSG_SIZE_def m_def message_def)
  have n: "1 \<le> ?n" "?n \<le> 5" "1 + 4 * ?n \<le> unat ?len" using m l by (simp_all add: path_ok_def m_def)
  have nz: "?len \<noteq> 0" using n(3) by auto
  have "m \<noteq> []" using m by (simp add: path_ok_def m_def)
  have hd: "take (1 + 4 * ?n) ?body = take (1 + 4 * ?n) m"
    using n(3) l(4) by (metis min.absorb2 min.commute take_take)
  have r: "read_path ?body ?len = Inr (path_length m, path_words m)"
    using path_reads [of m ?body ?len] m hd n(3) by (simp add: m_def)
  have off: "unat ?off = 1 + 4 * ?n"
    using n(2) unat_of_nat_small [of ?n] by (simp add: path_length_def unat_word_ariths)
  have rest: "unat (?len - ?off) = length (message_rest m)"
    using n(3) l(3) by (simp add: message_rest_def unat_sub word_le_nat_alt off)
  have len: "?len - ?off = of_nat (length (message_rest m))" by (simp flip: rest)
  let ?b = "drop (unat ?off) ?body"
  have b: "length (message_rest m) \<le> 512" "take (length (message_rest m)) ?b = message_rest m" "32 \<le> length ?b"
    "length (message_rest m) \<le> length ?b"
    using l n off by (auto simp: message_rest_def take_drop)
  have p: "\<not> (?len = 0 \<or> unat ?len > MAX_MSG_SIZE)" using nz l(2) by (simp add: MAX_MSG_SIZE_def)
  have sg: "message_signature C hash c =
     bindE (if hash then iost_hash_bytes C ?b (of_nat (length (message_rest m))) ?b
       else Inr (of_nat (length (message_rest m)), ?b)) (\<lambda>(len, body).
     bindE (iost_sign C (path_words m) (path_length m) body (ucast len) ?sig) (\<lambda>(k, sig, _).
     Inr (c\<lparr>msg_body := take (unat ?off) ?body @ body, msg_length := len, sgn_output_length := k\<rparr>, sig)))"
    unfolding message_signature_def if_not_P [OF p] r bindE_simps prod.case Let_def len by (rule refl)
  show ?thesis
  proof (cases "bytes_to_sign C hash (message_rest m)")
    case (Inl e)
    with hash_step [OF C b, of hash] show ?thesis by (simp add: signature_of_def signed_def sg)
  next
    case (Inr t)
    with hash_step [OF C b, of hash] obtain k b' where k:
      "(if hash then iost_hash_bytes C ?b (of_nat (length (message_rest m))) ?b
        else Inr (of_nat (length (message_rest m)), ?b)) = Inr (k, b')"
      "unat k = length t" "take (length t) b' = t" "length b' = length ?b"
      by auto
    have tl: "length t \<le> length b'" using k(3) by (metis length_take min.absorb_iff2 min.commute nat_le_linear)
    have kt: "(ucast k :: u8) = of_nat (length t)" by (simp flip: k(2))
    have u8: "unat (of_nat (length t) :: u8) \<le> length t" by (simp add: unat_of_nat)
    have it: "iost_sign C (path_words m) (path_length m) b' (ucast k) ?sig
        = iost_sign C (path_words m) (path_length m) t (of_nat (length t)) ?sig"
      unfolding kt
    proof (rule iost_sign_prefix)
      show "take (unat (of_nat (length t) :: u8)) b' = take (unat (of_nat (length t) :: u8)) t"
        using u8 k(3) by (metis min.absorb1 take_take)
    qed (use u8 tl in simp_all)
    show ?thesis
    proof (cases "iost_sign C (path_words m) (path_length m) t (of_nat (length t)) ?sig")
      case (Inl e)
      then show ?thesis by (simp add: signature_of_def signed_def sg k(1) it Inr \<open>bytes_to_sign _ _ _ = _\<close>)
    next
      case s: (Inr v)
      obtain j sig x where v: "v = (j, sig, x)" by (cases v) auto
      let ?c' = "c\<lparr>msg_body := take (unat ?off) ?body @ b', msg_length := k, sgn_output_length := j\<rparr>"
      have pre: "take (1 + 4 * ?n) (msg_body ?c') = take (1 + 4 * ?n) m"
        using hd off l n by simp
      have zero: "k = 0 \<longleftrightarrow> t = []" using k(2) by (metis length_0_conv unat_0 unat_eq_zero)
      have "read_path (msg_body ?c') (msg_length ?c') = (if t \<noteq> [] \<and> length t < 1 + 4 * ?n
          then THROW SW_WRONG_LENGTH else Inr (path_length m, path_words m))"
        using path_reads [of m "msg_body ?c'" k] m pre zero k(2) by (auto simp: m_def)
      then show ?thesis
        by (simp add: signature_of_def signed_def sg k(1) it Inr s v signature_bytes_def)
    qed
  qed
qed

section \<open>The command in the application\<close>

lemma command_sign_message:
  "app_main_command C INS_SIGN_MESSAGE p1 p2 buffer len rx s
    = (case handle_sign_message C p1 p2 buffer len s of (Inl e, s) \<Rightarrow> (Inl e, s) | (Inr _, s) \<Rightarrow> (Inr False, s))"
  by (simp add: app_main_command_def const_defs bind_c_def return_c_def)

lemma receive_sign_message:
  fixes p1 p2 :: u8 and data :: "u8 list"
  assumes i: "idle channel s" and d: "length data \<le> 255" "data \<noteq> [] \<or> p2 AND P2_MORE \<noteq> 0"
  defines "s1 \<equiv> arrived (apdu_bytes INS_SIGN_MESSAGE p1 p2 data) s"
  shows "dispatching s1" "unat (of_nat (length data) :: u16) \<le> length (drop OFFSET_CDATA (G_io_apdu_buffer s1))"
    "take (length data) (drop OFFSET_CDATA (G_io_apdu_buffer s1)) = data"
    and "receive C F channel (Apdu (apdu_bytes INS_SIGN_MESSAGE p1 p2 data)) s = app_main_end
      (case handle_sign_message C p1 p2 (drop OFFSET_CDATA (G_io_apdu_buffer s1)) (of_nat (length data)) s1 of
         (Inl e, s) \<Rightarrow> (Inl e, s) | (Inr _, s) \<Rightarrow> (Inr False, s))"
proof -
  show ds: "dispatching s1" unfolding s1_def by (rule idle_dispatching [OF i]) (use d in simp)
  have u: "unat (of_nat (length data) :: u16) = length data" using d(1) by (simp add: unat_of_nat)
  show "take (length data) (drop OFFSET_CDATA (G_io_apdu_buffer s1)) = data"
    by (simp add: s1_def arrived_data)
  have "length (G_io_apdu_buffer s1) = 337"
    using ds by (simp add: dispatching_def base_ok_def IO_APDU_BUFFER_SIZE_def)
  then show "unat (of_nat (length data) :: u16) \<le> length (drop OFFSET_CDATA (G_io_apdu_buffer s1))"
    using d(1) by (simp add: u OFFSET_CDATA_def)
  show "receive C F channel (Apdu (apdu_bytes INS_SIGN_MESSAGE p1 p2 data)) s = app_main_end
      (case handle_sign_message C p1 p2 (drop OFFSET_CDATA (G_io_apdu_buffer s1)) (of_nat (length data)) s1 of
         (Inl e, s) \<Rightarrow> (Inl e, s) | (Inr _, s) \<Rightarrow> (Inr False, s))"
    unfolding receive_well_formed [OF i d] command_sign_message s1_def by (rule refl)
qed

text \<open>An exception of the handler that leaves all but the contexts alone.\<close>

definition refusal :: "u16 \<Rightarrow> app \<Rightarrow> app \<Rightarrow> bool" where
  "refusal e s s' \<longleftrightarrow> idle 0 s' \<and> sent s' = sent s @ [sw_bytes (status_word e)] \<and> ux s' = ux s
     \<and> (if e AND 0xF000 = 0x9000 then gpk s' = gpk s else gpk s' = zero_gpk_context \<and> sgn s' = zero_sign_context)"

lemma refusal_run:
  assumes r: "receive C F channel (Apdu apdu) s = app_main_end (Inl (Throw e), (arrived apdu s)\<lparr>sgn := c\<rparr>)"
    and s: "dispatching (arrived apdu s)" "sgn_ok c" and e: "e \<noteq> EXCEPTION_IO_RESET"
  shows "\<exists>s'. app_run C F (Receiving channel, s) [Apdu apdu] (Receiving 0, s') \<and> refusal e s s'
    \<and> (e AND 0xF000 = 0x9000 \<longrightarrow> sgn s' = c)"
proof -
  let ?s = "(arrived apdu s)\<lparr>sgn := c\<rparr>"
  have b: "base_ok ?s" "screen_ok ?s" "\<not> approving ?s" "apdu_media ?s = IO_APDU_MEDIA_USB_HID" "main_tx ?s = 0"
    "main_flags ?s = 0"
    using s unfolding dispatching_def
    by (auto simp: base_ok_def screen_ok_def approving_def)
  have "unat (main_tx ?s) \<le> 260" using b(5) by simp
  note run = reply_run [OF b(1-4) this b(6) e r]
  have "status_reply e ?s = sw_bytes (status_word e)" using b(5) by (simp add: status_reply_def)
  then show ?thesis
    using run by (intro exI [of _ "after_reply e ?s"]) (simp add: refusal_def)
qed

text \<open>A chunk that is not the last one.\<close>

lemma sign_chunk:
  assumes i: "idle channel s" and d: "data \<noteq> []" "length data \<le> 255" "unat p1 \<le> 1"
  shows "if length (message (sgn s)) + length data \<le> MAX_MSG_SIZE
    then \<exists>s'. app_run C F (Receiving channel, s) [Apdu (apdu_bytes INS_SIGN_MESSAGE p1 P2_MORE data)] (Receiving 0, s')
      \<and> refusal SW_OK s s' \<and> message (sgn s') = message (sgn s) @ data
    else \<exists>s'. app_run C F (Receiving channel, s) [Apdu (apdu_bytes INS_SIGN_MESSAGE p1 P2_MORE data)] (Receiving 0, s')
      \<and> refusal SW_WRONG_LENGTH s s'"
proof -
  let ?s = "arrived (apdu_bytes INS_SIGN_MESSAGE p1 P2_MORE data) s"
  let ?b = "drop OFFSET_CDATA (G_io_apdu_buffer ?s)" and ?l = "of_nat (length data) :: u16"
  have dd: "data \<noteq> [] \<or> P2_MORE AND P2_MORE \<noteq> 0" using d by simp
  note r = receive_sign_message [OF i d(2) dd]
  have u: "unat ?l = length data" using d(2) by (simp add: unat_of_nat)
  have nz: "?l \<noteq> 0" using d(1) u by (metis length_0_conv unat_0)
  have p: "io_check_p1p2 p1 P2_MORE = Inr ()" using d(3) by (intro check_p1p2_ok) (simp_all add: const_defs)
  have ok: "sgn_ok (sgn ?s)" using r(1) by (simp add: dispatching_def base_ok_def)
  have e: "SW_OK \<noteq> EXCEPTION_IO_RESET" "SW_WRONG_LENGTH \<noteq> EXCEPTION_IO_RESET" by (simp_all add: const_defs)
  show ?thesis
  proof (cases "length (message (sgn s)) + length data \<le> MAX_MSG_SIZE")
    case True
    then obtain c where c: "read_message ?b ?l ?s = (Inr (), ?s\<lparr>sgn := c\<rparr>)" "sgn_ok c"
      "message c = message (sgn s) @ data"
      using read_message_run [OF ok r(2)] by (auto simp: u r(3))
    have "receive C F channel (Apdu (apdu_bytes INS_SIGN_MESSAGE p1 P2_MORE data)) s
        = app_main_end (Inl (Throw SW_OK), ?s\<lparr>sgn := c\<rparr>)"
      using r(4) [of C F] handle_sign_message_more [OF p c(1) _ nz, where C = C] by simp
    from refusal_run [OF this r(1) c(2) e(1)] True c(3) show ?thesis by (auto simp: ok_keeps)
  next
    case False
    then have h: "handle_sign_message C p1 P2_MORE ?b ?l ?s = (Inl (Throw SW_WRONG_LENGTH), ?s)"
      using handle_sign_message_refused(2) [OF ok r(2) p, where C = C] by (simp add: u)
    have same: "?s\<lparr>sgn := sgn s\<rparr> = ?s" by (simp add: arrived_def)
    have "receive C F channel (Apdu (apdu_bytes INS_SIGN_MESSAGE p1 P2_MORE data)) s
        = app_main_end (Inl (Throw SW_WRONG_LENGTH), ?s\<lparr>sgn := sgn s\<rparr>)"
      unfolding same using r(4) [of C F] h by simp
    from refusal_run [OF this r(1) _ e(2)] ok False show ?thesis by auto
  qed
qed

text \<open>Several chunks.\<close>

definition chunk_events :: "u8 \<Rightarrow> u8 list list \<Rightarrow> event list" where
  "chunk_events p1 chunks = map (\<lambda>chunk. Apdu (apdu_bytes INS_SIGN_MESSAGE p1 P2_MORE chunk)) chunks"

definition chunks_ok :: "u8 list list \<Rightarrow> bool" where
  "chunks_ok chunks \<longleftrightarrow> (\<forall>chunk \<in> set chunks. chunk \<noteq> [] \<and> length chunk \<le> 255)"

lemma sign_chunks:
  assumes "idle channel s" "chunks_ok chunks" "unat p1 \<le> 1" "channel = 0"
    and "length (message (sgn s)) + length (concat chunks) \<le> MAX_MSG_SIZE"
  shows "\<exists>s'. app_run C F (Receiving channel, s) (chunk_events p1 chunks) (Receiving 0, s') \<and> idle 0 s'
    \<and> message (sgn s') = message (sgn s) @ concat chunks \<and> sent s' = sent s @ replicate (length chunks) [0x90, 0x00]
    \<and> ux s' = ux s"
  using assms
proof (induction chunks arbitrary: channel s)
  case Nil
  then show ?case by (auto simp: chunk_events_def intro!: exI [of _ s] app_run.none)
next
  case (Cons chunk chunks)
  have c: "chunk \<noteq> []" "length chunk \<le> 255" "chunks_ok chunks" using Cons.prems(2) by (auto simp: chunks_ok_def)
  obtain s1 where s1: "app_run C F (Receiving channel, s) [Apdu (apdu_bytes INS_SIGN_MESSAGE p1 P2_MORE chunk)] (Receiving 0, s1)"
      "refusal SW_OK s s1" "message (sgn s1) = message (sgn s) @ chunk"
    using sign_chunk [OF Cons.prems(1) c(1,2) Cons.prems(3), of C F] Cons.prems(5) by auto
  have i: "idle 0 s1" "sent s1 = sent s @ [[0x90, 0x00]]" "ux s1 = ux s"
    using s1(2) by (simp_all add: refusal_def sw_bytes_ok)
  have "length (message (sgn s1)) + length (concat chunks) \<le> MAX_MSG_SIZE" using Cons.prems(5) s1(3) by simp
  from Cons.IH [OF i(1) c(3) Cons.prems(3) refl this] obtain s2 where
    "app_run C F (Receiving 0, s1) (chunk_events p1 chunks) (Receiving 0, s2)" "idle 0 s2"
    "message (sgn s2) = message (sgn s1) @ concat chunks" "sent s2 = sent s1 @ replicate (length chunks) [0x90, 0x00]"
    "ux s2 = ux s1" by blast
  with app_run_trans [OF s1(1) this(1)] s1(3) i show ?case
    by (intro exI [of _ s2]) (simp add: chunk_events_def)
qed

section \<open>The last command of a message\<close>

text \<open>Without data the message is hashed before it is signed; the command then has to set
  \<open>P2_MORE\<close>, because \<open>app_main\<close> rejects empty commands without it.\<close>

definition last_command :: "u8 \<Rightarrow> u8 list \<Rightarrow> bool" where
  "last_command p2 data \<longleftrightarrow> length data \<le> 255 \<and> (if data = [] then p2 = P2_MORE else unat p2 < 0x80)"

text \<open>The signature is made and the second reading of the path succeeds.\<close>

definition signs :: "'h crypto \<Rightarrow> bool \<Rightarrow> u8 list \<Rightarrow> u8 list \<Rightarrow> bool" where
  "signs C hash m t \<longleftrightarrow> path_ok m \<and> length m \<le> MAX_MSG_SIZE
     \<and> (\<exists>b. signature_of C hash m = Inr (b, t) \<and> (b = [] \<or> 1 + 4 * unat (hd m) \<le> length b))"

lemma last_command_p2:
  assumes "last_command p2 data"
  shows "unat p2 \<le> 0x80" "data \<noteq> [] \<or> p2 AND P2_MORE \<noteq> 0" "p2 AND P2_MORE \<noteq> P2_MORE \<or> data = []"
proof -
  have "p2 AND 0x80 = 0" if "unat p2 < 128"
  proof -
    have "\<forall>n \<in> set [0..<128]. (of_nat n :: u8) AND 0x80 = 0" by code_simp
    moreover have "unat p2 \<in> set [0..<128]" using that by simp
    ultimately have "(of_nat (unat p2) :: u8) AND 0x80 = 0" by (rule bspec)
    then show ?thesis by simp
  qed
  with assms show "data \<noteq> [] \<or> p2 AND P2_MORE \<noteq> 0" "p2 AND P2_MORE \<noteq> P2_MORE \<or> data = []" "unat p2 \<le> 0x80"
    by (auto simp: last_command_def P2_MORE_def split: if_splits)
qed

lemma sign_last:
  assumes C: "crypto_ok C" and i: "idle channel s" and d: "last_command p2 data" "unat p1 \<le> 1"
    and sg: "signs C (data = []) (message (sgn s) @ data) t"
  defines "s1 \<equiv> arrived (apdu_bytes INS_SIGN_MESSAGE p1 p2 data) s"
  shows "\<exists>c sig. sgn_ok c \<and> signature_bytes c sig = t \<and> (sgn_output_length c = 0 \<or> sgn_output_length c = 64)
    \<and> sgn_ui c = sgn_ui (sgn s) \<and> length sig = MAX_MSG_SIZE
    \<and> (\<forall>F. receive C F channel (Apdu (apdu_bytes INS_SIGN_MESSAGE p1 p2 data)) s =
      app_main_end (if p1 \<noteq> P1_CONFIRM then (Inl (Throw SW_OK), sig_silent c sig p2 s1)
        else (Inr False, sig_confirm c sig p2
          (last_element (path_length (message (sgn s) @ data), path_words (message (sgn s) @ data))) s1)))"
proof -
  let ?b = "drop OFFSET_CDATA (G_io_apdu_buffer s1)" and ?l = "of_nat (length data) :: u16"
  let ?m = "message (sgn s) @ data"
  have d255: "length data \<le> 255" using d(1) by (simp add: last_command_def)
  note p2 = last_command_p2 [OF d(1)]
  note r = receive_sign_message [OF i d255 p2(2), where ?p1.0 = p1, folded s1_def]
  have u: "unat ?l = length data" using d255 by (simp add: unat_of_nat)
  have z: "?l = 0 \<longleftrightarrow> data = []" by (simp add: word_unat_eq_iff u del: of_nat_eq_0_iff)
  have p: "io_check_p1p2 p1 p2 = Inr ()" by (rule check_p1p2_ok [OF d(2) p2(1)])
  have same: "sgn s1 = sgn s" by (simp add: s1_def)
  have ok: "sgn_ok (sgn s1)" "unat (main_tx s1) + 129 \<le> length (G_io_apdu_buffer s1)"
    using r(1) by (simp_all add: dispatching_def base_ok_def IO_APDU_BUFFER_SIZE_def)
  have fits: "length (message (sgn s)) + length data \<le> MAX_MSG_SIZE" using sg by (simp add: signs_def)
  obtain c where c: "read_message ?b ?l s1 = (Inr (), s1\<lparr>sgn := c\<rparr>)" "sgn_ok c" "message c = ?m" "sgn_ui c = sgn_ui (sgn s)"
    using read_message_run [OF ok(1) r(2), unfolded u r(3) same if_P [OF fits]] by blast
  obtain b where b: "signature_of C (data = []) ?m = Inr (b, t)" "\<not> (b \<noteq> [] \<and> length b < 1 + 4 * unat (hd ?m))"
    "path_ok ?m" using sg by (auto simp: signs_def not_less)
  obtain c' sig where sd: "signed C (data = []) c = Inr (c', sig, path_length ?m, path_words ?m)" "signature_bytes c' sig = t"
    using signed_spec [OF C c(2), of "data = []", unfolded c(3) b(1) sum.case prod.case if_not_P [OF b(2)]] b(3) by blast
  have lst: "p2 AND P2_MORE \<noteq> P2_MORE \<or> ?l = 0" using p2(3) z by simp
  have h: "sgn_ok c'" "length sig = MAX_MSG_SIZE" "sgn_ui c' = sgn_ui c" "sgn_output_length c' = 0 \<or> sgn_output_length c' = 64"
    "handle_sign_message C p1 p2 ?b ?l s1 = (if p1 \<noteq> P1_CONFIRM then (Inl (Throw SW_OK), sig_silent c' sig p2 s1)
        else (Inr (), sig_confirm c' sig p2 (last_element (path_length ?m, path_words ?m)) s1))"
    using handle_sign_message_last [OF C p c(1,2) lst ok(2)] unfolding z sd(1) by simp_all
  show ?thesis
    using h(1-4) sd(2) c(4) r(4) [of C] unfolding h(5)
    by (intro exI [of _ c'] exI [of _ sig]) simp
qed

lemma signature_output:
  assumes "sgn_output_length c = 0 \<or> sgn_output_length c = 64" "signature_bytes c sig = t"
  shows "length t \<le> 64" "length (encoded p2 t) \<le> 128" "length (base58_text t) \<le> 128"
  using length_signature_bytes [OF assms(1), of sig] assms(2) encoded_bound [of t p2] length_base58_text [of t] by auto

text \<open>Signing with the sample services.\<close>

lemma sample_derive:
  "1 \<le> unat n \<Longrightarrow> unat n \<le> length path \<Longrightarrow>
    \<exists>kp. iost_derive_keypair sample_crypto path n (Some zero_private_key) None = Inr kp \<and> kp_result kp = 0"
  by (simp add: iost_derive_keypair_def sample_crypto_def buf_read_def buf_write_def ED25519_KEY_SIZE_def
      Let_def word_sless_alt)

lemma sample_sign:
  assumes "1 \<le> unat n" "unat n \<le> length path" "len \<noteq> 0" "unat len \<le> length b"
  shows "\<exists>sig. iost_sign sample_crypto path n b len (replicate MAX_MSG_SIZE 0) = Inr (64, sig, zero_private_key)
    \<and> take 64 sig = replicate 64 (ucast len)"
  using sample_derive [OF assms(1,2)] assms(3,4)
  by (auto simp: iost_sign_def buf_read_def buf_write_def sample_crypto_def MAX_MSG_SIZE_def ED25519_KEY_SIZE_def Let_def)

lemma silent_run:
  assumes "crypto_ok C" and "idle 0 s" "message (sgn s) = []" and "chunks_ok chunks" "last_command p2 data" "unat p1 \<le> 1"
    and "signs C (data = []) (concat chunks @ data) t"
  shows "\<exists>s'. app_run C F (Receiving 0, s)
      (chunk_events p1 chunks @ [Apdu (apdu_bytes INS_SIGN_MESSAGE P1_SILENT p2 data)]) (Receiving 0, s')
    \<and> idle 0 s' \<and> sgn s' = zero_sign_context \<and> ux s' = ux s
    \<and> sent s' = sent s @ replicate (length chunks) [0x90, 0x00] @ [encoded p2 t @ [0, 0x90, 0x00]]"
proof -
  have "length (message (sgn s)) + length (concat chunks) \<le> MAX_MSG_SIZE"
    using assms(3,7) by (simp add: signs_def)
  from sign_chunks [OF assms(2,4,6) refl this, of C F] obtain s1 where
    s1: "app_run C F (Receiving 0, s) (chunk_events p1 chunks) (Receiving 0, s1)" "idle 0 s1"
      "message (sgn s1) = concat chunks" "sent s1 = sent s @ replicate (length chunks) [0x90, 0x00]" "ux s1 = ux s"
    using assms(3) by auto
  let ?a = "arrived (apdu_bytes INS_SIGN_MESSAGE P1_SILENT p2 data) s1"
  have p1: "unat P1_SILENT \<le> 1" "P1_SILENT \<noteq> P1_CONFIRM" by (simp_all add: const_defs)
  from sign_last [OF assms(1) s1(2) assms(5) p1(1), where t = t] assms(7) obtain c sig where
    c: "sgn_ok c" "signature_bytes c sig = t" "sgn_output_length c = 0 \<or> sgn_output_length c = 64"
      "receive C F 0 (Apdu (apdu_bytes INS_SIGN_MESSAGE P1_SILENT p2 data)) s1
        = app_main_end (Inl (Throw SW_OK), sig_silent c sig p2 ?a)"
    using p1(2) unfolding s1(3) by fastforce
  let ?s2 = "sig_silent c sig p2 ?a"
  have dp: "dispatching ?a" using assms(5) by (intro idle_dispatching [OF s1(2)]) (simp add: last_command_def)
  then have b: "base_ok ?a" "screen_ok ?a" "\<not> approving ?a" "main_tx ?a = 0" "main_flags ?a = 0"
    by (simp_all add: dispatching_def)
  note ok = sig_silent_ok [OF b(1-4) c(3), of sig p2]
  have "app_run C F (Receiving 0, s1) [Apdu (apdu_bytes INS_SIGN_MESSAGE P1_SILENT p2 data)]
      (Receiving 0, after_reply SW_OK ?s2) \<and> idle 0 (after_reply SW_OK ?s2)"
    using c(4) ok b by (intro reply_run) (simp_all add: const_defs)
  moreover have "status_reply SW_OK ?s2 = encoded p2 t @ [0, 0x90, 0x00]"
    using signature_output(2) [OF c(3,2), of p2] b(4) unat_of_nat_small(2) [of "length (encoded p2 t)"]
    by (simp add: status_reply_def sw_bytes_ok sig_silent_def sig_exported_def Let_def c(2))
  ultimately show ?thesis
    using app_run_trans [OF s1(1)] s1(4,5)
    by (intro exI [of _ "after_reply SW_OK ?s2"]) (auto simp: ok_keeps sig_silent_def sig_exported_def Let_def)
qed

text \<open>At most 255 bytes to sign: the signature covers all of them.\<close>

lemma signs_all:
  assumes C: "crypto_ok C" and m: "path_ok m" "length m \<le> MAX_MSG_SIZE"
    and b: "bytes_to_sign C hash (message_rest m) = Inr b" "1 + 4 * unat (hd m) \<le> length b" "length b \<le> 255"
    and k: "iost_derive_keypair C (path_words m) (path_length m) (Some zero_private_key) None = Inr kp" "kp_result kp = 0"
    and t: "eddsa_sign C (kp_secret kp) b = Inr (n, t)"
  shows "signs C hash m t"
proof -
  have "safe (\<lambda>(n, sig). n = 64 \<and> length sig = 64) (eddsa_sign C (kp_secret kp) b)"
    using C unfolding crypto_ok_def by blast
  then have n: "n = 64" "length t = 64" using t by simp_all
  have u: "unat (of_nat (length b) :: u8) = length b" using b(3) by (simp add: unat_of_nat)
  have nz: "(of_nat (length b) :: u8) \<noteq> 0" using b(2) u by (metis add_is_0 le_zero_eq one_neq_zero unat_0)
  have "iost_sign C (path_words m) (path_length m) b (of_nat (length b)) (replicate MAX_MSG_SIZE 0)
      = Inr (64, t @ replicate (MAX_MSG_SIZE - 64) 0, zero_private_key)"
    using nz u k t n
    by (simp add: iost_sign_def Let_def buf_read_def buf_write_def ED25519_KEY_SIZE_def MAX_MSG_SIZE_def)
  then have "signature_of C hash m = Inr (b, t)" using n by (simp add: signature_of_def b(1))
  with m b(2) show ?thesis by (auto simp: signs_def)
qed

text \<open>
Property C5: signing without confirmation, end to end, for a message in any number of
chunks: each chunk is acknowledged with the status 9000, and the last command is replied to
with the Ed25519 signature, under the key of the path, of all the bytes behind the path, or of
their hash when the last command has no data, in the requested encoding, followed by a null
byte and 9000.  This holds when there are at most 255 bytes to sign, not fewer than those of
the path, and the key can be derived; the last section states what happens otherwise.
The context is cleared, the screen does not change.
\<close>

theorem sign_message_silent:
  assumes "crypto_ok C" and "idle 0 s" "message (sgn s) = []" and "chunks_ok chunks" "last_command p2 data" "unat p1 \<le> 1"
    and "path_ok (concat chunks @ data)" "length (concat chunks @ data) \<le> MAX_MSG_SIZE"
    and "bytes_to_sign C (data = []) (message_rest (concat chunks @ data)) = Inr b"
    and "1 + 4 * unat (hd (concat chunks @ data)) \<le> length b" "length b \<le> 255"
    and "iost_derive_keypair C (path_words (concat chunks @ data)) (path_length (concat chunks @ data))
      (Some zero_private_key) None = Inr kp" "kp_result kp = 0"
    and "eddsa_sign C (kp_secret kp) b = Inr (n, t)"
  shows "\<exists>s'. app_run C F (Receiving 0, s)
      (chunk_events p1 chunks @ [Apdu (apdu_bytes INS_SIGN_MESSAGE P1_SILENT p2 data)]) (Receiving 0, s')
    \<and> idle 0 s' \<and> sgn s' = zero_sign_context \<and> ux s' = ux s
    \<and> sent s' = sent s @ replicate (length chunks) [0x90, 0x00] @ [encoded p2 t @ [0, 0x90, 0x00]]"
  by (rule silent_run [OF assms(1-6) signs_all [OF assms(1,7-)]])

theorem sign_message_silent_witness:
  "\<exists>s s'. app_run sample_crypto sample_firmware (Receiving 0, s)
       [Apdu [0xE0, 0x08, 0, 0x80, 3, 1, 0x80, 0], Apdu [0xE0, 0x08, 1, 0x02, 9, 0, 0, 1, 2, 3, 4, 5, 6, 7]] (Receiving 0, s')
     \<and> sent s' = sent s @ [[0x90, 0x00], encoded P2_BASE58 (replicate 64 7) @ [0, 0x90, 0x00]]"
proof -
  obtain s key where s: "idle 0 s" "sgn s = zero_sign_context" using sample_state by blast
  have m: "message (sgn s) = []" by (simp add: s(2) message_def zero_sign_context_def)
  let ?d = "[0, 0, 1, 2, 3, 4, 5, 6, 7] :: u8 list"
  let ?m = "concat [[1, 0x80, 0]] @ ?d :: u8 list"
  have c: "chunks_ok [[1, 0x80, 0]]" "last_command P2_BASE58 ?d" "unat P1_CONFIRM \<le> 1"
    by (simp_all add: chunks_ok_def last_command_def const_defs)
  have p: "path_ok ?m" "length ?m \<le> MAX_MSG_SIZE" by (simp_all add: path_ok_def MAX_MSG_SIZE_def)
  have b: "bytes_to_sign sample_crypto (?d = []) (message_rest ?m) = Inr [1, 2, 3, 4, 5, 6, 7]"
    "1 + 4 * unat (hd ?m) \<le> length [1, 2, 3, 4, 5, 6, 7 :: u8]" "length [1, 2, 3, 4, 5, 6, 7 :: u8] \<le> 255"
    by (simp_all add: bytes_to_sign_def message_rest_def)
  have "1 \<le> unat (path_length ?m)" "unat (path_length ?m) \<le> length (path_words ?m)"
    by (simp_all add: path_length_def path_words_def)
  from sample_derive [OF this] obtain kp where k: "iost_derive_keypair sample_crypto (path_words ?m) (path_length ?m)
      (Some zero_private_key) None = Inr kp" "kp_result kp = 0" by blast
  have t: "eddsa_sign sample_crypto (kp_secret kp) [1, 2, 3, 4, 5, 6, 7] = Inr (64, replicate 64 7)"
    by (simp add: sample_crypto_def)
  have e: "chunk_events P1_CONFIRM [[1, 0x80, 0]] @ [Apdu (apdu_bytes INS_SIGN_MESSAGE P1_SILENT P2_BASE58 ?d)]
      = [Apdu [0xE0, 0x08, 0, 0x80, 3, 1, 0x80, 0], Apdu [0xE0, 0x08, 1, 0x02, 9, 0, 0, 1, 2, 3, 4, 5, 6, 7]]"
    by (simp add: chunk_events_def apdu_bytes_def const_defs)
  from sign_message_silent [OF sample_crypto_ok s(1) m c p b k t, of sample_firmware, unfolded e]
  show ?thesis by auto
qed

text \<open>The question for a signature; the number of the key is cut off when it is long.\<close>

definition asks_signature :: "u8 \<Rightarrow> u8 list \<Rightarrow> u32 \<Rightarrow> app \<Rightarrow> bool" where
  "asks_signature p2 t n s \<longleftrightarrow> ux s = Message_Approve \<and> pending_output s = encoded p2 t @ [0]
     \<and> take (length (with_key_line n) + 1) (approve_l2 (sgn_ui (sgn s))) = with_key_line n @ [0]
     \<and> take (unat (ui_msg_length (sgn_ui (sgn s)))) (ui_msg_body (sgn_ui (sgn s))) = base58_text t"

lemma asks_signature_asked: "asks_signature p2 t n (asked s) = asks_signature p2 t n s"
  by (simp add: asks_signature_def asked_def pending_output_def)

lemma sig_confirm_asks:
  assumes s: "base_ok s" "main_tx s = 0" and c: "sgn_ok c" "sgn_output_length c = 0 \<or> sgn_output_length c = 64"
  shows "asks_signature p2 (signature_bytes c sig) n (sig_confirm c sig p2 n s)"
proof -
  let ?t = "signature_bytes c sig"
  have l: "length (approve_l2 (sgn_ui c)) = 19"
    using c(1) by (simp add: sgn_ok_def ui_sized_def DISPLAY_SIZE_def)
  note e = signature_output(2) [OF c(2) refl, where sig = sig] signature_output(3) [OF c(2) refl, where sig = sig]
  show ?thesis
    using l length_with_key_line [of n] unat_of_nat_small(1) [OF e(1), of p2] unat_of_nat_small(1) [OF e(2)] s(2)
    by (simp add: asks_signature_def sig_confirm_def sig_exported_def Let_def pending_output_def shows_text_def)
qed



section \<open>Where signing deviates\<close>

text \<open>
Property C7: \<open>sign_message\<close> passes the 16-bit message length to the 8-bit parameter
\<open>hash_length\<close>.  Of a message that is not hashed, because its last command has data, and that
is signed without confirmation, only the first \<open>length mod 256\<close> bytes behind the path are
signed when there are 256 or more of them, and for exactly 256 bytes the reply is an empty
signature with the status 9000.  (A hashed message is not affected: its hash has 32 bytes.)
\<close>

theorem sign_message_truncates:
  assumes "crypto_ok C" and "idle 0 s" "message (sgn s) = []"
    and "chunks_ok chunks" "last_command p2 data" "unat p1 \<le> 1" "data \<noteq> []"
    and "path_ok (concat chunks @ data)" "length (concat chunks @ data) \<le> MAX_MSG_SIZE"
    and "256 \<le> length (message_rest (concat chunks @ data))"
    and "iost_sign C (path_words (concat chunks @ data)) (path_length (concat chunks @ data))
      (take (length (message_rest (concat chunks @ data)) mod 256) (message_rest (concat chunks @ data)))
      (of_nat (length (message_rest (concat chunks @ data)) mod 256)) (replicate MAX_MSG_SIZE 0) = Inr (k, sig, sk)"
  shows "\<exists>s'. app_run C F (Receiving 0, s)
      (chunk_events p1 chunks @ [Apdu (apdu_bytes INS_SIGN_MESSAGE P1_SILENT p2 data)]) (Receiving 0, s')
    \<and> sent s' = sent s @ replicate (length chunks) [0x90, 0x00] @ [encoded p2 (take (unat k) sig) @ [0, 0x90, 0x00]]
    \<and> (length (message_rest (concat chunks @ data)) = 256 \<longrightarrow> k = 0)"
proof -
  let ?m = "concat chunks @ data"
  let ?r = "message_rest ?m"
  have u: "unat (of_nat (length ?r) :: u8) = length ?r mod 256" by (simp add: unat_of_nat)
  have w: "(of_nat (length ?r) :: u8) = of_nat (length ?r mod 256)" by (simp add: word_unat_eq_iff unat_of_nat)
  have "iost_sign C (path_words ?m) (path_length ?m) ?r (of_nat (length ?r)) (replicate MAX_MSG_SIZE 0) = Inr (k, sig, sk)"
    unfolding assms(11) [symmetric] w [symmetric] by (rule iost_sign_prefix) (simp_all add: u)
  then have "signature_of C (data = []) ?m = Inr (?r, take (unat k) sig)"
    using assms(7) by (simp add: signature_of_def bytes_to_sign_def)
  moreover have "1 + 4 * unat (hd ?m) \<le> length ?r" using assms(8,10) by (simp add: path_ok_def)
  ultimately have g: "signs C (data = []) ?m (take (unat k) sig)" using assms(8,9) by (auto simp: signs_def)
  have "k = 0" if "length ?r = 256" using assms(11) that by (simp add: iost_sign_def)
  with silent_run [OF assms(1-6) g, of F] show ?thesis by blast
qed

theorem sign_message_truncates_witness:
  "\<exists>s s'. app_run sample_crypto sample_firmware (Receiving 0, s)
       (chunk_events P1_SILENT [1 # 0x80 # replicate 250 0] @ [Apdu (apdu_bytes INS_SIGN_MESSAGE P1_SILENT P2_BIN [1, 2, 3, 4, 5, 6, 7, 8, 9])])
       (Receiving 0, s')
     \<and> sent s' = sent s @ [[0x90, 0x00], [0, 0x90, 0x00]]"
proof -
  obtain s key where s: "idle 0 s" "sgn s = zero_sign_context" using sample_state by blast
  have m: "message (sgn s) = []" by (simp add: s(2) message_def zero_sign_context_def)
  let ?c = "1 # 0x80 # replicate 250 0 :: u8 list" and ?d = "[1, 2, 3, 4, 5, 6, 7, 8, 9] :: u8 list"
  have c: "chunks_ok [?c]" "last_command P2_BIN ?d" "unat P1_SILENT \<le> 1" "?d \<noteq> []"
    by (simp_all add: chunks_ok_def last_command_def const_defs)
  have l: "path_ok (concat [?c] @ ?d)" "length (concat [?c] @ ?d) \<le> MAX_MSG_SIZE"
    "256 \<le> length (message_rest (concat [?c] @ ?d))" "length (message_rest (concat [?c] @ ?d)) = 256"
    by (simp_all add: path_ok_def MAX_MSG_SIZE_def message_rest_def)
  have g: "iost_sign sample_crypto (path_words (concat [?c] @ ?d)) (path_length (concat [?c] @ ?d))
      (take (length (message_rest (concat [?c] @ ?d)) mod 256) (message_rest (concat [?c] @ ?d)))
      (of_nat (length (message_rest (concat [?c] @ ?d)) mod 256)) (replicate MAX_MSG_SIZE 0)
      = Inr (0, replicate MAX_MSG_SIZE 0, zero_private_key)"
    unfolding l(4) by (simp add: iost_sign_def)
  have e: "encoded P2_BIN [] = []" by (simp add: encoded_def const_defs)
  from sign_message_truncates [OF sample_crypto_ok s(1) m c l(1-3) g, of sample_firmware] e show ?thesis by auto
qed



text \<open>
Property C9: when the key cannot be derived, no error is reported: the reply to the last
command is an empty signature with the status 9000.  The message is one that is signed without
confirmation and is not hashed, with at least as many bytes behind the path as in it.
\<close>

theorem sign_message_no_key:
  assumes "crypto_ok C" and "idle 0 s" "message (sgn s) = []"
    and "chunks_ok chunks" "last_command p2 data" "unat p1 \<le> 1" "data \<noteq> []"
    and "path_ok (concat chunks @ data)" "length (concat chunks @ data) \<le> MAX_MSG_SIZE"
    and "1 + 4 * unat (hd (concat chunks @ data)) \<le> length (message_rest (concat chunks @ data))"
    and "iost_derive_keypair C (path_words (concat chunks @ data)) (path_length (concat chunks @ data))
      (Some zero_private_key) None = Inr kp" "kp_result kp \<noteq> 0"
  shows "\<exists>s'. app_run C F (Receiving 0, s)
      (chunk_events p1 chunks @ [Apdu (apdu_bytes INS_SIGN_MESSAGE P1_SILENT p2 data)]) (Receiving 0, s')
    \<and> sent s' = sent s @ replicate (length chunks) [0x90, 0x00] @ [encoded p2 [] @ [0, 0x90, 0x00]]"
proof -
  let ?m = "concat chunks @ data"
  let ?r = "message_rest ?m"
  have "\<exists>sk. iost_sign C (path_words ?m) (path_length ?m) ?r (of_nat (length ?r)) (replicate MAX_MSG_SIZE 0)
      = Inr (0, replicate MAX_MSG_SIZE 0, sk)"
    using assms(11,12) by (simp add: iost_sign_def Let_def)
  then have "signature_of C (data = []) ?m = Inr (?r, [])"
    using assms(7) by (auto simp: signature_of_def bytes_to_sign_def)
  then have g: "signs C (data = []) ?m []" using assms(8-10) by (auto simp: signs_def)
  from silent_run [OF assms(1-6) g, of F] show ?thesis by blast
qed

text \<open>Services whose key objects cannot be initialised.\<close>

definition keyless_crypto :: "u8 crypto" where
  "keyless_crypto = sample_crypto\<lparr>init_public_key := \<lambda>pk. Inr (1, pk)\<rparr>"

lemma keyless_crypto_ok: "crypto_ok keyless_crypto"
  using sample_crypto_ok by (simp add: crypto_ok_def keyless_crypto_def)

theorem sign_message_no_key_witness:
  "\<exists>s s'. app_run keyless_crypto sample_firmware (Receiving 0, s)
       [Apdu [0xE0, 0x08, 1, 0, 11, 1, 0x80, 0, 0, 0, 1, 2, 3, 4, 5, 6]] (Receiving 0, s')
     \<and> sent s' = sent s @ [[0, 0x90, 0x00]]"
proof -
  obtain s key where s: "idle 0 s" "sgn s = zero_sign_context" using sample_state by blast
  have m: "message (sgn s) = []" by (simp add: s(2) message_def zero_sign_context_def)
  let ?d = "[1, 0x80, 0, 0, 0, 1, 2, 3, 4, 5, 6] :: u8 list"
  have c: "chunks_ok []" "last_command P2_BIN ?d" "unat P1_SILENT \<le> 1" "?d \<noteq> []" "path_ok (concat [] @ ?d)"
    "length (concat [] @ ?d) \<le> MAX_MSG_SIZE" "1 + 4 * unat (hd (concat [] @ ?d)) \<le> length (message_rest (concat [] @ ?d))"
    by (simp_all add: chunks_ok_def last_command_def const_defs path_ok_def message_rest_def MAX_MSG_SIZE_def)
  have g: "\<exists>kp. iost_derive_keypair keyless_crypto (path_words (concat [] @ ?d)) (path_length (concat [] @ ?d))
      (Some zero_private_key) None = Inr kp \<and> kp_result kp \<noteq> 0"
    by (simp add: iost_derive_keypair_def keyless_crypto_def sample_crypto_def buf_read_def buf_write_def ED25519_KEY_SIZE_def
        Let_def word_sless_alt path_words_def path_length_def)
  then obtain kp where kp: "iost_derive_keypair keyless_crypto (path_words (concat [] @ ?d)) (path_length (concat [] @ ?d))
      (Some zero_private_key) None = Inr kp" "kp_result kp \<noteq> 0" by blast
  have e: "encoded P2_BIN [] = []" by (simp add: encoded_def const_defs)
  from sign_message_no_key [OF keyless_crypto_ok s(1) m c kp, of sample_firmware] e
  show ?thesis by (auto simp: apdu_bytes_def const_defs chunk_events_def)
qed

end
