(* ===== verification/Replies.thy ===== *)
theory Replies
  imports Signing
begin

text \<open>
  The remaining commands end to end: the refused ones, GET CONFIGURATION, the echo, the exit
  and the return to the start of \<open>main\<close>; the reserved commands of \<open>io_exchange\<close>; what
  happens between an approval screen and the decision of the user.
\<close>

section \<open>Refused commands\<close>

text \<open>The status with which a command is refused before a handler changes anything.\<close>

definition refused_status :: "u8 list \<Rightarrow> u16 option" where
  "refused_status apdu =
     (if hd apdu \<noteq> CLA then Some SW_CLA_NOT_SUPPORTED
      else if length apdu < 5 \<or> unat (apdu ! 4) + 5 \<noteq> length apdu \<or> apdu ! 4 = 0 \<and> apdu ! 3 AND P2_MORE = 0
      then Some SW_WRONG_LENGTH
      else if apdu ! 1 \<in> {INS_GET_PUBLIC_KEY, INS_SIGN_MESSAGE}
      then if unat (apdu ! 2) \<le> 1 \<and> unat (apdu ! 3) \<le> 0x80 then None else Some SW_INVALID_P1P2
      else if apdu ! 1 \<in> {INS_RESET, INS_ECHO, INS_GET_CONFIGURATION, INS_RETURN_TO_DASHBOARD} then None
      else Some SW_INS_NOT_SUPPORTED)"

lemma arrived_header:
  assumes "5 \<le> length apdu"
  shows "take 5 (G_io_apdu_buffer (arrived apdu s)) = take 5 apdu"
  using assms by (simp add: arrived_def)

text \<open>The header checks on the command, whatever the buffer held before.\<close>

lemma header_check_refuses:
  assumes a: "apdu \<noteq> []" "length apdu \<le> 337" and b: "5 \<le> length buf" "take (length apdu) buf = apdu"
  defines "header \<equiv> take 5 buf"
  shows "header_check header (of_nat (length apdu)) =
    (if hd apdu \<noteq> CLA then THROW SW_CLA_NOT_SUPPORTED
     else if length apdu < 5 \<or> unat (apdu ! 4) + 5 \<noteq> length apdu \<or> apdu ! 4 = 0 \<and> apdu ! 3 AND P2_MORE = 0
     then THROW SW_WRONG_LENGTH else Inr ())"
proof -
  have u: "unat (of_nat (length apdu) :: u16) = length apdu" using a(2) by (simp add: unat_of_nat)
  have m: "\<not> (of_nat (length apdu) :: u16) < APDU_MIN_SIZE"
    using a(1) by (simp add: APDU_MIN_SIZE_def word_less_nat_alt u del: word_less_1 word_less_iff_unsigned)
  have n: "header ! i = apdu ! i" if "i < 5" "i < length apdu" for i
    unfolding header_def using that b by (metis nth_take)
  have h: "header ! 0 = hd apdu" using n [of 0] a(1) by (simp add: hd_conv_nth)
  show ?thesis
  proof (cases "length apdu < 5")
    case True
    then show ?thesis
      unfolding header_check_def if_not_P [OF m] OFFSET_CLA_def OFFSET_LC_def OFFSET_P2_def h u by auto
  next
    case False
    then have "header ! 3 = apdu ! 3" "header ! 4 = apdu ! 4" using n by simp_all
    with False show ?thesis
      unfolding header_check_def if_not_P [OF m] OFFSET_CLA_def OFFSET_LC_def OFFSET_P2_def h u by auto
  qed
qed

lemma refused_dispatch:
  assumes i: "idle channel s" and a: "apdu \<noteq> []" "length apdu \<le> 337" and r: "refused_status apdu = Some e"
  shows "app_main_dispatch C (of_nat (length apdu)) (arrived apdu s) = (Inl (Throw e), arrived apdu s)"
proof -
  let ?s = "arrived apdu s" and ?l = "of_nat (length apdu) :: u16"
  let ?buf = "G_io_apdu_buffer ?s"
  have d: "dispatching ?s" by (rule idle_dispatching [OF i a(2)])
  have b: "5 \<le> length ?buf" using d by (simp add: dispatching_def base_ok_def IO_APDU_BUFFER_SIZE_def)
  have t: "take (length apdu) ?buf = apdu" by (simp add: arrived_def)
  have same: "?s\<lparr>main_rx := ?l, main_flags := 0\<rparr> = ?s" by (simp add: arrived_def)
  note h = header_check_refuses [OF a b t]
  note run = app_main_dispatch_run [OF b, of C ?l, unfolded same h]
  show ?thesis
  proof (cases "hd apdu \<noteq> CLA \<or> length apdu < 5 \<or> unat (apdu ! 4) + 5 \<noteq> length apdu \<or> apdu ! 4 = 0 \<and> apdu ! 3 AND P2_MORE = 0")
    case True
    then show ?thesis using r by (auto simp: run refused_status_def split: if_splits)
  next
    case False
    then have l: "5 \<le> length apdu" by simp
    have n: "take 5 ?buf ! 1 = apdu ! 1" "take 5 ?buf ! 2 = apdu ! 2" "take 5 ?buf ! 3 = apdu ! 3" "take 5 ?buf ! 4 = apdu ! 4"
      using l by (simp_all add: arrived_header [OF l])
    have c: "app_main_dispatch C ?l ?s = app_main_command C (apdu ! 1) (apdu ! 2) (apdu ! 3) (drop OFFSET_CDATA ?buf)
        (ucast (apdu ! 4)) ?l ?s"
      unfolding run OFFSET_INS_def OFFSET_P1_def OFFSET_P2_def OFFSET_LC_def n using False by auto
    consider (ins) "apdu ! 1 \<notin> {INS_GET_PUBLIC_KEY, INS_SIGN_MESSAGE, INS_RESET, INS_ECHO, INS_GET_CONFIGURATION,
        INS_RETURN_TO_DASHBOARD}" "e = SW_INS_NOT_SUPPORTED"
      | (p1p2) "apdu ! 1 = INS_GET_PUBLIC_KEY \<or> apdu ! 1 = INS_SIGN_MESSAGE" "e = SW_INVALID_P1P2"
        "io_check_p1p2 (apdu ! 2) (apdu ! 3) = THROW SW_INVALID_P1P2"
      using r False by (auto simp: refused_status_def io_check_p1p2_intervals split: if_splits)
    then show ?thesis
    proof cases
      case ins
      then show ?thesis unfolding c by (simp add: app_main_command_def throw_c_def)
    next
      case p1p2
      then have "handle_get_public_key C (apdu ! 2) (apdu ! 3) B L ?s = (THROW SW_INVALID_P1P2, ?s)"
        "handle_sign_message C (apdu ! 2) (apdu ! 3) B L ?s = (THROW SW_INVALID_P1P2, ?s)" for B L
        by (simp_all add: handle_get_public_key_def handle_sign_message_def bind_c_def lift_c_def)
      with p1p2(1,2) show ?thesis unfolding c
        by (auto simp: command_get_public_key command_sign_message)
    qed
  qed
qed

text \<open>
Property C11: malformed commands: a command with another class, a wrong length, an unknown
instruction or parameters out of range, whatever stale bytes the buffer holds behind it, is
answered with its status word alone; both contexts are cleared, the screen stays, and the
device is idle again.  The exception are the commands of the class \<open>B0\<close> that \<open>io_exchange\<close>
answers itself: a command of that class has to have at least four bytes here and must not be
one of the three reserved ones, because a shorter one is completed with stale bytes.
\<close>

theorem malformed_command_refused:
  assumes "idle channel s" and "apdu \<noteq> []" "length apdu \<le> 337" "unreserved apdu" and "refused_status apdu = Some e"
  shows "\<exists>s'. app_run C F (Receiving channel, s) [Apdu apdu] (Receiving 0, s') \<and> idle 0 s' \<and> ux s' = ux s
    \<and> sent s' = sent s @ [sw_bytes e] \<and> gpk s' = zero_gpk_context \<and> sgn s' = zero_sign_context"
proof -
  let ?s = "arrived apdu s"
  have e: "e \<noteq> EXCEPTION_IO_RESET" "status_word e = e" "e AND 0xF000 \<noteq> 0x9000"
    using assms(5) by (auto simp: refused_status_def const_defs status_word_def split: if_splits)
  have d: "dispatching ?s" by (rule idle_dispatching [OF assms(1,3)])
  then have g: "sgn_ok (sgn s)" by (simp add: dispatching_def base_ok_def)
  have same: "?s\<lparr>sgn := sgn s\<rparr> = ?s" by (simp add: arrived_def)
  have "receive C F channel (Apdu apdu) s = app_main_end (Inl (Throw e), ?s\<lparr>sgn := sgn s\<rparr>)"
    unfolding same using receive_unreserved [OF assms(1-4), of C F] refused_dispatch [OF assms(1-3,5), of C] by simp
  from refusal_run [OF this d g e(1)] show ?thesis using e(2,3) by (auto simp: refusal_def)
qed

theorem malformed_command_refused_witness:
  "\<exists>s s' s''. app_run sample_crypto sample_firmware (Receiving 0, s) [Apdu [0xE0, 0x04, 0x01, 0x55]] (Receiving 0, s')
     \<and> sent s' = sent s @ [[0x67, 0x00]]
     \<and> app_run sample_crypto sample_firmware (Receiving 0, s) [Apdu [0xB0, 0x03, 0x00, 0x00, 0x00]] (Receiving 0, s'')
     \<and> sent s'' = sent s @ [[0x6E, 0x00]]"
proof -
  obtain s key where s: "idle 0 s" using sample_state by blast
  have a: "[0xE0, 0x04, 0x01, 0x55 :: u8] \<noteq> []" "length [0xE0, 0x04, 0x01, 0x55 :: u8] \<le> 337"
    "unreserved [0xE0, 0x04, 0x01, 0x55]" "refused_status [0xE0, 0x04, 0x01, 0x55] = Some SW_WRONG_LENGTH"
    by (simp_all add: refused_status_def CLA_def unreserved_def)
  have b: "[0xB0, 0x03, 0x00, 0x00, 0x00 :: u8] \<noteq> []" "length [0xB0, 0x03, 0x00, 0x00, 0x00 :: u8] \<le> 337"
    "unreserved [0xB0, 0x03, 0x00, 0x00, 0x00]"
    "refused_status [0xB0, 0x03, 0x00, 0x00, 0x00] = Some SW_CLA_NOT_SUPPORTED"
    by (simp_all add: refused_status_def CLA_def unreserved_def)
  have w: "sw_bytes SW_WRONG_LENGTH = [0x67, 0x00]" "sw_bytes SW_CLA_NOT_SUPPORTED = [0x6E, 0x00]"
    by (simp_all add: sw_bytes_def const_defs)
  from malformed_command_refused [OF s a, of sample_crypto sample_firmware]
    malformed_command_refused [OF s b, of sample_crypto sample_firmware] show ?thesis
    unfolding w by blast
qed

section \<open>Commands without a context\<close>

definition echo_or_version :: "u8 \<Rightarrow> bool" where
  "echo_or_version ins \<longleftrightarrow> ins = INS_ECHO \<or> ins = INS_GET_CONFIGURATION"

lemma command_throws:
  assumes i: "idle channel s" and d: "length data \<le> 255" "data \<noteq> [] \<or> p2 AND P2_MORE \<noteq> 0"
    and r: "app_main_command C ins p1 p2 B L rx s1 = (Inl (Throw SW_OK), s1\<lparr>G_io_apdu_buffer := buf, main_tx := tx\<rparr>)"
    and s1: "s1 = arrived (apdu_bytes ins p1 p2 data) s" "B = drop OFFSET_CDATA (G_io_apdu_buffer s1)"
      "L = of_nat (length data)" "rx = of_nat (length (apdu_bytes ins p1 p2 data))"
    and buf: "length buf = 337" "unat tx \<le> 260"
  shows "\<exists>s'. app_run C F (Receiving channel, s) [Apdu (apdu_bytes ins p1 p2 data)] (Receiving 0, s') \<and> idle 0 s'
    \<and> sent s' = sent s @ [take (unat tx) buf @ [0x90, 0x00]] \<and> ux s' = ux s \<and> gpk s' = gpk s \<and> sgn s' = sgn s"
proof -
  let ?s = "s1\<lparr>G_io_apdu_buffer := buf, main_tx := tx\<rparr>"
  have ds: "dispatching s1" unfolding s1(1) by (rule idle_dispatching [OF i]) (use d in simp)
  then have b: "base_ok ?s" "screen_ok ?s" "\<not> approving ?s" "apdu_media ?s = IO_APDU_MEDIA_USB_HID" "main_flags ?s = 0"
    using buf(1) unfolding dispatching_def
    by (auto simp: base_ok_def screen_ok_def approving_def IO_APDU_BUFFER_SIZE_def)
  have tx: "unat (main_tx ?s) \<le> 260" using buf(2) by simp
  have e: "SW_OK \<noteq> EXCEPTION_IO_RESET" by (simp add: const_defs)
  have "receive C F channel (Apdu (apdu_bytes ins p1 p2 data)) s = app_main_end (Inl (Throw SW_OK), ?s)"
    unfolding receive_well_formed [OF i d] using r unfolding s1 by simp
  note run = reply_run [OF b(1-4) tx b(5) e this]
  then show ?thesis
    by (intro exI [of _ "after_reply SW_OK ?s"])
      (simp add: ok_keeps status_reply_def sw_bytes_ok, simp add: s1(1))
qed

text \<open>
GET CONFIGURATION replies with a storage flag of zero and the version 0.0.3,
and the echo with the command itself, each followed by the status 9000; contexts and screen
stay.
\<close>

theorem configuration_and_echo:
  assumes "idle channel s" and "length data \<le> 255" "data \<noteq> [] \<or> p2 AND P2_MORE \<noteq> 0"
    and "ins = INS_GET_CONFIGURATION \<or> ins = INS_ECHO"
  shows "\<exists>s'. app_run C F (Receiving channel, s) [Apdu (apdu_bytes ins p1 p2 data)] (Receiving 0, s') \<and> idle 0 s'
    \<and> sent s' = sent s @ [(if ins = INS_ECHO then apdu_bytes ins p1 p2 data else [0, 0, 0, 3]) @ [0x90, 0x00]]
    \<and> ux s' = ux s \<and> gpk s' = gpk s \<and> sgn s' = sgn s"
proof -
  let ?apdu = "apdu_bytes ins p1 p2 data"
  let ?s = "arrived ?apdu s"
  have ds: "dispatching ?s" by (rule idle_dispatching [OF assms(1)]) (use assms(2) in simp)
  then have l: "length (G_io_apdu_buffer ?s) = 337" "main_tx ?s = 0"
    by (simp_all add: dispatching_def base_ok_def IO_APDU_BUFFER_SIZE_def)
  have u: "unat (of_nat (length ?apdu) :: u16) = length ?apdu" using assms(2) by (simp add: unat_of_nat unat_word_ariths)
  have t: "take (length ?apdu) (G_io_apdu_buffer ?s) = ?apdu" by (simp add: arrived_def)
  show ?thesis
  proof (cases "ins = INS_ECHO")
    case True
    have "app_main_command C INS_ECHO p1 p2 B L rx ?s = (Inl (Throw SW_OK),
        ?s\<lparr>G_io_apdu_buffer := G_io_apdu_buffer ?s, main_tx := rx\<rparr>)" for B L rx
      by (simp add: app_main_command_def const_defs bind_c_def modify_c_def throw_c_def)
    from command_throws [OF assms(1-3) this [folded True] refl refl refl refl l(1), of F] u t assms(2) True show ?thesis
      by simp
  next
    case False
    then have ins: "ins = INS_GET_CONFIGURATION" using assms(4) by simp
    have "app_main_command C INS_GET_CONFIGURATION p1 p2 B L rx ?s = (Inl (Throw SW_OK),
        ?s\<lparr>G_io_apdu_buffer := [0, 0, 0, 3] @ drop 4 (G_io_apdu_buffer ?s), main_tx := 4\<rparr>)" for B L rx
      using handle_get_configuration_run [OF l(2)] l(1)
      by (simp add: app_main_command_def const_defs bind_c_def)
    from command_throws [OF assms(1-3) this [folded ins] refl refl refl refl, of F] l(1) False show ?thesis by simp
  qed
qed

theorem configuration_and_echo_witness:
  "\<exists>s s' s''. app_run sample_crypto sample_firmware (Receiving 0, s) [Apdu [0xE0, 0x02, 0, 0x80, 0]] (Receiving 0, s')
     \<and> sent s' = sent s @ [[0, 0, 0, 3, 0x90, 0x00]]
     \<and> app_run sample_crypto sample_firmware (Receiving 0, s) [Apdu [0xE0, 0x01, 0, 0, 2, 7, 9]] (Receiving 0, s'')
     \<and> sent s'' = sent s @ [[0xE0, 0x01, 0, 0, 2, 7, 9, 0x90, 0x00]]"
proof -
  obtain s key where s: "idle 0 s" using sample_state by blast
  have e: "length [7, 9 :: u8] \<le> 255" "[7, 9 :: u8] \<noteq> [] \<or> (0 :: u8) AND P2_MORE \<noteq> 0" by simp_all
  have c: "length ([] :: u8 list) \<le> 255" "([] :: u8 list) \<noteq> [] \<or> P2_MORE AND P2_MORE \<noteq> 0" by (simp_all add: const_defs)
  from configuration_and_echo [OF s c, of INS_GET_CONFIGURATION sample_crypto sample_firmware 0] obtain s' where
    "app_run sample_crypto sample_firmware (Receiving 0, s) [Apdu [0xE0, 0x02, 0, 0x80, 0]] (Receiving 0, s')"
     "sent s' = sent s @ [[0, 0, 0, 3, 0x90, 0x00]]"
    by (auto simp: apdu_bytes_def const_defs)
  moreover from configuration_and_echo [OF s e, of INS_ECHO sample_crypto sample_firmware 0] obtain s'' where
    "app_run sample_crypto sample_firmware (Receiving 0, s) [Apdu [0xE0, 0x01, 0, 0, 2, 7, 9]] (Receiving 0, s'')"
    "sent s'' = sent s @ [[0xE0, 0x01, 0, 0, 2, 7, 9, 0x90, 0x00]]"
    by (auto simp: apdu_bytes_def const_defs)
  ultimately show ?thesis by blast
qed

section \<open>Leaving\<close>

text \<open>
The instruction \<open>INS_RESET\<close> is answered with 9000, and the application exits
with the code of \<open>EXCEPTION_IO_RESET\<close>; \<open>INS_RETURN_TO_DASHBOARD\<close> is never answered: \<open>main\<close>
starts again, with empty contexts and the main menu.
\<close>

theorem reset_and_dashboard:
  assumes "idle channel s" and "length data \<le> 255" "data \<noteq> [] \<or> p2 AND P2_MORE \<noteq> 0"
  shows "(\<exists>s'. app_run C F (Receiving channel, s) [Apdu (apdu_bytes INS_RESET p1 p2 data)]
      (Exited (ucast EXCEPTION_IO_RESET), s') \<and> sent s' = sent s @ [[0x90, 0x00]])
    \<and> (\<exists>s'. app_run C F (Receiving channel, s) [Apdu (apdu_bytes INS_RETURN_TO_DASHBOARD p1 p2 data)] (Receiving 0, s')
      \<and> sent s' = sent s \<and> ux s' = Menu_Screen \<and> gpk s' = zero_gpk_context \<and> sgn s' = zero_sign_context)"
proof (intro conjI)
  let ?s = "arrived (apdu_bytes INS_RESET p1 p2 data) s"
  have ds: "dispatching ?s" by (rule idle_dispatching [OF assms(1)]) (use assms(2) in simp)
  let ?s1 = "?s\<lparr>main_flags := IO_RESET_AFTER_REPLIED\<rparr>"
  have l: "length (G_io_apdu_buffer ?s1) = 337" "main_tx ?s1 = 0" "apdu_media ?s1 = IO_APDU_MEDIA_USB_HID"
    using ds by (simp_all add: dispatching_def base_ok_def IO_APDU_BUFFER_SIZE_def)
  have "receive C F channel (Apdu (apdu_bytes INS_RESET p1 p2 data)) s = app_main_end (Inl (Throw SW_OK), ?s1)"
    unfolding receive_well_formed [OF assms]
    by (simp add: app_main_command_def bind_c_def modify_c_def throw_c_def arrived_def)
  moreover have "app_main_end (Inl (Throw SW_OK), ?s1) = (Loop_Head, with_status SW_OK ?s1)"
    using app_main_end_throw [of SW_OK ?s1] l by (simp add: const_defs status_word_def caught_def)
  ultimately have r: "receive C F channel (Apdu (apdu_bytes INS_RESET p1 p2 data)) s = (Loop_Head, with_status SW_OK ?s1)"
    by simp
  let ?w = "with_status SW_OK ?s1"
  have w: "main_tx ?w = 2" "main_flags ?w = IO_RESET_AFTER_REPLIED" "apdu_media ?w = IO_APDU_MEDIA_USB_HID"
    "length (G_io_apdu_buffer ?w) = 337" "take 2 (G_io_apdu_buffer ?w) = [0x90, 0x00]" "sent ?w = sent s"
    using l by (simp_all add: with_status_def sw_bytes_def SW_OK_def)
  have c: "CHANNEL_APDU OR IO_RESET_AFTER_REPLIED = IO_RESET_AFTER_REPLIED" "IO_RESET_AFTER_REPLIED \<noteq> 0"
    by (simp_all add: const_defs)
  obtain s' where s': "loop_head C ?w = (Exited (ucast EXCEPTION_IO_RESET), s')" "sent s' = sent s @ [[0x90, 0x00]]"
    using io_exchange_tx_send [of 2 "?w\<lparr>main_rx := main_tx ?w, main_tx := 0\<rparr>" IO_RESET_AFTER_REPLIED] w c
    by (simp add: loop_head_def Let_def)
  have "app_run C F (Receiving channel, s) [Apdu (apdu_bytes INS_RESET p1 p2 data)]
      (Exited (ucast EXCEPTION_IO_RESET), s')"
    by (rule app_run_event [OF r], rule app_run_loop [OF s'(1)], rule app_run.none)
  with s'(2) show "\<exists>s'. app_run C F (Receiving channel, s) [Apdu (apdu_bytes INS_RESET p1 p2 data)]
      (Exited (ucast EXCEPTION_IO_RESET), s') \<and> sent s' = sent s @ [[0x90, 0x00]]" by blast
next
  let ?s = "arrived (apdu_bytes INS_RETURN_TO_DASHBOARD p1 p2 data) s"
  have "dispatching ?s" by (rule idle_dispatching [OF assms(1)]) (use assms(2) in simp)
  then have b: "base_ok ?s" by (simp add: dispatching_def)
  have r: "receive C F channel (Apdu (apdu_bytes INS_RETURN_TO_DASHBOARD p1 p2 data)) s = (Main_Head, ?s)"
    unfolding receive_well_formed [OF assms]
    by (simp add: app_main_command_def const_defs return_c_def app_main_end_def)
  from start_run [OF b, of C F] obtain s' where "app_run C F (Main_Head, ?s) [] (Receiving 0, s')"
    "sent s' = sent s" "ux s' = Menu_Screen" "gpk s' = zero_gpk_context" "sgn s' = zero_sign_context" by auto
  with app_run_event [OF r] show "\<exists>s'. app_run C F (Receiving channel, s)
        [Apdu (apdu_bytes INS_RETURN_TO_DASHBOARD p1 p2 data)] (Receiving 0, s')
      \<and> sent s' = sent s \<and> ux s' = Menu_Screen \<and> gpk s' = zero_gpk_context \<and> sgn s' = zero_sign_context" by blast
qed

theorem reset_and_dashboard_witness:
  "\<exists>s s'. app_run sample_crypto sample_firmware (Receiving 0, s) [Apdu [0xE0, 0x00, 0, 0x80, 0]] (Exited 16, s')
     \<and> sent s' = sent s @ [[0x90, 0x00]]"
proof -
  obtain s key where s: "idle 0 s" using sample_state by blast
  have c: "length ([] :: u8 list) \<le> 255" "([] :: u8 list) \<noteq> [] \<or> P2_MORE AND P2_MORE \<noteq> 0" by (simp_all add: const_defs)
  from reset_and_dashboard [OF s c, of sample_crypto sample_firmware 0] show ?thesis
    by (auto simp: apdu_bytes_def const_defs)
qed

section \<open>The decision of the user\<close>

text \<open>
Property C2: approval: in every reachable state that shows an approval screen, each event has
exactly one effect.  The loss of the USB connection leads to a restart of \<open>main\<close> in the same
state.  A report for which the driver passes on the release of the right button sends the
waiting output with 9000 and opens the viewer; the release of the left button sends 6985 alone,
clears the context of the command and brings back the menu; every other event, all commands
from the host included, sends nothing and changes nothing but the state of the button driver.
\<close>

theorem approval_decides:
  assumes "crypto_ok C" and "firmware_ok F" and "base_ok s0" and "app_run C F (Main_Head, s0) evs (Receiving channel, s)"
    and "approving s" and "app_step C F (Receiving channel, s) (Some ev) (c', s')"
  shows "if ev = Usb_Reset \<or> ev = Usb_Unpowered then c' = Main_Head \<and> s' = s
    else c' = Receiving channel
      \<and> (if releases BUTTON_RIGHT ev s
         then sent s' = sent s @ [pending_output s @ [0x90, 0x00]]
           \<and> ux s' = (if ux s = Public_Key_Approve then Public_Key_Compare else Message_Compare)
         else if releases BUTTON_LEFT ev s
         then sent s' = sent s @ [[0x69, 0x85]] \<and> ux s' = Menu_Screen
           \<and> (if ux s = Public_Key_Approve then gpk s' = zero_gpk_context else sgn s' = zero_sign_context)
         else (\<exists>g. s' = s\<lparr>G_ux_os := g\<rparr>))"
proof -
  have inv: "config_inv (Receiving channel, s)" using app_run_inv [OF assms(1,2,4)] assms(3) by simp
  have r: "receive C F channel ev s = (c', s')" using assms(6) by (auto elim: receive_stepE)
  have sw: "sw_bytes SW_OK = [0x90, 0x00]" "sw_bytes SW_USER_REJECTED = [0x69, 0x85]"
    by (simp_all add: sw_bytes_def const_defs)
  from approval_step [OF inv assms(5), of ev C F] show ?thesis
    unfolding r approved_def rejected_def undecided_def sw by (simp split: if_splits)
qed

theorem approval_decides_witness:
  "\<exists>s evs s'. app_run sample_crypto sample_firmware (Main_Head, sample_app) evs (Receiving IO_ASYNCH_REPLY, s)
     \<and> ux s = Public_Key_Approve \<and> app_step sample_crypto sample_firmware (Receiving IO_ASYNCH_REPLY, s)
         (Some (Apdu [0xE0, 0x02, 0, 0x80, 0])) (Receiving IO_ASYNCH_REPLY, s') \<and> sent s' = sent s"
proof -
  obtain s0 key where s0: "app_run sample_crypto sample_firmware (Main_Head, sample_app) [] (Receiving 0, s0)" "idle 0 s0"
    "path_key sample_crypto (path_words sample_path) (path_length sample_path) (public_key (gpk s0)) = Inr (key, sample_key)"
    using sample_state by blast
  have p: "path_ok sample_path" "length sample_path \<le> 255" "unat P2_HEX \<le> 0x80"
    by (simp_all add: path_ok_def sample_path_def const_defs)
  from key_question [OF sample_crypto_ok s0(2) p s0(3), of sample_firmware] obtain s where
    s: "app_run sample_crypto sample_firmware (Receiving 0, s0) [Apdu (apdu_bytes INS_GET_PUBLIC_KEY P1_CONFIRM P2_HEX sample_path)]
      (Receiving IO_ASYNCH_REPLY, s)" "ux s = Public_Key_Approve" by (auto simp: asks_key_def)
  then have a: "approving s" by (simp add: approving_def)
  let ?ev = "Apdu [0xE0, 0x02, 0, 0x80, 0]"
  obtain c s' where st: "app_step sample_crypto sample_firmware (Receiving IO_ASYNCH_REPLY, s) (Some ?ev) (c, s')"
    using app_step.receive [of sample_crypto sample_firmware IO_ASYNCH_REPLY s ?ev] by (metis surj_pair)
  note run = app_run_trans [OF s0(1) s(1)]
  from approval_decides [OF sample_crypto_ok sample_firmware_ok sample_app_base run a st] have
    "c = Receiving IO_ASYNCH_REPLY" "sent s' = sent s" by (auto simp: releases_def)
  with run s(2) st show ?thesis by blast
qed

section \<open>The exit command after an approval\<close>

text \<open>A device that waits in the \<open>io_exchange\<close> call of a command whose reply has been sent after
  the approval: the channel still has the flag \<open>IO_ASYNCH_REPLY\<close>.\<close>

definition answered :: "app \<Rightarrow> bool" where
  "answered s \<longleftrightarrow> config_inv (Receiving IO_ASYNCH_REPLY, s) \<and> apdu_media s = IO_APDU_MEDIA_NONE"

lemma answered_buffer: "answered s \<Longrightarrow> length (G_io_apdu_buffer s) = 337 \<and> \<not> approving s"
  by (auto simp: answered_def base_ok_def IO_APDU_BUFFER_SIZE_def)

text \<open>
Property C12: the reserved command \<open>B0 A7 00 00\<close>, which makes the application exit after a
reply of 9000, hangs the device when it is the first command after an approved one:
\<open>io_exchange\<close> still holds the flag \<open>IO_ASYNCH_REPLY\<close>, so no reply is sent and the exit does
not happen, and as the command counts as unanswered, every further command is dropped.
\<close>

theorem exit_command_hangs:
  assumes "answered s"
  shows "\<exists>s'. app_run C F (Receiving IO_ASYNCH_REPLY, s) [Apdu [0xB0, 0xA7, 0x00, 0x00]]
        (Receiving (IO_ASYNCH_REPLY OR IO_RESET_AFTER_REPLIED), s')
    \<and> sent s' = sent s
    \<and> (\<forall>data. receive C F (IO_ASYNCH_REPLY OR IO_RESET_AFTER_REPLIED) (Apdu data) s'
          = (Receiving (IO_ASYNCH_REPLY OR IO_RESET_AFTER_REPLIED), s'))"
proof -
  let ?apdu = "[0xB0, 0xA7, 0x00, 0x00] :: u8 list" and ?ch = "IO_ASYNCH_REPLY OR IO_RESET_AFTER_REPLIED"
  let ?s1 = "s\<lparr>G_io_apdu_buffer := ?apdu @ drop 4 (G_io_apdu_buffer s), apdu_media := IO_APDU_MEDIA_USB_HID, apdu_length := 4\<rparr>"
  let ?s2 = "s\<lparr>G_io_apdu_buffer := [0x90, 0x00, 0x00, 0x00] @ drop 4 (G_io_apdu_buffer s),
    apdu_media := IO_APDU_MEDIA_USB_HID, apdu_length := 0\<rparr>"
  have l: "length (G_io_apdu_buffer s) = 337" "apdu_media s = IO_APDU_MEDIA_NONE"
    using answered_buffer [OF assms] assms by (simp_all add: answered_def)
  have h: "io_seproxyhal_handle_event (Apdu ?apdu) s = (Inr None, ?s1)"
    using l by (simp add: io_seproxyhal_handle_event_def bind_c_def modify_c_def return_c_def usb_receive_def Let_def)
      (simp add: eval_nat_numeral)
  have rs: "reserved_apdu F IO_ASYNCH_REPLY (?apdu @ drop 4 (G_io_apdu_buffer s))
      = Some (Inr ([0x90, 0x00, 0x00, 0x00] @ drop 4 (G_io_apdu_buffer s), 2, ?ch))"
    using l(1) by (simp add: reserved_apdu_def buf_write_def)
  have as: "?ch AND IO_ASYNCH_REPLY \<noteq> 0" by (simp add: const_defs)
  have r: "receive C F IO_ASYNCH_REPLY (Apdu ?apdu) s = (Receiving ?ch, ?s2)"
    using rs io_exchange_tx_asynch [OF as]
    by (simp add: receive_def io_exchange_rx_def bind_c_def h gets_c_def io_exchange_apdu_def lift_c_def modify_c_def return_c_def)
  have d: "receive C F ?ch (Apdu data) ?s2 = (Receiving ?ch, ?s2)" for data
    by (simp add: receive_def io_exchange_rx_def io_seproxyhal_handle_event_def bind_c_def modify_c_def return_c_def
        usb_receive_def gets_c_def)
  have "app_run C F (Receiving IO_ASYNCH_REPLY, s) [Apdu ?apdu] (Receiving ?ch, ?s2)"
    by (rule app_run_event [OF r], rule app_run.none)
  with d show ?thesis by (intro exI [of _ ?s2]) simp
qed

theorem exit_command_hangs_witness:
  "\<exists>s evs s'. app_run sample_crypto sample_firmware (Main_Head, sample_app) evs (Receiving IO_ASYNCH_REPLY, s)
     \<and> app_run sample_crypto sample_firmware (Receiving IO_ASYNCH_REPLY, s) [Apdu [0xB0, 0xA7, 0x00, 0x00]]
        (Receiving (IO_ASYNCH_REPLY OR IO_RESET_AFTER_REPLIED), s') \<and> sent s' = sent s"
proof -
  obtain s0 key where s0: "app_run sample_crypto sample_firmware (Main_Head, sample_app) [] (Receiving 0, s0)" "idle 0 s0"
    "path_key sample_crypto (path_words sample_path) (path_length sample_path) (public_key (gpk s0)) = Inr (key, sample_key)"
    using sample_state by blast
  have p: "path_ok sample_path" "length sample_path \<le> 255" "unat P2_HEX \<le> 0x80"
    by (simp_all add: path_ok_def sample_path_def const_defs)
  from key_question [OF sample_crypto_ok s0(2) p s0(3), of sample_firmware] obtain s1 where
    s1: "app_run sample_crypto sample_firmware (Receiving 0, s0) [Apdu (apdu_bytes INS_GET_PUBLIC_KEY P1_CONFIRM P2_HEX sample_path)]
      (Receiving IO_ASYNCH_REPLY, s1)" "ux s1 = Public_Key_Approve" "config_inv (Receiving IO_ASYNCH_REPLY, s1)"
      "G_ux_os s1 = io_seproxyhal_init_button" unfolding asks_key_def by blast
  have a: "approving s1" using s1(2) by (simp add: approving_def)
  have w: "waiting IO_ASYNCH_REPLY s1" using s1(3) by (simp only: waiting_def)
  have "\<exists>s2. button_push_handler (ux s1) (BUTTON_EVT_RELEASED OR BUTTON_RIGHT) s1 = (Inr None, s2)
      \<and> waiting IO_ASYNCH_REPLY s2 \<and> apdu_media s2 = IO_APDU_MEDIA_NONE"
    using pk_accept [OF w s1(2)] unfolding s1(2) by blast
  from press_run [OF s1(3) a s1(4) _ this, of sample_crypto sample_firmware] obtain s where
    s: "app_run sample_crypto sample_firmware (Receiving IO_ASYNCH_REPLY, s1) (press BUTTON_RIGHT) (Receiving IO_ASYNCH_REPLY, s)"
      "answered s" by (auto simp: waiting_def answered_def)
  note run = app_run_trans [OF app_run_trans [OF s0(1) s1(1)] s(1)]
  from exit_command_hangs [OF s(2), of sample_crypto sample_firmware] run show ?thesis by blast
qed

end
