(* ===== verification/Display.thy ===== *)
theory Display
  imports Signing
begin

text \<open>
  What the user sees: the element arrays of the screens (\<open>ui.h\<close>, \<open>get_public_key.c\<close>,
  \<open>sign_message.c\<close>, \<open>lib_ux/src/ux_legacy.c\<close>), the loop that draws them one by one
  (\<open>lib_ux/include/ux.h\<close>) and the packets that \<open>io_seproxyhal_display_default\<close> of
  \<open>os_io_seproxyhal.c\<close> sends to the display for an element.

  An element is drawn by a status packet, and a second one may only be sent after the next
  event has been received; so a screen is drawn over several events.  The state of the
  application \<open>s\<close> is read while drawing and not changed: texts are arrays of its contexts.

  Parameters, in the record \<open>screen_env\<close>: the bitmaps of the menu icons, which the build
  generates; which tags the firmware's \<open>io_seproxyhal_spi_is_status_sent\<close> counts as a status;
  and whether the device is unlocked (or not yet set up).
\<close>

section \<open>Components and elements\<close>

definition BAGL_NONE :: u8 where [const_defs]: "BAGL_NONE = 0"
definition BAGL_RECTANGLE :: u8 where [const_defs]: "BAGL_RECTANGLE = 3"
definition BAGL_ICON :: u8 where [const_defs]: "BAGL_ICON = 5"
definition BAGL_LABELINE :: u8 where [const_defs]: "BAGL_LABELINE = 7"
definition BAGL_FLAG_TOUCHABLE :: u8 where [const_defs]: "BAGL_FLAG_TOUCHABLE = 0x80"
definition BAGL_FILL :: u8 where [const_defs]: "BAGL_FILL = 1"
definition BAGL_FONT_OPEN_SANS_EXTRABOLD_11px :: u16 where [const_defs]: "BAGL_FONT_OPEN_SANS_EXTRABOLD_11px = 8"
definition BAGL_FONT_OPEN_SANS_REGULAR_11px :: u16 where [const_defs]: "BAGL_FONT_OPEN_SANS_REGULAR_11px = 10"
definition BAGL_FONT_ALIGNMENT_CENTER :: u16 where [const_defs]: "BAGL_FONT_ALIGNMENT_CENTER = 0x8000"
definition BAGL_GLYPH_ICON_CHECK :: u8 where [const_defs]: "BAGL_GLYPH_ICON_CHECK = 6"
definition BAGL_GLYPH_ICON_CROSS :: u8 where [const_defs]: "BAGL_GLYPH_ICON_CROSS = 7"
definition BAGL_GLYPH_ICON_LEFT :: u8 where [const_defs]: "BAGL_GLYPH_ICON_LEFT = 9"
definition BAGL_GLYPH_ICON_RIGHT :: u8 where [const_defs]: "BAGL_GLYPH_ICON_RIGHT = 10"
definition BAGL_GLYPH_ICON_UP :: u8 where [const_defs]: "BAGL_GLYPH_ICON_UP = 11"
definition BAGL_GLYPH_ICON_DOWN :: u8 where [const_defs]: "BAGL_GLYPH_ICON_DOWN = 12"
definition SEPROXYHAL_TAG_SCREEN_DISPLAY_STATUS :: u8 where [const_defs]:
  "SEPROXYHAL_TAG_SCREEN_DISPLAY_STATUS = 0x65"
definition SEPROXYHAL_TAG_GENERAL_STATUS :: u8 where [const_defs]: "SEPROXYHAL_TAG_GENERAL_STATUS = 0x60"
definition SEPROXYHAL_TAG_GENERAL_STATUS_LAST_COMMAND :: u16 where [const_defs]:
  "SEPROXYHAL_TAG_GENERAL_STATUS_LAST_COMMAND = 0"

record bagl_component =
  comp_type :: u8
  comp_userid :: u8
  comp_x :: u16
  comp_y :: u16
  comp_width :: u16
  comp_height :: u16
  comp_stroke :: u8
  comp_radius :: u8
  comp_fill :: u8
  comp_fgcolor :: u32
  comp_bgcolor :: u32
  font_id :: u16
  icon_id :: u8

text \<open>
  The bytes of a \<open>bagl_component_t\<close>, as the compiler lays it out for the ARM with
  \<open>-fshort-enums -mlittle-endian\<close> (\<open>Makefile.defines\<close>); the padding is zero.
\<close>

definition le16 :: "u16 \<Rightarrow> u8 list" where
  "le16 w = [ucast w, ucast (drop_bit 8 w)]"

definition le32 :: "u32 \<Rightarrow> u8 list" where
  "le32 w = [ucast w, ucast (drop_bit 8 w), ucast (drop_bit 16 w), ucast (drop_bit 24 w)]"

definition component_bytes :: "bagl_component \<Rightarrow> u8 list" where
  "component_bytes c =
     [comp_type c, comp_userid c] @ le16 (comp_x c) @ le16 (comp_y c) @ le16 (comp_width c)
     @ le16 (comp_height c) @ [comp_stroke c, comp_radius c, comp_fill c, 0, 0, 0]
     @ le32 (comp_fgcolor c) @ le32 (comp_bgcolor c) @ le16 (font_id c) @ [icon_id c, 0]"

definition sizeof_component :: nat where
  "sizeof_component = 28"

lemma length_component_bytes: "length (component_bytes c) = sizeof_component"
  by (simp add: component_bytes_def le16_def le32_def sizeof_component_def)

text \<open>The \<open>text\<close> pointer of an element: null, the characters of an array, or an icon.\<close>

datatype element_text = Null_Text | Chars "u8 list" | Icon_Text menu_icon

record bagl_element =
  el_component :: bagl_component
  el_text :: element_text

definition literal :: "string \<Rightarrow> element_text" where
  "literal t = Chars (chars_2_bytes t @ [0])"

text \<open>The layout macros of \<open>ui.h\<close>.\<close>

definition UI_BACKGROUND :: bagl_element where
  "UI_BACKGROUND =
     \<lparr>el_component = \<lparr>comp_type = BAGL_RECTANGLE, comp_userid = 0, comp_x = 0, comp_y = 0, comp_width = 128,
        comp_height = 32, comp_stroke = 0, comp_radius = 0, comp_fill = BAGL_FILL, comp_fgcolor = 0,
        comp_bgcolor = 0xFFFFFF, font_id = 0, icon_id = 0\<rparr>, el_text = Null_Text\<rparr>"

definition UI_ICON_LEFT :: "u8 \<Rightarrow> u8 \<Rightarrow> bagl_element" where
  "UI_ICON_LEFT user_id glyph =
     \<lparr>el_component = \<lparr>comp_type = BAGL_ICON, comp_userid = user_id, comp_x = 3, comp_y = 12, comp_width = 7,
        comp_height = 7, comp_stroke = 0, comp_radius = 0, comp_fill = 0, comp_fgcolor = 0xFFFFFF,
        comp_bgcolor = 0, font_id = 0, icon_id = glyph\<rparr>, el_text = Null_Text\<rparr>"

definition UI_ICON_RIGHT :: "u8 \<Rightarrow> u8 \<Rightarrow> bagl_element" where
  "UI_ICON_RIGHT user_id glyph =
     \<lparr>el_component = \<lparr>comp_type = BAGL_ICON, comp_userid = user_id, comp_x = 117, comp_y = 13, comp_width = 8,
        comp_height = 6, comp_stroke = 0, comp_radius = 0, comp_fill = 0, comp_fgcolor = 0xFFFFFF,
        comp_bgcolor = 0, font_id = 0, icon_id = glyph\<rparr>, el_text = Null_Text\<rparr>"

definition UI_TEXT :: "u8 \<Rightarrow> u16 \<Rightarrow> u16 \<Rightarrow> u16 \<Rightarrow> element_text \<Rightarrow> bagl_element" where
  "UI_TEXT user_id x y w t =
     \<lparr>el_component = \<lparr>comp_type = BAGL_LABELINE, comp_userid = user_id, comp_x = x, comp_y = y, comp_width = w,
        comp_height = 12, comp_stroke = 0, comp_radius = 0, comp_fill = 0, comp_fgcolor = 0xFFFFFF,
        comp_bgcolor = 0, font_id = BAGL_FONT_OPEN_SANS_REGULAR_11px OR BAGL_FONT_ALIGNMENT_CENTER,
        icon_id = 0\<rparr>, el_text = t\<rparr>"

section \<open>The screens\<close>

definition ui_get_public_key_compare :: "ui_context \<Rightarrow> bagl_element list" where
  "ui_get_public_key_compare ui =
     [UI_BACKGROUND,
      UI_ICON_LEFT LEFT_ICON_ID BAGL_GLYPH_ICON_LEFT,
      UI_ICON_RIGHT RIGHT_ICON_ID BAGL_GLYPH_ICON_RIGHT,
      UI_TEXT LINE_1_ID 0 12 128 (literal ''Public Key''),
      UI_TEXT LINE_2_ID 0 26 128 (Chars (partial_msg ui))]"

definition ui_get_public_key_approve :: "ui_context \<Rightarrow> bagl_element list" where
  "ui_get_public_key_approve ui =
     [UI_BACKGROUND,
      UI_ICON_LEFT LEFT_ICON_ID BAGL_GLYPH_ICON_CROSS,
      UI_ICON_RIGHT RIGHT_ICON_ID BAGL_GLYPH_ICON_CHECK,
      UI_TEXT LINE_1_ID 0 12 128 (literal ''Export Public''),
      UI_TEXT LINE_2_ID 0 26 128 (Chars (approve_l2 ui))]"

definition ui_sign_message_compare :: "ui_context \<Rightarrow> bagl_element list" where
  "ui_sign_message_compare ui =
     [UI_BACKGROUND,
      UI_ICON_LEFT LEFT_ICON_ID BAGL_GLYPH_ICON_LEFT,
      UI_ICON_RIGHT RIGHT_ICON_ID BAGL_GLYPH_ICON_RIGHT,
      UI_TEXT LINE_1_ID 0 12 128 (literal ''Signature''),
      UI_TEXT LINE_2_ID 0 24 128 (Chars (partial_msg ui))]"

definition ui_sign_message_approve :: "ui_context \<Rightarrow> bagl_element list" where
  "ui_sign_message_approve ui =
     [UI_BACKGROUND,
      UI_ICON_LEFT LEFT_ICON_ID BAGL_GLYPH_ICON_CROSS,
      UI_ICON_RIGHT RIGHT_ICON_ID BAGL_GLYPH_ICON_CHECK,
      UI_TEXT LINE_1_ID 0 12 128 (literal ''Sign Transaction''),
      UI_TEXT LINE_2_ID 0 24 128 (Chars (approve_l2 ui))]"

text \<open>The elements of the menu screen: \<open>ux_menu_elements\<close> of \<open>ux_legacy.c\<close>.\<close>

definition menu_element :: "u8 \<Rightarrow> u8 \<Rightarrow> u16 \<times> u16 \<times> u16 \<times> u16 \<Rightarrow> u8 \<Rightarrow> u32 \<times> u32 \<Rightarrow> u16 \<Rightarrow> u8 \<Rightarrow> bagl_element" where
  "menu_element ty user_id area fill colors font glyph =
     (case (area, colors) of ((x, y, w, h), (fg, bg)) \<Rightarrow>
     \<lparr>el_component = \<lparr>comp_type = ty, comp_userid = user_id, comp_x = x, comp_y = y, comp_width = w,
        comp_height = h, comp_stroke = 0, comp_radius = 0, comp_fill = fill, comp_fgcolor = fg,
        comp_bgcolor = bg, font_id = font, icon_id = glyph\<rparr>, el_text = Null_Text\<rparr>)"

definition ux_menu_elements :: "bagl_element list" where
  "ux_menu_elements =
     (let regular = BAGL_FONT_OPEN_SANS_REGULAR_11px OR BAGL_FONT_ALIGNMENT_CENTER;
          bold = BAGL_FONT_OPEN_SANS_EXTRABOLD_11px OR BAGL_FONT_ALIGNMENT_CENTER
      in
     [menu_element BAGL_RECTANGLE 0x80 (0, 0, 128, 32) BAGL_FILL (0, 0xFFFFFF) 0 0,
      menu_element BAGL_ICON 0x81 (3, 14, 7, 4) 0 (0xFFFFFF, 0) 0 BAGL_GLYPH_ICON_UP,
      menu_element BAGL_ICON 0x82 (118, 14, 7, 4) 0 (0xFFFFFF, 0) 0 BAGL_GLYPH_ICON_DOWN,
      menu_element BAGL_LABELINE 0x41 (14, 3, 100, 12) 0 (0xFFFFFF, 0) regular 0,
      menu_element BAGL_LABELINE 0x42 (14, 35, 100, 12) 0 (0xFFFFFF, 0) regular 0,
      menu_element BAGL_ICON 0x10 (14, 9, 0, 0) 0 (0xFFFFFF, 0) 0 0,
      menu_element BAGL_LABELINE 0x20 (14, 19, 100, 12) 0 (0xFFFFFF, 0) bold 0,
      menu_element BAGL_LABELINE 0x21 (14, 12, 100, 12) 0 (0xFFFFFF, 0) bold 0,
      menu_element BAGL_LABELINE 0x22 (14, 26, 100, 12) 0 (0xFFFFFF, 0) bold 0])"

text \<open>
  \<open>ux_menu_element_preprocessor\<close>: it copies the element and fills in what the selected
  entry and its neighbours say; \<open>None\<close> hides the element.
\<close>

definition line_text :: "string option \<Rightarrow> element_text" where
  "line_text l = (case l of None \<Rightarrow> Null_Text | Some t \<Rightarrow> literal t)"

definition adjust_text_x :: "ux_menu_entry \<Rightarrow> bagl_element \<Rightarrow> bagl_element" where
  "adjust_text_x entry tmp =
     (if text_x entry \<noteq> 0
      then tmp\<lparr>el_component := (el_component tmp)\<lparr>comp_x := ucast (text_x entry),
             font_id := BAGL_FONT_OPEN_SANS_EXTRABOLD_11px\<rparr>\<rparr>
      else tmp)"

definition neighbour :: "bool \<Rightarrow> ux_menu_state \<Rightarrow> u32 \<Rightarrow> exn + ux_menu_entry option" where
  "neighbour exists m idx = (if exists then bindE (ux_menu_get_entry m idx) (\<lambda>e. Inr (Some e)) else Inr None)"

definition ux_menu_element_preprocessor :: "ux_menu_state \<Rightarrow> bagl_element \<Rightarrow> exn + bagl_element option" where
  "ux_menu_element_preprocessor m tmp =
     bindE (ux_menu_get_entry m (current_entry m)) (\<lambda>current.
     bindE (neighbour (current_entry m \<noteq> 0) m (current_entry m - 1)) (\<lambda>previous.
     bindE (neighbour (current_entry m < menu_entries_count m - 1) m (current_entry m + 1)) (\<lambda>next.
     let user_id = comp_userid (el_component tmp)
     in Inr
       (if user_id = 0x81 then
          (if current_entry m = 0 then None else Some tmp)
        else if user_id = 0x82 then
          (if current_entry m = menu_entries_count m - 1 then None else Some tmp)
        else if user_id = 0x41 then
          (if line2 current \<noteq> None \<or> icon current \<noteq> None \<or> current_entry m = 0 \<or> menu_entries_count m = 1
           then None
           else case previous of
               None \<Rightarrow> None
             | Some p \<Rightarrow> if icon p \<noteq> None \<or> line2 p \<noteq> None then None
                        else Some (tmp\<lparr>el_text := line_text (line1 p)\<rparr>))
        else if user_id = 0x42 then
          (if line2 current \<noteq> None \<or> icon current \<noteq> None \<or> current_entry m = menu_entries_count m - 1
              \<or> menu_entries_count m = 1
           then None
           else case next of
               None \<Rightarrow> None
             | Some n \<Rightarrow> if icon n \<noteq> None then None
                        else Some (tmp\<lparr>el_text := line_text (line1 n)\<rparr>))
        else if user_id = 0x10 then
          (case icon current of
             None \<Rightarrow> None
           | Some i \<Rightarrow>
               let tmp = tmp\<lparr>el_text := Icon_Text i\<rparr>
               in Some (if icon_x current \<noteq> 0
                        then tmp\<lparr>el_component := (el_component tmp)\<lparr>comp_x := ucast (icon_x current)\<rparr>\<rparr>
                        else tmp))
        else if user_id = 0x20 then
          (if line2 current \<noteq> None then None
           else Some (adjust_text_x current (tmp\<lparr>el_text := line_text (line1 current)\<rparr>)))
        else if user_id = 0x21 then
          (if line2 current = None then None
           else Some (adjust_text_x current (tmp\<lparr>el_text := line_text (line1 current)\<rparr>)))
        else if user_id = 0x22 then
          (if line2 current = None then None
           else Some (adjust_text_x current (tmp\<lparr>el_text := line_text (line2 current)\<rparr>)))
        else Some tmp))))"

text \<open>What \<open>UX_DISPLAY\<close> stores in \<open>ux.elements\<close> and \<open>ux.elements_preprocessor\<close>.\<close>

definition ux_elements :: "app \<Rightarrow> bagl_element list" where
  "ux_elements s =
     (case ux s of
        No_Screen \<Rightarrow> []
      | Menu_Screen \<Rightarrow> ux_menu_elements
      | Public_Key_Approve \<Rightarrow> ui_get_public_key_approve (gpk_ui (gpk s))
      | Public_Key_Compare \<Rightarrow> ui_get_public_key_compare (gpk_ui (gpk s))
      | Message_Approve \<Rightarrow> ui_sign_message_approve (sgn_ui (sgn s))
      | Message_Compare \<Rightarrow> ui_sign_message_compare (sgn_ui (sgn s)))"

definition ux_preprocessor :: "app \<Rightarrow> bagl_element \<Rightarrow> exn + bagl_element option" where
  "ux_preprocessor s el =
     (case ux s of
        Menu_Screen \<Rightarrow> ux_menu_element_preprocessor (ux_menu s) el
      | Public_Key_Compare \<Rightarrow>
          Inr (if ui_prepro_get_public_key_compare s (comp_userid (el_component el)) then Some el else None)
      | Message_Compare \<Rightarrow>
          Inr (if ui_prepro_sign_message_compare s (comp_userid (el_component el)) then Some el else None)
      | _ \<Rightarrow> Inr (Some el))"

section \<open>Packets to the display\<close>

record icon_details =
  icon_width :: u32
  icon_height :: u32
  icon_bpp :: u32
  icon_colors :: "u8 list"
  icon_bitmap :: "u8 list option"

record screen_env =
  glyphs :: "menu_icon \<Rightarrow> icon_details"
  is_status :: "u8 \<Rightarrow> bool"
  unlocked :: bool

text \<open>The element that is drawn next, whether a status has been sent since the last event, and
  all bytes sent to the display and the MCU.\<close>

record drawing =
  elements_current :: u32
  status_sent :: bool
  spi_out :: "u8 list"

definition io_seproxyhal_spi_send :: "screen_env \<Rightarrow> u8 list \<Rightarrow> (drawing, unit) cm" where
  "io_seproxyhal_spi_send E bytes = modify_c (\<lambda>dr.
     dr\<lparr>status_sent := status_sent dr \<or> (bytes \<noteq> [] \<and> is_status E (hd bytes)), spi_out := spi_out dr @ bytes\<rparr>)"

definition io_seproxyhal_general_status :: "screen_env \<Rightarrow> (drawing, unit) cm" where
  "io_seproxyhal_general_status E =
     bind_c (gets_c status_sent) (\<lambda>is_sent.
     if is_sent then return_c ()
     else io_seproxyhal_spi_send E
       [SEPROXYHAL_TAG_GENERAL_STATUS, 0, 2, ucast (drop_bit 8 SEPROXYHAL_TAG_GENERAL_STATUS_LAST_COMMAND),
        ucast SEPROXYHAL_TAG_GENERAL_STATUS_LAST_COMMAND])"

text \<open>\<open>strlen\<close> of the characters behind a pointer.\<close>

definition strlen :: "u8 list \<Rightarrow> exn + nat" where
  "strlen cs = (if 0 \<in> set cs then Inr (length (takeWhile (\<lambda>c. c \<noteq> 0) cs)) else Inl Fault)"

definition status_header :: "u16 \<Rightarrow> u8 list" where
  "status_header len = [SEPROXYHAL_TAG_SCREEN_DISPLAY_STATUS, ucast (drop_bit 8 len), ucast len]"

definition io_seproxyhal_display_icon :: "screen_env \<Rightarrow> bagl_component \<Rightarrow> icon_details \<Rightarrow> (drawing, unit) cm" where
  "io_seproxyhal_display_icon E icon_component details =
     (case icon_bitmap details of
        None \<Rightarrow> return_c ()
      | Some bitmap \<Rightarrow>
          let icon_component = icon_component\<lparr>comp_width := ucast (icon_width details),
                comp_height := ucast (icon_height details)\<rparr>;
              h = push_bit (unat (icon_bpp details)) 1 * 4 :: u32;
              bits = ucast (comp_width icon_component) * ucast (comp_height icon_component) * icon_bpp details;
              w = bits div 8 + (if bits mod 8 \<noteq> 0 then 1 else 0);
              len = of_nat sizeof_component + 1 + ucast h + ucast w
          in bind_c (io_seproxyhal_spi_send E (status_header len)) (\<lambda>_.
             bind_c (io_seproxyhal_spi_send E (component_bytes icon_component)) (\<lambda>_.
             bind_c (io_seproxyhal_spi_send E [ucast (icon_bpp details)]) (\<lambda>_.
             bind_c (lift_c (buf_read (icon_colors details) 0 (unat (ucast h :: u16)))) (\<lambda>colors.
             bind_c (io_seproxyhal_spi_send E colors) (\<lambda>_.
             bind_c (lift_c (buf_read bitmap 0 (unat (ucast w :: u16)))) (\<lambda>bytes.
             io_seproxyhal_spi_send E bytes)))))))"

text \<open>
  \<open>io_seproxyhal_display_default\<close>; reading an icon as a string, or a string as an icon, is
  the value \<open>Fault\<close>.
\<close>

definition io_seproxyhal_display_default :: "screen_env \<Rightarrow> bagl_element \<Rightarrow> (drawing, unit) cm" where
  "io_seproxyhal_display_default E element =
     (let type = comp_type (el_component element) AND NOT BAGL_FLAG_TOUCHABLE
      in bind_c (gets_c status_sent) (\<lambda>is_sent.
         if is_sent then return_c ()
         else if type \<noteq> BAGL_NONE then
           (case el_text element of
              Null_Text \<Rightarrow>
                bind_c (io_seproxyhal_spi_send E (status_header (of_nat sizeof_component))) (\<lambda>_.
                io_seproxyhal_spi_send E (component_bytes (el_component element)))
            | Icon_Text i \<Rightarrow>
                if type = BAGL_ICON \<and> icon_id (el_component element) = 0
                then io_seproxyhal_display_icon E (el_component element) (glyphs E i)
                else throw_c Fault
            | Chars cs \<Rightarrow>
                if type = BAGL_ICON \<and> icon_id (el_component element) = 0 then throw_c Fault
                else
                  bind_c (lift_c (strlen cs)) (\<lambda>n.
                  let len = of_nat (sizeof_component + n)
                  in bind_c (io_seproxyhal_spi_send E (status_header len)) (\<lambda>_.
                     bind_c (io_seproxyhal_spi_send E (component_bytes (el_component element))) (\<lambda>_.
                     bind_c (lift_c (buf_read cs 0 (unat (len - of_nat sizeof_component)))) (\<lambda>chars.
                     io_seproxyhal_spi_send E chars)))))
         else return_c ()))"

text \<open>\<open>io_seproxyhal_display\<close> of \<open>ui.c\<close>\<close>

definition io_seproxyhal_display :: "screen_env \<Rightarrow> bagl_element \<Rightarrow> (drawing, unit) cm" where
  "io_seproxyhal_display E element = io_seproxyhal_display_default E element"

section \<open>The drawing loop\<close>

lemma spi_send_run:
  "io_seproxyhal_spi_send E bytes dr = (Inr (), dr\<lparr>status_sent := status_sent dr \<or> (bytes \<noteq> [] \<and> is_status E (hd bytes)),
     spi_out := spi_out dr @ bytes\<rparr>)"
  by (simp add: io_seproxyhal_spi_send_def modify_c_def)

text \<open>Drawing an element does not change the position in the array.\<close>

definition keeps_position :: "(drawing, 'a) cm \<Rightarrow> bool" where
  "keeps_position m \<longleftrightarrow> (\<forall>dr. elements_current (snd (m dr)) = elements_current dr)"

lemma keeps_position_bind:
  "keeps_position m \<Longrightarrow> (\<And>x. keeps_position (f x)) \<Longrightarrow> keeps_position (bind_c m f)"
  by (auto simp: keeps_position_def bind_c_def split: prod.splits sum.splits) (metis snd_conv)+

lemma keeps_position_basic:
  "keeps_position (io_seproxyhal_spi_send E bytes)" "keeps_position (return_c x)" "keeps_position (throw_c e)"
  "keeps_position (lift_c r)" "keeps_position (gets_c f)"
  by (simp_all add: keeps_position_def spi_send_run return_c_def throw_c_def lift_c_def gets_c_def)

lemma keeps_position_display: "keeps_position (io_seproxyhal_display E element)"
  unfolding io_seproxyhal_display_def io_seproxyhal_display_default_def io_seproxyhal_display_icon_def Let_def
  by (auto intro!: keeps_position_bind keeps_position_basic split: element_text.split option.split)

lemma display_position:
  "io_seproxyhal_display E element dr = (r, dr') \<Longrightarrow> elements_current dr' = elements_current dr"
  using keeps_position_display [of E element] by (metis keeps_position_def snd_conv)

lemma length_ux_elements: "length (ux_elements s) \<le> 9"
  by (cases "ux s") (simp_all add: ux_elements_def ux_menu_elements_def ui_get_public_key_approve_def
      ui_get_public_key_compare_def ui_sign_message_approve_def ui_sign_message_compare_def Let_def)

lemma next_element:
  assumes "unat (elements_current dr) < length (ux_elements s)"
  shows "unat (elements_current dr + 1) = Suc (unat (elements_current dr))"
  using assms length_ux_elements [of s] by (simp add: unat_word_ariths)

lemma next_closer:
  "unat (elements_current dr) < length (ux_elements s) \<Longrightarrow>
    length (ux_elements s) - unat (elements_current dr + 1) < length (ux_elements s) - unat (elements_current dr)"
  using next_element [of dr s] by simp

text \<open>\<open>UX_DISPLAY_NEXT_ELEMENT\<close>\<close>

function ux_display_next_element :: "screen_env \<Rightarrow> app \<Rightarrow> (drawing, unit) cm" where
  "ux_display_next_element E s dr =
     (if unat (elements_current dr) < length (ux_elements s) \<and> \<not> status_sent dr \<and> unlocked E then
        case ux_preprocessor s (ux_elements s ! unat (elements_current dr)) of
          Inl e \<Rightarrow> (Inl e, dr)
        | Inr None \<Rightarrow> ux_display_next_element E s (dr\<lparr>elements_current := elements_current dr + 1\<rparr>)
        | Inr (Some element) \<Rightarrow>
            (case io_seproxyhal_display E element dr of
               (Inl e, dr') \<Rightarrow> (Inl e, dr')
             | (Inr _, dr') \<Rightarrow> ux_display_next_element E s (dr'\<lparr>elements_current := elements_current dr' + 1\<rparr>))
      else (Inr (), dr))"
  by pat_completeness auto
termination
  by (relation "measure (\<lambda>(E, s, dr). length (ux_elements s) - unat (elements_current dr))")
    (auto dest!: display_position [OF sym] intro: next_closer)

declare ux_display_next_element.simps [simp del]

section \<open>Events\<close>

text \<open>
  What the firmware's own user interface says about an event, as read with
  \<open>os_sched_last_status\<close> after \<open>os_ux\<close>: three values are special, all others leave the event
  to the application.
\<close>

datatype ux_verdict = BOLOS_UX_OK | BOLOS_UX_REDRAW | BOLOS_UX_IGNORE | BOLOS_UX_CONTINUE

definition ux_busy :: "ux_verdict \<Rightarrow> bool" where
  "ux_busy v \<longleftrightarrow> v = BOLOS_UX_IGNORE \<or> v = BOLOS_UX_CONTINUE"

definition UX_REDISPLAY :: "screen_env \<Rightarrow> app \<Rightarrow> ux_verdict \<Rightarrow> (drawing, unit) cm" where
  "UX_REDISPLAY E s v =
     bind_c (modify_c (\<lambda>dr. dr\<lparr>elements_current := 0\<rparr>)) (\<lambda>_.
     if \<not> ux_busy v then ux_display_next_element E s else return_c ())"

definition UX_FORWARD_EVENT ::
  "screen_env \<Rightarrow> app \<Rightarrow> ux_verdict \<Rightarrow> (drawing, unit) cm \<Rightarrow> bool \<Rightarrow> (drawing, unit) cm" where
  "UX_FORWARD_EVENT E s v action ignoring_app_if_ux_busy =
     (if v = BOLOS_UX_REDRAW then UX_REDISPLAY E s v
      else if \<not> ignoring_app_if_ux_busy \<or> \<not> ux_busy v then action
      else return_c ())"

definition UX_DISPLAYED_EVENT :: "screen_env \<Rightarrow> app \<Rightarrow> ux_verdict \<Rightarrow> (drawing, unit) cm" where
  "UX_DISPLAYED_EVENT E s v = UX_FORWARD_EVENT E s v (ux_display_next_element E s) True"

text \<open>The application sets no callback interval, so the counter of the ticker stays zero.\<close>

definition UX_TICKER_EVENT :: "screen_env \<Rightarrow> app \<Rightarrow> ux_verdict \<Rightarrow> (drawing, unit) cm" where
  "UX_TICKER_EVENT E s v =
     UX_FORWARD_EVENT E s v (if \<not> ux_busy v then ux_display_next_element E s else return_c ()) False"

definition UX_DEFAULT_EVENT :: "screen_env \<Rightarrow> app \<Rightarrow> ux_verdict \<Rightarrow> (drawing, unit) cm" where
  "UX_DEFAULT_EVENT E s v = UX_FORWARD_EVENT E s v (ux_display_next_element E s) False"

text \<open>
  The half of \<open>io_event\<close> that draws, for the events that leave the application as it is: a
  display-processed event, a ticker, and the default case.  The reception of an event allows
  a new status, and the handler ends with a general status when nothing has been drawn.
\<close>

datatype screen_event = Display_Processed | Ticker | Default_Event

definition io_event_drawing :: "screen_env \<Rightarrow> app \<Rightarrow> screen_event \<times> ux_verdict \<Rightarrow> (drawing, unit) cm" where
  "io_event_drawing E s ev =
     bind_c (modify_c (\<lambda>dr. dr\<lparr>status_sent := False\<rparr>)) (\<lambda>_.
     bind_c (case fst ev of
         Display_Processed \<Rightarrow> UX_DISPLAYED_EVENT E s (snd ev)
       | Ticker \<Rightarrow> UX_TICKER_EVENT E s (snd ev)
       | Default_Event \<Rightarrow> UX_DEFAULT_EVENT E s (snd ev)) (\<lambda>_.
     bind_c (gets_c status_sent) (\<lambda>is_sent.
     if is_sent then return_c () else io_seproxyhal_general_status E)))"

fun io_events_drawing :: "screen_env \<Rightarrow> app \<Rightarrow> (screen_event \<times> ux_verdict) list \<Rightarrow> (drawing, unit) cm" where
  "io_events_drawing E s [] = return_c ()"
| "io_events_drawing E s (ev # evs) = bind_c (io_event_drawing E s ev) (\<lambda>_. io_events_drawing E s evs)"

section \<open>The packet of an element\<close>

definition packet_of :: "bagl_component \<Rightarrow> u8 list \<Rightarrow> u8 list" where
  "packet_of c t = status_header (of_nat (sizeof_component + length t)) @ component_bytes c @ t"

text \<open>The size of an icon's colors and bitmap; icons of the build fit the display.\<close>

definition color_bytes :: "icon_details \<Rightarrow> nat" where
  "color_bytes i = 4 * 2 ^ unat (icon_bpp i)"

definition bitmap_bytes :: "icon_details \<Rightarrow> nat" where
  "bitmap_bytes i = (unat (icon_width i) * unat (icon_height i) * unat (icon_bpp i) + 7) div 8"

definition icon_fits :: "icon_details \<Rightarrow> bool" where
  "icon_fits i \<longleftrightarrow> unat (icon_width i) \<le> 128 \<and> unat (icon_height i) \<le> 32 \<and> unat (icon_bpp i) \<le> 4
     \<and> color_bytes i \<le> length (icon_colors i)
     \<and> (case icon_bitmap i of None \<Rightarrow> False | Some b \<Rightarrow> bitmap_bytes i \<le> length b)"

definition icon_packet :: "bagl_component \<Rightarrow> icon_details \<Rightarrow> u8 list" where
  "icon_packet c i =
     packet_of (c\<lparr>comp_width := ucast (icon_width i), comp_height := ucast (icon_height i)\<rparr>)
       (ucast (icon_bpp i) # take (color_bytes i) (icon_colors i)
        @ take (bitmap_bytes i) (case icon_bitmap i of None \<Rightarrow> [] | Some b \<Rightarrow> b))"

definition element_packet :: "screen_env \<Rightarrow> bagl_element \<Rightarrow> exn + u8 list" where
  "element_packet E element =
     (let c = el_component element; type = comp_type c AND NOT BAGL_FLAG_TOUCHABLE;
          is_icon = (type = BAGL_ICON \<and> icon_id c = 0)
      in if type = BAGL_NONE then Inr []
         else case el_text element of
             Null_Text \<Rightarrow> Inr (packet_of c [])
           | Icon_Text i \<Rightarrow> if is_icon \<and> icon_fits (glyphs E i) then Inr (icon_packet c (glyphs E i)) else Inl Fault
           | Chars cs \<Rightarrow>
               if \<not> is_icon \<and> 0 \<in> set cs \<and> length (takeWhile (\<lambda>x. x \<noteq> 0) cs) < 2 ^ 15 then Inr (packet_of c (takeWhile (\<lambda>x. x \<noteq> 0) cs))
               else Inl Fault)"

text \<open>The packets of the elements that the preprocessor does not hide.\<close>

fun shown :: "screen_env \<Rightarrow> app \<Rightarrow> bagl_element list \<Rightarrow> exn + u8 list list" where
  "shown E s [] = Inr []"
| "shown E s (element # elements) =
     bindE (ux_preprocessor s element) (\<lambda>r.
     bindE (case r of None \<Rightarrow> Inr [] | Some element \<Rightarrow> element_packet E element) (\<lambda>p.
     bindE (shown E s elements) (\<lambda>ps. Inr (if p = [] then ps else p # ps))))"

text \<open>What is sent over a sequence of events: each event that is left to the application takes
  the next packet of the screen, and a general status answers the others.\<close>

definition general_status :: "u8 list" where
  "general_status = [0x60, 0, 2, 0, 0]"

fun packets_sent :: "u8 list list \<Rightarrow> bool list \<Rightarrow> u8 list" where
  "packets_sent ps [] = []"
| "packets_sent [] (_ # bs) = general_status @ packets_sent [] bs"
| "packets_sent (p # ps) (b # bs) = (if b then p @ packets_sent ps bs else general_status @ packets_sent (p # ps) bs)"

definition draws :: "screen_event \<times> ux_verdict \<Rightarrow> bool" where
  "draws ev \<longleftrightarrow> \<not> ux_busy (snd ev) \<or> fst ev = Default_Event"

text \<open>The firmware counts the two tags as a status.\<close>

definition statuses_ok :: "screen_env \<Rightarrow> bool" where
  "statuses_ok E \<longleftrightarrow> is_status E SEPROXYHAL_TAG_SCREEN_DISPLAY_STATUS \<and> is_status E SEPROXYHAL_TAG_GENERAL_STATUS"

section \<open>Drawing an element\<close>

lemma spi_send_sent:
  "status_sent dr \<Longrightarrow> io_seproxyhal_spi_send E bytes dr = (Inr (), dr\<lparr>spi_out := spi_out dr @ bytes\<rparr>)"
  by (cases dr) (simp add: spi_send_run)

lemma spi_send_header:
  "statuses_ok E \<Longrightarrow> io_seproxyhal_spi_send E (status_header len) dr
     = (Inr (), dr\<lparr>status_sent := True, spi_out := spi_out dr @ status_header len\<rparr>)"
  by (cases dr) (simp add: spi_send_run status_header_def statuses_ok_def)

lemma packet_not_Nil: "packet_of c t \<noteq> []"
  by (simp add: packet_of_def status_header_def)

lemma display_plain:
  assumes "statuses_ok E" "\<not> status_sent dr" "comp_type (el_component element) AND NOT BAGL_FLAG_TOUCHABLE \<noteq> BAGL_NONE"
    and "el_text element = Null_Text"
  shows "io_seproxyhal_display E element dr
    = (Inr (), dr\<lparr>status_sent := True, spi_out := spi_out dr @ packet_of (el_component element) []\<rparr>)"
  using assms
  by (simp add: io_seproxyhal_display_def io_seproxyhal_display_default_def bind_c_def gets_c_def spi_send_header
      spi_send_sent packet_of_def Let_def)

lemma take_strlen: "take (length (takeWhile P xs)) xs = takeWhile P xs"
  by (metis takeWhile_eq_take)

lemma display_chars:
  assumes "statuses_ok E" "\<not> status_sent dr" "comp_type (el_component element) AND NOT BAGL_FLAG_TOUCHABLE \<noteq> BAGL_NONE"
    and "\<not> (comp_type (el_component element) AND NOT BAGL_FLAG_TOUCHABLE = BAGL_ICON \<and> icon_id (el_component element) = 0)"
    and cs: "el_text element = Chars cs" "0 \<in> set cs" "length (takeWhile (\<lambda>x. x \<noteq> 0) cs) < 2 ^ 15"
  shows "io_seproxyhal_display E element dr = (Inr (), dr\<lparr>status_sent := True,
    spi_out := spi_out dr @ packet_of (el_component element) (takeWhile (\<lambda>x. x \<noteq> 0) cs)\<rparr>)"
proof -
  let ?n = "length (takeWhile (\<lambda>c. c \<noteq> 0) cs)"
  have n: "?n \<le> length cs" by (rule length_takeWhile_le)
  have "(of_nat (sizeof_component + ?n) - of_nat sizeof_component :: u16) = of_nat ?n" by simp
  moreover have "unat (of_nat ?n :: u16) = ?n"
    using n cs(3) by (simp add: unat_of_nat)
  ultimately show ?thesis
    using assms n
    by (auto simp: io_seproxyhal_display_def io_seproxyhal_display_default_def bind_c_def gets_c_def lift_c_def
        spi_send_header spi_send_sent packet_of_def strlen_def buf_read_def Let_def take_strlen del: of_nat_add)
qed

text \<open>The sizes the code computes for an icon that fits the display.\<close>

lemma icon_sizes:
  assumes "icon_fits i"
  defines "bits \<equiv> ucast (ucast (icon_width i) :: u16) * ucast (ucast (icon_height i) :: u16) * icon_bpp i"
  shows "unat (push_bit (unat (icon_bpp i)) 1 * 4 :: u32) = color_bytes i"
    and "unat (bits div 8 + (if bits mod 8 \<noteq> 0 then 1 else 0)) = bitmap_bytes i"
    and "color_bytes i \<le> 64" "bitmap_bytes i \<le> 2048"
proof -
  let ?w = "unat (icon_width i)" and ?h = "unat (icon_height i)" and ?b = "unat (icon_bpp i)"
  have w: "?w \<le> 128" "?h \<le> 32" "?b \<le> 4" using assms(1) by (simp_all add: icon_fits_def)
  have p: "(2::nat) ^ ?b \<le> 2 ^ 4" using w(3) by (intro power_increasing) simp_all
  then show "color_bytes i \<le> 64" by (simp add: color_bytes_def)
  show "unat (push_bit ?b 1 * 4 :: u32) = color_bytes i"
    using p by (simp add: unat_word_ariths unat_push_bit color_bytes_def del: push_bit_of_1)
  have m1: "?w * ?h \<le> 128 * 32" by (rule mult_le_mono [OF w(1,2)])
  have m: "?w * ?h * ?b \<le> 128 * 32 * 4" by (rule mult_le_mono [OF m1 w(3)])
  then show "bitmap_bytes i \<le> 2048" by (simp add: bitmap_bytes_def)
  have "unat bits = ?w * ?h * ?b"
    using w m m1 by (simp add: bits_def unat_word_ariths unat_ucast_mod)
  moreover have "(bits mod 8 = 0) = (unat bits mod 8 = 0)"
    using unat_eq_0 [of "bits mod 8"] by (simp add: unat_mod_distrib)
  moreover have "0 < n mod 8 \<Longrightarrow> Suc (n div 8) = (n + 7) div 8" "n mod 8 = 0 \<Longrightarrow> n div 8 = (n + 7) div 8" for n :: nat
    by presburger+
  ultimately show "unat (bits div 8 + (if bits mod 8 \<noteq> 0 then 1 else 0)) = bitmap_bytes i"
    using m by (auto simp: unat_word_ariths unat_div_distrib bitmap_bytes_def split: if_splits)
qed

lemma display_icon:
  assumes "statuses_ok E" "\<not> status_sent dr"
    and "comp_type (el_component element) AND NOT BAGL_FLAG_TOUCHABLE = BAGL_ICON" "icon_id (el_component element) = 0"
    and "el_text element = Icon_Text i" "icon_fits (glyphs E i)"
  shows "io_seproxyhal_display E element dr = (Inr (), dr\<lparr>status_sent := True,
    spi_out := spi_out dr @ icon_packet (el_component element) (glyphs E i)\<rparr>)"
proof -
  let ?i = "glyphs E i"
  obtain b where b: "icon_bitmap ?i = Some b" "bitmap_bytes ?i \<le> length b"
    using assms(6) by (auto simp: icon_fits_def split: option.splits)
  have c: "color_bytes ?i \<le> length (icon_colors ?i)" using assms(6) by (simp add: icon_fits_def)
  note s = icon_sizes [OF assms(6)]
  define h where "h = (push_bit (unat (icon_bpp ?i)) 1 * 4 :: u32)"
  define bits where "bits = ucast (ucast (icon_width ?i) :: u16) * ucast (ucast (icon_height ?i) :: u16) * icon_bpp ?i"
  define w where "w = bits div 8 + (if bits mod 8 \<noteq> 0 then 1 else 0)"
  have h: "unat h = color_bytes ?i" and w: "unat w = bitmap_bytes ?i"
    using s(1,2) by (simp_all only: h_def w_def bits_def)
  have hu: "ucast h = (of_nat (color_bytes ?i) :: u16)" "ucast w = (of_nat (bitmap_bytes ?i) :: u16)"
    by (simp_all flip: h w)
  have u: "unat (of_nat (color_bytes ?i) :: u16) = color_bytes ?i" "unat (of_nat (bitmap_bytes ?i) :: u16) = bitmap_bytes ?i"
    using s(3,4) by (simp_all add: unat_of_nat)
  let ?c = "(el_component element)\<lparr>comp_width := ucast (icon_width ?i), comp_height := ucast (icon_height ?i)\<rparr>"
  have "io_seproxyhal_display E element dr = io_seproxyhal_display_icon E (el_component element) ?i dr"
    using assms(2-5)
    by (simp add: io_seproxyhal_display_def io_seproxyhal_display_default_def bind_c_def gets_c_def Let_def const_defs)
  also have "io_seproxyhal_display_icon E (el_component element) ?i =
      bind_c (io_seproxyhal_spi_send E (status_header (of_nat sizeof_component + 1 + ucast h + ucast w))) (\<lambda>_.
      bind_c (io_seproxyhal_spi_send E (component_bytes ?c)) (\<lambda>_.
      bind_c (io_seproxyhal_spi_send E [ucast (icon_bpp ?i)]) (\<lambda>_.
      bind_c (lift_c (buf_read (icon_colors ?i) 0 (unat (ucast h :: u16)))) (\<lambda>colors.
      bind_c (io_seproxyhal_spi_send E colors) (\<lambda>_.
      bind_c (lift_c (buf_read b 0 (unat (ucast w :: u16)))) (\<lambda>bytes.
      io_seproxyhal_spi_send E bytes))))))"
    by (simp add: io_seproxyhal_display_icon_def b(1) Let_def h_def w_def bits_def)
  finally show ?thesis
    using assms(1) b c
    by (simp add: bind_c_def lift_c_def hu u spi_send_header spi_send_sent buf_read_def icon_packet_def packet_of_def
        ac_simps)
qed

lemma display_packet:
  assumes "statuses_ok E" "\<not> status_sent dr" "element_packet E element = Inr p"
  shows "io_seproxyhal_display E element dr = (Inr (), dr\<lparr>status_sent := p \<noteq> [], spi_out := spi_out dr @ p\<rparr>)"
proof (cases "comp_type (el_component element) AND NOT BAGL_FLAG_TOUCHABLE = BAGL_NONE")
  case True
  with assms show ?thesis
    by (cases dr) (simp add: io_seproxyhal_display_def io_seproxyhal_display_default_def bind_c_def gets_c_def
        return_c_def element_packet_def Let_def)
next
  case False
  show ?thesis
  proof (cases "el_text element")
    case Null_Text
    with False assms show ?thesis
      by (auto simp: element_packet_def Let_def packet_not_Nil display_plain)
  next
    case (Chars cs)
    with False assms(3) have "\<not> (comp_type (el_component element) AND NOT BAGL_FLAG_TOUCHABLE = BAGL_ICON
          \<and> icon_id (el_component element) = 0)" "0 \<in> set cs" "length (takeWhile (\<lambda>x. x \<noteq> 0) cs) < 2 ^ 15"
      "p = packet_of (el_component element) (takeWhile (\<lambda>x. x \<noteq> 0) cs)"
      by (simp_all add: element_packet_def Let_def split: if_splits)
    with False Chars show ?thesis
      using display_chars [OF assms(1,2) False] by (simp add: packet_not_Nil)
  next
    case (Icon_Text i)
    with False assms(3) have "comp_type (el_component element) AND NOT BAGL_FLAG_TOUCHABLE = BAGL_ICON"
      "icon_id (el_component element) = 0" "icon_fits (glyphs E i)" "p = icon_packet (el_component element) (glyphs E i)"
      by (simp_all add: element_packet_def Let_def split: if_splits)
    with Icon_Text show ?thesis
      using display_icon [OF assms(1,2)] by (simp add: icon_packet_def packet_not_Nil)
  qed
qed

section \<open>Drawing a screen\<close>

text \<open>The elements that are still to be drawn have the packets \<open>ps\<close>.\<close>

definition pending :: "screen_env \<Rightarrow> app \<Rightarrow> drawing \<Rightarrow> u8 list list \<Rightarrow> bool" where
  "pending E s dr ps \<longleftrightarrow> shown E s (drop (unat (elements_current dr)) (ux_elements s)) = Inr ps"

lemma draw_stops: "status_sent dr \<or> \<not> unlocked E \<Longrightarrow> ux_display_next_element E s dr = (Inr (), dr)"
  by (auto simp: ux_display_next_element.simps [of E s dr])

text \<open>The loop sends the next packet, or comes to the end of the array.\<close>

lemma draw_next:
  assumes E: "statuses_ok E" "unlocked E"
  shows "pending E s dr ps \<Longrightarrow> \<not> status_sent dr \<Longrightarrow>
    \<exists>n. ux_display_next_element E s dr = (Inr (), dr\<lparr>elements_current := n, status_sent := ps \<noteq> [],
        spi_out := spi_out dr @ concat (take 1 ps)\<rparr>)
      \<and> pending E s (dr\<lparr>elements_current := n\<rparr>) (tl ps)"
proof (induction "length (ux_elements s) - unat (elements_current dr)" arbitrary: dr rule: less_induct)
  case less
  let ?k = "unat (elements_current dr)"
  show ?case
  proof (cases "?k < length (ux_elements s)")
    case False
    with less.prems have "ps = []" by (simp add: pending_def)
    with False less.prems show ?thesis
      by (intro exI [of _ "elements_current dr"]) (simp add: ux_display_next_element.simps [of E s dr])
  next
    case True
    let ?e = "ux_elements s ! ?k"
    let ?dr = "dr\<lparr>elements_current := elements_current dr + 1\<rparr>"
    have d: "drop ?k (ux_elements s) = ?e # drop (unat (elements_current dr + 1)) (ux_elements s)"
      using True next_element [OF True] by (simp add: Cons_nth_drop_Suc)
    from less.prems(1) obtain r p qs where r: "ux_preprocessor s ?e = Inr r"
      and p: "(case r of None \<Rightarrow> Inr [] | Some element \<Rightarrow> element_packet E element) = Inr p"
      and q: "pending E s ?dr qs" "ps = (if p = [] then qs else p # qs)"
      by (auto simp: pending_def d bindE_eq_Inr)
    have closer: "length (ux_elements s) - unat (elements_current ?dr) < length (ux_elements s) - ?k"
      using next_closer [OF True] by simp
    show ?thesis
    proof (cases "p = []")
      case empty: True
      have "ux_display_next_element E s dr = ux_display_next_element E s ?dr"
      proof (cases r)
        case None
        then show ?thesis using True less.prems(2) E(2) r by (simp add: ux_display_next_element.simps [of E s dr])
      next
        case (Some element)
        with p empty display_packet [OF E(1) less.prems(2), of element "[]"]
        have "io_seproxyhal_display E element dr = (Inr (), dr)"
          using less.prems(2) by (cases dr) simp
        then show ?thesis using True less.prems(2) E(2) r Some by (simp add: ux_display_next_element.simps [of E s dr])
      qed
      with less.hyps [OF closer] q empty less.prems(2) show ?thesis by simp
    next
      case drawn: False
      with p obtain element where e: "r = Some element" "element_packet E element = Inr p"
        by (cases r) auto
      let ?d = "dr\<lparr>status_sent := True, spi_out := spi_out dr @ p, elements_current := elements_current dr + 1\<rparr>"
      have "ux_display_next_element E s dr = ux_display_next_element E s ?d"
        using True less.prems(2) E(2) r e drawn display_packet [OF E(1) less.prems(2) e(2)]
        by (simp add: ux_display_next_element.simps [of E s dr])
      also have "\<dots> = (Inr (), ?d)" by (rule draw_stops) simp
      finally have "ux_display_next_element E s dr = (Inr (), dr\<lparr>elements_current := elements_current dr + 1,
          status_sent := True, spi_out := spi_out dr @ p\<rparr>)" by simp
      with q drawn show ?thesis by (intro exI [of _ "elements_current dr + 1"]) simp
    qed
  qed
qed

lemma general_status_run:
  "statuses_ok E \<Longrightarrow> \<not> status_sent dr \<Longrightarrow> io_seproxyhal_general_status E dr
     = (Inr (), dr\<lparr>status_sent := True, spi_out := spi_out dr @ general_status\<rparr>)"
  by (simp add: io_seproxyhal_general_status_def bind_c_def gets_c_def spi_send_run statuses_ok_def general_status_def
      SEPROXYHAL_TAG_GENERAL_STATUS_def SEPROXYHAL_TAG_GENERAL_STATUS_LAST_COMMAND_def)

lemma packets_sent_step:
  "packets_sent ps (b # bs) = packets_sent ps [b] @ packets_sent (if b then tl ps else ps) bs"
  by (cases ps) simp_all

text \<open>One event: the next packet, or a general status.\<close>

lemma event_drawing:
  assumes E: "statuses_ok E" "unlocked E" and p: "pending E s dr ps" and v: "snd ev \<noteq> BOLOS_UX_REDRAW"
  shows "\<exists>n. io_event_drawing E s ev dr = (Inr (), dr\<lparr>elements_current := n, status_sent := True,
      spi_out := spi_out dr @ packets_sent ps [draws ev]\<rparr>)
    \<and> pending E s (dr\<lparr>elements_current := n\<rparr>) (if draws ev then tl ps else ps)"
proof -
  let ?dr = "dr\<lparr>status_sent := False\<rparr>"
  let ?m = "case fst ev of Display_Processed \<Rightarrow> UX_DISPLAYED_EVENT E s (snd ev)
     | Ticker \<Rightarrow> UX_TICKER_EVENT E s (snd ev) | Default_Event \<Rightarrow> UX_DEFAULT_EVENT E s (snd ev)"
  have m: "?m = (if draws ev then ux_display_next_element E s else return_c ())"
    using v by (cases "fst ev"; cases "snd ev") (simp_all add: UX_DISPLAYED_EVENT_def UX_TICKER_EVENT_def
        UX_DEFAULT_EVENT_def UX_FORWARD_EVENT_def draws_def ux_busy_def)
  show ?thesis
  proof (cases "draws ev")
    case True
    have "pending E s ?dr ps" using p by (simp add: pending_def)
    from draw_next [OF E this] obtain n where n: "ux_display_next_element E s ?dr = (Inr (),
        dr\<lparr>elements_current := n, status_sent := ps \<noteq> [], spi_out := spi_out dr @ concat (take 1 ps)\<rparr>)"
      "pending E s (?dr\<lparr>elements_current := n\<rparr>) (tl ps)" by auto
    have q: "pending E s (dr\<lparr>elements_current := n\<rparr>) (tl ps)" using n(2) by (simp add: pending_def)
    show ?thesis
    proof (cases ps)
      case Nil
      with n(1) q m True show ?thesis
        by (intro exI [of _ n]) (simp add: io_event_drawing_def bind_c_def modify_c_def gets_c_def
            general_status_run [OF E(1)])
    next
      case (Cons a as)
      with n(1) q m True show ?thesis
        by (intro exI [of _ n]) (simp add: io_event_drawing_def bind_c_def modify_c_def gets_c_def return_c_def)
    qed
  next
    case False
    with p m show ?thesis
      by (intro exI [of _ "elements_current dr"]) (cases ps; simp add: io_event_drawing_def bind_c_def modify_c_def
          gets_c_def return_c_def general_status_run [OF E(1)])
  qed
qed

lemma events_drawing:
  assumes E: "statuses_ok E" "unlocked E"
  shows "pending E s dr ps \<Longrightarrow> BOLOS_UX_REDRAW \<notin> snd ` set evs \<Longrightarrow>
    \<exists>dr'. io_events_drawing E s evs dr = (Inr (), dr') \<and> spi_out dr' = spi_out dr @ packets_sent ps (map draws evs)"
proof (induction evs arbitrary: dr ps)
  case Nil
  then show ?case by (simp add: return_c_def)
next
  case (Cons ev evs)
  from Cons.prems(2) have "snd ev \<noteq> BOLOS_UX_REDRAW" by auto
  from event_drawing [OF E Cons.prems(1) this] obtain n where
    n: "io_event_drawing E s ev dr = (Inr (), dr\<lparr>elements_current := n, status_sent := True,
      spi_out := spi_out dr @ packets_sent ps [draws ev]\<rparr>)" (is "_ = (_, ?dr)")
    and "pending E s (dr\<lparr>elements_current := n\<rparr>) (if draws ev then tl ps else ps)" by blast
  then have "pending E s ?dr (if draws ev then tl ps else ps)" by (simp add: pending_def)
  from Cons.IH [OF this] Cons.prems(2) show ?case
    by (auto simp: bind_c_def n packets_sent_step [of ps _ "map draws evs"])
qed

text \<open>A locked device answers every event with a general status.\<close>

lemma locked_event:
  assumes "statuses_ok E" "\<not> unlocked E"
  shows "\<exists>n. io_event_drawing E s ev dr = (Inr (), dr\<lparr>elements_current := n, status_sent := True,
    spi_out := spi_out dr @ general_status\<rparr>)"
proof -
  have d: "ux_display_next_element E s = return_c ()"
    using assms(2) by (simp add: fun_eq_iff draw_stops return_c_def)
  show ?thesis
    by (cases dr; cases "fst ev"; cases "snd ev = BOLOS_UX_REDRAW")
      (auto simp: io_event_drawing_def UX_DISPLAYED_EVENT_def UX_TICKER_EVENT_def UX_DEFAULT_EVENT_def
        UX_FORWARD_EVENT_def UX_REDISPLAY_def d bind_c_def modify_c_def gets_c_def return_c_def
        general_status_run [OF assms(1)])
qed

lemma locked_events:
  assumes "statuses_ok E" "\<not> unlocked E"
  shows "\<exists>dr'. io_events_drawing E s evs dr = (Inr (), dr')
    \<and> spi_out dr' = spi_out dr @ concat (replicate (length evs) general_status)"
proof (induction evs arbitrary: dr)
  case (Cons ev evs)
  obtain n where n: "io_event_drawing E s ev dr = (Inr (), dr\<lparr>elements_current := n, status_sent := True,
      spi_out := spi_out dr @ general_status\<rparr>)" using locked_event [OF assms] by blast
  obtain dr' where "io_events_drawing E s evs (dr\<lparr>elements_current := n, status_sent := True,
        spi_out := spi_out dr @ general_status\<rparr>) = (Inr (), dr')"
      "spi_out dr' = (spi_out dr @ general_status) @ concat (replicate (length evs) general_status)"
    using Cons.IH [of "dr\<lparr>elements_current := n, status_sent := True, spi_out := spi_out dr @ general_status\<rparr>"]
    by auto
  then show ?case by (simp add: bind_c_def n)
qed (simp add: return_c_def)

text \<open>
  Drawing a screen with the packets \<open>ps\<close> and handling the events \<open>evs\<close>: what is sent.
\<close>

definition sends_screen ::
  "screen_env \<Rightarrow> app \<Rightarrow> (screen_event \<times> ux_verdict) list \<Rightarrow> drawing \<Rightarrow> u8 list list \<Rightarrow> bool" where
  "sends_screen E s evs dr ps \<longleftrightarrow>
     (\<exists>dr'. bind_c (UX_REDISPLAY E s BOLOS_UX_OK) (\<lambda>_. io_events_drawing E s evs) dr = (Inr (), dr')
      \<and> spi_out dr' = spi_out dr
          @ (if \<not> unlocked E then concat (replicate (length evs) general_status)
             else if status_sent dr then packets_sent ps (map draws evs)
             else concat (take 1 ps) @ packets_sent (tl ps) (map draws evs)))"

lemma shown_sends_screen:
  assumes "statuses_ok E" and "shown E s (ux_elements s) = Inr ps" and "BOLOS_UX_REDRAW \<notin> snd ` set evs"
  shows "sends_screen E s evs dr ps"
proof -
  let ?dr = "dr\<lparr>elements_current := 0\<rparr>"
  have start: "UX_REDISPLAY E s BOLOS_UX_OK dr = ux_display_next_element E s ?dr"
    by (simp add: UX_REDISPLAY_def ux_busy_def bind_c_def modify_c_def)
  have p: "pending E s ?dr ps" using assms(2) by (simp add: pending_def)
  show ?thesis
  proof (cases "unlocked E")
    case False
    with locked_events [OF assms(1) False, of s evs ?dr] show ?thesis
      by (simp add: sends_screen_def bind_c_def start draw_stops)
  next
    case unlocked: True
    show ?thesis
    proof (cases "status_sent dr")
      case True
      with events_drawing [OF assms(1) unlocked p assms(3)] unlocked show ?thesis
        by (simp add: sends_screen_def bind_c_def start draw_stops)
    next
      case False
      from draw_next [OF assms(1) unlocked p] False obtain n where
        n: "ux_display_next_element E s ?dr = (Inr (), dr\<lparr>elements_current := n, status_sent := ps \<noteq> [],
          spi_out := spi_out dr @ concat (take 1 ps)\<rparr>)" (is "_ = (_, ?dr')")
        and "pending E s (dr\<lparr>elements_current := n\<rparr>) (tl ps)" by auto
      then have "pending E s ?dr' (tl ps)" by (simp add: pending_def)
      from events_drawing [OF assms(1) unlocked this assms(3)] False unlocked show ?thesis
        by (auto simp: sends_screen_def bind_c_def start n)
    qed
  qed
qed

section \<open>What the user is asked\<close>

text \<open>The digits of a number are letters, so the lines end at their null byte.\<close>

lemma digit_letter_unat: "g < 10 \<Longrightarrow> unat (digit_letter 0 g) = 48 + g"
proof -
  assume g: "g < 10"
  have "digit_letter 0 g = of_nat (48 + g)" using g by (simp add: digit_letter_def)
  then show ?thesis using g by (simp only: unat_of_nat) simp
qed

lemma decimal_digits: "g \<in> set (rev (take 9 (lsd_digits 10 n))) \<Longrightarrow> g < 10"
  using print_digits_less [of 10 g n] by (auto simp: lsd_digits_def dest: in_set_takeD)

lemma decimal_letter: "c \<in> set (decimal n) \<Longrightarrow> 48 \<le> unat c \<and> unat c < 58"
  using decimal_digits [of _ "unat n"] by (auto simp: decimal_def digit_letter_unat)

lemma decimal_nonzero: "0 \<notin> set (decimal n)"
  using decimal_letter [of 0 n] by auto

lemma key_lines_nonzero: "0 \<notin> set (key_line n)" "0 \<notin> set (with_key_line n)"
  using decimal_nonzero [of n]
  by (auto simp: key_line_def with_key_line_def chars_2_bytes_def dest: in_set_takeD)

text \<open>The packets of the question on an approval screen.\<close>

definition question_packets :: "string \<Rightarrow> u16 \<Rightarrow> u8 list \<Rightarrow> u8 list list" where
  "question_packets title y line =
     [packet_of (el_component UI_BACKGROUND) [],
      packet_of (el_component (UI_ICON_LEFT LEFT_ICON_ID BAGL_GLYPH_ICON_CROSS)) [],
      packet_of (el_component (UI_ICON_RIGHT RIGHT_ICON_ID BAGL_GLYPH_ICON_CHECK)) [],
      packet_of (el_component (UI_TEXT LINE_1_ID 0 12 128 Null_Text)) (chars_2_bytes title),
      packet_of (el_component (UI_TEXT LINE_2_ID 0 y 128 Null_Text)) line]"

lemma takeWhile_line:
  assumes "take (length line + 1) cs = line @ [0]" "0 \<notin> set line"
  shows "takeWhile (\<lambda>x. x \<noteq> 0) cs = line" "0 \<in> set cs"
proof -
  have "cs = take (length line + 1) cs @ drop (length line + 1) cs" by simp
  also have "\<dots> = line @ 0 # drop (length line + 1) cs" unfolding assms(1) by simp
  finally have cs: "cs = line @ 0 # drop (length line + 1) cs" .
  have nz: "\<forall>x \<in> set line. x \<noteq> 0" using assms(2) by auto
  show "takeWhile (\<lambda>x. x \<noteq> 0) cs = line" by (subst cs) (simp add: nz)
  show "0 \<in> set cs" by (subst cs) simp
qed

lemma element_packet_background: "element_packet E UI_BACKGROUND = Inr (packet_of (el_component UI_BACKGROUND) [])"
  by (simp add: element_packet_def UI_BACKGROUND_def const_defs)

lemma element_packet_icons:
  "element_packet E (UI_ICON_LEFT u g) = Inr (packet_of (el_component (UI_ICON_LEFT u g)) [])"
  "element_packet E (UI_ICON_RIGHT u g) = Inr (packet_of (el_component (UI_ICON_RIGHT u g)) [])"
  by (simp_all add: element_packet_def UI_ICON_LEFT_def UI_ICON_RIGHT_def const_defs)

lemma element_packet_text:
  assumes "0 \<in> set cs" "length (takeWhile (\<lambda>x. x \<noteq> 0) cs) < 2 ^ 15"
  shows "element_packet E (UI_TEXT u x y w (Chars cs))
    = Inr (packet_of (el_component (UI_TEXT u x y w Null_Text)) (takeWhile (\<lambda>x. x \<noteq> 0) cs))"
  using assms by (simp add: element_packet_def UI_TEXT_def const_defs)

lemma element_packet_literal:
  assumes "0 \<notin> set (chars_2_bytes t)" "length t < 2 ^ 15"
  shows "element_packet E (UI_TEXT u x y w (literal t))
    = Inr (packet_of (el_component (UI_TEXT u x y w Null_Text)) (chars_2_bytes t))"
proof -
  have "takeWhile (\<lambda>x. x \<noteq> 0) (chars_2_bytes t @ [0]) = chars_2_bytes t"
    using takeWhile_line [of "chars_2_bytes t" "chars_2_bytes t @ [0]"] assms(1) by simp
  then show ?thesis
    using assms element_packet_text [of "chars_2_bytes t @ [0]"] by (simp add: literal_def chars_2_bytes_def)
qed

lemmas element_packets = element_packet_background element_packet_icons element_packet_text element_packet_literal

lemma shown_key_question:
  assumes "asks_key p2 pk n s"
  shows "shown E s (ux_elements s) = Inr (question_packets ''Export Public'' 26 (key_line n))"
proof -
  have u: "ux s = Public_Key_Approve" and l: "take (length (key_line n) + 1) (approve_l2 (gpk_ui (gpk s))) = key_line n @ [0]"
    using assms by (simp_all only: asks_key_def)
  have t: "0 \<notin> set (chars_2_bytes ''Export Public'')" by (simp add: chars_2_bytes_def)
  show ?thesis
    using takeWhile_line [OF l key_lines_nonzero(1)] length_key_line [of n]
    by (simp add: ux_elements_def ux_preprocessor_def u ui_get_public_key_approve_def element_packets t
        question_packets_def packet_not_Nil)
qed

lemma shown_signature_question:
  assumes "asks_signature p2 t n s"
  shows "shown E s (ux_elements s) = Inr (question_packets ''Sign Transaction'' 24 (with_key_line n))"
proof -
  have u: "ux s = Message_Approve"
    and l: "take (length (with_key_line n) + 1) (approve_l2 (sgn_ui (sgn s))) = with_key_line n @ [0]"
    using assms by (simp_all only: asks_signature_def)
  have t: "0 \<notin> set (chars_2_bytes ''Sign Transaction'')" by (simp add: chars_2_bytes_def)
  show ?thesis
    using takeWhile_line [OF l key_lines_nonzero(2)] length_with_key_line [of n]
    by (simp add: ux_elements_def ux_preprocessor_def u ui_sign_message_approve_def element_packets t
        question_packets_def packet_not_Nil)
qed

text \<open>An environment for the examples, and the state after a request for the key 0'.\<close>

definition sample_env :: screen_env where
  "sample_env =
     \<lparr>glyphs = (\<lambda>_. \<lparr>icon_width = 14, icon_height = 14, icon_bpp = 1, icon_colors = replicate 8 0xFF,
        icon_bitmap = Some (replicate 25 0xAA)\<rparr>),
      is_status = (\<lambda>tag. tag AND 0x60 = 0x60), unlocked = True\<rparr>"

lemma sample_env_ok: "statuses_ok sample_env" "unlocked sample_env" "icon_fits (glyphs sample_env i)"
  by (simp_all add: statuses_ok_def sample_env_def const_defs icon_fits_def color_bytes_def bitmap_bytes_def)

lemma sample_question: "\<exists>s. asks_key P2_HEX sample_key 0 s"
proof -
  obtain s key where s: "idle 0 s" "path_key sample_crypto (path_words sample_path) (path_length sample_path)
      (public_key (gpk s)) = Inr (key, sample_key)"
    using sample_state by blast
  have p: "path_ok sample_path" "length sample_path \<le> 255" "unat P2_HEX \<le> 0x80"
    by (simp_all add: path_ok_def sample_path_def const_defs)
  have n: "last_element (path_length sample_path, path_words sample_path) = 0"
    by (simp add: last_element_def sample_path_words BIP32_PATH_MASK_def)
  from key_question [OF sample_crypto_ok s(1) p s(2)] n show ?thesis by auto
qed

text \<open>
Property C13: a screen is drawn completely and in order, whatever events come in between.
\<open>UX_REDISPLAY\<close> sends the packet of the first visible element, unless a status has been sent
since the last event, and each further event that the firmware leaves to the application
sends exactly the next one; all other events, and those behind the last element, are
answered with a general status.  On a locked device nothing is drawn.
\<close>

theorem screen_drawn:
  assumes "statuses_ok E" and "shown E s (ux_elements s) = Inr ps" and "BOLOS_UX_REDRAW \<notin> snd ` set evs"
  shows "\<exists>dr'. bind_c (UX_REDISPLAY E s BOLOS_UX_OK) (\<lambda>_. io_events_drawing E s evs) dr = (Inr (), dr')
    \<and> spi_out dr' = spi_out dr
        @ (if \<not> unlocked E then concat (replicate (length evs) general_status)
           else if status_sent dr then packets_sent ps (map draws evs)
           else concat (take 1 ps) @ packets_sent (tl ps) (map draws evs))"
  using shown_sends_screen [OF assms] unfolding sends_screen_def .

theorem screen_drawn_witness:
  "\<exists>s dr'. asks_key P2_HEX sample_key 0 s
    \<and> bind_c (UX_REDISPLAY sample_env s BOLOS_UX_OK)
        (\<lambda>_. io_events_drawing sample_env s (replicate 4 (Display_Processed, BOLOS_UX_OK)))
        \<lparr>elements_current = 0, status_sent = False, spi_out = []\<rparr> = (Inr (), dr')
    \<and> spi_out dr' = concat (question_packets ''Export Public'' 26 (key_line 0))"
proof -
  obtain s where s: "asks_key P2_HEX sample_key 0 s" using sample_question by blast
  have "BOLOS_UX_REDRAW \<notin> snd ` set (replicate 4 (Display_Processed, BOLOS_UX_OK))" by simp
  from screen_drawn [OF sample_env_ok(1) shown_key_question [OF s] this,
      of "\<lparr>elements_current = 0, status_sent = False, spi_out = []\<rparr>"]
  have "\<exists>dr'. bind_c (UX_REDISPLAY sample_env s BOLOS_UX_OK)
        (\<lambda>_. io_events_drawing sample_env s (replicate 4 (Display_Processed, BOLOS_UX_OK)))
        \<lparr>elements_current = 0, status_sent = False, spi_out = []\<rparr> = (Inr (), dr')
    \<and> spi_out dr' = concat (question_packets ''Export Public'' 26 (key_line 0))"
    by (simp add: sample_env_ok(2) draws_def ux_busy_def question_packets_def numeral_eq_Suc)
  with s show ?thesis by blast
qed

text \<open>
Property C14: what the user sees before approving.  In every state that asks for a key, the
screen consists of the background, cross, check mark, the words "Export Public" and the
line with the number of the key; in every state that asks for a signature of "Sign
Transaction" and the line with the number.  The path in front of the last element, the key,
the message and the format of the output do not appear.
\<close>

theorem approval_screens_drawn:
  assumes "statuses_ok E" and "BOLOS_UX_REDRAW \<notin> snd ` set evs"
  shows "(asks_key p2 pk n s \<longrightarrow> sends_screen E s evs dr (question_packets ''Export Public'' 26 (key_line n)))
    \<and> (asks_signature p2 t n s
      \<longrightarrow> sends_screen E s evs dr (question_packets ''Sign Transaction'' 24 (with_key_line n)))"
  using shown_sends_screen [OF assms(1) shown_key_question assms(2)]
    shown_sends_screen [OF assms(1) shown_signature_question assms(2)] by blast

theorem approval_screens_drawn_witness:
  "\<exists>s. asks_key P2_HEX sample_key 0 s
    \<and> sends_screen sample_env s [(Ticker, BOLOS_UX_IGNORE), (Display_Processed, BOLOS_UX_OK)]
        \<lparr>elements_current = 0, status_sent = False, spi_out = []\<rparr>
        (question_packets ''Export Public'' 26 (chars_2_bytes ''Key #0?''))"
proof -
  obtain s where s: "asks_key P2_HEX sample_key 0 s" using sample_question by blast
  have k: "key_line 0 = chars_2_bytes ''Key #0?''"
    by (simp add: key_line_def decimal_def lsd_digits_def print_digits_def digit_letter_def chars_2_bytes_def)
  from s approval_screens_drawn [OF sample_env_ok(1), of "[(Ticker, BOLOS_UX_IGNORE), (Display_Processed, BOLOS_UX_OK)]"
      P2_HEX sample_key 0 s "\<lparr>elements_current = 0, status_sent = False, spi_out = []\<rparr>"]
  show ?thesis unfolding k by auto
qed

section \<open>The message viewer\<close>

text \<open>The packets of the viewer: an arrow for each direction it can move to, and the window.\<close>

definition viewer_packets :: "string \<Rightarrow> u16 \<Rightarrow> ui_context \<Rightarrow> u8 list list" where
  "viewer_packets title y ui =
     [packet_of (el_component UI_BACKGROUND) []]
     @ (if display_index ui = 0 then []
        else [packet_of (el_component (UI_ICON_LEFT LEFT_ICON_ID BAGL_GLYPH_ICON_LEFT)) []])
     @ (if uint (display_index ui) = last_index ui then []
        else [packet_of (el_component (UI_ICON_RIGHT RIGHT_ICON_ID BAGL_GLYPH_ICON_RIGHT)) []])
     @ [packet_of (el_component (UI_TEXT LINE_1_ID 0 12 128 Null_Text)) (chars_2_bytes title),
        packet_of (el_component (UI_TEXT LINE_2_ID 0 y 128 Null_Text))
          (takeWhile (\<lambda>x. x \<noteq> 0) (take 18 (drop (unat (display_index ui)) (ui_msg_body ui))))]"

lemma viewing_text:
  assumes "viewing ui"
  shows "0 \<in> set (partial_msg ui)" "length (takeWhile (\<lambda>x. x \<noteq> 0) (partial_msg ui)) < 2 ^ 15"
    "takeWhile (\<lambda>x. x \<noteq> 0) (partial_msg ui)
      = takeWhile (\<lambda>x. x \<noteq> 0) (take 18 (drop (unat (display_index ui)) (ui_msg_body ui)))"
proof -
  have p: "partial_msg ui = take 18 (drop (unat (display_index ui)) (ui_msg_body ui)) @ [0]"
    using assms by (simp add: viewing_def window_at_def DISPLAY_SIZE_def)
  then show "0 \<in> set (partial_msg ui)" by simp
  have "length (partial_msg ui) \<le> 19" unfolding p by simp
  then show "length (takeWhile (\<lambda>x. x \<noteq> 0) (partial_msg ui)) < 2 ^ 15"
    using length_takeWhile_le [of "\<lambda>x. x \<noteq> 0" "partial_msg ui"] by simp
  show "takeWhile (\<lambda>x. x \<noteq> 0) (partial_msg ui)
      = takeWhile (\<lambda>x. x \<noteq> 0) (take 18 (drop (unat (display_index ui)) (ui_msg_body ui)))"
    unfolding p takeWhile_tail [of "\<lambda>x. x \<noteq> 0" 0 _ "[]", simplified] ..
qed

lemma viewer_prepro:
  "ui_prepro_compare ui 0" "ui_prepro_compare ui LINE_1_ID" "ui_prepro_compare ui LINE_2_ID"
  "ui_prepro_compare ui LEFT_ICON_ID = (display_index ui \<noteq> 0)"
  "ui_prepro_compare ui RIGHT_ICON_ID = (uint (display_index ui) \<noteq> last_index ui)"
  by (simp_all add: ui_prepro_compare_def LEFT_ICON_ID_def RIGHT_ICON_ID_def LINE_1_ID_def LINE_2_ID_def)

lemma element_userids:
  "comp_userid (el_component UI_BACKGROUND) = 0" "comp_userid (el_component (UI_ICON_LEFT u g)) = u"
  "comp_userid (el_component (UI_ICON_RIGHT u g)) = u" "comp_userid (el_component (UI_TEXT u x y w txt)) = u"
  by (simp_all add: UI_BACKGROUND_def UI_ICON_LEFT_def UI_ICON_RIGHT_def UI_TEXT_def)

lemma shown_public_key:
  assumes "ux s = Public_Key_Compare" "viewing (gpk_ui (gpk s))"
  shows "shown E s (ux_elements s) = Inr (viewer_packets ''Public Key'' 26 (gpk_ui (gpk s)))"
proof -
  have t: "0 \<notin> set (chars_2_bytes ''Public Key'')" by (simp add: chars_2_bytes_def)
  show ?thesis
    using viewing_text [OF assms(2)]
    by (simp add: ux_elements_def ux_preprocessor_def assms(1) ui_get_public_key_compare_def element_userids
        ui_prepro_get_public_key_compare_def viewer_prepro element_packets t viewer_packets_def packet_not_Nil)
qed

lemma shown_signature:
  assumes "ux s = Message_Compare" "viewing (sgn_ui (sgn s))"
  shows "shown E s (ux_elements s) = Inr (viewer_packets ''Signature'' 24 (sgn_ui (sgn s)))"
proof -
  have t: "0 \<notin> set (chars_2_bytes ''Signature'')" by (simp add: chars_2_bytes_def)
  show ?thesis
    using viewing_text [OF assms(2)]
    by (simp add: ux_elements_def ux_preprocessor_def assms(1) ui_sign_message_compare_def element_userids
        ui_prepro_sign_message_compare_def viewer_prepro element_packets t viewer_packets_def packet_not_Nil)
qed

text \<open>The packets in terms of the movements that are possible.\<close>

lemma viewer_packets_moves:
  assumes "viewing ui" "ui_fits ui"
  shows "viewer_packets title y ui =
        [packet_of (el_component UI_BACKGROUND) []]
        @ (if can_move BUTTON_LEFT ui then [packet_of (el_component (UI_ICON_LEFT LEFT_ICON_ID BAGL_GLYPH_ICON_LEFT)) []] else [])
        @ (if can_move BUTTON_RIGHT ui \<or> unat (ui_msg_length ui) < 18
           then [packet_of (el_component (UI_ICON_RIGHT RIGHT_ICON_ID BAGL_GLYPH_ICON_RIGHT)) []] else [])
        @ [packet_of (el_component (UI_TEXT LINE_1_ID 0 12 128 Null_Text)) (chars_2_bytes title),
           packet_of (el_component (UI_TEXT LINE_2_ID 0 y 128 Null_Text))
             (takeWhile (\<lambda>x. x \<noteq> 0) (take 18 (drop (unat (display_index ui)) (ui_msg_body ui))))]"
proof -
  have "uint (display_index ui) \<le> max 0 (last_index ui)" using assms(1) by (simp add: viewing_def)
  moreover have "uint (ui_msg_length ui) = int (unat (ui_msg_length ui))" "0 \<le> uint (display_index ui)" by simp_all
  ultimately have "can_move BUTTON_RIGHT ui \<or> unat (ui_msg_length ui) < 18 \<longleftrightarrow> uint (display_index ui) \<noteq> last_index ui"
    unfolding can_move_iff(2) [OF assms] last_index_def by linarith
  then show ?thesis unfolding viewer_packets_def can_move_iff(1) [OF assms] by simp
qed

text \<open>
Property C16: the message viewer shows the 18 characters of the key or signature from the
index on, up to a null byte, under its title.  The left arrow is drawn exactly when the left
button moves the window; the right arrow when the right button does, and also for a text of
fewer than 18 characters, such as an empty signature, whose window cannot move.  (The arrows are stated for texts of at
most 273 characters, where the index does not wrap; those of the application have at most 128.)
\<close>

theorem viewer_screens_drawn:
  assumes "statuses_ok E" and "BOLOS_UX_REDRAW \<notin> snd ` set evs"
  shows "(ux s = Public_Key_Compare \<and> viewing (gpk_ui (gpk s))
      \<longrightarrow> sends_screen E s evs dr (viewer_packets ''Public Key'' 26 (gpk_ui (gpk s))))
    \<and> (ux s = Message_Compare \<and> viewing (sgn_ui (sgn s))
      \<longrightarrow> sends_screen E s evs dr (viewer_packets ''Signature'' 24 (sgn_ui (sgn s))))
    \<and> (viewing ui \<and> ui_fits ui \<longrightarrow> viewer_packets title y ui =
        [packet_of (el_component UI_BACKGROUND) []]
        @ (if can_move BUTTON_LEFT ui then [packet_of (el_component (UI_ICON_LEFT LEFT_ICON_ID BAGL_GLYPH_ICON_LEFT)) []] else [])
        @ (if can_move BUTTON_RIGHT ui \<or> unat (ui_msg_length ui) < 18
           then [packet_of (el_component (UI_ICON_RIGHT RIGHT_ICON_ID BAGL_GLYPH_ICON_RIGHT)) []] else [])
        @ [packet_of (el_component (UI_TEXT LINE_1_ID 0 12 128 Null_Text)) (chars_2_bytes title),
           packet_of (el_component (UI_TEXT LINE_2_ID 0 y 128 Null_Text))
             (takeWhile (\<lambda>x. x \<noteq> 0) (take 18 (drop (unat (display_index ui)) (ui_msg_body ui))))])"
  using shown_sends_screen [OF assms(1) shown_public_key assms(2)]
    shown_sends_screen [OF assms(1) shown_signature assms(2)] viewer_packets_moves by blast

theorem viewer_screens_drawn_witness:
  "\<exists>s. ux s = Public_Key_Compare \<and> viewing (gpk_ui (gpk s))
    \<and> sends_screen sample_env s [(Display_Processed, BOLOS_UX_OK)]
        \<lparr>elements_current = 0, status_sent = True, spi_out = []\<rparr>
        [packet_of (el_component UI_BACKGROUND) [],
         packet_of (el_component (UI_ICON_RIGHT RIGHT_ICON_ID BAGL_GLYPH_ICON_RIGHT)) [],
         packet_of (el_component (UI_TEXT LINE_1_ID 0 12 128 Null_Text)) (chars_2_bytes ''Public Key''),
         packet_of (el_component (UI_TEXT LINE_2_ID 0 26 128 Null_Text)) []]"
proof -
  have "ui_sized ui_clear_context" by (simp add: ui_sized_def ui_clear_context_def)
  with ui_compare_msg_viewing obtain ui where
    ui: "viewing ui" "display_index ui = 0" "ui_msg_body ui = replicate 324 0" "ui_msg_length ui = 0"
    by (force simp: ui_clear_context_def DISPLAY_SIZE_def)
  let ?s = "sample_app\<lparr>ux := Public_Key_Compare, gpk := zero_gpk_context\<lparr>gpk_ui := ui\<rparr>\<rparr>"
  have f: "ui_fits ui" by (simp add: ui_fits_def ui(4))
  have m: "\<not> can_move BUTTON_LEFT ui" "unat (ui_msg_length ui) < 18"
    using can_move_iff [OF ui(1) f] by (simp_all add: ui(2,4))
  have t: "takeWhile (\<lambda>x. x \<noteq> 0) (take 18 (drop (unat (display_index ui)) (ui_msg_body ui))) = []"
    by (simp add: ui(2,3) numeral_eq_Suc)
  have "ux ?s = Public_Key_Compare \<and> viewing (gpk_ui (gpk ?s))" by (simp add: ui)
  with viewer_screens_drawn [OF sample_env_ok(1), of "[(Display_Processed, BOLOS_UX_OK)]" ?s
      "\<lparr>elements_current = 0, status_sent = True, spi_out = []\<rparr>" ui "''Public Key''" 26] ui(1) f m t
  show ?thesis by (intro exI [of _ ?s]) auto
qed

section \<open>The menus\<close>

text \<open>The visible elements for each entry of the two menus, by their position in the array.\<close>

definition menu_plain :: "nat \<Rightarrow> u8 list" where
  "menu_plain i = packet_of (el_component (ux_menu_elements ! i)) []"

definition menu_label :: "nat \<Rightarrow> string \<Rightarrow> u8 list" where
  "menu_label i t = packet_of (el_component (ux_menu_elements ! i)) (chars_2_bytes t)"

definition menu_moved_label :: "nat \<Rightarrow> u16 \<Rightarrow> string \<Rightarrow> u8 list" where
  "menu_moved_label i x t =
     packet_of ((el_component (ux_menu_elements ! i))\<lparr>comp_x := x, font_id := BAGL_FONT_OPEN_SANS_EXTRABOLD_11px\<rparr>)
       (chars_2_bytes t)"

definition menu_icon_at :: "screen_env \<Rightarrow> u16 \<Rightarrow> menu_icon \<Rightarrow> u8 list" where
  "menu_icon_at E x i = icon_packet ((el_component (ux_menu_elements ! 5))\<lparr>comp_x := x\<rparr>) (glyphs E i)"

fun menu_packets :: "screen_env \<Rightarrow> menu_ref \<Rightarrow> nat \<Rightarrow> u8 list list" where
  "menu_packets E Menu_Main k =
     (if k = 0 then [menu_plain 0, menu_plain 2, menu_label 7 ''Awaiting'', menu_label 8 ''Commands'']
      else if k = 1 then [menu_plain 0, menu_plain 1, menu_plain 2, menu_label 6 ''About'']
      else [menu_plain 0, menu_plain 1, menu_icon_at E 29 Icon_Dashboard, menu_moved_label 6 50 ''Quit app''])"
| "menu_packets E Menu_About k =
     (if k = 0 then [menu_plain 0, menu_plain 2, menu_label 7 ''Version'', menu_label 8 APPVERSION]
      else [menu_plain 0, menu_plain 1, menu_icon_at E 40 Icon_Back, menu_moved_label 6 61 ''Back''])"

text \<open>The menu elements one by one: what the preprocessor makes of them.\<close>

lemma element_packet_menu_label:
  assumes "comp_type c = BAGL_LABELINE" "0 \<notin> set (chars_2_bytes t)" "length t < 2 ^ 15"
  shows "element_packet E \<lparr>el_component = c, el_text = literal t\<rparr> = Inr (packet_of c (chars_2_bytes t))"
proof -
  have "takeWhile (\<lambda>x. x \<noteq> 0) (chars_2_bytes t @ [0]) = chars_2_bytes t"
    using takeWhile_line [of "chars_2_bytes t" "chars_2_bytes t @ [0]"] assms(2) by simp
  then show ?thesis
    using assms by (simp add: element_packet_def literal_def chars_2_bytes_def const_defs)
qed

lemma element_packet_menu_icon:
  "comp_type c = BAGL_ICON \<Longrightarrow> icon_id c = 0 \<Longrightarrow> icon_fits (glyphs E i) \<Longrightarrow>
    element_packet E \<lparr>el_component = c, el_text = Icon_Text i\<rparr> = Inr (icon_packet c (glyphs E i))"
  by (simp add: element_packet_def const_defs)

lemma element_packet_menu_plain:
  "comp_type c = BAGL_ICON \<or> comp_type c = BAGL_RECTANGLE \<Longrightarrow>
    element_packet E \<lparr>el_component = c, el_text = Null_Text\<rparr> = Inr (packet_of c [])"
  by (auto simp: element_packet_def const_defs)

lemma icon_packet_not_Nil: "icon_packet c i \<noteq> []"
  by (simp add: icon_packet_def packet_not_Nil)

lemma shown_menu:
  assumes s: "ux s = Menu_Screen" "menu_ok (ux_menu s)" "menu_entries (ux_menu s) = Some r"
    and E: "\<And>i. icon_fits (glyphs E i)"
  shows "shown E s (ux_elements s) = Inr (menu_packets E r (unat (current_entry (ux_menu s))))"
proof -
  let ?m = "ux_menu s"
  have c: "unat (menu_entries_count ?m) = menu_count r" "unat (current_entry ?m) < menu_count r"
    using s(2,3) by (simp_all add: menu_ok_def)
  have count: "menu_entries_count ?m = of_nat (menu_count r)" using c(1) by (metis of_nat_unat ucast_id)
  have cur: "current_entry ?m = of_nat k" if "unat (current_entry ?m) = k" for k
    using that by (metis of_nat_unat ucast_id)
  have "unat (current_entry ?m) = 0 \<or> unat (current_entry ?m) = 1 \<or> r = Menu_Main \<and> unat (current_entry ?m) = 2"
    using c(2) by (cases r) (auto simp: menu_count_cases)
  with cur have k: "current_entry ?m = 0 \<or> current_entry ?m = 1 \<or> r = Menu_Main \<and> current_entry ?m = 2" by fastforce
  note evals = ux_elements_def ux_preprocessor_def s(1,3) ux_menu_elements_def menu_element_def
    ux_menu_element_preprocessor_def neighbour_def ux_menu_get_entry_def count Let_def menu_entries_of.simps
    menu_main_def menu_about_def line_text_def adjust_text_x_def element_packet_menu_label
    element_packet_menu_icon [OF _ _ E] element_packet_menu_plain packet_not_Nil icon_packet_not_Nil menu_plain_def
    menu_label_def menu_moved_label_def menu_icon_at_def chars_2_bytes_def APPVERSION_def menu_count_cases
  consider (main0) "r = Menu_Main" "current_entry ?m = 0" | (main1) "r = Menu_Main" "current_entry ?m = 1"
    | (main2) "r = Menu_Main" "current_entry ?m = 2" | (about0) "r = Menu_About" "current_entry ?m = 0"
    | (about1) "r = Menu_About" "current_entry ?m = 1"
    using k by (cases r) auto
  then show ?thesis
  proof cases
    case main0
    then show ?thesis by (simp add: evals)
  next
    case main1
    then show ?thesis by (simp add: evals)
  next
    case main2
    then show ?thesis by (simp add: evals)
  next
    case about0
    then show ?thesis by (simp add: evals)
  next
    case about1
    then show ?thesis by (simp add: evals)
  qed
qed

text \<open>
What the menus show.  For the entry that is selected in the main menu or in the
about menu, the display gets the background, an arrow for each neighbour, the icon of the
entry and its one or two lines at their places; the names of the neighbours are never drawn.
\<close>

theorem menu_screens_drawn:
  assumes "statuses_ok E" and "\<forall>i. icon_fits (glyphs E i)" and "BOLOS_UX_REDRAW \<notin> snd ` set evs"
    and "ux s = Menu_Screen" and "menu_ok (ux_menu s)" and "menu_entries (ux_menu s) = Some r"
  shows "sends_screen E s evs dr (menu_packets E r (unat (current_entry (ux_menu s))))"
  using shown_sends_screen [OF assms(1) shown_menu [OF assms(4-6)] assms(3)] assms(2) by blast

theorem menu_screens_drawn_witness:
  "\<exists>s. ux s = Menu_Screen \<and> sends_screen sample_env s [(Default_Event, BOLOS_UX_CONTINUE)]
      \<lparr>elements_current = 7, status_sent = False, spi_out = []\<rparr> (menu_packets sample_env Menu_Main 1)"
proof -
  let ?s = "sample_app\<lparr>ux := Menu_Screen,
      ux_menu := \<lparr>menu_entries = Some Menu_Main, menu_entries_count = 3, current_entry = 1\<rparr>\<rparr>"
  have "\<forall>i. icon_fits (glyphs sample_env i)" using sample_env_ok(3) by blast
  moreover have "menu_ok (ux_menu ?s)" by (simp add: menu_ok_def menu_count_cases)
  ultimately show ?thesis
    using menu_screens_drawn [OF sample_env_ok(1), of "[(Default_Event, BOLOS_UX_CONTINUE)]" ?s Menu_Main
      "\<lparr>elements_current = 7, status_sent = False, spi_out = []\<rparr>"]
    by (intro exI [of _ ?s]) simp
qed

section \<open>The number of the key\<close>

text \<open>The decimal digits of a number below \<open>10 ^ 9\<close>, and what nine digits show of a larger one.\<close>

lemma decimal_print: "unat n < 10 ^ 9 \<Longrightarrow> decimal n = map (digit_letter 0) (print_digits 10 (unat n))"
  using length_print_digits_le [of 10 "unat n" 9] by (simp add: decimal_def lsd_digits_def)

lemma map_digit_letter_inj:
  assumes "\<forall>g \<in> set xs. g < 10" "\<forall>g \<in> set ys. g < 10" "map (digit_letter 0) xs = map (digit_letter 0) ys"
  shows "xs = ys"
proof -
  have r: "map (\<lambda>c. unat c - 48) (map (digit_letter 0) zs) = zs" if "\<forall>g \<in> set zs. g < 10" for zs
    using that by (induction zs) (simp_all add: digit_letter_unat)
  show ?thesis using r [OF assms(1)] r [OF assms(2)] assms(3) by metis
qed

lemma decimal_inj:
  assumes "unat n < 10 ^ 9" "unat m < 10 ^ 9" "decimal n = decimal m"
  shows "n = m"
proof -
  have "print_digits 10 (unat n) = print_digits 10 (unat m)"
    using assms(3) unfolding decimal_print [OF assms(1)] decimal_print [OF assms(2)]
    by (intro map_digit_letter_inj) (auto intro: print_digits_less)
  then have "digits_value 10 (print_digits 10 (unat n)) = digits_value 10 (print_digits 10 (unat m))" by simp
  then show ?thesis by (simp add: digits_value_print_digits word_unat_eq_iff)
qed

lemma key_line_inj: "key_line n = key_line m \<longleftrightarrow> decimal n = decimal m"
  by (simp add: key_line_def)

lemma with_key_line_take: "with_key_line n = chars_2_bytes ''With Key #'' @ take 7 (decimal n @ [63])"
  by (simp add: with_key_line_def chars_2_bytes_def)

lemma with_key_line_inj:
  assumes "unat n < 10 ^ 7" "unat m < 10 ^ 7" "with_key_line n = with_key_line m"
  shows "n = m"
proof -
  have s: "takeWhile (\<lambda>c. c \<noteq> 63) (take 7 (decimal k @ [63])) = decimal k" if "unat k < 10 ^ 7" for k
  proof -
    have "length (decimal k) \<le> 7"
      using length_print_digits_le [of 10 "unat k" 7] that by (simp add: decimal_print)
    moreover have "\<forall>c \<in> set (decimal k). c \<noteq> 63" using decimal_letter [of _ k] by force
    ultimately show ?thesis by (cases "length (decimal k) = 7") (simp_all add: takeWhile_eq_all_conv)
  qed
  have "take 7 (decimal n @ [63]) = take 7 (decimal m @ [63])" using assms(3) by (simp add: with_key_line_take)
  then have "decimal n = decimal m" using s [OF assms(1)] s [OF assms(2)] by metis
  with assms(1,2) show ?thesis by (intro decimal_inj) simp_all
qed

lemma with_key_line_cut:
  assumes "10 ^ 7 \<le> unat n" "unat n < 10 ^ 9"
  shows "with_key_line n = with_key_line (n div 10)"
proof -
  have u: "unat (n div 10) = unat n div 10" by (simp add: unat_div_distrib)
  have "print_digits 10 (unat n) = print_digits 10 (unat n div 10) @ [unat n mod 10]"
    using assms(1) by (simp add: print_digits_def base_digits_step)
  then have n: "decimal n = decimal (n div 10) @ [digit_letter 0 (unat n mod 10)]"
    using assms(2) by (simp add: decimal_print u)
  have "10 ^ 6 \<le> unat n div 10" using assms(1) by simp
  moreover have "unat n div 10 < 10 ^ length (print_digits 10 (unat n div 10))"
    using digits_length_upper [of 10 "unat n div 10"] by (simp add: print_digits_def)
  ultimately have "(10 :: nat) ^ 6 < 10 ^ length (print_digits 10 (unat n div 10))" by linarith
  then have "6 < length (print_digits 10 (unat n div 10))" by (simp only: power_strict_increasing_iff)
  then have "7 \<le> length (decimal (n div 10))" using assms(2) by (simp add: decimal_print u)
  then show ?thesis by (simp add: with_key_line_take n)
qed

lemma low_digits:
  "10 ^ k \<le> n \<Longrightarrow> n < 10 ^ Suc k \<Longrightarrow> take (Suc k) (lsd_digits 10 (n + 10 ^ Suc k * j)) = take (Suc k) (lsd_digits 10 n)"
proof (induction k arbitrary: n)
  case 0
  then show ?case by (simp add: lsd_digits_step [of 10])
next
  case (Suc k)
  have e: "n + 10 ^ Suc (Suc k) * j = n + 10 * (10 ^ Suc k * j)" by simp
  have q: "(n + 10 ^ Suc (Suc k) * j) div 10 = n div 10 + 10 ^ Suc k * j" "(n + 10 ^ Suc (Suc k) * j) mod 10 = n mod 10"
    unfolding e by (simp_all del: power_Suc)
  have "10 ^ k \<le> n div 10" "n div 10 < 10 ^ Suc k" using Suc.prems by simp_all
  note IH = Suc.IH [OF this]
  have "n div 10 \<noteq> 0" using \<open>10 ^ k \<le> n div 10\<close> by (metis le_zero_eq power_not_zero zero_neq_numeral)
  then show ?case
    using IH by (simp add: lsd_digits_step [of 10 n] lsd_digits_step [of 10 "n + 10 ^ Suc (Suc k) * j"] q
        del: power_Suc)
qed

lemma key_line_wraps:
  assumes "10 ^ 8 \<le> unat n" "unat n < 10 ^ 9"
  shows "key_line (n + 10 ^ 9) = key_line n"
proof -
  have "unat (n + 10 ^ 9) = unat n + 10 ^ Suc 8 * 1" using assms(2) by (simp add: unat_word_ariths)
  then show ?thesis
    using low_digits [of 8 "unat n" 1] assms by (simp add: key_line_def decimal_def)
qed

text \<open>
Property C15: which key the line on the screen names.  Of two lines the code prints for
numbers below \<open>10 ^ 9\<close> (keys) or \<open>10 ^ 7\<close> (signatures) each belongs to one number only;
but a number of eight or nine digits is shown like the number without its last digit when a
signature is asked for, and the line for a key does not show that \<open>10 ^ 9\<close> has been added.
\<close>

theorem key_number_on_screen:
  fixes n m :: u32
  assumes "length line = DISPLAY_SIZE + 1"
  defines "shows_as \<equiv> \<lambda>format n. map_sum id fst (iost_snprintf (Some line) (of_nat DISPLAY_SIZE) format [VInt n])"
  shows "(unat n < 10 ^ 9 \<and> unat m < 10 ^ 9 \<longrightarrow> (shows_as key_format n = shows_as key_format m \<longleftrightarrow> n = m))
    \<and> (unat n < 10 ^ 7 \<and> unat m < 10 ^ 7 \<longrightarrow> (shows_as with_key_format n = shows_as with_key_format m \<longleftrightarrow> n = m))
    \<and> (10 ^ 7 \<le> unat n \<and> unat n < 10 ^ 9 \<longrightarrow> shows_as with_key_format n = shows_as with_key_format (n div 10))
    \<and> (10 ^ 8 \<le> unat n \<and> unat n < 10 ^ 9 \<longrightarrow> shows_as key_format (n + 10 ^ 9) = shows_as key_format n)"
proof -
  have k: "shows_as key_format i = Inr (Some (key_line i @ 0 # drop (Suc (length (key_line i))) line))" for i
    by (simp add: shows_as_def snprintf_key_line [OF assms(1)])
  have w: "shows_as with_key_format i
      = Inr (Some (with_key_line i @ 0 # drop (Suc (length (with_key_line i))) line))" for i
    using snprintf_with_key_line [OF assms(1), of i] by (auto simp: shows_as_def)
  have "takeWhile (\<lambda>x. x \<noteq> 0) (a @ 0 # u) = a" if "0 \<notin> set a" for a u :: "u8 list"
    using takeWhile_line(1) [of a "a @ 0 # u"] that by simp
  then have t: "a @ 0 # u = b @ 0 # v \<Longrightarrow> a = b" if "0 \<notin> set a" "0 \<notin> set b" for a b u v :: "u8 list"
    using that by metis
  have ki: "shows_as key_format i = shows_as key_format j \<longleftrightarrow> key_line i = key_line j" for i j
    unfolding k using t [OF key_lines_nonzero(1) key_lines_nonzero(1)] by auto
  have wi: "shows_as with_key_format i = shows_as with_key_format j \<longleftrightarrow> with_key_line i = with_key_line j" for i j
    unfolding w using t [OF key_lines_nonzero(2) key_lines_nonzero(2)] by auto
  show ?thesis
    unfolding ki wi using decimal_inj [of n m] with_key_line_inj [of n m] with_key_line_cut [of n] key_line_wraps [of n]
    by (auto simp: key_line_inj)
qed

theorem key_number_on_screen_witness:
  "map_sum id fst (iost_snprintf (Some (replicate 19 0)) (of_nat DISPLAY_SIZE) with_key_format [VInt 12345678])
    = map_sum id fst (iost_snprintf (Some (replicate 19 0)) (of_nat DISPLAY_SIZE) with_key_format [VInt 1234567])"
proof -
  have "length (replicate 19 0 :: u8 list) = DISPLAY_SIZE + 1" by (simp add: DISPLAY_SIZE_def)
  from key_number_on_screen [OF this, of 12345678 0] show ?thesis by simp
qed

end
