(* ===== verification/Seph.thy ===== *)
theory Seph
  imports Globals
begin

text \<open>
  The link between the secure element and the MCU (SEPROXYHAL): the packets
  \<open>os_io_seproxyhal.c\<close> sends, the dispatch of received packets to the USB library and to
  \<open>io_event\<close>, and the timers of the USB endpoints.

  Parameters, in the record \<open>seph_env\<close>: the calls of the USB library, the \<open>io_event\<close> of the
  application, and the tags the firmware's
  \<open>io_seproxyhal_spi_is_status_sent\<close> counts as a status.  What the USB library does with the
  data of an endpoint is in theories \<open>Usb_Hid\<close> and \<open>U2f_Receive\<close>.  \<open>app_step\<close> of \<open>App_Main\<close> is
  the abstraction of this level in which a whole command arrives at once.
\<close>

section \<open>State\<close>

datatype io_apdu_state_e =
  APDU_IDLE | APDU_BLE | APDU_BLE_WAIT_NOTIFY | APDU_NFC_M24SR | APDU_NFC_M24SR_SELECT | APDU_NFC_M24SR_FIRST
| APDU_NFC_M24SR_RAPDU | APDU_USB_HID | APDU_USB_CCID | APDU_U2F | APDU_RAW | APDU_USB_WEBUSB

datatype io_apdu_media_t =
  IO_APDU_MEDIA_NONE | IO_APDU_MEDIA_USB_HID | IO_APDU_MEDIA_BLE | IO_APDU_MEDIA_NFC | IO_APDU_MEDIA_USB_CCID
| IO_APDU_MEDIA_USB_WEBUSB | IO_APDU_MEDIA_RAW | IO_APDU_MEDIA_U2F

text \<open>The fields of \<open>G_io_app\<close>, the two buffers, whether a status has been sent since the last
  packet was received, and the bytes sent to the MCU.\<close>

record seph =
  G_io_seproxyhal_spi_buffer :: "u8 list"
  apdu_buffer :: "u8 list"
  apdu_state :: io_apdu_state_e
  apdu_length :: u16
  apdu_media :: io_apdu_media_t
  ms :: u32
  usb_ep_xfer_len :: "u8 list"
  usb_ep_timeouts :: "u16 list"
  seph_status_sent :: bool
  seph_out :: "u8 list"

definition IO_SEPROXYHAL_BUFFER_SIZE_B :: nat where [const_defs]: "IO_SEPROXYHAL_BUFFER_SIZE_B = 128"
definition IO_USB_MAX_ENDPOINTS :: nat where [const_defs]: "IO_USB_MAX_ENDPOINTS = 6"
definition IO_RAPDU_TRANSMIT_TIMEOUT_MS :: u16 where [const_defs]: "IO_RAPDU_TRANSMIT_TIMEOUT_MS = 2000"

text \<open>The sizes of the arrays.\<close>

definition seph_ok :: "seph \<Rightarrow> bool" where
  "seph_ok s \<longleftrightarrow> length (G_io_seproxyhal_spi_buffer s) = IO_SEPROXYHAL_BUFFER_SIZE_B
     \<and> length (apdu_buffer s) = IO_APDU_BUFFER_SIZE
     \<and> length (usb_ep_xfer_len s) = IO_USB_MAX_ENDPOINTS \<and> length (usb_ep_timeouts s) = IO_USB_MAX_ENDPOINTS"

text \<open>The entry points of the USB library.\<close>

datatype usb_call =
  USBD_LL_Reset
| USBD_LL_SOF
| USBD_LL_Suspend
| USBD_LL_Resume
| USBD_LL_SetupStage "u8 list"
| USBD_LL_DataInStage u8 "u8 list"
| USBD_LL_DataOutStage u8 "u8 list"

record seph_env =
  usb_library :: "usb_call \<Rightarrow> (seph, unit) cm"
  app_event :: "(seph, unit) cm"
  seph_status_tag :: "u8 \<Rightarrow> bool"

section \<open>Sending\<close>

text \<open>\<open>io_seproxyhal_spi_send\<close>; and the pattern of most senders: the first bytes of the SPI
  buffer are written and sent.\<close>

definition seph_send :: "seph_env \<Rightarrow> u8 list \<Rightarrow> (seph, unit) cm" where
  "seph_send E bytes = modify_c (\<lambda>s. s\<lparr>seph_out := seph_out s @ bytes,
     seph_status_sent := seph_status_sent s \<or> (bytes \<noteq> [] \<and> seph_status_tag E (hd bytes))\<rparr>)"

definition seph_send_buffer :: "seph_env \<Rightarrow> u8 list \<Rightarrow> (seph, unit) cm" where
  "seph_send_buffer E bytes =
     bind_c (try_modify_c (\<lambda>s. bindE (buf_write (G_io_seproxyhal_spi_buffer s) 0 bytes)
       (\<lambda>b. Inr (s\<lparr>G_io_seproxyhal_spi_buffer := b\<rparr>)))) (\<lambda>_.
     seph_send E bytes)"

text \<open>\<open>io_seproxyhal_general_status\<close>\<close>

definition seph_general_status :: "seph_env \<Rightarrow> (seph, unit) cm" where
  "seph_general_status E =
     bind_c (gets_c seph_status_sent) (\<lambda>is_sent.
     if is_sent then return_c () else seph_send_buffer E [0x60, 0, 2, 0, 0])"

definition io_seproxyhal_request_mcu_status :: "seph_env \<Rightarrow> (seph, unit) cm" where
  "io_seproxyhal_request_mcu_status E = seph_send_buffer E [0x52, 0, 0]"

definition io_seproxyhal_setup_ticker :: "seph_env \<Rightarrow> u32 \<Rightarrow> (seph, unit) cm" where
  "io_seproxyhal_setup_ticker E interval_ms =
     seph_send_buffer E [0x4E, 0, 2, ucast (drop_bit 8 interval_ms), ucast interval_ms]"

definition io_seproxyhal_disable_io :: "seph_env \<Rightarrow> (seph, unit) cm" where
  "io_seproxyhal_disable_io E = seph_send_buffer E [0x4F, 0, 1, 0x02]"

definition io_seproxyhal_backlight :: "seph_env \<Rightarrow> u32 \<Rightarrow> u32 \<Rightarrow> (seph, unit) cm" where
  "io_seproxyhal_backlight E flags backlight_percentage =
     seph_send_buffer E [0x3E, 0, 2,
       ucast ((if backlight_percentage \<noteq> 0 then 0x80 else 0) OR (flags AND 0x7F)), ucast backlight_percentage]"

text \<open>
  \<open>io_usb_send_ep\<close>; its parameter \<open>timeout\<close> is incremented and not used, so it is left out.  The
  entry of the timer array is addressed without a check of the endpoint.
\<close>

definition io_usb_send_ep :: "seph_env \<Rightarrow> u32 \<Rightarrow> u8 list \<Rightarrow> u16 \<Rightarrow> (seph, unit) cm" where
  "io_usb_send_ep E ep buffer len =
     (if len > 255 then return_c ()
      else
        bind_c (seph_send_buffer E [0x50, ucast (drop_bit 8 (3 + len)), ucast (3 + len), ucast (ep OR 0x80), 0x20,
          ucast len]) (\<lambda>_.
        bind_c (lift_c (buf_read buffer 0 (unat len))) (\<lambda>bytes.
        bind_c (seph_send E bytes) (\<lambda>_.
        try_modify_c (\<lambda>s. bindE (buf_write (usb_ep_timeouts s) (unat (ep AND 0x7F)) [IO_RAPDU_TRANSMIT_TIMEOUT_MS])
          (\<lambda>t. Inr (s\<lparr>usb_ep_timeouts := t\<rparr>)))))))"

definition io_usb_send_apdu_data :: "seph_env \<Rightarrow> u8 list \<Rightarrow> u16 \<Rightarrow> (seph, unit) cm" where
  "io_usb_send_apdu_data E buffer len = io_usb_send_ep E 0x82 buffer len"

definition io_usb_send_apdu_data_ep0x83 :: "seph_env \<Rightarrow> u8 list \<Rightarrow> u16 \<Rightarrow> (seph, unit) cm" where
  "io_usb_send_apdu_data_ep0x83 E buffer len = io_usb_send_ep E 0x83 buffer len"

section \<open>Receiving\<close>

definition spi_byte :: "nat \<Rightarrow> (seph, u8) cm" where
  "spi_byte i = bind_c (gets_c G_io_seproxyhal_spi_buffer) (\<lambda>b. if i < length b then return_c (b ! i) else throw_c Fault)"

text \<open>The part of the SPI buffer a pointer into it can reach.\<close>

definition spi_from :: "nat \<Rightarrow> (seph, u8 list) cm" where
  "spi_from i = gets_c (\<lambda>s. drop i (G_io_seproxyhal_spi_buffer s))"

definition io_seproxyhal_handle_usb_event :: "seph_env \<Rightarrow> (seph, unit) cm" where
  "io_seproxyhal_handle_usb_event E =
     bind_c (spi_byte 3) (\<lambda>kind.
     if kind = 0x01 then
       bind_c (usb_library E USBD_LL_Reset) (\<lambda>_.
       bind_c (gets_c apdu_media) (\<lambda>media.
       if media \<noteq> IO_APDU_MEDIA_NONE then throw_c (Throw EXCEPTION_IO_RESET)
       else modify_c (\<lambda>s. s\<lparr>usb_ep_xfer_len := replicate IO_USB_MAX_ENDPOINTS 0,
              usb_ep_timeouts := replicate IO_USB_MAX_ENDPOINTS 0\<rparr>)))
     else if kind = 0x02 then usb_library E USBD_LL_SOF
     else if kind = 0x04 then usb_library E USBD_LL_Suspend
     else if kind = 0x08 then usb_library E USBD_LL_Resume
     else return_c ())"

definition io_seproxyhal_get_ep_rx_size :: "u8 \<Rightarrow> (seph, u16) cm" where
  "io_seproxyhal_get_ep_rx_size epnum =
     (if unat (epnum AND 0x7F) < IO_USB_MAX_ENDPOINTS then
        bind_c (gets_c usb_ep_xfer_len) (\<lambda>l.
        bind_c (lift_c (buf_read l (unat (epnum AND 0x7F)) 1)) (\<lambda>n. return_c (ucast (hd n))))
      else return_c 0)"

definition io_seproxyhal_handle_usb_ep_xfer_event :: "seph_env \<Rightarrow> (seph, unit) cm" where
  "io_seproxyhal_handle_usb_ep_xfer_event E =
     bind_c (spi_byte 4) (\<lambda>kind.
     if kind = 0x01 then bind_c (spi_from 6) (\<lambda>setup. usb_library E (USBD_LL_SetupStage setup))
     else if kind = 0x02 then
       bind_c (spi_byte 3) (\<lambda>ep.
       if unat (ep AND 0x7F) < IO_USB_MAX_ENDPOINTS then
         bind_c (try_modify_c (\<lambda>s. bindE (buf_write (usb_ep_timeouts s) (unat (ep AND 0x7F)) [0])
           (\<lambda>t. Inr (s\<lparr>usb_ep_timeouts := t\<rparr>)))) (\<lambda>_.
         bind_c (spi_from 6) (\<lambda>data. usb_library E (USBD_LL_DataInStage (ep AND 0x7F) data)))
       else return_c ())
     else if kind = 0x04 then
       bind_c (spi_byte 3) (\<lambda>ep.
       if unat (ep AND 0x7F) < IO_USB_MAX_ENDPOINTS then
         bind_c (spi_byte 5) (\<lambda>len.
         bind_c (try_modify_c (\<lambda>s. bindE (buf_write (usb_ep_xfer_len s) (unat (ep AND 0x7F)) [len])
           (\<lambda>l. Inr (s\<lparr>usb_ep_xfer_len := l\<rparr>)))) (\<lambda>_.
         bind_c (spi_from 6) (\<lambda>data. usb_library E (USBD_LL_DataOutStage (ep AND 0x7F) data))))
       else return_c ())
     else return_c ())"

text \<open>\<open>U2BE(G_io_seproxyhal_spi_buffer, 1)\<close>\<close>

definition spi_rx_len :: "(seph, nat) cm" where
  "spi_rx_len = bind_c (spi_byte 1) (\<lambda>h. bind_c (spi_byte 2) (\<lambda>l. return_c (256 * unat h + unat l)))"

definition io_seproxyhal_handle_capdu_event :: "(seph, unit) cm" where
  "io_seproxyhal_handle_capdu_event =
     bind_c (gets_c apdu_state) (\<lambda>st.
     if st = APDU_IDLE then
       bind_c (gets_c (\<lambda>s. min (length (apdu_buffer s) - 3) (length (G_io_seproxyhal_spi_buffer s) - 3))) (\<lambda>max.
       bind_c spi_rx_len (\<lambda>size.
       bind_c (modify_c (\<lambda>s. s\<lparr>apdu_media := IO_APDU_MEDIA_RAW, apdu_state := APDU_RAW,
         apdu_length := of_nat (min size max)\<rparr>)) (\<lambda>_.
       bind_c (gets_c (\<lambda>s. buf_read (G_io_seproxyhal_spi_buffer s) 3 (unat (apdu_length s)))) (\<lambda>r.
       bind_c (lift_c r) (\<lambda>apdu.
       try_modify_c (\<lambda>s. bindE (buf_write (apdu_buffer s) 0 apdu) (\<lambda>b. Inr (s\<lparr>apdu_buffer := b\<rparr>))))))))
     else return_c ())"

text \<open>The loop over the endpoint timers in the ticker event, from the last endpoint down.\<close>

fun usb_timeouts_loop :: "nat \<Rightarrow> (seph, unit) cm" where
  "usb_timeouts_loop 0 = return_c ()"
| "usb_timeouts_loop (Suc i) =
     bind_c (gets_c (\<lambda>s. buf_read (usb_ep_timeouts s) i 1)) (\<lambda>r.
     bind_c (lift_c r) (\<lambda>t.
     let timeout = hd t
     in if timeout \<noteq> 0 then
          bind_c (modify_c (\<lambda>s. s\<lparr>usb_ep_timeouts := (usb_ep_timeouts s)[i := timeout - min timeout 100]\<rparr>)) (\<lambda>_.
          if timeout - min timeout 100 = 0 then
            bind_c (modify_c (\<lambda>s. s\<lparr>apdu_state := APDU_IDLE\<rparr>)) (\<lambda>_. throw_c (Throw EXCEPTION_IO_RESET))
          else usb_timeouts_loop i)
        else usb_timeouts_loop i))"

text \<open>\<open>io_seproxyhal_handle_event\<close>; \<open>io_event\<close> returns 1.\<close>

definition seph_handle_event :: "seph_env \<Rightarrow> (seph, u32) cm" where
  "seph_handle_event E =
     bind_c spi_rx_len (\<lambda>rx_len.
     bind_c (spi_byte 0) (\<lambda>tag.
     if tag = 0x0F then
       (if rx_len \<noteq> 1 then return_c 0
        else bind_c (io_seproxyhal_handle_usb_event E) (\<lambda>_. return_c 1))
     else if tag = 0x10 then
       (if rx_len < 3 then return_c 0
        else bind_c (io_seproxyhal_handle_usb_ep_xfer_event E) (\<lambda>_. return_c 1))
     else if tag = 0x16 then
       bind_c io_seproxyhal_handle_capdu_event (\<lambda>_. return_c 1)
     else
       bind_c (if tag = 0x0E then
           bind_c (modify_c (\<lambda>s. s\<lparr>ms := ms s + 100\<rparr>)) (\<lambda>_. usb_timeouts_loop IO_USB_MAX_ENDPOINTS)
         else return_c ()) (\<lambda>_.
       bind_c (app_event E) (\<lambda>_. return_c 1))))"

text \<open>\<open>io_seproxyhal_spi_recv\<close>: the packet is written to the start of the buffer, and a status may
  be sent again.\<close>

definition spi_recv :: "u8 list \<Rightarrow> (seph, unit) cm" where
  "spi_recv packet = modify_c (\<lambda>s.
     let n = min (length packet) (length (G_io_seproxyhal_spi_buffer s))
     in s\<lparr>G_io_seproxyhal_spi_buffer := take n packet @ drop n (G_io_seproxyhal_spi_buffer s),
          seph_status_sent := False\<rparr>)"

text \<open>\<open>os_io_seph_recv_and_process\<close>, which receives the packet \<open>packet\<close>\<close>

definition is_ux_event :: "u8 \<Rightarrow> bool" where
  "is_ux_event tag \<longleftrightarrow> tag \<in> {0x0C, 0x05, 0x0E, 0x0D, 0x15}"

definition os_io_seph_recv_and_process :: "seph_env \<Rightarrow> bool \<Rightarrow> u8 list \<Rightarrow> (seph, u32) cm" where
  "os_io_seph_recv_and_process E dont_process_ux_events packet =
     bind_c (gets_c seph_status_sent) (\<lambda>is_sent.
     bind_c (if is_sent then return_c () else seph_general_status E) (\<lambda>_.
     bind_c (spi_recv packet) (\<lambda>_.
     bind_c (spi_byte 0) (\<lambda>tag.
     if is_ux_event tag \<and> dont_process_ux_events then return_c 0
     else bind_c (seph_handle_event E) (\<lambda>r. return_c (if r \<noteq> 0 then 1 else 0))))))"

text \<open>
  The loop in front of a reply in \<open>io_exchange\<close>, on the packets that arrive: the rest of them,
  or \<open>None\<close> while it waits for more.
\<close>

fun io_exchange_drain :: "seph_env \<Rightarrow> u8 list list \<Rightarrow> (seph, u8 list list option) cm" where
  "io_exchange_drain E (p # q # packets) =
     bind_c (gets_c seph_status_sent) (\<lambda>is_sent.
     if is_sent then
       bind_c (spi_recv p) (\<lambda>_.
       bind_c (os_io_seph_recv_and_process E True q) (\<lambda>_.
       io_exchange_drain E packets))
     else return_c (Some (p # q # packets)))"
| "io_exchange_drain E [p] =
     bind_c (gets_c seph_status_sent) (\<lambda>is_sent.
     if is_sent then
       bind_c (spi_recv p) (\<lambda>_.
       bind_c (seph_general_status E) (\<lambda>_. return_c None))
     else return_c (Some [p]))"
| "io_exchange_drain E [] =
     bind_c (gets_c seph_status_sent) (\<lambda>is_sent. return_c (if is_sent then None else Some []))"

text \<open>\<open>io_seproxyhal_init\<close>, as far as it concerns this state\<close>

definition io_seproxyhal_init :: "(seph, unit) cm" where
  "io_seproxyhal_init = modify_c (\<lambda>s. s\<lparr>apdu_state := APDU_IDLE, apdu_length := 0, apdu_media := IO_APDU_MEDIA_NONE,
     ms := 0, usb_ep_xfer_len := replicate IO_USB_MAX_ENDPOINTS 0, usb_ep_timeouts := replicate IO_USB_MAX_ENDPOINTS 0\<rparr>)"

text \<open>
  The loops behind a reply in \<open>io_exchange\<close> that wait until the transport is idle again; the
  inner loop receives until no status has been sent by the handler of an event.
\<close>

fun io_exchange_wait_events :: "seph_env \<Rightarrow> u32 \<Rightarrow> u8 list list \<Rightarrow> (seph, u8 list list option) cm" where
  "io_exchange_wait_events E timeout_ms [] = return_c None"
| "io_exchange_wait_events E timeout_ms (p # packets) =
     bind_c (spi_recv p) (\<lambda>_.
     bind_c (gets_c ms) (\<lambda>now.
     if now \<ge> timeout_ms then throw_c (Throw EXCEPTION_IO_RESET)
     else
       bind_c (seph_handle_event E) (\<lambda>_.
       bind_c (gets_c (\<lambda>s. (seph_status_sent s, apdu_state s))) (\<lambda>(is_sent, st).
       if is_sent then io_exchange_wait_events E timeout_ms packets
       else if st = APDU_IDLE then return_c (Some packets)
       else bind_c (seph_general_status E) (\<lambda>_. io_exchange_wait_events E timeout_ms packets)))))"

definition io_exchange_wait :: "seph_env \<Rightarrow> u32 \<Rightarrow> u8 list list \<Rightarrow> (seph, u8 list list option) cm" where
  "io_exchange_wait E timeout_ms packets =
     bind_c (gets_c apdu_state) (\<lambda>st.
     if st = APDU_IDLE then return_c (Some packets)
     else bind_c (seph_general_status E) (\<lambda>_. io_exchange_wait_events E timeout_ms packets))"

section \<open>The sizes of the arrays\<close>

text \<open>\<open>seph_safe m\<close>: no access outside an array, and the arrays keep their sizes.\<close>

definition seph_safe :: "(seph, 'a) cm \<Rightarrow> bool" where
  "seph_safe m \<longleftrightarrow> valid_c seph_ok m (\<lambda>_. seph_ok) (\<lambda>_. seph_ok)"

lemma seph_safe_bind: "seph_safe m \<Longrightarrow> (\<And>x. seph_safe (f x)) \<Longrightarrow> seph_safe (bind_c m f)"
  unfolding seph_safe_def by (rule valid_bind)

text \<open>The same when the continuation needs what the first step returns.\<close>

lemma seph_safe_bind_gets:
  "(\<And>s. seph_ok s \<Longrightarrow> valid_c (\<lambda>t. t = s) (f (g s)) (\<lambda>_. seph_ok) (\<lambda>_. seph_ok)) \<Longrightarrow> seph_safe (bind_c (gets_c g) f)"
  by (simp add: seph_safe_def valid_c_def bind_c_def gets_c_def)

lemma seph_safe_if: "(b \<Longrightarrow> seph_safe m) \<Longrightarrow> (\<not> b \<Longrightarrow> seph_safe m') \<Longrightarrow> seph_safe (if b then m else m')"
  by simp

lemma seph_safe_basic:
  "seph_safe (return_c x)" "seph_safe (gets_c g)" "seph_safe (throw_c (Throw e))" "seph_safe (spi_from i)"
  by (simp_all add: seph_safe_def valid_c_def cm_defs spi_from_def)

lemma seph_safe_modify: "(\<And>s. seph_ok s \<Longrightarrow> seph_ok (g s)) \<Longrightarrow> seph_safe (modify_c g)"
  by (simp add: seph_safe_def valid_c_def modify_c_def)

lemma seph_safe_try:
  "(\<And>s. seph_ok s \<Longrightarrow> safe seph_ok (g s)) \<Longrightarrow> seph_safe (try_modify_c g)"
  by (fastforce simp: seph_safe_def valid_c_def try_modify_c_def safe_def split: sum.splits exn.splits)

lemma spi_byte_safe: "i < 128 \<Longrightarrow> seph_safe (spi_byte i)"
  by (auto simp: seph_safe_def valid_c_def spi_byte_def cm_defs seph_ok_def IO_SEPROXYHAL_BUFFER_SIZE_B_def)

lemma seph_send_safe: "seph_safe (seph_send E bytes)"
  unfolding seph_send_def by (rule seph_safe_modify) (simp add: seph_ok_def)

lemma seph_send_buffer_safe: "length bytes \<le> 128 \<Longrightarrow> seph_safe (seph_send_buffer E bytes)"
  unfolding seph_send_buffer_def
  by (intro seph_safe_bind seph_safe_try seph_send_safe)
    (auto simp: seph_ok_def IO_SEPROXYHAL_BUFFER_SIZE_B_def buf_write_def)

lemma seph_general_status_safe: "seph_safe (seph_general_status E)"
  unfolding seph_general_status_def
  by (intro seph_safe_bind seph_safe_basic seph_safe_if seph_send_buffer_safe) simp

lemma spi_rx_len_safe: "seph_safe spi_rx_len"
  unfolding spi_rx_len_def by (intro seph_safe_bind spi_byte_safe seph_safe_basic) simp_all

lemma spi_recv_safe: "seph_safe (spi_recv packet)"
  unfolding spi_recv_def by (rule seph_safe_modify) (simp add: seph_ok_def Let_def min_def)

lemma io_usb_send_ep_safe:
  assumes "unat (ep AND 0x7F) < IO_USB_MAX_ENDPOINTS" "unat len \<le> length buffer"
  shows "seph_safe (io_usb_send_ep E ep buffer len)"
proof -
  have r: "buf_read buffer 0 (unat len) = Inr (take (unat len) buffer)" using assms(2) by (simp add: buf_read_def)
  have l: "seph_safe (lift_c (Inr x))" for x :: "u8 list" by (simp add: seph_safe_def valid_c_def lift_c_def)
  show ?thesis
    unfolding io_usb_send_ep_def r
    using assms(1)
    by (intro seph_safe_bind seph_safe_if seph_safe_basic seph_safe_try seph_send_buffer_safe seph_send_safe l)
      (auto simp: seph_ok_def buf_write_def)
qed

lemma spi_rx_len_run:
  "seph_ok s \<Longrightarrow> spi_rx_len s = (Inr (256 * unat (G_io_seproxyhal_spi_buffer s ! 1)
     + unat (G_io_seproxyhal_spi_buffer s ! 2)), s)"
  by (simp add: spi_rx_len_def spi_byte_def cm_defs seph_ok_def IO_SEPROXYHAL_BUFFER_SIZE_B_def)

lemma capdu_event_safe: "seph_safe io_seproxyhal_handle_capdu_event"
  unfolding seph_safe_def
proof (rule valid_at)
  fix s
  assume s: "seph_ok s"
  define k where "k = 256 * unat (G_io_seproxyhal_spi_buffer s ! 1) + unat (G_io_seproxyhal_spi_buffer s ! 2)"
  have n: "unat (of_nat (min k 125) :: u16) = min k 125" by (simp add: unat_of_nat)
  have b: "min k 125 \<le> 337" by simp
  have l: "length (G_io_seproxyhal_spi_buffer s) = 128" "length (apdu_buffer s) = 337"
    using s by (simp_all add: seph_ok_def const_defs)
  show "valid_c (\<lambda>t. t = s) io_seproxyhal_handle_capdu_event (\<lambda>_. seph_ok) (\<lambda>_. seph_ok)"
    using s l b spi_rx_len_run [OF s, folded k_def]
    by (simp add: valid_c_def io_seproxyhal_handle_capdu_event_def cm_defs n buf_read_def buf_write_def seph_ok_def
        const_defs)
qed

section \<open>Where an access outside an array can come from\<close>

text \<open>
The USB library and \<open>io_event\<close> are parameters here.  Nothing is assumed of them but that the
arrays keep their sizes, in every result, which no C function can change.
\<close>

definition env_sizes_kept :: "seph_env \<Rightarrow> bool" where
  "env_sizes_kept E \<longleftrightarrow> (\<forall>call s. seph_ok s \<longrightarrow> seph_ok (snd (usb_library E call s)))
     \<and> (\<forall>s. seph_ok s \<longrightarrow> seph_ok (snd (app_event E s)))"

text \<open>The call of the library that a packet in the SPI buffer leads to.\<close>

definition usb_call_of :: "u8 list \<Rightarrow> usb_call option" where
  "usb_call_of b =
     (let len = 256 * unat (b ! 1) + unat (b ! 2); ep = b ! 3 AND 0x7F
      in if b ! 0 = 0x0F \<and> len = 1 then
           if b ! 3 = 0x01 then Some USBD_LL_Reset
           else if b ! 3 = 0x02 then Some USBD_LL_SOF
           else if b ! 3 = 0x04 then Some USBD_LL_Suspend
           else if b ! 3 = 0x08 then Some USBD_LL_Resume
           else None
         else if b ! 0 = 0x10 \<and> 3 \<le> len then
           if b ! 4 = 0x01 then Some (USBD_LL_SetupStage (drop 6 b))
           else if b ! 4 = 0x02 \<and> unat ep < IO_USB_MAX_ENDPOINTS then Some (USBD_LL_DataInStage ep (drop 6 b))
           else if b ! 4 = 0x04 \<and> unat ep < IO_USB_MAX_ENDPOINTS then Some (USBD_LL_DataOutStage ep (drop 6 b))
           else None
         else None)"

text \<open>That call, or \<open>io_event\<close> for the other packets, leaves an array, in a state with this SPI buffer.\<close>

definition spi_holds :: "u8 list \<Rightarrow> seph \<Rightarrow> bool" where
  "spi_holds b s \<longleftrightarrow> seph_ok s \<and> G_io_seproxyhal_spi_buffer s = b"

definition env_faults :: "seph_env \<Rightarrow> u8 list \<Rightarrow> bool" where
  "env_faults E b \<longleftrightarrow> (\<exists>t. spi_holds b t \<and> (case usb_call_of b of
     Some call \<Rightarrow> fst (usb_library E call t) = Inl Fault | None \<Rightarrow> fst (app_event E t) = Inl Fault))"

text \<open>The same for one of the packets that are received, whatever the buffer holds behind it.\<close>

definition spi_received :: "u8 list \<Rightarrow> u8 list \<Rightarrow> bool" where
  "spi_received p b \<longleftrightarrow> take (min (length p) 128) b = take 128 p"

definition packet_faults :: "seph_env \<Rightarrow> u8 list set \<Rightarrow> bool" where
  "packet_faults E packets \<longleftrightarrow> (\<exists>p \<in> packets. \<exists>b. spi_received p b \<and> env_faults E b)"

text \<open>\<open>confined P F m Q\<close>: the sizes are kept, and a fault implies \<open>F\<close>.\<close>

definition confined :: "(seph \<Rightarrow> bool) \<Rightarrow> bool \<Rightarrow> (seph, 'a) cm \<Rightarrow> (seph \<Rightarrow> bool) \<Rightarrow> bool" where
  "confined P F m Q \<longleftrightarrow> (\<forall>s. P s \<longrightarrow> (case m s of
     (Inr x, s') \<Rightarrow> Q s' | (Inl e, s') \<Rightarrow> seph_ok s' \<and> (e = Fault \<longrightarrow> F)))"

lemma confined_bind: "confined P F m Q \<Longrightarrow> (\<And>x. confined Q F (f x) R) \<Longrightarrow> confined P F (bind_c m f) R"
  unfolding confined_def bind_c_def by (fastforce split: prod.splits sum.splits)

lemma confined_if: "(b \<Longrightarrow> confined P F m Q) \<Longrightarrow> (\<not> b \<Longrightarrow> confined P F m' Q) \<Longrightarrow> confined P F (if b then m else m') Q"
  by simp

lemma confined_mono:
  "confined P F m Q \<Longrightarrow> (\<And>s. P' s \<Longrightarrow> P s) \<Longrightarrow> (F \<Longrightarrow> F') \<Longrightarrow> (\<And>s. Q s \<Longrightarrow> Q' s) \<Longrightarrow> confined P' F' m Q'"
  unfolding confined_def by (fastforce split: prod.splits sum.splits)

lemma confined_safe:
  assumes "seph_safe m"
  shows "confined seph_ok F m seph_ok"
  using assms unfolding seph_safe_def valid_c_def confined_def
  by (fastforce split: prod.splits sum.splits exn.splits)

lemma confined_holds: "confined seph_ok F m Q \<Longrightarrow> confined (spi_holds b) F m Q"
  by (erule confined_mono) (simp_all add: spi_holds_def)

lemma confined_return: "(\<And>s. P s \<Longrightarrow> Q s) \<Longrightarrow> confined P F (return_c x) Q"
  by (simp add: confined_def return_c_def)

lemma confined_modify: "(\<And>s. P s \<Longrightarrow> Q (g s)) \<Longrightarrow> confined P F (modify_c g) Q"
  by (simp add: confined_def modify_c_def)

lemma confined_spi_byte:
  "i < 128 \<Longrightarrow> confined (spi_holds b) F (f (b ! i)) Q \<Longrightarrow> confined (spi_holds b) F (bind_c (spi_byte i) f) Q"
  by (auto simp: confined_def spi_holds_def seph_ok_def const_defs bind_c_def spi_byte_def cm_defs)

lemma confined_spi_from:
  "confined (spi_holds b) F (f (drop i b)) Q \<Longrightarrow> confined (spi_holds b) F (bind_c (spi_from i) f) Q"
  by (simp add: confined_def spi_holds_def bind_c_def spi_from_def cm_defs)

lemma confined_rx_len:
  "confined (spi_holds b) F (f (256 * unat (b ! 1) + unat (b ! 2))) Q \<Longrightarrow>
    confined (spi_holds b) F (bind_c spi_rx_len f) Q"
  by (simp add: confined_def spi_holds_def bind_c_def spi_rx_len_run)

lemma confined_library:
  "env_sizes_kept E \<Longrightarrow> usb_call_of b = Some call \<Longrightarrow> confined (spi_holds b) (env_faults E b) (usb_library E call) seph_ok"
  unfolding confined_def env_sizes_kept_def env_faults_def
  by (clarsimp simp: spi_holds_def split: prod.split sum.split) (metis fst_conv snd_conv)

lemma confined_app:
  "env_sizes_kept E \<Longrightarrow> usb_call_of b = None \<Longrightarrow> confined (spi_holds b) (env_faults E b) (app_event E) seph_ok"
  unfolding confined_def env_sizes_kept_def env_faults_def
  by (clarsimp simp: spi_holds_def split: prod.split sum.split) (metis fst_conv snd_conv)

lemma confined_write:
  assumes "i < IO_USB_MAX_ENDPOINTS"
  shows "confined (spi_holds b) F (try_modify_c (\<lambda>s. bindE (buf_write (usb_ep_timeouts s) i [x])
      (\<lambda>t. Inr (s\<lparr>usb_ep_timeouts := t\<rparr>)))) (spi_holds b)"
    and "confined (spi_holds b) F (try_modify_c (\<lambda>s. bindE (buf_write (usb_ep_xfer_len s) i [y])
      (\<lambda>t. Inr (s\<lparr>usb_ep_xfer_len := t\<rparr>)))) (spi_holds b)"
  using assms by (auto simp: confined_def spi_holds_def seph_ok_def try_modify_c_def buf_write_def)

text \<open>A timer after a ticker.\<close>

definition ticked :: "u16 \<Rightarrow> u16" where
  "ticked t = t - min t 100"

lemma timeout_at:
  "i < length (usb_ep_timeouts s) \<Longrightarrow> buf_read (usb_ep_timeouts s) i (Suc 0) = Inr [usb_ep_timeouts s ! i]"
  by (simp add: buf_read_def take_Suc hd_drop_conv_nth)

text \<open>In any case the loop returns, or throws with an idle transport; only timers and that state change.\<close>

lemma timeouts_loop_cases:
  "n \<le> length (usb_ep_timeouts s) \<Longrightarrow>
    (\<exists>l. usb_timeouts_loop n s = (Inr (), s\<lparr>usb_ep_timeouts := l\<rparr>) \<and> length l = length (usb_ep_timeouts s))
    \<or> (\<exists>l. usb_timeouts_loop n s = (Inl (Throw EXCEPTION_IO_RESET), s\<lparr>usb_ep_timeouts := l, apdu_state := APDU_IDLE\<rparr>)
        \<and> length l = length (usb_ep_timeouts s))"
proof (induction n arbitrary: s)
  case 0
  show ?case by (intro disjI1 exI [of _ "usb_ep_timeouts s"]) (simp add: return_c_def)
next
  case (Suc n)
  let ?t = "usb_ep_timeouts s ! n"
  let ?s = "s\<lparr>usb_ep_timeouts := (usb_ep_timeouts s)[n := ticked ?t]\<rparr>"
  have n: "n < length (usb_ep_timeouts s)" using Suc.prems by simp
  consider "?t = 0" | "?t \<noteq> 0" "ticked ?t = 0" | "?t \<noteq> 0" "ticked ?t \<noteq> 0" by blast
  then show ?case
  proof cases
    case 1
    then have "usb_timeouts_loop (Suc n) s = usb_timeouts_loop n s" by (simp add: cm_defs timeout_at [OF n])
    with Suc.IH [of s] n show ?thesis by simp
  next
    case 2
    then show ?thesis by (intro disjI2 exI [of _ "(usb_ep_timeouts s)[n := ticked ?t]"])
        (simp add: cm_defs timeout_at [OF n] ticked_def Let_def)
  next
    case 3
    then have "usb_timeouts_loop (Suc n) s = usb_timeouts_loop n ?s"
      by (simp add: cm_defs timeout_at [OF n] ticked_def Let_def)
    with Suc.IH [of ?s] n show ?thesis by simp
  qed
qed

lemma confined_timeouts: "confined (spi_holds b) F (usb_timeouts_loop IO_USB_MAX_ENDPOINTS) (spi_holds b)"
  unfolding confined_def
proof (intro allI impI)
  fix s
  assume s: "spi_holds b s"
  then have "IO_USB_MAX_ENDPOINTS \<le> length (usb_ep_timeouts s)" by (simp add: spi_holds_def seph_ok_def)
  from timeouts_loop_cases [OF this] show "case usb_timeouts_loop IO_USB_MAX_ENDPOINTS s of
      (Inr x, s') \<Rightarrow> spi_holds b s' | (Inl e, s') \<Rightarrow> seph_ok s' \<and> (e = Fault \<longrightarrow> F)"
    using s by (auto simp: spi_holds_def seph_ok_def)
qed

lemma usb_event_confined:
  assumes E: "env_sizes_kept E" and b: "b ! 0 = 0x0F" "256 * unat (b ! 1) + unat (b ! 2) = 1"
  shows "confined (spi_holds b) (env_faults E b) (io_seproxyhal_handle_usb_event E) seph_ok"
proof -
  have rest: "confined seph_ok F (bind_c (gets_c apdu_media) (\<lambda>media.
       if media \<noteq> IO_APDU_MEDIA_NONE then throw_c (Throw EXCEPTION_IO_RESET)
       else modify_c (\<lambda>s. s\<lparr>usb_ep_xfer_len := replicate IO_USB_MAX_ENDPOINTS 0,
              usb_ep_timeouts := replicate IO_USB_MAX_ENDPOINTS 0\<rparr>))) seph_ok" for F
    by (intro confined_safe seph_safe_bind seph_safe_if seph_safe_basic seph_safe_modify) (simp add: seph_ok_def)
  show ?thesis
    unfolding io_seproxyhal_handle_usb_event_def
    by (intro confined_spi_byte confined_if confined_bind [OF confined_library rest] confined_library confined_return E)
      (simp_all add: usb_call_of_def Let_def b b [simplified] spi_holds_def)
qed

lemma ep_xfer_event_confined:
  assumes E: "env_sizes_kept E" and b: "b ! 0 = 0x10" "3 \<le> 256 * unat (b ! 1) + unat (b ! 2)"
  shows "confined (spi_holds b) (env_faults E b) (io_seproxyhal_handle_usb_ep_xfer_event E) seph_ok"
  unfolding io_seproxyhal_handle_usb_ep_xfer_event_def
  by (intro confined_spi_byte confined_spi_from confined_if confined_bind [OF confined_write(1)]
      confined_bind [OF confined_write(2)] confined_library confined_return E)
    (simp_all add: usb_call_of_def Let_def b b [simplified] spi_holds_def)

lemma dispatch_confined:
  assumes E: "env_sizes_kept E"
  shows "confined (spi_holds b) (env_faults E b) (seph_handle_event E) seph_ok"
proof -
  let ?F = "env_faults E b"
  have ret: "confined seph_ok ?F (return_c x) seph_ok" for x :: u32 by (rule confined_return)
  have ret0: "confined (spi_holds b) ?F (return_c x) seph_ok" for x :: u32
    by (rule confined_return) (simp add: spi_holds_def)
  have tick: "confined (spi_holds b) ?F (if b ! 0 = 0x0E then
      bind_c (modify_c (\<lambda>s. s\<lparr>ms := ms s + 100\<rparr>)) (\<lambda>_. usb_timeouts_loop IO_USB_MAX_ENDPOINTS) else return_c ()) (spi_holds b)"
    by (intro confined_if confined_bind [OF confined_modify confined_timeouts] confined_return)
      (auto simp: spi_holds_def seph_ok_def)
  note capdu = confined_holds [OF confined_safe [OF capdu_event_safe]]
  have app: "confined (spi_holds b) ?F (bind_c (app_event E) (\<lambda>_. return_c (1 :: u32))) seph_ok"
    if "b ! 0 \<noteq> 0x0F" "b ! 0 \<noteq> 0x10"
    by (rule confined_bind [OF confined_app [OF E] ret]) (simp add: usb_call_of_def that)
  show ?thesis
    unfolding seph_handle_event_def
    by (intro confined_rx_len confined_spi_byte confined_if confined_bind [OF usb_event_confined [OF E] ret]
        confined_bind [OF ep_xfer_event_confined [OF E] ret] confined_bind [OF capdu ret] confined_bind [OF tick app] ret0)
      simp_all
qed

text \<open>Receiving a packet and working on it.\<close>

definition holds_packet :: "u8 list \<Rightarrow> seph \<Rightarrow> bool" where
  "holds_packet p s \<longleftrightarrow> seph_ok s \<and> spi_received p (G_io_seproxyhal_spi_buffer s)"

lemma recv_confined: "confined seph_ok F (spi_recv p) (holds_packet p)"
  unfolding spi_recv_def
  by (rule confined_modify) (simp add: holds_packet_def Let_def seph_ok_def const_defs spi_received_def min_def)

lemma packet_confined:
  assumes "env_sizes_kept E" "p \<in> Ps"
  shows "confined (holds_packet p) (packet_faults E Ps) (seph_handle_event E) seph_ok"
  unfolding confined_def
proof (intro allI impI)
  fix s
  assume s: "holds_packet p s"
  let ?b = "G_io_seproxyhal_spi_buffer s"
  have "spi_holds ?b s" using s by (simp add: spi_holds_def holds_packet_def)
  moreover have "env_faults E ?b \<Longrightarrow> packet_faults E Ps"
    using s assms(2) unfolding packet_faults_def holds_packet_def by blast
  ultimately show "case seph_handle_event E s of (Inr x, s') \<Rightarrow> seph_ok s'
      | (Inl e, s') \<Rightarrow> seph_ok s' \<and> (e = Fault \<longrightarrow> packet_faults E Ps)"
    using dispatch_confined [OF assms(1), of ?b] unfolding confined_def by (fastforce split: prod.splits sum.splits)
qed

text \<open>The loops around a reply, for the packets they receive.\<close>

lemma packet_faults_mono: "packet_faults E Ps \<Longrightarrow> Ps \<subseteq> Qs \<Longrightarrow> packet_faults E Qs"
  unfolding packet_faults_def by blast

lemma confined_more: "confined P (packet_faults E Ps) m Q \<Longrightarrow> Ps \<subseteq> Qs \<Longrightarrow> confined P (packet_faults E Qs) m Q"
  by (erule confined_mono) (blast intro: packet_faults_mono)+

lemmas confined_ok = confined_safe [OF seph_general_status_safe] confined_safe [OF seph_safe_basic(1)]
  confined_safe [OF seph_safe_basic(2)] confined_safe [OF seph_safe_basic(3)]

lemma holds_packet_ok: "confined seph_ok F m seph_ok \<Longrightarrow> confined (holds_packet p) F m seph_ok"
  by (erule confined_mono) (simp_all add: holds_packet_def)

lemma holds_packet_byte:
  "i < 128 \<Longrightarrow> (\<And>x. confined (holds_packet p) F (f x) Q) \<Longrightarrow> confined (holds_packet p) F (bind_c (spi_byte i) f) Q"
  by (rule confined_bind [where Q = "holds_packet p"])
    (simp_all add: confined_def holds_packet_def seph_ok_def const_defs spi_byte_def cm_defs)

lemma holds_packet_gets:
  "(\<And>x. confined (holds_packet p) F (f x) Q) \<Longrightarrow> confined (holds_packet p) F (bind_c (gets_c g) f) Q"
  by (rule confined_bind [where Q = "holds_packet p"]) (simp_all add: confined_def gets_c_def)

lemma recv_and_process_confined:
  assumes E: "env_sizes_kept E" and p: "p \<in> Ps"
  shows "confined seph_ok (packet_faults E Ps) (os_io_seph_recv_and_process E dont p) seph_ok"
proof -
  have status: "confined seph_ok (packet_faults E Ps) (if is_sent then return_c () else seph_general_status E) seph_ok"
    for is_sent by (intro confined_if confined_ok)
  show ?thesis
    unfolding os_io_seph_recv_and_process_def
    by (intro confined_bind [OF confined_ok(3)] confined_bind [OF status] confined_bind [OF recv_confined]
        holds_packet_byte confined_if holds_packet_ok [OF confined_ok(2)]
        confined_bind [OF packet_confined [OF E p]] confined_ok(2)) simp
qed

lemma drain_confined:
  "env_sizes_kept E \<Longrightarrow> set packets \<subseteq> Ps \<Longrightarrow>
    confined seph_ok (packet_faults E Ps) (io_exchange_drain E packets) seph_ok"
proof (induction E packets rule: io_exchange_drain.induct)
  case (1 E p q packets)
  then have q: "q \<in> Ps" by simp
  have recv: "confined seph_ok (packet_faults E Ps) (spi_recv p) seph_ok" by (rule confined_safe [OF spi_recv_safe])
  have IH: "is_sent \<Longrightarrow> confined seph_ok (packet_faults E Ps) (io_exchange_drain E packets) seph_ok" for is_sent
    using 1 by auto
  show ?case
    unfolding io_exchange_drain.simps
    by (intro confined_bind [OF confined_ok(3)] confined_if confined_ok confined_bind [OF recv]
        confined_bind [OF recv_and_process_confined [OF 1(2) q]] IH)
next
  case (2 E p)
  have recv: "confined seph_ok (packet_faults E Ps) (spi_recv p) seph_ok" by (rule confined_safe [OF spi_recv_safe])
  show ?case
    unfolding io_exchange_drain.simps
    by (intro confined_bind [OF confined_ok(3)] confined_if confined_ok confined_bind [OF recv] confined_bind [OF confined_ok(1)])
next
  case (3 E)
  show ?case unfolding io_exchange_drain.simps by (intro confined_bind [OF confined_ok(3)] confined_ok)
qed

lemma wait_events_confined:
  assumes E: "env_sizes_kept E"
  shows "set packets \<subseteq> Ps \<Longrightarrow> confined seph_ok (packet_faults E Ps) (io_exchange_wait_events E timeout_ms packets) seph_ok"
proof (induction packets)
  case Nil
  show ?case by (simp add: confined_ok)
next
  case (Cons p packets)
  then have p: "p \<in> Ps" and IH: "confined seph_ok (packet_faults E Ps) (io_exchange_wait_events E timeout_ms packets) seph_ok"
    by auto
  have rest: "confined seph_ok (packet_faults E Ps) (case x of (is_sent, st) \<Rightarrow>
       if is_sent then io_exchange_wait_events E timeout_ms packets
       else if st = APDU_IDLE then return_c (Some packets)
       else bind_c (seph_general_status E) (\<lambda>_. io_exchange_wait_events E timeout_ms packets)) seph_ok" for x
    by (cases x) (simp add: IH confined_ok confined_bind [OF confined_ok(1) IH])
  show ?case
    unfolding io_exchange_wait_events.simps
    by (intro confined_bind [OF recv_confined] holds_packet_gets confined_if holds_packet_ok [OF confined_ok(4)]
      confined_bind [OF packet_confined [OF E p]] confined_bind [OF confined_ok(3)] rest)
qed

lemma confinedD:
  "confined seph_ok F m seph_ok \<Longrightarrow> seph_ok s \<Longrightarrow> seph_ok (snd (m s)) \<and> (fst (m s) = Inl Fault \<longrightarrow> F)"
  unfolding confined_def by (cases "m s", cases "fst (m s)") fastforce+

text \<open>
Property C17: the code of the link itself never leaves the SPI buffer, the APDU buffer or the
endpoint arrays.  Whatever is in the SPI buffer, when the dispatch of an event leaves an array,
this happens inside the one call of the USB library that the packet selects, or inside
\<open>io_event\<close> for a packet that selects none; the same holds for the loop in front of a reply and
the one behind it, where the call is that of one of the packets they receive.  Sending on an
existing endpoint leaves no array at all.  (That calls of the USB library do leave arrays for
malformed packets is stated in the theories of the transports.)
\<close>

theorem seph_memory_safe:
  assumes "env_sizes_kept E" and "seph_ok s"
  shows "(case seph_handle_event E s of (r, s') \<Rightarrow>
      seph_ok s' \<and> (r = Inl Fault \<longrightarrow> env_faults E (G_io_seproxyhal_spi_buffer s)))
    \<and> (case io_exchange_drain E packets s of (r, s') \<Rightarrow>
      seph_ok s' \<and> (r = Inl Fault \<longrightarrow> packet_faults E (set packets)))
    \<and> (case io_exchange_wait E timeout_ms packets s of (r, s') \<Rightarrow>
      seph_ok s' \<and> (r = Inl Fault \<longrightarrow> packet_faults E (set packets)))
    \<and> (unat (ep AND 0x7F) < IO_USB_MAX_ENDPOINTS \<and> unat len \<le> length data \<longrightarrow>
      (case io_usb_send_ep E ep data len s of (r, s') \<Rightarrow> seph_ok s' \<and> r \<noteq> Inl Fault))"
proof -
  let ?b = "G_io_seproxyhal_spi_buffer s"
  have "confined (spi_holds ?b) (env_faults E ?b) (seph_handle_event E) seph_ok" by (rule dispatch_confined [OF assms(1)])
  then have "seph_ok (snd (seph_handle_event E s)) \<and> (fst (seph_handle_event E s) = Inl Fault \<longrightarrow> env_faults E ?b)"
    using assms(2) unfolding confined_def spi_holds_def by (cases "seph_handle_event E s", cases "fst (seph_handle_event E s)") fastforce+
  moreover note confinedD [OF drain_confined [OF assms(1) order_refl, of packets] assms(2)]
  moreover have "confined seph_ok (packet_faults E (set packets)) (io_exchange_wait E timeout_ms packets) seph_ok"
    unfolding io_exchange_wait_def
    by (intro confined_bind [OF confined_ok(3)] confined_if confined_ok confined_bind [OF confined_ok(1)]
        wait_events_confined [OF assms(1) order_refl])
  note confinedD [OF this assms(2)]
  moreover have "unat (ep AND 0x7F) < IO_USB_MAX_ENDPOINTS \<and> unat len \<le> length data \<longrightarrow>
      seph_ok (snd (io_usb_send_ep E ep data len s)) \<and> (fst (io_usb_send_ep E ep data len s) = Inl Fault \<longrightarrow> False)"
    using confinedD [OF confined_safe [OF io_usb_send_ep_safe] assms(2)] by blast
  ultimately show ?thesis by (simp add: split_beta)
qed

text \<open>
A library that reads from the packet as many bytes as the event announces: a packet that
announces 200 bytes leaves the SPI buffer, and the theorem finds the call.
\<close>

definition reading_library :: seph_env where
  "reading_library = \<lparr>usb_library = (\<lambda>call. case call of
       USBD_LL_DataOutStage ep data \<Rightarrow>
         bind_c (io_seproxyhal_get_ep_rx_size ep) (\<lambda>n. bind_c (lift_c (buf_read data 0 (unat n))) (\<lambda>_. return_c ()))
     | _ \<Rightarrow> return_c ()),
     app_event = return_c (), seph_status_tag = \<lambda>tag. tag AND 0x60 = 0x60\<rparr>"

lemma reading_library_sizes: "env_sizes_kept reading_library"
  by (auto simp: env_sizes_kept_def reading_library_def cm_defs io_seproxyhal_get_ep_rx_size_def
      split: usb_call.split sum.split)

theorem seph_memory_safe_witness:
  "\<exists>s t. seph_ok s \<and> G_io_seproxyhal_spi_buffer s = [0x10, 0, 3, 2, 4, 200] @ replicate 122 0
    \<and> fst (seph_handle_event reading_library s) = Inl Fault \<and> seph_ok t
    \<and> fst (usb_library reading_library (USBD_LL_DataOutStage 2 (replicate 122 0)) t) = Inl Fault"
proof -
  let ?b = "[0x10, 0, 3, 2, 4, 200] @ replicate 122 0 :: u8 list"
  define s where "s = \<lparr>G_io_seproxyhal_spi_buffer = ?b, apdu_buffer = replicate 337 0, apdu_state = APDU_IDLE,
    apdu_length = 0, apdu_media = IO_APDU_MEDIA_NONE, ms = 0, usb_ep_xfer_len = replicate 6 0,
    usb_ep_timeouts = replicate 6 0, seph_status_sent = False, seph_out = []\<rparr>"
  have s: "seph_ok s" "G_io_seproxyhal_spi_buffer s = ?b" by (simp_all add: s_def seph_ok_def const_defs)
  have l: "usb_ep_xfer_len s = replicate 6 0" by (simp add: s_def)
  have f: "fst (seph_handle_event reading_library s) = Inl Fault"
    by (simp add: seph_handle_event_def spi_rx_len_run [OF s(1)] spi_byte_def cm_defs s(2) l
        io_seproxyhal_handle_usb_ep_xfer_event_def IO_USB_MAX_ENDPOINTS_def buf_write_def spi_from_def
        reading_library_def io_seproxyhal_get_ep_rx_size_def buf_read_def)
  have c: "usb_call_of ?b = Some (USBD_LL_DataOutStage 2 (replicate 122 0))"
    by (simp add: usb_call_of_def IO_USB_MAX_ENDPOINTS_def)
  from seph_memory_safe [OF reading_library_sizes s(1)] f have "env_faults reading_library ?b"
    by (simp add: split_beta s(2))
  then show ?thesis using s f c unfolding env_faults_def spi_holds_def by auto
qed

section \<open>Timers\<close>

text \<open>An application that leaves the fields of \<open>G_io_app\<close> alone, as \<open>io_event\<close> does for a ticker.\<close>

definition app_quiet :: "seph_env \<Rightarrow> bool" where
  "app_quiet E \<longleftrightarrow> (\<forall>s. seph_ok s \<longrightarrow> (\<exists>s'. app_event E s = (Inr (), s') \<and> seph_ok s'
     \<and> usb_ep_timeouts s' = usb_ep_timeouts s \<and> ms s' = ms s \<and> apdu_state s' = apdu_state s))"

definition ticker_packet :: "u8 list" where
  "ticker_packet = [0x0E, 0, 4, 0, 0, 0, 0]"

text \<open>No timer expires: all are reduced by 100.\<close>

lemma timeouts_loop_runs:
  "n \<le> length (usb_ep_timeouts s) \<Longrightarrow> \<forall>i < n. usb_ep_timeouts s ! i = 0 \<or> usb_ep_timeouts s ! i > 100 \<Longrightarrow>
    usb_timeouts_loop n s = (Inr (), s\<lparr>usb_ep_timeouts := map ticked (take n (usb_ep_timeouts s))
      @ drop n (usb_ep_timeouts s)\<rparr>)"
proof (induction n arbitrary: s)
  case 0
  show ?case by (simp add: return_c_def)
next
  case (Suc n)
  let ?t = "usb_ep_timeouts s ! n"
  let ?s = "s\<lparr>usb_ep_timeouts := (usb_ep_timeouts s)[n := ticked ?t]\<rparr>"
  have n: "n < length (usb_ep_timeouts s)" using Suc.prems(1) by simp
  have z: "ticked ?t \<noteq> 0" if "?t \<noteq> 0"
  proof -
    have "?t > 100" using that Suc.prems(2) by blast
    then show ?thesis by (auto simp: ticked_def min_def)
  qed
  have "usb_timeouts_loop (Suc n) s = usb_timeouts_loop n ?s"
  proof (cases "?t = 0")
    case True
    then have "?s = s" by (simp add: ticked_def) (metis list_update_id seph.surjective seph.update_convs(8))
    then show ?thesis using True by (simp add: cm_defs timeout_at [OF n])
  next
    case False
    with z show ?thesis by (simp add: cm_defs timeout_at [OF n] ticked_def Let_def)
  qed
  also have "\<dots> = (Inr (), ?s\<lparr>usb_ep_timeouts := map ticked (take n (usb_ep_timeouts ?s))
      @ drop n (usb_ep_timeouts ?s)\<rparr>)"
    using Suc.prems by (intro Suc.IH) simp_all
  finally show ?case using n by (simp add: take_Suc_conv_app_nth drop_update_cancel upd_conv_take_nth_drop)
qed

text \<open>The state in which a received ticker is handled.\<close>

definition ticker_received :: "seph \<Rightarrow> seph" where
  "ticker_received s =
     s\<lparr>G_io_seproxyhal_spi_buffer := ticker_packet @ drop (length ticker_packet) (G_io_seproxyhal_spi_buffer s), seph_status_sent := False,
       ms := ms s + 100\<rparr>"

lemma ticker_received_ok: "seph_ok s \<Longrightarrow> seph_ok (ticker_received s)"
  by (simp add: seph_ok_def ticker_received_def ticker_packet_def const_defs)

lemma ticker_received_fields [simp]:
  "usb_ep_timeouts (ticker_received s) = usb_ep_timeouts s" "ms (ticker_received s) = ms s + 100"
  "apdu_state (ticker_received s) = apdu_state s"
  by (simp_all add: ticker_received_def)

lemma spi_recv_ms: "spi_recv p s = (Inr (), s') \<Longrightarrow> ms s' = ms s"
  by (auto simp: spi_recv_def modify_c_def Let_def)

definition handle_ticker :: "seph_env \<Rightarrow> (seph, unit) cm" where
  "handle_ticker E = bind_c (spi_recv ticker_packet) (\<lambda>_. bind_c (seph_handle_event E) (\<lambda>_. return_c ()))"

lemma handle_ticker_run:
  assumes "seph_ok s"
  shows "bind_c (spi_recv ticker_packet) (\<lambda>_. bind_c (seph_handle_event E) f) s
    = bind_c (usb_timeouts_loop IO_USB_MAX_ENDPOINTS) (\<lambda>_. bind_c (app_event E) (\<lambda>_. f 1)) (ticker_received s)"
proof -
  have l: "length (G_io_seproxyhal_spi_buffer s) = 128" using assms by (simp add: seph_ok_def const_defs)
  show ?thesis
    by (simp add: spi_recv_def seph_handle_event_def bind_c_assoc bind_c_def [of "modify_c _"] modify_c_def l Let_def
        ticker_packet_def) (simp add: spi_rx_len_def spi_byte_def cm_defs ticker_received_def ticker_packet_def l
        split: prod.split sum.split)
qed

lemma app_quiet_run:
  "app_quiet E \<Longrightarrow> seph_ok s \<Longrightarrow> \<exists>s'. app_event E s = (Inr (), s') \<and> seph_ok s'
     \<and> usb_ep_timeouts s' = usb_ep_timeouts s \<and> ms s' = ms s \<and> apdu_state s' = apdu_state s"
  by (simp add: app_quiet_def)

text \<open>A ticker that lets no timer expire.\<close>

lemma ticker_passes:
  assumes s: "seph_ok s" and q: "app_quiet E"
    and t: "\<forall>i < 6. usb_ep_timeouts s ! i = 0 \<or> usb_ep_timeouts s ! i > 100"
  shows "\<exists>s'. handle_ticker E s = (Inr (), s') \<and> seph_ok s' \<and> usb_ep_timeouts s' = map ticked (usb_ep_timeouts s)
    \<and> apdu_state s' = apdu_state s"
proof -
  have l: "length (usb_ep_timeouts s) = 6" using s by (simp add: seph_ok_def const_defs)
  let ?s = "(ticker_received s)\<lparr>usb_ep_timeouts := map ticked (usb_ep_timeouts s)\<rparr>"
  have loop: "usb_timeouts_loop IO_USB_MAX_ENDPOINTS (ticker_received s) = (Inr (), ?s)"
    using timeouts_loop_runs [of 6 "ticker_received s"] l t by (simp add: IO_USB_MAX_ENDPOINTS_def)
  have "seph_ok ?s" using ticker_received_ok [OF s] by (simp add: seph_ok_def)
  from app_quiet_run [OF q this] obtain s' where "app_event E ?s = (Inr (), s')" "seph_ok s'"
    "usb_ep_timeouts s' = map ticked (usb_ep_timeouts s)" "apdu_state s' = apdu_state s" by auto
  then show ?thesis
    unfolding handle_ticker_def handle_ticker_run [OF s]
    by (intro exI [of _ s']) (simp add: bind_c_def [of "usb_timeouts_loop _"] loop bind_c_def return_c_def)
qed

text \<open>A ticker in which the timer of an endpoint expires.\<close>

lemma timeouts_loop_expires:
  "i < n \<Longrightarrow> n \<le> length (usb_ep_timeouts s) \<Longrightarrow> usb_ep_timeouts s ! i \<noteq> 0 \<Longrightarrow> usb_ep_timeouts s ! i \<le> 100 \<Longrightarrow>
    \<exists>l. usb_timeouts_loop n s = (Inl (Throw EXCEPTION_IO_RESET), s\<lparr>usb_ep_timeouts := l, apdu_state := APDU_IDLE\<rparr>)"
proof (induction n arbitrary: s)
  case (Suc n)
  let ?t = "usb_ep_timeouts s ! n"
  let ?s = "s\<lparr>usb_ep_timeouts := (usb_ep_timeouts s)[n := ticked ?t]\<rparr>"
  have n: "n < length (usb_ep_timeouts s)" using Suc.prems(2) by simp
  consider "?t = 0" | "?t \<noteq> 0" "ticked ?t = 0" | "?t \<noteq> 0" "ticked ?t \<noteq> 0" by blast
  then show ?case
  proof cases
    case 1
    then have "i < n" using Suc.prems(1,3) by (cases "i = n") simp_all
    moreover have "usb_timeouts_loop (Suc n) s = usb_timeouts_loop n s" using 1 by (simp add: cm_defs timeout_at [OF n])
    ultimately show ?thesis using Suc.IH [of s] Suc.prems n by simp
  next
    case 2
    then show ?thesis by (intro exI [of _ "(usb_ep_timeouts s)[n := ticked ?t]"])
        (simp add: cm_defs timeout_at [OF n] ticked_def Let_def)
  next
    case 3
    then have "i < n" using Suc.prems(1,3,4) by (cases "i = n") (auto simp: ticked_def min_def)
    moreover have "usb_timeouts_loop (Suc n) s = usb_timeouts_loop n ?s"
      using 3 by (simp add: cm_defs timeout_at [OF n] ticked_def Let_def)
    ultimately show ?thesis using Suc.IH [of ?s] Suc.prems n by simp
  qed
qed simp

lemma ticker_expires:
  assumes s: "seph_ok s" and t: "i < 6" "usb_ep_timeouts s ! i \<noteq> 0" "usb_ep_timeouts s ! i \<le> 100"
  shows "\<exists>s'. handle_ticker E s = (Inl (Throw EXCEPTION_IO_RESET), s') \<and> apdu_state s' = APDU_IDLE"
proof -
  have "length (usb_ep_timeouts s) = 6" using s by (simp add: seph_ok_def const_defs)
  then obtain l where "usb_timeouts_loop IO_USB_MAX_ENDPOINTS (ticker_received s)
      = (Inl (Throw EXCEPTION_IO_RESET), (ticker_received s)\<lparr>usb_ep_timeouts := l, apdu_state := APDU_IDLE\<rparr>)"
    using timeouts_loop_expires [of i 6 "ticker_received s"] t by (auto simp: IO_USB_MAX_ENDPOINTS_def)
  then show ?thesis
    unfolding handle_ticker_def handle_ticker_run [OF s] by (simp add: bind_c_def)
qed

text \<open>A sequence of tickers.\<close>

fun handle_tickers :: "seph_env \<Rightarrow> nat \<Rightarrow> (seph, unit) cm" where
  "handle_tickers E 0 = return_c ()"
| "handle_tickers E (Suc k) = bind_c (handle_ticker E) (\<lambda>_. handle_tickers E k)"

text \<open>One timer runs, the others are off.\<close>

definition one_timer :: "nat \<Rightarrow> nat \<Rightarrow> seph \<Rightarrow> bool" where
  "one_timer i k s \<longleftrightarrow> seph_ok s \<and> usb_ep_timeouts s = (replicate 6 0)[i := of_nat (100 * k)]"

lemma ticked_step: "0 < k \<Longrightarrow> k \<le> 20 \<Longrightarrow> ticked (of_nat (100 * k)) = of_nat (100 * (k - 1))"
proof -
  assume k: "0 < k" "k \<le> 20"
  then have u: "unat (of_nat (100 * k) :: u16) = 100 * k" by (simp add: unat_of_nat del: of_nat_mult)
  have le: "100 \<le> (of_nat (100 * k) :: u16)" using k by (simp add: word_le_nat_alt u del: of_nat_mult)
  obtain j where j: "k = Suc j" using k by (cases k) auto
  have "ticked (of_nat (100 * k)) = of_nat (100 * k) - 100" using le by (simp add: ticked_def min_absorb2)
  also have "\<dots> = of_nat (100 * (k - 1))" by (simp add: j)
  finally show ?thesis .
qed

lemma tickers_pass:
  assumes q: "app_quiet E" and i: "i < 6"
  shows "one_timer i k s \<Longrightarrow> k \<le> 20 \<Longrightarrow> j < k \<Longrightarrow>
    \<exists>s'. handle_tickers E j s = (Inr (), s') \<and> one_timer i (k - j) s'"
proof (induction j arbitrary: k s)
  case 0
  then show ?case by (simp add: return_c_def)
next
  case (Suc j)
  have k: "1 < k" "unat (of_nat (100 * k) :: u16) = 100 * k" using Suc.prems(2,3) by (simp_all add: unat_of_nat del: of_nat_mult)
  have gt: "(of_nat (100 * k) :: u16) > 100" using k by (simp add: word_less_nat_alt del: of_nat_mult)
  have ts: "usb_ep_timeouts s = (replicate 6 0)[i := of_nat (100 * k)]" "seph_ok s"
    using Suc.prems(1) by (simp_all add: one_timer_def)
  have "\<forall>m < 6. usb_ep_timeouts s ! m = 0 \<or> usb_ep_timeouts s ! m > 100"
    unfolding ts(1) using gt i by (simp add: nth_list_update del: of_nat_mult)
  from ticker_passes [OF ts(2) q this] obtain s1 where
    s1: "handle_ticker E s = (Inr (), s1)" "seph_ok s1" "usb_ep_timeouts s1 = map ticked (usb_ep_timeouts s)" by blast
  have "map ticked (usb_ep_timeouts s) = (replicate 6 0)[i := of_nat (100 * (k - 1))]"
    unfolding ts(1) using ticked_step [of k] k(1) Suc.prems(2)
    by (simp add: map_update ticked_def [of 0] del: of_nat_mult)
  then have "one_timer i (k - 1) s1" using s1 by (simp add: one_timer_def del: of_nat_mult)
  from Suc.IH [OF this] Suc.prems(2,3) show ?case by (simp add: bind_c_def s1(1))
qed

lemma tickers_last: "handle_tickers E (j + 1) = bind_c (handle_tickers E j) (\<lambda>_. handle_ticker E)"
proof (induction j)
  case 0
  show ?case by (simp add: fun_eq_iff bind_c_def return_c_def split: prod.split sum.split)
next
  case (Suc j)
  have "handle_tickers E (Suc j + 1) = bind_c (handle_ticker E) (\<lambda>_. handle_tickers E (j + 1))" by simp
  also have "\<dots> = bind_c (handle_ticker E) (\<lambda>_. bind_c (handle_tickers E j) (\<lambda>_. handle_ticker E))"
    by (simp only: Suc)
  finally show ?case by (simp add: bind_c_assoc)
qed

text \<open>Sending on an endpoint starts its timer.\<close>

lemma send_ep_starts:
  assumes s: "seph_ok s" "usb_ep_timeouts s = replicate 6 0"
    and a: "unat (ep AND 0x7F) < IO_USB_MAX_ENDPOINTS" "unat len \<le> length data" "len \<le> 255"
  shows "\<exists>s'. io_usb_send_ep E ep data len s = (Inr (), s') \<and> one_timer (unat (ep AND 0x7F)) 20 s'"
proof -
  let ?i = "unat (ep AND 0x7F)"
  have l: "length (G_io_seproxyhal_spi_buffer s) = 128" "length (usb_ep_timeouts s) = 6"
    using s(1) by (simp_all add: seph_ok_def const_defs)
  have w: "take ?i (replicate 6 (0 :: u16)) @ 2000 # drop (Suc ?i) (replicate 6 0) = (replicate 6 0)[?i := 2000]"
    using a(1) by (simp add: upd_conv_take_nth_drop IO_USB_MAX_ENDPOINTS_def)
  have "\<exists>s'. io_usb_send_ep E ep data len s = (Inr (), s')
      \<and> usb_ep_timeouts s' = take ?i (replicate 6 0) @ 2000 # drop (Suc ?i) (replicate 6 0)"
    using a l s(2) leD [OF a(3)]
    by (simp add: io_usb_send_ep_def seph_send_buffer_def seph_send_def cm_defs buf_write_def buf_read_def
        IO_USB_MAX_ENDPOINTS_def IO_RAPDU_TRANSMIT_TIMEOUT_MS_def)
  then obtain s' where s': "io_usb_send_ep E ep data len s = (Inr (), s')"
    "usb_ep_timeouts s' = (replicate 6 0)[?i := 2000]" unfolding w by blast
  have "seph_ok s'"
    using io_usb_send_ep_safe [OF a(1,2), of E] s(1) s'(1) by (simp add: seph_safe_def valid_c_def split: prod.splits)
      (metis (no_types, lifting) old.sum.simps(6))
  with s' show ?thesis by (intro exI [of _ s']) (simp add: one_timer_def)
qed

text \<open>
Property C18: a packet for the host that is not acknowledged resets the transport after two
seconds.  After \<open>io_usb_send_ep\<close> the timer of the endpoint runs down by 100 ms in each ticker;
up to the 19th ticker nothing happens, and the 20th makes the transport idle and throws
\<open>EXCEPTION_IO_RESET\<close>.  (The argument \<open>timeout\<close> of the caller plays no role.)
\<close>

theorem endpoint_timeout:
  assumes "seph_ok s" "usb_ep_timeouts s = replicate 6 0" and "app_quiet E"
    and "unat (ep AND 0x7F) < IO_USB_MAX_ENDPOINTS" "unat len \<le> length data" "len \<le> 255"
  shows "(j < 20 \<longrightarrow> (\<exists>s'. bind_c (io_usb_send_ep E ep data len) (\<lambda>_. handle_tickers E j) s = (Inr (), s')
        \<and> usb_ep_timeouts s' ! unat (ep AND 0x7F) = 2000 - 100 * of_nat j))
    \<and> (\<exists>s'. bind_c (io_usb_send_ep E ep data len) (\<lambda>_. handle_tickers E 20) s
          = (Inl (Throw EXCEPTION_IO_RESET), s') \<and> apdu_state s' = APDU_IDLE)"
proof -
  let ?i = "unat (ep AND 0x7F)"
  have i: "?i < 6" using assms(4) by (simp add: IO_USB_MAX_ENDPOINTS_def)
  obtain s1 where s1: "io_usb_send_ep E ep data len s = (Inr (), s1)" "one_timer ?i 20 s1"
    using send_ep_starts [OF assms(1,2,4-6)] by blast
  have pass: "\<exists>s'. bind_c (io_usb_send_ep E ep data len) (\<lambda>_. handle_tickers E j) s = (Inr (), s')
      \<and> usb_ep_timeouts s' ! ?i = 2000 - 100 * of_nat j" if j: "j < 20"
  proof -
    have "(of_nat (100 * (20 - j)) :: u16) = 2000 - 100 * of_nat j" using j by (simp add: of_nat_diff algebra_simps)
    then show ?thesis
      using tickers_pass [OF assms(3) i s1(2) order_refl j] i by (auto simp: bind_c_def s1(1) one_timer_def)
  qed
  obtain s2 where s2: "handle_tickers E 19 s1 = (Inr (), s2)" "one_timer ?i 1 s2"
    using tickers_pass [OF assms(3) i s1(2) order_refl, of 19] by auto
  have "seph_ok s2" "usb_ep_timeouts s2 ! ?i \<noteq> 0" "usb_ep_timeouts s2 ! ?i \<le> 100"
    using s2(2) i by (simp_all add: one_timer_def)
  from ticker_expires [OF this(1) i this(2,3), of E] s2(1) tickers_last [of E 19] pass show ?thesis
    by (auto simp: bind_c_def s1(1))
qed

text \<open>The environment of the examples: the USB library and the application do nothing.\<close>

definition sample_seph_env :: seph_env where
  "sample_seph_env =
     \<lparr>usb_library = \<lambda>_. return_c (), app_event = return_c (), seph_status_tag = \<lambda>tag. tag AND 0x60 = 0x60\<rparr>"

definition sample_seph :: seph where
  "sample_seph =
     \<lparr>G_io_seproxyhal_spi_buffer = replicate 128 0, apdu_buffer = replicate 337 0, apdu_state = APDU_USB_HID,
      apdu_length = 0, apdu_media = IO_APDU_MEDIA_USB_HID, ms = 0, usb_ep_xfer_len = replicate 6 0,
      usb_ep_timeouts = replicate 6 0, seph_status_sent = False, seph_out = []\<rparr>"

lemma sample_seph_ok: "seph_ok sample_seph" "app_quiet sample_seph_env"
  by (simp_all add: sample_seph_def seph_ok_def const_defs app_quiet_def sample_seph_env_def return_c_def)

theorem endpoint_timeout_witness:
  "\<exists>s'. bind_c (io_usb_send_ep sample_seph_env 0x82 [1, 2, 3] 3) (\<lambda>_. handle_tickers sample_seph_env 20) sample_seph
    = (Inl (Throw EXCEPTION_IO_RESET), s') \<and> apdu_state s' = APDU_IDLE"
proof -
  have t: "usb_ep_timeouts sample_seph = replicate 6 0" by (simp add: sample_seph_def)
  have "unat (0x82 AND 0x7F :: u32) < IO_USB_MAX_ENDPOINTS" "unat (3 :: u16) \<le> length [1, 2, 3 :: u8]" "(3 :: u16) \<le> 255"
    by (simp_all add: IO_USB_MAX_ENDPOINTS_def)
  from endpoint_timeout [OF sample_seph_ok(1) t sample_seph_ok(2) this] show ?thesis by blast
qed

text \<open>
  A length above 255 is dropped without an error and without a timer, and an endpoint that
  does not exist makes the code write behind the array of timers.
\<close>

lemma send_ep_refuses:
  "len > 255 \<Longrightarrow> io_usb_send_ep E ep data len s = (Inr (), s)"
  "seph_ok s \<Longrightarrow> unat len \<le> length data \<Longrightarrow> len \<le> 255 \<Longrightarrow> IO_USB_MAX_ENDPOINTS \<le> unat (ep AND 0x7F) \<Longrightarrow>
    fst (io_usb_send_ep E ep data len s) = Inl Fault"
  by (auto simp: io_usb_send_ep_def seph_send_buffer_def seph_send_def cm_defs buf_write_def buf_read_def seph_ok_def
      const_defs)

section \<open>Waiting for the end of a reply\<close>

lemma general_status_returns:
  "seph_ok s \<Longrightarrow> \<exists>s'. seph_general_status E s = (Inr (), s') \<and> seph_ok s' \<and> ms s' = ms s
     \<and> apdu_state s' = apdu_state s"
  by (auto simp: seph_general_status_def seph_send_buffer_def seph_send_def cm_defs buf_write_def seph_ok_def const_defs)

lemma spi_recv_run: "\<exists>s'. spi_recv p s = (Inr (), s') \<and> ms s' = ms s \<and> (seph_ok s \<longrightarrow> seph_ok s')"
  by (simp add: spi_recv_def modify_c_def Let_def seph_ok_def min_def)

lemma bind_gets_run: "bind_c (gets_c g) f s = f (g s) s"
  by (simp add: bind_c_def gets_c_def)

lemma wait_ticker:
  assumes s: "seph_ok s" and q: "app_quiet E" and lt: "ms s < timeout_ms"
  shows "(\<exists>s'. io_exchange_wait_events E timeout_ms (ticker_packet # packets) s = (Inl (Throw EXCEPTION_IO_RESET), s'))
    \<or> (\<exists>s'. io_exchange_wait_events E timeout_ms (ticker_packet # packets) s
          = (if apdu_state s = APDU_IDLE \<and> \<not> seph_status_sent s' then (Inr (Some packets), s')
             else if seph_status_sent s' then io_exchange_wait_events E timeout_ms packets s'
             else bind_c (seph_general_status E) (\<lambda>_. io_exchange_wait_events E timeout_ms packets) s')
        \<and> seph_ok s' \<and> ms s' = ms s + 100 \<and> apdu_state s' = apdu_state s)"
proof -
  let ?f = "\<lambda>_. bind_c (gets_c (\<lambda>s. (seph_status_sent s, apdu_state s))) (\<lambda>(is_sent, st).
      if is_sent then io_exchange_wait_events E timeout_ms packets
      else if st = APDU_IDLE then return_c (Some packets)
      else bind_c (seph_general_status E) (\<lambda>_. io_exchange_wait_events E timeout_ms packets))"
  have "io_exchange_wait_events E timeout_ms (ticker_packet # packets) s
      = bind_c (spi_recv ticker_packet) (\<lambda>_. bind_c (seph_handle_event E) ?f) s"
    using lt spi_recv_ms [of ticker_packet s] by (auto simp: bind_c_def gets_c_def split: prod.split sum.split)
  then have w: "io_exchange_wait_events E timeout_ms (ticker_packet # packets) s
      = bind_c (usb_timeouts_loop IO_USB_MAX_ENDPOINTS) (\<lambda>_. bind_c (app_event E) ?f) (ticker_received s)"
    unfolding handle_ticker_run [OF s] .
  have l: "IO_USB_MAX_ENDPOINTS \<le> length (usb_ep_timeouts (ticker_received s))" using s by (simp add: seph_ok_def)
  show ?thesis
    using timeouts_loop_cases [OF l]
  proof (elim disjE exE conjE)
    fix t
    let ?s = "(ticker_received s)\<lparr>usb_ep_timeouts := t\<rparr>"
    assume t: "usb_timeouts_loop IO_USB_MAX_ENDPOINTS (ticker_received s) = (Inr (), ?s)"
      "length t = length (usb_ep_timeouts (ticker_received s))"
    have "seph_ok ?s" using ticker_received_ok [OF s] t(2) by (simp add: seph_ok_def)
    from app_quiet_run [OF q this] obtain s' where "app_event E ?s = (Inr (), s')" "seph_ok s'" "ms s' = ms s + 100"
      "apdu_state s' = apdu_state s" by auto
    then show ?thesis
      unfolding w by (intro disjI2 exI [of _ s']) (simp add: bind_c_def [of "usb_timeouts_loop _"] t(1)
          bind_c_def [of "app_event E"] bind_gets_run return_c_def)
  next
    fix t
    assume "usb_timeouts_loop IO_USB_MAX_ENDPOINTS (ticker_received s)
      = (Inl (Throw EXCEPTION_IO_RESET), (ticker_received s)\<lparr>usb_ep_timeouts := t, apdu_state := APDU_IDLE\<rparr>)"
    then show ?thesis unfolding w by (intro disjI1) (simp add: bind_c_def)
  qed
qed

lemma wait_expires:
  assumes q: "app_quiet E"
  shows "seph_ok s \<Longrightarrow> apdu_state s \<noteq> APDU_IDLE \<Longrightarrow> unat timeout_ms \<le> unat (ms s) + 100 * j \<Longrightarrow>
    unat (ms s) + 100 * j < 2 ^ 32 \<Longrightarrow>
    \<exists>s'. io_exchange_wait_events E timeout_ms (replicate (j + 1) ticker_packet @ packets) s
      = (Inl (Throw EXCEPTION_IO_RESET), s')"
proof (induction j arbitrary: s)
  case (0 s)
  obtain s' where "spi_recv ticker_packet s = (Inr (), s')" "ms s' = ms s" using spi_recv_run by blast
  with 0 show ?case by (simp add: bind_c_def gets_c_def throw_c_def word_le_nat_alt)
next
  case (Suc j s)
  show ?case
  proof (cases "ms s < timeout_ms")
    case False
    obtain s' where "spi_recv ticker_packet s = (Inr (), s')" "ms s' = ms s" using spi_recv_run by blast
    moreover have "timeout_ms \<le> ms s" using False by simp
    ultimately show ?thesis by (simp add: bind_c_def gets_c_def throw_c_def)
  next
    case True
    have next_s: "\<exists>s'. io_exchange_wait_events E timeout_ms (replicate (j + 1) ticker_packet @ packets) t
        = (Inl (Throw EXCEPTION_IO_RESET), s')"
      if "seph_ok t" "ms t = ms s + 100" "apdu_state t = apdu_state s" for t
    proof -
      have "unat (ms s + 100) = unat (ms s) + 100" using Suc.prems(4) by (simp add: unat_word_ariths)
      then show ?thesis using Suc.IH [of t] Suc.prems that by simp
    qed
    have r: "replicate (Suc j + 1) ticker_packet @ packets = ticker_packet # (replicate (j + 1) ticker_packet @ packets)"
      by simp
    from wait_ticker [OF Suc.prems(1) q True, of "replicate (j + 1) ticker_packet @ packets"] show ?thesis
      unfolding r
    proof (elim disjE exE conjE)
      fix t
      assume t: "io_exchange_wait_events E timeout_ms (ticker_packet # replicate (j + 1) ticker_packet @ packets) s
          = (if apdu_state s = APDU_IDLE \<and> \<not> seph_status_sent t then (Inr (Some (replicate (j + 1) ticker_packet @ packets)), t)
             else if seph_status_sent t then io_exchange_wait_events E timeout_ms (replicate (j + 1) ticker_packet @ packets) t
             else bind_c (seph_general_status E)
               (\<lambda>_. io_exchange_wait_events E timeout_ms (replicate (j + 1) ticker_packet @ packets)) t)"
        and f: "seph_ok t" "ms t = ms s + 100" "apdu_state t = apdu_state s"
      obtain t' where t': "seph_general_status E t = (Inr (), t')" "seph_ok t'" "ms t' = ms t" "apdu_state t' = apdu_state t"
        using general_status_returns [OF f(1)] by blast
      show "\<exists>s'. io_exchange_wait_events E timeout_ms (ticker_packet # replicate (j + 1) ticker_packet @ packets) s
          = (Inl (Throw EXCEPTION_IO_RESET), s')"
        using next_s [OF f] next_s [of t'] t' f Suc.prems(2) unfolding t by (simp add: bind_c_def)
    qed blast
  qed
qed

text \<open>
Property C19: a host that does not fetch a reply cannot block the application.  While
\<open>io_exchange\<close> waits for the transport to become idle and only tickers arrive, it throws
\<open>EXCEPTION_IO_RESET\<close> after at most 21 of them, in whatever state the endpoint timers are.
\<close>

theorem reply_times_out:
  assumes "seph_ok s" and "app_quiet E" and "apdu_state s \<noteq> APDU_IDLE" and "unat (ms s) + 2000 < 2 ^ 32"
  shows "\<exists>s'. io_exchange_wait E (ms s + ucast IO_RAPDU_TRANSMIT_TIMEOUT_MS) (replicate 21 ticker_packet @ packets) s
    = (Inl (Throw EXCEPTION_IO_RESET), s')"
proof -
  obtain t where t: "seph_general_status E s = (Inr (), t)" "seph_ok t" "ms t = ms s" "apdu_state t = apdu_state s"
    using general_status_returns [OF assms(1)] by blast
  have u: "unat (ms s + ucast IO_RAPDU_TRANSMIT_TIMEOUT_MS) = unat (ms s) + 2000"
    using assms(4) by (simp add: unat_word_ariths IO_RAPDU_TRANSMIT_TIMEOUT_MS_def)
  have "\<exists>s'. io_exchange_wait_events E (ms s + ucast IO_RAPDU_TRANSMIT_TIMEOUT_MS)
      (replicate (20 + 1) ticker_packet @ packets) t = (Inl (Throw EXCEPTION_IO_RESET), s')"
    using t assms(3,4) u by (intro wait_expires [OF assms(2)]) simp_all
  then show ?thesis using t(1) assms(3) by (simp add: io_exchange_wait_def bind_c_def gets_c_def)
qed

theorem reply_times_out_witness:
  "\<exists>s'. io_exchange_wait sample_seph_env 2000 (replicate 21 ticker_packet) sample_seph
    = (Inl (Throw EXCEPTION_IO_RESET), s')"
proof -
  have "apdu_state sample_seph \<noteq> APDU_IDLE" "unat (ms sample_seph) + 2000 < 2 ^ 32"
    by (simp_all add: sample_seph_def)
  from reply_times_out [OF sample_seph_ok this, of "[]"] show ?thesis
    by (simp add: sample_seph_def IO_RAPDU_TRANSMIT_TIMEOUT_MS_def)
qed

section \<open>The loop in front of a reply\<close>

lemma drain_idle: "\<not> seph_status_sent s \<Longrightarrow> io_exchange_drain E packets s = (Inr (Some packets), s)"
  by (cases "(E, packets)" rule: io_exchange_drain.cases) (simp_all add: bind_gets_run return_c_def)

lemma spi_recv_buffer:
  assumes "length (G_io_seproxyhal_spi_buffer s) = 128"
  shows "\<exists>b. spi_recv p s = (Inr (), s\<lparr>G_io_seproxyhal_spi_buffer := b, seph_status_sent := False\<rparr>) \<and> length b = 128
    \<and> (p \<noteq> [] \<longrightarrow> b ! 0 = hd p)"
proof -
  let ?n = "min (length p) 128"
  show ?thesis
    by (intro exI [of _ "take ?n p @ drop ?n (G_io_seproxyhal_spi_buffer s)"])
      (cases p; simp add: spi_recv_def modify_c_def Let_def assms)
qed

lemma general_status_buffer:
  assumes "length b = 128"
  shows "\<exists>b' v. seph_general_status E (s\<lparr>G_io_seproxyhal_spi_buffer := b, seph_status_sent := False\<rparr>)
      = (Inr (), s\<lparr>G_io_seproxyhal_spi_buffer := b', seph_status_sent := v, seph_out := seph_out s @ [0x60, 0, 2, 0, 0]\<rparr>)
    \<and> length b' = 128"
proof -
  define t where "t = s\<lparr>G_io_seproxyhal_spi_buffer := b, seph_status_sent := False\<rparr>"
  have f: "G_io_seproxyhal_spi_buffer t = b" "\<not> seph_status_sent t" by (simp_all add: t_def)
  have w: "buf_write b 0 [0x60, 0, 2, 0, 0] = Inr ([0x60, 0, 2, 0, 0] @ drop 5 b)"
    using assms by (simp add: buf_write_def eval_nat_numeral)
  have "seph_general_status E t = (Inr (), t\<lparr>G_io_seproxyhal_spi_buffer := [0x60, 0, 2, 0, 0] @ drop 5 b,
      seph_out := seph_out t @ [0x60, 0, 2, 0, 0], seph_status_sent := seph_status_tag E 0x60\<rparr>)"
    by (simp only: seph_general_status_def seph_send_buffer_def seph_send_def cm_defs f w bindE_simps sum.case
        prod.case if_False) (simp add: f)
  then show ?thesis
    using assms unfolding t_def
    by (intro exI [of _ "[0x60, 0, 2, 0, 0] @ drop 5 b"] exI [of _ "seph_status_tag E 0x60"]) simp
qed

text \<open>
Property C20: \<open>io_exchange\<close> loses an event when it has to wait for its turn to send.  The loop
receives a packet and then calls \<open>os_io_seph_recv_and_process\<close>, which receives the next one
over it: whatever the first packet is, a command, an acknowledgement or a reset of the bus,
nothing but the SPI buffer shows that it has arrived, and an event of the user interface
behind it is dropped as well.
\<close>

theorem drain_loses_packets:
  assumes "seph_ok s" and "seph_status_sent s" and "q \<noteq> []" "is_ux_event (hd q)"
  shows "\<exists>b. length b = 128 \<and> io_exchange_drain E (p # q # packets) s
    = (Inr (Some packets), s\<lparr>G_io_seproxyhal_spi_buffer := b, seph_status_sent := False,
        seph_out := seph_out s @ [0x60, 0, 2, 0, 0]\<rparr>)"
proof -
  have l: "length (G_io_seproxyhal_spi_buffer s) = 128" using assms(1) by (simp add: seph_ok_def const_defs)
  obtain b1 where b1: "spi_recv p s = (Inr (), s\<lparr>G_io_seproxyhal_spi_buffer := b1, seph_status_sent := False\<rparr>)"
    "length b1 = 128" using spi_recv_buffer [OF l] by blast
  obtain b2 v where b2: "seph_general_status E (s\<lparr>G_io_seproxyhal_spi_buffer := b1, seph_status_sent := False\<rparr>)
      = (Inr (), s\<lparr>G_io_seproxyhal_spi_buffer := b2, seph_status_sent := v, seph_out := seph_out s @ [0x60, 0, 2, 0, 0]\<rparr>)"
    "length b2 = 128"
    using general_status_buffer [OF b1(2)] by blast
  let ?s = "s\<lparr>G_io_seproxyhal_spi_buffer := b2, seph_status_sent := v, seph_out := seph_out s @ [0x60, 0, 2, 0, 0]\<rparr>"
  obtain b3 where b3: "spi_recv q ?s = (Inr (), ?s\<lparr>G_io_seproxyhal_spi_buffer := b3, seph_status_sent := False\<rparr>)"
    "length b3 = 128" "b3 ! 0 = hd q" using spi_recv_buffer [of ?s q] b2(2) assms(3) by auto
  let ?t = "?s\<lparr>G_io_seproxyhal_spi_buffer := b3, seph_status_sent := False\<rparr>"
  have "b3 \<noteq> []" using b3(2) by auto
  then have "os_io_seph_recv_and_process E True q (s\<lparr>G_io_seproxyhal_spi_buffer := b1, seph_status_sent := False\<rparr>)
      = (Inr 0, ?t)"
    using b3 assms(4) by (simp add: os_io_seph_recv_and_process_def bind_gets_run bind_c_def [of "seph_general_status _"]
        b2(1) bind_c_def [of "spi_recv _"] spi_byte_def bind_c_assoc) (simp add: return_c_def)
  moreover have "io_exchange_drain E packets ?t = (Inr (Some packets), ?t)" by (rule drain_idle) simp
  ultimately have "io_exchange_drain E (p # q # packets) s = (Inr (Some packets), ?t)"
    using assms(2) by (simp add: bind_gets_run bind_c_def [of "spi_recv _"]
        bind_c_def [of "os_io_seph_recv_and_process _ _ _"] b1(1))
  with b3(2) show ?thesis by (intro exI [of _ b3]) simp
qed

text \<open>In the example the lost packet is the acknowledgement of a packet on endpoint 2.\<close>

theorem drain_loses_packets_witness:
  "\<exists>s'. io_exchange_drain sample_seph_env [[0x10, 0, 3, 2, 2, 0], ticker_packet]
      (sample_seph\<lparr>seph_status_sent := True, usb_ep_timeouts := [0, 0, 2000, 0, 0, 0]\<rparr>) = (Inr (Some []), s')
    \<and> usb_ep_timeouts s' = [0, 0, 2000, 0, 0, 0]"
proof -
  let ?s = "sample_seph\<lparr>seph_status_sent := True, usb_ep_timeouts := [0, 0, 2000, 0, 0, 0]\<rparr>"
  have "seph_ok ?s" "seph_status_sent ?s" "ticker_packet \<noteq> []" "is_ux_event (hd ticker_packet)"
    by (simp_all add: sample_seph_def seph_ok_def const_defs ticker_packet_def is_ux_event_def)
  from drain_loses_packets [OF this, of sample_seph_env "[0x10, 0, 3, 2, 2, 0]" "[]"] show ?thesis by auto
qed

text \<open>Received in the reception loop, the same packet stops the timer.\<close>

lemma acknowledgement_stops_timer:
  assumes "seph_ok s" "unat (ep AND 0x7F) < IO_USB_MAX_ENDPOINTS"
    and "usb_library E = (\<lambda>_. return_c ())"
  shows "\<exists>b. bind_c (spi_recv [0x10, 0, 3, ep, 2, 0]) (\<lambda>_. seph_handle_event E) s
    = (Inr 1, s\<lparr>G_io_seproxyhal_spi_buffer := b, seph_status_sent := False,
        usb_ep_timeouts := (usb_ep_timeouts s)[unat (ep AND 0x7F) := 0]\<rparr>)"
proof -
  have l: "length (G_io_seproxyhal_spi_buffer s) = 128" "length (usb_ep_timeouts s) = 6"
    using assms(1) by (simp_all add: seph_ok_def const_defs)
  have w: "buf_write (usb_ep_timeouts s) (unat (ep AND 0x7F)) [0] = Inr ((usb_ep_timeouts s)[unat (ep AND 0x7F) := 0])"
    using assms(2) l(2) by (simp add: buf_write_def upd_conv_take_nth_drop IO_USB_MAX_ENDPOINTS_def)
  show ?thesis
    using assms(2,3) l w
    by (auto simp: spi_recv_def seph_handle_event_def io_seproxyhal_handle_usb_ep_xfer_event_def spi_rx_len_def
        spi_byte_def spi_from_def cm_defs Let_def)
qed

end
