(* ===== verification/Os.thy ===== *)
theory Os
  imports Prelude
begin

text \<open>
  The memory routines of \<open>src/sdk/nanos-secure-sdk/src/os.c\<close> and its parser for lists of
  BER values.
\<close>

text \<open>A 16-bit number in big-endian order, of \<open>os.h\<close>.\<close>

definition U2BE :: "u8 list \<Rightarrow> nat \<Rightarrow> exn + u32" where
  "U2BE buf off =
     bindE (buf_read buf off 2) (\<lambda>bs.
     Inr (push_bit 8 (ucast (bs ! 0) AND 0xFF) OR (ucast (bs ! 1) AND 0xFF)))"

section \<open>Moving and filling memory\<close>

text \<open>Source and destination are positions in one memory, so that they may overlap.\<close>

primrec memmove_down :: "nat \<Rightarrow> nat \<Rightarrow> nat \<Rightarrow> u8 list \<Rightarrow> exn + u8 list" where
  "memmove_down dst src 0 mem = Inr mem"
| "memmove_down dst src (Suc n) mem =
     bindE (buf_read mem (src + n) 1) (\<lambda>c.
     bindE (buf_write mem (dst + n) c) (\<lambda>mem.
     memmove_down dst src n mem))"

primrec memmove_up :: "nat \<Rightarrow> nat \<Rightarrow> u16 \<Rightarrow> nat \<Rightarrow> u8 list \<Rightarrow> exn + u8 list" where
  "memmove_up dst src l 0 mem = Inr mem"
| "memmove_up dst src l (Suc n) mem =
     bindE (buf_read mem (src + unat l) 1) (\<lambda>c.
     bindE (buf_write mem (dst + unat l) c) (\<lambda>mem.
     memmove_up dst src (l + 1) n mem))"

definition os_memmove :: "nat \<Rightarrow> nat \<Rightarrow> u32 \<Rightarrow> u8 list \<Rightarrow> exn + u8 list" where
  "os_memmove dst src len mem =
     (if dst > src then memmove_down dst src (unat len) mem
      else memmove_up dst src 0 (unat len) mem)"

primrec memset_loop :: "nat \<Rightarrow> 'a \<Rightarrow> nat \<Rightarrow> 'a list \<Rightarrow> exn + 'a list" where
  "memset_loop dst c 0 mem = Inr mem"
| "memset_loop dst c (Suc n) mem = bindE (buf_write mem (dst + n) [c]) (\<lambda>mem. memset_loop dst c n mem)"

definition os_memset :: "nat \<Rightarrow> u8 \<Rightarrow> u32 \<Rightarrow> u8 list \<Rightarrow> exn + u8 list" where
  "os_memset dst c len mem = memset_loop dst c (unat len) mem"

text \<open>The same loop over words.\<close>

definition os_memset4 :: "nat \<Rightarrow> u32 \<Rightarrow> u32 \<Rightarrow> u32 list \<Rightarrow> exn + u32 list" where
  "os_memset4 dst initval nbintval mem = memset_loop dst initval (unat nbintval) mem"

section \<open>Comparing and combining\<close>

text \<open>A \<open>char\<close> of the target is unsigned: the result \<open>-1\<close> is the byte 255.\<close>

primrec memcmp_loop :: "u8 list \<Rightarrow> u8 list \<Rightarrow> nat \<Rightarrow> exn + u8" where
  "memcmp_loop buf1 buf2 0 = Inr 0"
| "memcmp_loop buf1 buf2 (Suc n) =
     bindE (buf_read buf1 n 1) (\<lambda>x. bindE (buf_read buf2 n 1) (\<lambda>y.
     if hd x \<noteq> hd y then Inr (if hd x > hd y then 1 else - 1) else memcmp_loop buf1 buf2 n))"

definition os_memcmp :: "u8 list \<Rightarrow> u8 list \<Rightarrow> u32 \<Rightarrow> exn + u8" where
  "os_memcmp buf1 buf2 len = memcmp_loop buf1 buf2 (unat len)"

text \<open>
  The guarded loops run until both counters are zero; they end for equal counters, and with
  different ones they would leave the arrays.
\<close>

definition EXCEPTION :: u16 where [const_defs]: "EXCEPTION = 1"

partial_function (option) xor_loop ::
  "u8 list \<Rightarrow> u8 list \<Rightarrow> u32 \<Rightarrow> u32 \<Rightarrow> u8 list \<Rightarrow> (exn + u8 list) option" where
  "xor_loop src1 src2 len l dst =
     (if len = 0 \<and> l = 0 then Some (if l \<noteq> len then Inl (Throw EXCEPTION) else Inr dst)
      else
        let len = len - 1
        in case bindE (buf_read src1 (unat len) 1) (\<lambda>x. bindE (buf_read src2 (unat len) 1) (\<lambda>y.
             buf_write dst (unat len) [hd x XOR hd y])) of
             Inl e \<Rightarrow> Some (Inl e)
           | Inr dst \<Rightarrow> xor_loop src1 src2 len (l - 1) dst)"

definition os_xor :: "u8 list \<Rightarrow> u8 list \<Rightarrow> u8 list \<Rightarrow> u32 \<Rightarrow> (exn + u8 list) option" where
  "os_xor dst src1 src2 len = xor_loop src1 src2 len len dst"

partial_function (option) secure_loop ::
  "u8 list \<Rightarrow> u8 list \<Rightarrow> u32 \<Rightarrow> u32 \<Rightarrow> u8 \<Rightarrow> (exn + u8) option" where
  "secure_loop src1 src2 len l xoracc =
     (if len = 0 \<and> l = 0 then Some (if l \<noteq> len then Inl (Throw EXCEPTION) else Inr xoracc)
      else
        let len = len - 1
        in case bindE (buf_read src1 (unat len) 1) (\<lambda>x. bindE (buf_read src2 (unat len) 1) (\<lambda>y.
             Inr (xoracc OR (hd x XOR hd y)))) of
             Inl e \<Rightarrow> Some (Inl e)
           | Inr xoracc \<Rightarrow> secure_loop src1 src2 len (l - 1) xoracc)"

definition os_secure_memcmp :: "u8 list \<Rightarrow> u8 list \<Rightarrow> u32 \<Rightarrow> (exn + u8) option" where
  "os_secure_memcmp src1 src2 len = secure_loop src1 src2 len len 0"

section \<open>What they do\<close>

lemma buf_read_one [simp]: "i < length b \<Longrightarrow> buf_read b i (Suc 0) = Inr [b ! i]"
  by (simp add: buf_read_def take_Suc_conv_app_nth)

lemma buf_write_one [simp]: "i < length b \<Longrightarrow> buf_write b i [x] = Inr (b[i := x])"
  by (simp add: buf_write_def upd_conv_take_nth_drop)

lemma memmove_down_run:
  assumes "src + n \<le> length mem" "dst + n \<le> length mem" "src < dst"
  shows "memmove_down dst src n mem = Inr (take dst mem @ take n (drop src mem) @ drop (dst + n) mem)"
  using assms
proof (induction n arbitrary: mem)
  case 0
  then show ?case by simp
next
  case (Suc n)
  let ?m = "mem[dst + n := mem ! (src + n)]"
  have "take n (drop src ?m) = take n (drop src mem)"
    using Suc.prems by (simp add: drop_update_swap take_update_cancel)
  moreover have "drop (dst + n) ?m = mem ! (src + n) # drop (dst + Suc n) mem"
    using Suc.prems by (simp add: Cons_nth_drop_Suc [symmetric])
  moreover have "take (Suc n) (drop src mem) = take n (drop src mem) @ [mem ! (src + n)]"
    using Suc.prems by (simp add: take_Suc_conv_app_nth)
  ultimately show ?case using Suc.IH [of ?m] Suc.prems by simp
qed

lemma memmove_up_run:
  assumes "src + k + n \<le> length mem" "dst \<le> src" "k + n \<le> 65536"
  shows "memmove_up dst src (of_nat k) n mem =
    Inr (take (dst + k) mem @ take n (drop (src + k) mem) @ drop (dst + k + n) mem)"
  using assms
proof (induction n arbitrary: k mem)
  case 0
  then show ?case by simp
next
  case (Suc n)
  have k: "unat (of_nat k :: u16) = k" using Suc.prems(3) by (simp add: unat_of_nat)
  let ?m = "mem[dst + k := mem ! (src + k)]"
  have "memmove_up dst src (of_nat (Suc k)) n ?m =
      Inr (take (dst + Suc k) ?m @ take n (drop (src + Suc k) ?m) @ drop (dst + Suc k + n) ?m)"
    using Suc.IH [of "Suc k" ?m] Suc.prems by simp
  moreover have "take (dst + Suc k) ?m = take (dst + k) mem @ [mem ! (src + k)]"
    using Suc.prems by (simp add: take_Suc_conv_app_nth)
  moreover have "drop (src + Suc k) ?m = drop (src + Suc k) mem" using Suc.prems by simp
  moreover have "take (Suc n) (drop (src + k) mem) = mem ! (src + k) # take n (drop (src + Suc k) mem)"
    using Suc.prems by (simp add: Cons_nth_drop_Suc [symmetric])
  ultimately show ?case using Suc.prems by (simp add: k add.commute)
qed

lemma memmove_up_add:
  "memmove_up dst src l (m + n) mem = bindE (memmove_up dst src l m mem) (memmove_up dst src (l + of_nat m) n)"
  by (induction m arbitrary: l mem) (simp_all add: bindE_assoc ac_simps)

text \<open>The memory after \<open>n\<close> bytes have been copied as they were.\<close>

definition moved_bytes :: "nat \<Rightarrow> nat \<Rightarrow> nat \<Rightarrow> u8 list \<Rightarrow> u8 list" where
  "moved_bytes dst src n mem = take dst mem @ take n (drop src mem) @ drop (dst + n) mem"

lemma length_moved_bytes:
  "dst + n \<le> length mem \<Longrightarrow> src + n \<le> length mem \<Longrightarrow> length (moved_bytes dst src n mem) = length mem"
  by (simp add: moved_bytes_def)

text \<open>The 16-bit counter of the upward copy starts again after each 65536 bytes.\<close>

lemma memmove_up_blocks:
  assumes "dst \<le> src" "r < 65536" "src + 65536 \<le> length mem"
  shows "memmove_up dst src 0 (65536 * q + r) mem
    = Inr (moved_bytes dst src r ((moved_bytes dst src 65536 ^^ q) mem))"
  using assms(3)
proof (induction q arbitrary: mem)
  case 0
  then show ?case using memmove_up_run [of src 0 r mem dst] assms by (simp add: moved_bytes_def)
next
  case (Suc q)
  have first: "memmove_up dst src 0 65536 mem = Inr (moved_bytes dst src 65536 mem)"
    using memmove_up_run [of src 0 65536 mem dst] Suc.prems assms(1) by (simp add: moved_bytes_def)
  have "src + 65536 \<le> length (moved_bytes dst src 65536 mem)"
    using Suc.prems assms(1) by (simp add: length_moved_bytes)
  note rest = Suc.IH [OF this]
  have w: "(of_nat 65536 :: u16) = 0" by simp
  have "memmove_up dst src 0 (65536 * Suc q + r) mem = memmove_up dst src 0 (65536 + (65536 * q + r)) mem"
    by (simp add: ac_simps)
  also have "\<dots> = memmove_up dst src 0 (65536 * q + r) (moved_bytes dst src 65536 mem)"
    unfolding memmove_up_add first w by simp
  finally show ?case unfolding rest by (simp only: funpow_Suc_right o_apply)
qed

text \<open>At a distance of 65536 or more the later rounds change nothing.\<close>

lemma moved_bytes_again:
  assumes "dst + 65536 \<le> src" "src + 65536 \<le> length mem" "n \<le> 65536"
  shows "moved_bytes dst src n (moved_bytes dst src 65536 mem) = moved_bytes dst src 65536 mem"
proof -
  let ?m = "moved_bytes dst src 65536 mem"
  have s: "drop src ?m = drop src mem" using assms by (simp add: moved_bytes_def)
  have b: "take 65536 (drop src mem) = take n (drop src mem) @ take (65536 - n) (drop (src + n) mem)"
    using take_add [of n "65536 - n" "drop src mem"] assms(3) by (simp add: add.commute)
  have d: "take n (drop src mem) @ drop (dst + n) ?m = drop dst ?m"
    using assms by (simp add: moved_bytes_def drop_take b add.commute)
  have "moved_bytes dst src n ?m = take dst ?m @ take n (drop src mem) @ drop (dst + n) ?m"
    by (simp only: moved_bytes_def [of dst src n] s)
  then show ?thesis unfolding d by simp
qed

lemma moved_bytes_rounds:
  assumes "dst + 65536 \<le> src" "src + 65536 \<le> length mem"
  shows "(moved_bytes dst src 65536 ^^ Suc q) mem = moved_bytes dst src 65536 mem"
  by (induction q) (simp_all add: moved_bytes_again [OF assms])

lemma memset_loop_run:
  "dst + n \<le> length mem \<Longrightarrow> memset_loop dst c n mem = Inr (take dst mem @ replicate n c @ drop (dst + n) mem)"
proof (induction n arbitrary: mem)
  case (Suc n)
  then show ?case
    using Suc.IH [of "mem[dst + n := c]"] by (simp add: replicate_append_same Cons_nth_drop_Suc [symmetric])
qed simp

lemma xor_eq_0_word: "x XOR y = 0 \<longleftrightarrow> x = y" for x y :: "'a::len word"
proof
  assume "x XOR y = 0"
  then have "(x XOR y) XOR y = 0 XOR y" by simp
  then show "x = y" by (simp add: xor.assoc)
qed simp

lemma xor_loop_run:
  assumes "unat len \<le> length src1" "unat len \<le> length src2" "unat len \<le> length dst"
  shows "xor_loop src1 src2 len len dst = Some (Inr
    (map2 (XOR) (take (unat len) src1) (take (unat len) src2) @ drop (unat len) dst))"
  using assms
proof (induction "unat len" arbitrary: len dst)
  case 0
  then have "len = 0" by (simp add: unat_eq_0)
  then show ?case by (subst xor_loop.simps) simp
next
  case (Suc n)
  then have nz: "len \<noteq> 0" and u: "unat (len - 1) = n" by (auto simp: unat_dec)
  let ?d = "dst[n := src1 ! n XOR src2 ! n]"
  have n: "n < length src1" "n < length src2" "n < length dst" using Suc(2-) by simp_all
  then have "xor_loop src1 src2 len len dst = xor_loop src1 src2 (len - 1) (len - 1) ?d"
    using nz by (subst xor_loop.simps) (simp add: Let_def u)
  also have "\<dots> = Some (Inr (map2 (XOR) (take n src1) (take n src2) @ drop n ?d))"
    using Suc(1) [of "len - 1" ?d] u Suc(2-) by simp
  finally show ?case
    using n by (simp add: Suc(2) [symmetric] take_Suc_conv_app_nth Cons_nth_drop_Suc [symmetric])
qed

lemma secure_loop_run:
  assumes "unat len \<le> length src1" "unat len \<le> length src2"
  shows "\<exists>r. secure_loop src1 src2 len len acc = Some (Inr r)
    \<and> (r = 0 \<longleftrightarrow> acc = 0 \<and> take (unat len) src1 = take (unat len) src2)"
  using assms
proof (induction "unat len" arbitrary: len acc)
  case 0
  then have "len = 0" by (simp add: unat_eq_0)
  then show ?case by (subst secure_loop.simps) simp
next
  case (Suc n)
  then have nz: "len \<noteq> 0" and u: "unat (len - 1) = n" by (auto simp: unat_dec)
  let ?acc = "acc OR (src1 ! n XOR src2 ! n)"
  have n: "n < length src1" "n < length src2" using Suc(2-) by simp_all
  have s: "secure_loop src1 src2 len len acc = secure_loop src1 src2 (len - 1) (len - 1) ?acc"
    using nz n by (subst secure_loop.simps) (simp add: Let_def u)
  have "?acc = 0 \<longleftrightarrow> acc = 0 \<and> src1 ! n = src2 ! n"
    by (simp add: or_eq_0_iff xor_eq_0_word)
  then show ?case
    using Suc(1) [of "len - 1" ?acc] u n unfolding s
    by (auto simp: Suc(2) [symmetric] take_Suc_conv_app_nth)
qed

lemma le_value_snoc: "le_value (xs @ [x]) = unat x * 256 ^ length xs + le_value xs"
  by (simp add: le_value_def)

lemma memcmp_loop_run:
  assumes "n \<le> length xs" "n \<le> length ys"
  shows "memcmp_loop xs ys n = Inr (if le_value (take n xs) > le_value (take n ys) then 1
    else if le_value (take n xs) = le_value (take n ys) then 0 else - 1)"
  using assms
proof (induction n)
  case (Suc n)
  let ?B = "256 ^ n :: nat"
  have s: "le_value (take (Suc n) zs) = unat (zs ! n) * ?B + le_value (take n zs)" if "Suc n \<le> length zs" for zs
    using that by (simp add: take_Suc_conv_app_nth le_value_snoc)
  have lt: "le_value (take n xs) < ?B" "le_value (take n ys) < ?B"
    using be_value_less [of "rev (take n xs)"] be_value_less [of "rev (take n ys)"] Suc.prems
    by (simp_all add: le_value_def)
  have lex: "unat x * ?B + a < unat y * ?B + b" if "x < y" "a < ?B" for x y :: u8 and a b
  proof -
    have "Suc (unat x) * ?B \<le> unat y * ?B" using that(1) by (intro mult_le_mono1) (simp add: word_less_nat_alt)
    then show ?thesis using that(2) by simp
  qed
  have l: "n < length xs" "n < length ys" using Suc.prems by simp_all
  show ?case
  proof (cases "xs ! n" "ys ! n" rule: linorder_cases)
    case less
    then have "le_value (take (Suc n) xs) < le_value (take (Suc n) ys)"
      using lex [OF less lt(1)] s Suc.prems by simp
    moreover have "xs ! n \<noteq> ys ! n" "\<not> ys ! n < xs ! n" using less by auto
    ultimately show ?thesis using l by simp
  next
    case equal
    then show ?thesis using Suc.IH Suc.prems l s [of xs] s [of ys] by simp
  next
    case greater
    then have "le_value (take (Suc n) ys) < le_value (take (Suc n) xs)"
      using lex [OF greater lt(2)] s Suc.prems by simp
    moreover have "xs ! n \<noteq> ys ! n" using greater by auto
    ultimately show ?thesis using l greater by simp
  qed
qed (simp add: le_value_def)

section \<open>Lists of BER values\<close>

text \<open>
  \<open>mem\<close> is the object the argument \<open>mem\<close> points to, at the address \<open>addr\<close>; the pointer \<open>tlv\<close>
  is a position in it.  \<open>tlvoffset\<close> is \<open>None\<close> for the null pointer, and so is \<open>buffer\<close>; the
  object the pointer in \<open>buffer\<close> points to is apart from \<open>mem\<close>.  The result holds the returned
  value, the new contents of \<open>tlvoffset\<close> and of that object, and the position \<open>buffer\<close> is set to.
\<close>

definition OS_PARSE_BERTLV_OFFSET_COMPARE_WITH_BUFFER :: u32 where [const_defs]:
  "OS_PARSE_BERTLV_OFFSET_COMPARE_WITH_BUFFER = 0x80000000"

definition OS_PARSE_BERTLV_OFFSET_GET_LENGTH :: u32 where [const_defs]:
  "OS_PARSE_BERTLV_OFFSET_GET_LENGTH = 0x40000000"

record bertlv =
  tlv_ret :: u32
  tlv_offset :: "u32 option"
  tlv_buffer :: "u8 list option option"
  tlv_address :: "nat option"

text \<open>The bytes of a long length; \<open>None\<close> is the jump to \<open>retret\<close>.\<close>

primrec bertlv_length :: "u8 list \<Rightarrow> nat \<Rightarrow> nat \<Rightarrow> u32 \<Rightarrow> u32 \<Rightarrow> exn + (nat \<times> u32 \<times> u32) option" where
  "bertlv_length mem 0 tlv remlen tlvlen = Inr (Some (tlv, remlen, tlvlen))"
| "bertlv_length mem (Suc n) tlv remlen tlvlen =
     bindE (buf_read mem tlv 1) (\<lambda>b.
     let tlvlen = push_bit 8 tlvlen OR (ucast (hd b) AND 0xFF);
         remlen = remlen - 1
     in if remlen = 0 then Inr None else bertlv_length mem n (tlv + 1) remlen tlvlen)"

definition bertlv_header :: "u8 list \<Rightarrow> nat \<Rightarrow> u32 \<Rightarrow> exn + (u32 \<times> nat \<times> u32 \<times> u32) option" where
  "bertlv_header mem tlv remlen =
     bindE (buf_read mem tlv 1) (\<lambda>t.
     let remlen = remlen - 1
     in if remlen = 0 then Inr None
        else bindE (buf_read mem (tlv + 1) 1) (\<lambda>l.
          let remlen = remlen - 1;
              tlvlen = ucast (hd l) :: u32
          in if remlen = 0 then Inr None
             else if tlvlen \<ge> 0x80 then
               if tlvlen = 0x80 then Inr None
               else bindE (bertlv_length mem (unat (tlvlen AND 0x7F)) (tlv + 2) remlen 0) (\<lambda>r.
                 Inr (case r of None \<Rightarrow> None | Some (tlv, remlen, tlvlen) \<Rightarrow> Some (ucast (hd t), tlv, remlen, tlvlen)))
             else Inr (Some (ucast (hd t), tlv + 2, remlen, tlvlen))))"

text \<open>The value of the matching tag.\<close>

definition bertlv_value ::
  "u32 \<Rightarrow> u8 list \<Rightarrow> u32 \<Rightarrow> u32 option \<Rightarrow> bool \<Rightarrow> bool \<Rightarrow> u32 \<Rightarrow> u8 list option option \<Rightarrow> u32
    \<Rightarrow> nat \<Rightarrow> u32 \<Rightarrow> u32 \<Rightarrow> (exn + bertlv) option" where
  "bertlv_value addr mem mem_len tlvoffset check_equals_buffer get_address offset buffer maxlength tlv remlen tlvlen =
     (let stop = Some (Inr \<lparr>tlv_ret = 0, tlv_offset = tlvoffset, tlv_buffer = buffer, tlv_address = None\<rparr>);
          tlva = addr + of_nat tlv
      in if offset > tlvlen \<or> offset > remlen then stop
         else if check_equals_buffer \<and> tlvlen - offset \<noteq> maxlength then stop
         else
           let maxlength = min maxlength (min (tlvlen - offset) remlen)
           in if offset > mem_len \<or> maxlength > mem_len \<or> offset + maxlength > mem_len
                 \<or> tlva < addr \<or> tlva + offset < addr \<or> tlva + offset + maxlength < addr
                 \<or> tlva > addr + mem_len \<or> tlva + offset > addr + mem_len
                 \<or> tlva + offset + maxlength > addr + mem_len then stop
              else if get_address then
                Some (Inr \<lparr>tlv_ret = min (tlvlen - offset) remlen, tlv_offset = tlvoffset, tlv_buffer = buffer,
                           tlv_address = Some (tlv + unat offset)\<rparr>)
              else
                case buffer of
                  Some (Some dst) \<Rightarrow>
                    (case buf_read mem (tlv + unat offset) (unat maxlength) of
                       Inl e \<Rightarrow> Some (Inl e)
                     | Inr bytes \<Rightarrow>
                         if \<not> check_equals_buffer then
                           Some (bindE (buf_write dst 0 bytes) (\<lambda>dst.
                             Inr \<lparr>tlv_ret = maxlength, tlv_offset = tlvoffset, tlv_buffer = Some (Some dst), tlv_address = None\<rparr>))
                         else
                           map_option (\<lambda>r. bindE r (\<lambda>c.
                             Inr \<lparr>tlv_ret = (if c = 0 then 1 else 0), tlv_offset = tlvoffset, tlv_buffer = buffer, tlv_address = None\<rparr>))
                             (os_secure_memcmp dst bytes maxlength))
                | _ \<Rightarrow> Some (Inl Fault))"

text \<open>Reading a header uses up at least two bytes.\<close>

lemma bertlv_length_less:
  "bertlv_length mem n tlv remlen tlvlen = Inr (Some (tlv', remlen', tlvlen')) \<Longrightarrow> 0 < remlen
    \<Longrightarrow> 0 < remlen' \<and> unat remlen' + n = unat remlen \<and> tlv' = tlv + n"
proof (induction n arbitrary: tlv remlen tlvlen)
  case (Suc n)
  let ?r = "remlen - 1"
  obtain b where b: "buf_read mem tlv 1 = Inr b" "?r \<noteq> 0"
    "bertlv_length mem n (tlv + 1) ?r (push_bit 8 tlvlen OR (ucast (hd b) AND 0xFF)) = Inr (Some (tlv', remlen', tlvlen'))"
    using Suc.prems(1) by (auto simp: Let_def bindE_eq_Inr split: if_split_asm)
  have "0 < ?r" using b(2) by (simp add: word_gt_0)
  from Suc.IH [OF b(3) this] show ?case
    using Suc.prems(2) by (simp add: unat_dec word_less_nat_alt)
qed simp

lemma bertlv_header_less:
  assumes "bertlv_header mem tlv remlen = Inr (Some (t, tlv', remlen', tlvlen))" "2 \<le> remlen"
  shows "0 < remlen'" "unat remlen' + (tlv' - tlv) = unat remlen" "tlv + 2 \<le> tlv'"
proof -
  have r: "remlen - 1 \<noteq> 0" "remlen - 1 - 1 \<noteq> 0" using assms(1) by (auto simp: bertlv_header_def bindE_eq_Inr Let_def split: if_split_asm)
  have two: "2 \<le> unat remlen" using assms(2) by (simp add: word_le_nat_alt)
  have u1: "unat (remlen - 1) = unat remlen - 1" by (rule unat_dec) (use two in simp)
  have u2: "unat (remlen - 1 - 1) = unat (remlen - 1) - 1" by (rule unat_dec) (use two u1 in simp)
  have u: "unat (remlen - 1 - 1) = unat remlen - 2" unfolding u2 u1 by simp
  have p: "0 < remlen - 1 - 1" using r(2) by (simp add: word_gt_0)
  obtain l where l: "buf_read mem (tlv + 1) 1 = Inr l" using assms(1) r by (auto simp: bertlv_header_def bindE_eq_Inr Let_def split: if_split_asm)
  have "0 < remlen' \<and> unat remlen' + (tlv' - tlv) = unat remlen \<and> tlv + 2 \<le> tlv'"
  proof (cases "(ucast (hd l) :: u32) \<ge> 0x80")
    case True
    then obtain tlvlen0 where "bertlv_length mem (unat ((ucast (hd l) :: u32) AND 0x7F)) (tlv + 2) (remlen - 1 - 1) 0 = Inr (Some (tlv', remlen', tlvlen0))"
      using assms(1) r l by (auto simp: bertlv_header_def bindE_eq_Inr Let_def split: if_split_asm option.split_asm)
    from bertlv_length_less [OF this p] show ?thesis using two u by auto
  next
    case False
    then show ?thesis using assms(1) r l p two u by (auto simp: bertlv_header_def bindE_eq_Inr Let_def split: if_split_asm)
  qed
  then show "0 < remlen'" "unat remlen' + (tlv' - tlv) = unat remlen" "tlv + 2 \<le> tlv'" by auto
qed

lemma unat_minus_min: "unat (r - min r l) = unat r - unat l" for r l :: u32
proof (cases "l \<le> r")
  case True
  then show ?thesis by (simp add: min_absorb2 unat_sub)
next
  case False
  then have "r \<le> l" by simp
  then have "unat r \<le> unat l" by (simp add: word_le_nat_alt)
  with \<open>r \<le> l\<close> show ?thesis by (simp add: min_absorb1)
qed

text \<open>The list: from one value to the next until less than two bytes remain.\<close>

function bertlv_loop ::
  "u32 \<Rightarrow> u8 list \<Rightarrow> u32 \<Rightarrow> u32 option \<Rightarrow> u32 \<Rightarrow> u32 \<Rightarrow> bool \<Rightarrow> bool \<Rightarrow> u32 \<Rightarrow> u8 list option option \<Rightarrow> u32
    \<Rightarrow> nat \<Rightarrow> u32 \<Rightarrow> (exn + bertlv) option" where
  "bertlv_loop addr mem mem_len tlvoffset tlvoffset_in tag check_equals_buffer get_address offset buffer maxlength tlv remlen =
     (if remlen \<ge> 2 then
        case bertlv_header mem tlv remlen of
          Inl e \<Rightarrow> Some (Inl e)
        | Inr None \<Rightarrow> Some (Inr \<lparr>tlv_ret = 0, tlv_offset = tlvoffset, tlv_buffer = buffer, tlv_address = None\<rparr>)
        | Inr (Some (tlvtag, tlv, remlen, tlvlen)) \<Rightarrow>
            let pos = of_nat tlv;
                matches = (tlvtag = tag AND 0xFF);
                tlvoffset = (if matches \<and> tlvoffset \<noteq> None then Some pos else tlvoffset)
            in if matches \<and> \<not> (tlvoffset \<noteq> None \<and> tlvoffset_in > pos) then
                 bertlv_value addr mem mem_len tlvoffset check_equals_buffer get_address offset buffer maxlength tlv remlen tlvlen
               else
                 bertlv_loop addr mem mem_len tlvoffset tlvoffset_in tag check_equals_buffer get_address offset buffer maxlength
                   (tlv + unat tlvlen) (remlen - min remlen tlvlen)
      else Some (Inr \<lparr>tlv_ret = 0, tlv_offset = tlvoffset, tlv_buffer = buffer, tlv_address = None\<rparr>))"
  by pat_completeness auto

termination
proof (relation "measure (\<lambda>(_, _, _, _, _, _, _, _, _, _, _, _, remlen). unat remlen)", goal_cases)
  case (2 addr mem mem_len tlvoffset tlvoffset_in tag check_equals_buffer get_address offset buffer maxlength tlv remlen x y z w u v)
  then have "unat v < unat remlen" if "bertlv_header mem tlv remlen = Inr (Some (t, s, v, l))" for t s v l
    using bertlv_header_less(2,3) [OF that] by auto
  with 2 show ?case by (auto simp: unat_minus_min)
qed simp

definition os_parse_bertlv ::
  "u32 \<Rightarrow> u8 list \<Rightarrow> u32 \<Rightarrow> u32 option \<Rightarrow> u32 \<Rightarrow> u32 \<Rightarrow> u8 list option option \<Rightarrow> u32 \<Rightarrow> (exn + bertlv) option" where
  "os_parse_bertlv addr mem mem_len tlvoffset tag offset buffer maxlength =
     (let check_equals_buffer = (offset AND OS_PARSE_BERTLV_OFFSET_COMPARE_WITH_BUFFER \<noteq> 0);
          get_address = (offset AND OS_PARSE_BERTLV_OFFSET_GET_LENGTH \<noteq> 0);
          offset = offset AND NOT (OS_PARSE_BERTLV_OFFSET_COMPARE_WITH_BUFFER OR OS_PARSE_BERTLV_OFFSET_GET_LENGTH)
      in if mem_len = 0 \<or> buffer = None \<or> (\<not> get_address \<and> buffer = Some None) then
           Some (Inr \<lparr>tlv_ret = 0, tlv_offset = tlvoffset, tlv_buffer = buffer, tlv_address = None\<rparr>)
         else
           bertlv_loop addr mem mem_len tlvoffset (case tlvoffset of None \<Rightarrow> 0 | Some v \<Rightarrow> v) tag
             check_equals_buffer get_address offset buffer maxlength 0 mem_len)"

declare bertlv_loop.simps [simp del]

section \<open>The parser stays inside its memory\<close>

lemma bertlv_length_reads:
  "tlv + unat remlen \<le> length mem \<Longrightarrow> 0 < remlen \<Longrightarrow> \<exists>r. bertlv_length mem n tlv remlen tlvlen = Inr r"
proof (induction n arbitrary: tlv remlen tlvlen)
  case (Suc n)
  have "0 < unat remlen" using Suc.prems(2) by (simp add: word_less_nat_alt)
  then have "tlv < length mem" using Suc.prems(1) by linarith
  then show ?case
    using Suc.IH [of "tlv + 1" "remlen - 1"] Suc.prems(1) \<open>0 < unat remlen\<close> by (simp add: Let_def word_gt_0 unat_dec)
qed simp

lemma bertlv_header_reads:
  assumes "tlv + unat remlen \<le> length mem" "2 \<le> remlen"
  shows "\<exists>r. bertlv_header mem tlv remlen = Inr r
    \<and> (\<forall>t tlv' remlen' l. r = Some (t, tlv', remlen', l) \<longrightarrow> tlv' + unat remlen' = tlv + unat remlen \<and> 0 < remlen')"
proof -
  have two: "2 \<le> unat remlen" using assms(2) by (simp add: word_le_nat_alt)
  then have i: "tlv < length mem" "Suc tlv < length mem" using assms(1) by linarith+
  have u1: "unat (remlen - 1) = unat remlen - 1" by (rule unat_dec) (use two in simp)
  have u2: "unat (remlen - 1 - 1) = unat (remlen - 1) - 1" by (rule unat_dec) (use two u1 in simp)
  have e: "\<exists>r. bertlv_length mem n (tlv + 2) (remlen - 1 - 1) 0 = Inr r" if "remlen - 1 - 1 \<noteq> 0" for n
    by (rule bertlv_length_reads) (use that assms(1) two u1 u2 in \<open>simp_all add: word_gt_0\<close>)
  have "\<exists>r. bertlv_header mem tlv remlen = Inr r"
  proof (cases "remlen - 1 - 1 = 0")
    case False
    from e [OF False, of "unat ((ucast (mem ! Suc tlv) :: u32) AND 0x7F)"]
    obtain r where "bertlv_length mem (unat ((ucast (mem ! Suc tlv) :: u32) AND 0x7F)) (tlv + 2) (remlen - 1 - 1) 0 = Inr r" ..
    then show ?thesis using i by (simp add: bertlv_header_def Let_def)
  qed (use i in \<open>simp add: bertlv_header_def Let_def\<close>)
  then show ?thesis using bertlv_header_less [OF _ assms(2), of mem tlv] by fastforce
qed

text \<open>What the caller can rely on.\<close>

definition bertlv_ok :: "nat \<Rightarrow> u8 list option option \<Rightarrow> (exn + bertlv) option \<Rightarrow> bool" where
  "bertlv_ok n buffer r \<longleftrightarrow> (\<exists>v. r = Some (Inr v) \<and> (\<forall>a. tlv_address v = Some a \<longrightarrow> a \<le> n)
     \<and> map_option (map_option length) (tlv_buffer v) = map_option (map_option length) buffer)"

lemma in_memory:
  fixes addr mem_len offset m :: u32
  assumes "unat addr + k < 2 ^ 32" "unat mem_len \<le> k" "k < 2 ^ 31" "tlv + unat remlen \<le> unat mem_len"
    and "offset \<le> remlen" "m \<le> remlen"
    and "\<not> addr + of_nat tlv + offset + m < addr" "\<not> addr + of_nat tlv + offset + m > addr + mem_len"
  shows "tlv + unat offset + unat m \<le> unat mem_len"
proof -
  have o: "unat offset \<le> unat remlen" "unat m \<le> unat remlen" using assms(5,6) by (simp_all add: word_le_nat_alt)
  have t: "unat (of_nat tlv :: u32) = tlv" using assms(2-4) by (simp add: unat_of_nat)
  have a: "unat (addr + of_nat tlv) = unat addr + tlv"
    using assms(1-4) by (subst unat_word_ariths) (simp add: t)
  have b: "unat (addr + of_nat tlv + offset) = unat addr + tlv + unat offset"
    using assms(1-4) o by (subst unat_word_ariths) (simp add: a)
  have c: "unat (addr + mem_len) = unat addr + unat mem_len"
    using assms(1-4) by (subst unat_word_ariths) simp
  let ?x = "unat addr + tlv + unat offset + unat m"
  have d: "unat (addr + of_nat tlv + offset + m) = ?x mod 2 ^ 32"
    by (subst unat_word_ariths) (simp add: b)
  have "?x < 2 ^ 32"
  proof (rule ccontr)
    assume x: "\<not> ?x < 2 ^ 32"
    have "?x < 2 * 2 ^ 32" using assms(1-4) o by simp
    then have "?x mod 2 ^ 32 = ?x - 2 ^ 32" using x by (simp add: mod_if)
    moreover have "tlv + unat offset + unat m < 2 ^ 32" using assms(2-4) o by simp
    ultimately have "unat (addr + of_nat tlv + offset + m) < unat addr" using x d by linarith
    then show False using assms(7) by (simp add: word_less_nat_alt)
  qed
  then have "unat (addr + of_nat tlv + offset + m) = ?x" using d by simp
  then show ?thesis using assms(8) c by (simp add: word_less_nat_alt)
qed

lemma bertlv_value_ok:
  assumes m: "unat addr + k < 2 ^ 32" "unat mem_len \<le> k" "k < 2 ^ 31" "k \<le> length mem"
    and r: "tlv + unat remlen \<le> unat mem_len"
    and b: "\<And>dst. buffer = Some (Some dst) \<Longrightarrow> unat maxlength \<le> length dst"
    and g: "get_address \<or> (\<exists>dst. buffer = Some (Some dst))"
  shows "bertlv_ok (unat mem_len) buffer
    (bertlv_value addr mem mem_len tlvoffset check_equals_buffer get_address offset buffer maxlength tlv remlen tlvlen)"
proof -
  let ?m = "min maxlength (min (tlvlen - offset) remlen)"
  let ?v = "bertlv_value addr mem mem_len tlvoffset check_equals_buffer get_address offset buffer maxlength tlv remlen tlvlen"
  let ?tlva = "addr + of_nat tlv"
  let ?c3 = "offset > mem_len \<or> ?m > mem_len \<or> offset + ?m > mem_len
      \<or> ?tlva < addr \<or> ?tlva + offset < addr \<or> ?tlva + offset + ?m < addr
      \<or> ?tlva > addr + mem_len \<or> ?tlva + offset > addr + mem_len \<or> ?tlva + offset + ?m > addr + mem_len"
  consider (c1) "offset > tlvlen \<or> offset > remlen" | (c2) "\<not> (offset > tlvlen \<or> offset > remlen)"
      "check_equals_buffer \<and> tlvlen - offset \<noteq> maxlength"
    | (c3) "\<not> (offset > tlvlen \<or> offset > remlen)" "\<not> (check_equals_buffer \<and> tlvlen - offset \<noteq> maxlength)" ?c3
    | (go) "\<not> (offset > tlvlen \<or> offset > remlen)" "\<not> (check_equals_buffer \<and> tlvlen - offset \<noteq> maxlength)" "\<not> ?c3"
    by blast
  then consider (stop) "?v = Some (Inr \<lparr>tlv_ret = 0, tlv_offset = tlvoffset, tlv_buffer = buffer, tlv_address = None\<rparr>)"
    | (go) "\<not> (offset > tlvlen \<or> offset > remlen)" "\<not> (check_equals_buffer \<and> tlvlen - offset \<noteq> maxlength)" "\<not> ?c3"
  proof cases
    case c1
    then show ?thesis using stop unfolding bertlv_value_def Let_def if_P [OF c1] by blast
  next
    case c2
    then show ?thesis using stop unfolding bertlv_value_def Let_def if_not_P [OF c2(1)] if_P [OF c2(2)] by blast
  next
    case c3
    then show ?thesis using stop unfolding bertlv_value_def Let_def if_not_P [OF c3(1)] if_not_P [OF c3(2)] if_P [OF c3(3)] by blast
  qed
  then show ?thesis
  proof cases
    case stop
    then show ?thesis by (simp add: bertlv_ok_def)
  next
    case go
    note v = bertlv_value_def [of addr mem mem_len tlvoffset check_equals_buffer get_address offset buffer maxlength tlv remlen tlvlen,
        unfolded Let_def if_not_P [OF go(1)] if_not_P [OF go(2)] if_not_P [OF go(3)]]
    have "tlv + unat offset + unat ?m \<le> unat mem_len"
    proof (rule in_memory [OF m(1-3) r])
      show "offset \<le> remlen" using go(1) by auto
      show "?m \<le> remlen" using min.cobounded2 [of "tlvlen - offset" remlen] min.cobounded2 [of maxlength] by (rule order_trans [rotated])
    qed (use go(3) in blast)+
    then have i: "tlv + unat offset + unat ?m \<le> length mem" "tlv + unat offset \<le> unat mem_len" using m(2,4) by linarith+
    show ?thesis
    proof (cases get_address)
      case True
      then show ?thesis unfolding v using i(2) by (simp add: bertlv_ok_def)
    next
      case False
      then obtain dst where dst: "buffer = Some (Some dst)" using g by blast
      have "?m \<le> maxlength" by simp
      then have l: "unat ?m \<le> length dst" using b [OF dst] by (simp only: word_le_nat_alt)
      let ?bytes = "take (unat ?m) (drop (tlv + unat offset) mem)"
      have rd: "buf_read mem (tlv + unat offset) (unat ?m) = Inr ?bytes" using i(1) by (simp only: buf_read_def) simp
      have lb: "length ?bytes = unat ?m" using i(1) by simp
      have lb': "unat ?m \<le> length ?bytes" unfolding lb by (rule order_refl)
      obtain c where c: "os_secure_memcmp dst ?bytes ?m = Some (Inr c)"
        using secure_loop_run [OF l lb', of 0] unfolding os_secure_memcmp_def by blast
      have w: "buf_write dst 0 ?bytes = Inr (?bytes @ drop (unat ?m) dst)"
        using l lb unfolding buf_write_def by simp
      have lw: "length (?bytes @ drop (unat ?m) dst) = length dst"
        unfolding length_append lb length_drop using l by linarith
      show ?thesis
        unfolding v unfolding if_not_P [OF False] dst option.case rd sum.case c w
        using lw by (simp add: bertlv_ok_def del: length_append length_take)
    qed
  qed
qed

lemma bertlv_loop_ok:
  assumes "unat addr + k < 2 ^ 32" "unat mem_len \<le> k" "k < 2 ^ 31" "k \<le> length mem"
    and "\<And>dst. buffer = Some (Some dst) \<Longrightarrow> unat maxlength \<le> length dst"
    and "get_address \<or> (\<exists>dst. buffer = Some (Some dst))"
    and "2 \<le> remlen \<Longrightarrow> tlv + unat remlen \<le> unat mem_len"
  shows "bertlv_ok (unat mem_len) buffer (bertlv_loop addr mem mem_len tlvoffset tlvoffset_in tag check_equals_buffer
    get_address offset buffer maxlength tlv remlen)"
  using assms
proof (induction addr mem mem_len tlvoffset tlvoffset_in tag check_equals_buffer get_address offset buffer maxlength tlv remlen
    rule: bertlv_loop.induct)
  case (1 addr mem mem_len tlvoffset tlvoffset_in tag check_equals_buffer get_address offset buffer maxlength tlv remlen)
  let ?stop = "Some (Inr \<lparr>tlv_ret = 0, tlv_offset = tlvoffset, tlv_buffer = buffer, tlv_address = None\<rparr>)"
  have stop: "bertlv_ok (unat mem_len) buffer ?stop" by (simp add: bertlv_ok_def)
  show ?case
  proof (cases "2 \<le> remlen")
    case False
    then show ?thesis using stop by (subst bertlv_loop.simps) simp
  next
    case True
    have r: "tlv + unat remlen \<le> length mem" using "1.prems"(2,4,7) True by linarith
    from bertlv_header_reads [OF r True] obtain hd where h: "bertlv_header mem tlv remlen = Inr hd"
      "\<And>t tlv' remlen' l. hd = Some (t, tlv', remlen', l) \<Longrightarrow> tlv' + unat remlen' = tlv + unat remlen" by blast
    note Inr = h(1)
      show ?thesis
      proof (cases hd)
        case None
        then show ?thesis using stop Inr True by (subst bertlv_loop.simps) simp
      next
        case (Some x)
        obtain t tlv' remlen' l where x: "x = (t, tlv', remlen', l)" by (cases x)
        then have i: "tlv' + unat remlen' = tlv + unat remlen" using h(2) Some by simp
        then have i': "tlv' + unat remlen' \<le> unat mem_len" using "1.prems"(7) True by simp
        have n: "tlv' + unat l + unat (remlen' - min remlen' l) \<le> unat mem_len" if "2 \<le> remlen' - min remlen' l"
        proof -
          have "2 \<le> unat remlen' - unat l" using that by (simp add: word_le_nat_alt unat_minus_min)
          then show ?thesis using i' by (simp add: unat_minus_min)
        qed
        note IH = "1.IH" [OF True Inr Some [unfolded x] refl refl refl refl refl refl]
        show ?thesis
          using True Inr Some x bertlv_value_ok [OF "1.prems"(1-4) i' "1.prems"(5,6)] IH "1.prems"(1-6) n
          by (subst bertlv_loop.simps) (simp add: Let_def)
      qed
  qed
qed

section \<open>Values are found\<close>

text \<open>The encoding of a value, with the shortest form of its length.\<close>

definition ber_length :: "nat \<Rightarrow> u8 list" where
  "ber_length n = (if n < 128 then [of_nat n] else if n < 256 then [0x81, of_nat n]
     else [0x82, of_nat (n div 256), of_nat (n mod 256)])"

definition tlv_bytes :: "u8 \<times> u8 list \<Rightarrow> u8 list" where
  "tlv_bytes e = fst e # ber_length (length (snd e)) @ snd e"

lemma unat_byte: "n < 256 \<Longrightarrow> unat (of_nat n :: u8) = n"
  by (simp add: unat_of_nat)

lemma or_byte: "n < 65536 \<Longrightarrow> push_bit 8 (ucast (of_nat (n div 256) :: u8)) OR ucast (of_nat (n mod 256) :: u8) = (of_nat n :: u32)"
proof -
  assume n: "n < 65536"
  have u: "unat (of_nat (n div 256) :: u8) = n div 256" "unat (of_nat (n mod 256) :: u8) = n mod 256"
    using n by (simp_all add: unat_of_nat)
  have p: "unat (push_bit 8 (ucast (of_nat (n div 256) :: u8)) :: u32) = push_bit 8 (n div 256)"
    unfolding unat_push_bit unat_ucast_widen u using n by (simp add: push_bit_eq_mult)
  have "unat (push_bit 8 (ucast (of_nat (n div 256) :: u8)) OR ucast (of_nat (n mod 256) :: u8) :: u32)
      = push_bit 8 (n div 256) OR n mod 256"
    unfolding unsigned_or_eq p unat_ucast_widen u by (rule refl)
  also have "\<dots> = n" by (subst nat_or_shifted) simp_all
  finally show ?thesis using n by (simp add: word_unat_eq_iff unat_of_nat)
qed

lemma byte_and_FF: "ucast b AND 0xFF = (ucast b :: u32)" for b :: u8
proof -
  have e: "(0xFF :: u32) = mask 8" by (simp add: mask_eq_exp_minus_1)
  show ?thesis
    unfolding e take_bit_eq_mask [symmetric] using unat_u8_le [of b]
    by (simp add: word_unat_eq_iff unsigned_take_bit_eq take_bit_eq_mod unat_mod)
qed

lemma bertlv_header_encoded:
  assumes m: "mem = xs @ (t # ber_length n @ rest) @ ys" and n: "n < 65536" "rest @ ys \<noteq> []"
    and l: "length (t # ber_length n @ rest @ ys) < 2 ^ 32"
  shows "bertlv_header mem (length xs) (of_nat (length (t # ber_length n @ rest @ ys))) =
    Inr (Some (ucast t, length xs + 1 + length (ber_length n), of_nat (length (rest @ ys)), of_nat n))"
proof -
  let ?zs = "rest @ ys"
  have nth: "mem ! (length xs) = t" "mem ! Suc (length xs) = ber_length n ! 0"
    "mem ! (length xs + 2) = (ber_length n @ ?zs) ! 1" "mem ! Suc (Suc (Suc (length xs))) = (ber_length n @ ?zs) ! 2"
    "length mem = length xs + 1 + length (ber_length n) + length ?zs"
    by (simp_all add: m nth_append ber_length_def)
  have z: "length ?zs \<noteq> 0" using n(2) by simp
  have w: "(of_nat (k + length ?zs) :: u32) \<noteq> 0" if "k + length ?zs \<le> length (t # ber_length n @ rest @ ys)" for k
    using that l z by (simp add: word_unat_eq_iff unat_of_nat del: of_nat_eq_0_iff of_nat_add)
  consider "n < 128" | "128 \<le> n" "n < 256" | "256 \<le> n" by linarith
  then show ?thesis
  proof cases
    case 1
    then have "\<not> (0x80 :: u32) \<le> ucast (of_nat n :: u8)" "ucast (of_nat n :: u8) = (of_nat n :: u32)"
      by (simp_all add: word_le_nat_alt word_unat_eq_iff unat_byte unat_of_nat)
    then show ?thesis using 1 nth w [of 0] w [of 1]
      by (simp add: bertlv_header_def Let_def ber_length_def)
  next
    case 2
    then have "ucast (of_nat n :: u8) = (of_nat n :: u32)" by (simp add: word_unat_eq_iff unat_byte unat_of_nat)
    moreover have "unat ((ucast (0x81 :: u8) :: u32) AND 0x7F) = Suc 0" by simp
    ultimately show ?thesis using 2 nth w [of 0] w [of 1] w [of 2]
      by (simp add: bertlv_header_def Let_def ber_length_def byte_and_FF)
  next
    case 3
    have "bertlv_length mem 2 = bertlv_length mem (Suc (Suc 0))" by (simp add: numeral_2_eq_2)
    then show ?thesis using 3 nth w [of 0] w [of 1] w [of 2] w [of 3] or_byte [OF n(1)]
      by (simp add: bertlv_header_def Let_def ber_length_def byte_and_FF)
  qed
qed

text \<open>The value itself: no check refuses it.\<close>

lemma unat_min: "unat (min a b) = min (unat a) (unat b)" for a b :: "'a::len word"
  by (simp add: min_def word_le_nat_alt)

lemma bertlv_checks_pass:
  fixes addr mem_len offset m :: u32
  assumes "unat addr + unat mem_len < 2 ^ 32" "tlv + unat offset + unat m \<le> unat mem_len"
  shows "\<not> (offset > mem_len \<or> m > mem_len \<or> offset + m > mem_len
      \<or> addr + of_nat tlv < addr \<or> addr + of_nat tlv + offset < addr \<or> addr + of_nat tlv + offset + m < addr
      \<or> addr + of_nat tlv > addr + mem_len \<or> addr + of_nat tlv + offset > addr + mem_len
      \<or> addr + of_nat tlv + offset + m > addr + mem_len)"
proof -
  have "unat (of_nat tlv :: u32) = tlv" using assms by (simp add: unat_of_nat)
  then have a: "unat (addr + of_nat tlv) = unat addr + tlv" "unat (addr + of_nat tlv + offset) = unat addr + tlv + unat offset"
    "unat (addr + of_nat tlv + offset + m) = unat addr + tlv + unat offset + unat m" "unat (addr + mem_len) = unat addr + unat mem_len"
    "unat (offset + m) = unat offset + unat m"
    using assms by (simp_all add: unat_word_ariths)
  show ?thesis unfolding word_less_nat_alt a using assms(2) by linarith
qed

lemma bertlv_value_found:
  assumes mem: "unat addr + length mem < 2 ^ 32" "length mem < 2 ^ 31"
    and v: "tlv + length v + k = length mem" "take (length v) (drop tlv mem) = v"
    and o: "unat offset \<le> length v" "unat maxlength \<le> length dst"
  defines "n \<equiv> min (unat maxlength) (length v - unat offset)"
  shows "bertlv_value addr mem (of_nat (length mem)) tlvoffset False False offset (Some (Some dst)) maxlength
      tlv (of_nat (length v + k)) (of_nat (length v)) =
    Some (Inr \<lparr>tlv_ret = of_nat n, tlv_offset = tlvoffset, tlv_buffer = Some (Some (take n (drop (unat offset) v) @ drop n dst)),
      tlv_address = None\<rparr>)"
proof -
  let ?L = "of_nat (length v) :: u32" and ?R = "of_nat (length v + k) :: u32"
  let ?mem_len = "of_nat (length mem) :: u32" and ?tlva = "addr + of_nat tlv"
  have u: "unat ?L = length v" "unat ?R = length v + k" "unat ?mem_len = length mem" "unat (of_nat tlv :: u32) = tlv"
    using v(1) mem(2) by (simp_all add: unat_of_nat del: of_nat_add)
  have c1: "\<not> (offset > ?L \<or> offset > ?R)" using o(1) by (simp only: word_less_nat_alt u) simp
  have "unat (?L - offset) = length v - unat offset" using o(1) by (subst unat_sub) (simp_all add: word_le_nat_alt u)
  then have m: "unat (min maxlength (min (?L - offset) ?R)) = n"
    unfolding unat_min u by (simp add: n_def)
  let ?m = "min maxlength (min (?L - offset) ?R)"
  have n: "unat offset + n \<le> length v" "n \<le> length dst" using o by (simp_all add: n_def)
  have c3: "\<not> (offset > ?mem_len \<or> ?m > ?mem_len \<or> offset + ?m > ?mem_len
      \<or> ?tlva < addr \<or> ?tlva + offset < addr \<or> ?tlva + offset + ?m < addr
      \<or> ?tlva > addr + ?mem_len \<or> ?tlva + offset > addr + ?mem_len \<or> ?tlva + offset + ?m > addr + ?mem_len)"
    by (rule bertlv_checks_pass; unfold m u) (use mem(1) v(1) n(1) in linarith)+
  have "take n (drop (tlv + unat offset) mem) = take n (drop (unat offset) v)"
  proof -
    have "take n (drop (unat offset) v) = take n (drop (unat offset) (take (length v) (drop tlv mem)))" using v(2) by simp
    also have "\<dots> = take n (drop (tlv + unat offset) mem)" using n(1) by (simp add: drop_take add.commute min_absorb1)
    finally show ?thesis by simp
  qed
  moreover have "tlv + unat offset + n \<le> length mem" using v(1) n(1) by linarith
  ultimately have rd: "buf_read mem (tlv + unat offset) (unat ?m) = Inr (take n (drop (unat offset) v))"
    unfolding m by (simp add: buf_read_def)
  have w: "buf_write dst 0 (take n (drop (unat offset) v)) = Inr (take n (drop (unat offset) v) @ drop n dst)"
    using n by (simp add: buf_write_def)
  have r: "?m = of_nat n" using m by (metis of_nat_unat ucast_id)
  show ?thesis
    unfolding bertlv_value_def Let_def if_not_P [OF c1] if_not_P [OF c3] rd
    by (simp add: w r del: of_nat_add)
qed

lemma bertlv_loop_found:
  assumes "unat addr + length mem < 2 ^ 32" "length mem < 2 ^ 31" "mem = xs @ concat (map tlv_bytes pre) @ tlv_bytes (t, v) @ post"
    and "t \<notin> fst ` set pre" "v \<noteq> []" "length v < 65536" "\<forall>e \<in> set pre. length (snd e) < 65536"
    and "unat offset \<le> length v" "unat maxlength \<le> length dst"
  defines "n \<equiv> min (unat maxlength) (length v - unat offset)"
  shows "bertlv_loop addr mem (of_nat (length mem)) None tlvoffset_in (ucast t) False False offset (Some (Some dst)) maxlength
      (length xs) (of_nat (length mem - length xs)) =
    Some (Inr \<lparr>tlv_ret = of_nat n, tlv_offset = None, tlv_buffer = Some (Some (take n (drop (unat offset) v) @ drop n dst)),
      tlv_address = None\<rparr>)"
  using assms(3,4,7)
proof (induction pre arbitrary: xs)
  case Nil
  have l: "length (t # ber_length (length v) @ v @ post) < 2 ^ 32" using Nil(1) assms(2) by (simp add: tlv_bytes_def)
  have s: "length mem - length xs = length (t # ber_length (length v) @ v @ post)" using Nil(1) by (simp add: tlv_bytes_def)
  have m: "mem = xs @ (t # ber_length (length v) @ v) @ post" using Nil(1) by (simp add: tlv_bytes_def)
  have ne: "v @ post \<noteq> []" using assms(5) by simp
  note h = bertlv_header_encoded [OF m assms(6) ne l]
  let ?tlv = "length xs + 1 + length (ber_length (length v))"
  have "2 \<le> length (t # ber_length (length v) @ v @ post)" by (simp add: ber_length_def)
  then have two: "(2 :: u32) \<le> of_nat (length (t # ber_length (length v) @ v @ post))"
    using l by (simp add: word_le_nat_alt unat_of_nat del: of_nat_Suc of_nat_add length_Cons length_append)
  have v: "?tlv + length v + length post = length mem" "take (length v) (drop ?tlv mem) = v" by (simp_all add: m)
  have "bertlv_value addr mem (of_nat (length mem)) None False False offset (Some (Some dst)) maxlength
      ?tlv (of_nat (length (v @ post))) (of_nat (length v)) =
    Some (Inr \<lparr>tlv_ret = of_nat n, tlv_offset = None, tlv_buffer = Some (Some (take n (drop (unat offset) v) @ drop n dst)),
      tlv_address = None\<rparr>)"
    unfolding n_def length_append by (rule bertlv_value_found [OF assms(1,2) v assms(8,9)])
  moreover have "(ucast t :: u32) = ucast t AND 0xFF" by (simp add: byte_and_FF)
  ultimately show ?case
    unfolding s by (subst bertlv_loop.simps) (simp only: two if_True h sum.case option.case prod.case Let_def simp_thms if_False)
next
  case (Cons e pre)
  let ?ys = "concat (map tlv_bytes pre) @ tlv_bytes (t, v) @ post"
  have m: "mem = xs @ (fst e # ber_length (length (snd e)) @ snd e) @ ?ys" using Cons.prems(1) by (simp add: tlv_bytes_def [of e])
  have l: "length (fst e # ber_length (length (snd e)) @ snd e @ ?ys) < 2 ^ 32" using m assms(2) by simp
  have ne: "snd e @ ?ys \<noteq> []" by (simp add: tlv_bytes_def)
  have s: "length mem - length xs = length (fst e # ber_length (length (snd e)) @ snd e @ ?ys)" using m by simp
  have e: "length (snd e) < 65536" "t \<noteq> fst e" using Cons.prems by auto
  note h = bertlv_header_encoded [OF m e(1) ne l]
  have "2 \<le> length (fst e # ber_length (length (snd e)) @ snd e @ ?ys)" by (simp add: ber_length_def)
  then have two: "(2 :: u32) \<le> of_nat (length (fst e # ber_length (length (snd e)) @ snd e @ ?ys))"
    using l by (simp add: word_le_nat_alt unat_of_nat del: of_nat_Suc of_nat_add length_Cons length_append)
  have "(ucast (fst e) :: u32) \<noteq> ucast t AND 0xFF" using e(2) by (simp add: byte_and_FF word_unat_eq_iff)
  then have match: "(ucast (fst e) = ucast t AND (0xFF :: u32)) = False" by simp
  let ?xs = "xs @ tlv_bytes e"
  have u: "unat (of_nat (length (snd e)) :: u32) = length (snd e)" "unat (of_nat (length (snd e @ ?ys)) :: u32) = length (snd e @ ?ys)"
    "unat (of_nat (length ?ys) :: u32) = length ?ys"
    using l by (simp_all add: unat_of_nat del: of_nat_add)
  have next_tlv: "length xs + 1 + length (ber_length (length (snd e))) + unat (of_nat (length (snd e)) :: u32) = length ?xs"
    unfolding u by (simp add: tlv_bytes_def)
  have next_rem: "of_nat (length (snd e @ ?ys)) - min (of_nat (length (snd e @ ?ys))) (of_nat (length (snd e))) = (of_nat (length mem - length ?xs) :: u32)"
  proof -
    have "length mem - length ?xs = length ?ys" by (simp add: m tlv_bytes_def [of e])
    then show ?thesis by (simp only: word_unat_eq_iff unat_minus_min u) simp
  qed
  have "mem = ?xs @ ?ys" "t \<notin> fst ` set pre" "\<forall>e \<in> set pre. length (snd e) < 65536"
    using Cons.prems by simp_all
  note IH = Cons.IH [OF this]
  show ?case
    unfolding s by (subst bertlv_loop.simps)
      (simp only: two if_True h sum.case option.case prod.case Let_def match simp_thms if_False next_tlv next_rem IH)
qed

text \<open>The flags in the two highest bits of the offset.\<close>

lemma offset_flags:
  fixes x :: u32
  assumes "x < 0x40000000"
  shows "x AND 0x80000000 = 0" "x AND 0x40000000 = 0" "x AND NOT (0x80000000 OR 0x40000000) = x"
    "(0x40000000 OR x) AND 0x80000000 = 0" "(0x40000000 OR x) AND 0x40000000 = 0x40000000"
    "(0x40000000 OR x) AND NOT (0x80000000 OR 0x40000000) = x"
proof -
  have small: "x = take_bit 30 x"
    using assms by (simp add: word_unat_eq_iff unsigned_take_bit_eq take_bit_eq_mod unat_mod word_less_nat_alt)
  have e: "(0x80000000 :: u32) = push_bit 31 1" "(0x40000000 :: u32) = push_bit 30 1" by simp_all
  have "bit x j \<Longrightarrow> j < 30" for j using small by (metis bit_take_bit_iff)
  from this [of 31] this [of 30] have n: "\<not> bit x 31" "\<not> bit x 30" by auto
  have b: "bit (0x80000000 :: u32) j \<longleftrightarrow> j = 31" "bit (0x40000000 :: u32) j \<longleftrightarrow> j = 30" for j
    unfolding e by (simp_all only: bit_push_bit_iff bit_1_iff) (auto simp: possible_bit_def)
  note bits = bit_and_iff bit_or_iff bit_not_iff b bit_0_eq bot_apply bot_bool_def possible_bit_word
  show "x AND 0x80000000 = 0" by (rule bit_word_eqI, simp only: bits) (use n in blast)
  show "x AND 0x40000000 = 0" by (rule bit_word_eqI, simp only: bits) (use n in blast)
  show "x AND NOT (0x80000000 OR 0x40000000) = x" by (rule bit_word_eqI, simp only: bits) (use n in blast)
  show "(0x40000000 OR x) AND 0x80000000 = 0" by (rule bit_word_eqI, simp only: bits) (use n in auto)
  show "(0x40000000 OR x) AND 0x40000000 = 0x40000000" by (rule bit_word_eqI, simp only: bits) blast
  show "(0x40000000 OR x) AND NOT (0x80000000 OR 0x40000000) = x" by (rule bit_word_eqI, simp only: bits) (use n in blast)
qed

section \<open>Properties\<close>

text \<open>
Property C29: the memory routines.  \<open>os_memmove\<close> copies the bytes of the source as they were
before the call, also when source and destination overlap, if the destination is behind the
source or at most 65536 bytes are copied.  In the other direction the position is a 16-bit
counter, which starts again at zero after each 65536 bytes: a longer copy to an earlier place
repeats the copy of the first 65536 bytes, and of the first \<open>length mod 65536\<close> in the last round,
on what the rounds before have left.  So only the first 65536 bytes arrive when the destination
is at least that far in front of the source, and bytes that have been moved are moved again when
it is nearer.  \<open>os_memset\<close> fills exactly the given bytes.
\<close>

theorem os_memmove_correct:
  assumes "src + unat len \<le> length mem" "dst + unat len \<le> length mem"
  shows "(src < dst \<or> unat len \<le> 65536 \<longrightarrow>
      os_memmove dst src len mem = Inr (take dst mem @ take (unat len) (drop src mem) @ drop (dst + unat len) mem))
    \<and> (dst \<le> src \<and> 65536 < unat len \<longrightarrow>
      os_memmove dst src len mem = Inr (moved_bytes dst src (unat len mod 65536)
        ((moved_bytes dst src 65536 ^^ (unat len div 65536)) mem)))
    \<and> (dst + 65536 \<le> src \<and> 65536 < unat len \<longrightarrow>
      os_memmove dst src len mem = Inr (take dst mem @ take 65536 (drop src mem) @ drop (dst + 65536) mem))
    \<and> os_memset dst c len mem = Inr (take dst mem @ replicate (unat len) c @ drop (dst + unat len) mem)"
proof -
  have near: "os_memmove dst src len mem = Inr (take dst mem @ take (unat len) (drop src mem) @ drop (dst + unat len) mem)"
    if "src < dst \<or> unat len \<le> 65536"
    using that memmove_down_run [OF assms] memmove_up_run [of src 0 "unat len" mem dst] assms(1)
    by (auto simp: os_memmove_def not_less)
  have far: "os_memmove dst src len mem = Inr (moved_bytes dst src (unat len mod 65536)
      ((moved_bytes dst src 65536 ^^ (unat len div 65536)) mem))" if "dst \<le> src" "65536 < unat len"
    using that assms memmove_up_blocks [of dst src "unat len mod 65536" mem "unat len div 65536"]
    by (simp add: os_memmove_def)
  have once: "os_memmove dst src len mem = Inr (moved_bytes dst src 65536 mem)"
    if d: "dst + 65536 \<le> src" and n: "65536 < unat len"
  proof -
    have l: "src + 65536 \<le> length mem" using n assms by linarith
    obtain q where "unat len div 65536 = Suc q" using n by (cases "unat len div 65536") auto
    then show ?thesis
      using far n d l moved_bytes_rounds [OF d l, of q] moved_bytes_again [OF d l, of "unat len mod 65536"]
      by simp
  qed
  have "os_memset dst c len mem = Inr (take dst mem @ replicate (unat len) c @ drop (dst + unat len) mem)"
    unfolding os_memset_def using assms(2) by (rule memset_loop_run)
  with near far once show ?thesis by (simp add: moved_bytes_def)
qed

theorem os_memmove_correct_witness:
  "os_memmove 1 0 3 [1, 2, 3, 4] = Inr [1, 1, 2, 3] \<and> os_memmove 0 1 3 [1, 2, 3, 4] = Inr [2, 3, 4, 4]"
  using os_memmove_correct [of 0 3 "[1, 2, 3, 4]" 1 0] os_memmove_correct [of 1 3 "[1, 2, 3, 4]" 0 0]
  by simp

text \<open>
The comparisons.  \<open>os_memcmp\<close> compares the two arrays as little-endian numbers:
it looks at the last byte first.  \<open>os_secure_memcmp\<close> and \<open>os_xor\<close> return, although their
loops wait for two counters; the first returns zero exactly for equal arrays.
\<close>

theorem os_memcmp_compares:
  assumes "unat len \<le> length xs" "unat len \<le> length ys" "unat len \<le> length dst"
  shows "os_memcmp xs ys len = Inr (if le_value (take (unat len) xs) > le_value (take (unat len) ys) then 1
      else if le_value (take (unat len) xs) = le_value (take (unat len) ys) then 0 else 255)
    \<and> (\<exists>r. os_secure_memcmp xs ys len = Some (Inr r) \<and> (r = 0 \<longleftrightarrow> take (unat len) xs = take (unat len) ys))
    \<and> os_xor dst xs ys len = Some (Inr (map2 (XOR) (take (unat len) xs) (take (unat len) ys) @ drop (unat len) dst))"
proof (intro conjI)
  have m: "(- 1 :: u8) = 255" by code_simp
  show "os_memcmp xs ys len = Inr (if le_value (take (unat len) xs) > le_value (take (unat len) ys) then 1
      else if le_value (take (unat len) xs) = le_value (take (unat len) ys) then 0 else 255)"
    unfolding os_memcmp_def memcmp_loop_run [OF assms(1,2)] m by (rule refl)
  show "\<exists>r. os_secure_memcmp xs ys len = Some (Inr r) \<and> (r = 0 \<longleftrightarrow> take (unat len) xs = take (unat len) ys)"
    unfolding os_secure_memcmp_def using secure_loop_run [OF assms(1,2), of 0] by simp
  show "os_xor dst xs ys len = Some (Inr (map2 (XOR) (take (unat len) xs) (take (unat len) ys) @ drop (unat len) dst))"
    unfolding os_xor_def by (rule xor_loop_run [OF assms])
qed

theorem os_memcmp_compares_witness:
  "os_memcmp [1, 2] [2, 1] 2 = Inr 1 \<and> (\<exists>r. os_secure_memcmp [1, 2] [2, 1] 2 = Some (Inr r) \<and> r \<noteq> 0)
    \<and> os_xor [0, 0] [1, 2] [2, 1] 2 = Some (Inr [3, 3])"
  using os_memcmp_compares [of 2 "[1, 2]" "[2, 1]" "[0, 0]"] by (simp add: le_value_def)

text \<open>
\<open>os_parse_bertlv\<close> never reads outside the given memory nor writes outside the
given buffer, whatever bytes it parses, and always returns; the position it stores is
inside the memory.
\<close>

theorem os_parse_bertlv_safe:
  assumes "unat addr + k < 2 ^ 32" "unat mem_len \<le> k" "k < 2 ^ 31" "k = length mem"
    and "\<forall>dst. buffer = Some (Some dst) \<longrightarrow> unat maxlength \<le> length dst"
  shows "\<exists>v. os_parse_bertlv addr mem mem_len tlvoffset tag offset buffer maxlength = Some (Inr v)
    \<and> (\<forall>a. tlv_address v = Some a \<longrightarrow> a \<le> unat mem_len)
    \<and> map_option (map_option length) (tlv_buffer v) = map_option (map_option length) buffer"
proof -
  let ?get = "offset AND OS_PARSE_BERTLV_OFFSET_GET_LENGTH \<noteq> 0"
  have "bertlv_ok (unat mem_len) buffer (os_parse_bertlv addr mem mem_len tlvoffset tag offset buffer maxlength)"
  proof (cases "mem_len = 0 \<or> buffer = None \<or> (\<not> ?get \<and> buffer = Some None)")
    case True
    then show ?thesis by (simp add: os_parse_bertlv_def bertlv_ok_def)
  next
    case False
    then have g: "?get \<or> (\<exists>dst. buffer = Some (Some dst))" by auto
    show ?thesis
      unfolding os_parse_bertlv_def Let_def if_not_P [OF False]
      by (rule bertlv_loop_ok [OF assms(1-3) _ _ g]) (use assms(4,5) in auto)
  qed
  then show ?thesis by (simp add: bertlv_ok_def)
qed

theorem os_parse_bertlv_safe_witness:
  "\<exists>v. os_parse_bertlv 0 [1, 0x84, 0xFF, 0xFF] 4 None 1 0 (Some (Some [0, 0])) 2 = Some (Inr v)"
  using os_parse_bertlv_safe [of 0 4 4 "[1, 0x84, 0xFF, 0xFF]" "Some (Some [0, 0])" 2 None 1 0] by auto

text \<open>
Property C30: values are found.  In a list of encoded values \<open>os_parse_bertlv\<close> copies the first
value with the tag, from the offset on and cut off at the maximal length, to the buffer and
returns the number of bytes copied.
\<close>

theorem os_parse_bertlv_finds:
  assumes "unat addr + length mem < 2 ^ 32" "length mem < 2 ^ 31" "mem = concat (map tlv_bytes pre) @ tlv_bytes (t, v) @ post"
    and "t \<notin> fst ` set pre" "v \<noteq> []" "length v < 65536" "\<forall>e \<in> set pre. length (snd e) < 65536"
    and "unat offset \<le> length v" "offset < 0x40000000" "unat maxlength \<le> length dst"
  shows "\<exists>r. os_parse_bertlv addr mem (of_nat (length mem)) None (ucast t) offset (Some (Some dst)) maxlength = Some (Inr r)
    \<and> tlv_ret r = of_nat (min (unat maxlength) (length v - unat offset))
    \<and> tlv_buffer r = Some (Some (take (min (unat maxlength) (length v - unat offset)) (drop (unat offset) v)
        @ drop (min (unat maxlength) (length v - unat offset)) dst))"
proof -
  note flags = offset_flags [OF assms(9)]
  have nz: "(of_nat (length mem) :: u32) \<noteq> 0"
    using assms(2,3) by (simp add: word_unat_eq_iff unat_of_nat tlv_bytes_def del: of_nat_eq_0_iff of_nat_add of_nat_Suc)
  have m: "mem = [] @ concat (map tlv_bytes pre) @ tlv_bytes (t, v) @ post" using assms(3) by simp
  note r = bertlv_loop_found [of addr mem "[]" pre t v post offset maxlength dst 0, OF assms(1,2) m assms(4-8,10),
      unfolded list.size(3) minus_nat.diff_0]
  then show ?thesis
    using nz by (simp add: os_parse_bertlv_def Let_def const_defs flags flags(3) [simplified])
qed

theorem os_parse_bertlv_finds_witness:
  "\<exists>r. os_parse_bertlv 0 [7, 1, 0xAA, 8, 3, 1, 2, 3] 8 None 8 1 (Some (Some [0, 0, 0])) 3 = Some (Inr r)
    \<and> tlv_ret r = 2 \<and> tlv_buffer r = Some (Some [2, 3, 0])"
proof -
  have mem: "[7, 1, 0xAA, 8, 3, 1, 2, 3] = concat (map tlv_bytes [(7, [0xAA])]) @ tlv_bytes (8, [1, 2, 3]) @ []"
    by (simp add: tlv_bytes_def ber_length_def)
  from os_parse_bertlv_finds [OF _ _ mem, of 0 1 3 "[0, 0, 0]"] show ?thesis by simp
qed

text \<open>
Values that announce more bytes than there are.  A comparison with the buffer
succeeds although only the bytes that are there have been compared, and the length
returned for an offset reaches past the end of the memory.
\<close>

theorem os_parse_bertlv_truncated:
  assumes "0 < length v" "length v < n" "n < 128" "unat addr + 130 < 2 ^ 32" "length w = n - length v"
    and "0 < off" "off \<le> length v" "off + length v \<le> n"
  shows "(\<exists>r. os_parse_bertlv addr (t # of_nat n # v) (of_nat (length v + 2)) None (ucast t)
      OS_PARSE_BERTLV_OFFSET_COMPARE_WITH_BUFFER (Some (Some (v @ w))) (of_nat n) = Some (Inr r) \<and> tlv_ret r = 1)
    \<and> (\<exists>r. os_parse_bertlv addr (t # of_nat n # v) (of_nat (length v + 2)) None (ucast t)
      (OS_PARSE_BERTLV_OFFSET_GET_LENGTH OR of_nat off) (Some None) 0 = Some (Inr r)
      \<and> tlv_address r = Some (2 + off) \<and> tlv_ret r = of_nat (length v) \<and> 2 + off + length v > length (t # of_nat n # v))"
proof -
  let ?mem = "t # of_nat n # v"
  define ml :: u32 where "ml = of_nat (length v + 2)"
  have h: "bertlv_header ?mem 0 ml = Inr (Some (ucast t, 2, of_nat (length v), of_nat n))"
    using bertlv_header_encoded [of ?mem "[]" t n v "[]"] assms(1-3) by (simp add: ber_length_def ml_def flip: numeral_2_eq_2)
  have u: "unat (of_nat n :: u32) = n" "unat (of_nat (length v) :: u32) = length v" "unat (of_nat off :: u32) = off"
    "unat ml = length v + 2"
    using assms(2,3,7) by (simp_all only: unat_of_nat ml_def) simp_all
  have two: "(2 :: u32) \<le> ml" "ml \<noteq> (0 :: u32)"
    by (simp_all only: word_le_nat_alt word_unat_eq_iff u) simp_all
  have t: "ucast t = (ucast t AND 0xFF :: u32)" by (simp add: byte_and_FF)
  let ?L = "of_nat (length v) :: u32"
  have match: "(ucast t = (ucast t AND 0xFF :: u32)) = True" using t by simp
  have loop: "bertlv_loop addr ?mem ml None 0 (ucast t) c g off' buffer maxlength 0 ml
      = bertlv_value addr ?mem ml None c g off' buffer maxlength 2 ?L (of_nat n)" for c g off' buffer maxlength
    by (subst bertlv_loop.simps)
      (simp only: two if_True h sum.case option.case prod.case Let_def match simp_thms if_False)
  have fit: "unat addr + unat ml < 2 ^ 32" unfolding u using assms(2-4) by simp
  have le: "?L \<le> of_nat n" "of_nat off \<le> ?L" using assms(2,7) by (simp_all only: word_le_nat_alt u)
  have part1: "os_secure_memcmp (v @ w) v ?L = Some (Inr 0)"
    using secure_loop_run [of ?L "v @ w" v 0] u(2) by (auto simp: os_secure_memcmp_def)
  have m1: "min (of_nat n) (min (of_nat n - 0) ?L) = ?L" using le(1) by (simp add: min_def)
  have c1: "\<not> ((0 :: u32) > of_nat n \<or> 0 > ?L)" "\<not> (True \<and> of_nat n - 0 \<noteq> (of_nat n :: u32))" by simp_all
  have k1: "2 + unat (0 :: u32) + unat ?L \<le> unat ml" unfolding u by simp
  have "bertlv_value addr ?mem ml None True False 0 (Some (Some (v @ w))) (of_nat n) 2 ?L (of_nat n)
      = Some (Inr \<lparr>tlv_ret = 1, tlv_offset = None, tlv_buffer = Some (Some (v @ w)), tlv_address = None\<rparr>)"
    unfolding bertlv_value_def Let_def if_not_P [OF c1(1)] if_not_P [OF c1(2)] m1
      if_not_P [OF bertlv_checks_pass [OF fit k1]] u
    by (simp add: buf_read_def part1)
  then have "\<exists>r. os_parse_bertlv addr ?mem ml None (ucast t) OS_PARSE_BERTLV_OFFSET_COMPARE_WITH_BUFFER
      (Some (Some (v @ w))) (of_nat n) = Some (Inr r) \<and> tlv_ret r = 1"
    using two(2) by (simp add: os_parse_bertlv_def Let_def loop const_defs)
  moreover
  let ?o = "of_nat off :: u32"
  have o: "?o < 0x40000000" using assms(2,3,7) u(3) by (simp add: word_less_nat_alt)
  have sub: "unat (of_nat n - ?o :: u32) = n - off" using u(1,3) assms(2,3,7) by (subst unat_sub) (simp_all add: word_le_nat_alt)
  then have m2: "min (of_nat n - ?o) ?L = ?L" using u(2) assms(8) by (intro min_absorb2) (simp add: word_le_nat_alt)
  have m0: "min 0 ?L = 0" by (simp add: min_def)
  have c2: "\<not> (?o > of_nat n \<or> ?o > ?L)" "\<not> (False \<and> of_nat n - ?o \<noteq> 0)" using le by auto
  have k2: "2 + unat ?o + unat (0 :: u32) \<le> unat ml" unfolding u using assms(7) by simp
  have "bertlv_value addr ?mem ml None False True ?o (Some None) 0 2 ?L (of_nat n)
      = Some (Inr \<lparr>tlv_ret = ?L, tlv_offset = None, tlv_buffer = Some None, tlv_address = Some (2 + off)\<rparr>)"
    unfolding bertlv_value_def Let_def if_not_P [OF c2(1)] if_not_P [OF c2(2)] m2 m0
      if_not_P [OF bertlv_checks_pass [OF fit k2]] u
    by simp
  then have "\<exists>r. os_parse_bertlv addr ?mem ml None (ucast t) (OS_PARSE_BERTLV_OFFSET_GET_LENGTH OR ?o) (Some None) 0 = Some (Inr r)
      \<and> tlv_address r = Some (2 + off) \<and> tlv_ret r = ?L \<and> 2 + off + length v > length ?mem"
    using two(2) assms(6) by (simp add: os_parse_bertlv_def Let_def loop const_defs offset_flags [OF o] offset_flags(6) [OF o, simplified])
  ultimately show ?thesis unfolding ml_def by blast
qed

theorem os_parse_bertlv_truncated_witness:
  "(\<exists>r. os_parse_bertlv 0 [7, 4, 1, 2] 4 None 7 0x80000000 (Some (Some [1, 2, 3, 4])) 4 = Some (Inr r) \<and> tlv_ret r = 1)
    \<and> (\<exists>r. os_parse_bertlv 0 [7, 4, 1, 2] 4 None 7 0x40000001 (Some None) 0 = Some (Inr r) \<and> tlv_address r = Some 3 \<and> tlv_ret r = 2)"
  using os_parse_bertlv_truncated [of "[1, 2]" 4 0 "[3, 4]" 1 7] by (simp add: const_defs)

end
