(* ===== verification/Usb_Hid.thy ===== *)
theory Usb_Hid
  imports App_Props Os
begin

text \<open>
  The USB HID transport, \<open>src/sdk/nanos-secure-sdk/src/os_io_usb.c\<close> and the function
  \<open>USBD_HID_DataOut_impl\<close> of \<open>lib_stusb_impl/usbd_impl.c\<close>: commands arrive in packets of 64
  bytes with a channel, a tag and a sequence number, and replies leave the same way.  The
  event \<open>Apdu data\<close> of the application is what the packets of a command do.
\<close>

section \<open>The code\<close>

text \<open>
  The variables \<open>G_io_usb_hid_*\<close>, the endpoint buffer, the packets handed to the endpoint,
  \<open>G_io_app.apdu_state\<close> as far as it is \<open>APDU_IDLE\<close> or not, and the state of the application.
  \<open>G_io_usb_hid_current_buffer\<close> is null or points into \<open>G_io_apdu_buffer\<close>.
\<close>

record usb =
  hid_total_length :: u32
  hid_channel :: u32
  hid_remaining_length :: u32
  hid_sequence_number :: u32
  hid_current_buffer :: "nat option"
  usb_ep_buffer :: "u8 list"
  ep_sent :: "u8 list list"
  apdu_idle :: bool
  usb_app :: app

definition IO_HID_EP_LENGTH :: nat where [const_defs]: "IO_HID_EP_LENGTH = 64"

datatype hid_status = IO_USB_APDU_RESET | IO_USB_APDU_MORE_DATA | IO_USB_APDU_RECEIVED

definition io_usb_hid_init :: "(usb, unit) cm" where
  "io_usb_hid_init = modify_c (\<lambda>u. u\<lparr>hid_sequence_number := 0, hid_remaining_length := 0, hid_current_buffer := None\<rparr>)"

text \<open>The endpoint sends the first bytes of its buffer.\<close>

definition send_ep :: "nat \<Rightarrow> (usb, unit) cm" where
  "send_ep n =
     bind_c (gets_c usb_ep_buffer) (\<lambda>ep.
     bind_c (lift_c (buf_read ep 0 n)) (\<lambda>packet.
     modify_c (\<lambda>u. u\<lparr>ep_sent := ep_sent u @ [packet]\<rparr>)))"

definition set_ep :: "nat \<Rightarrow> u8 list \<Rightarrow> (usb, unit) cm" where
  "set_ep i bytes = try_modify_c (\<lambda>u.
     bindE (buf_write (usb_ep_buffer u) i bytes) (\<lambda>ep. Inr (u\<lparr>usb_ep_buffer := ep\<rparr>)))"

text \<open>Copying \<open>l\<close> bytes of a packet to the current position, and moving on.\<close>

definition append_chunk :: "nat \<Rightarrow> u16 \<Rightarrow> (usb, unit) cm" where
  "append_chunk off l =
     bind_c (gets_c usb_ep_buffer) (\<lambda>ep.
     bind_c (gets_c hid_current_buffer) (\<lambda>current.
     bind_c (lift_c (buf_read ep off (unat l))) (\<lambda>bytes.
     bind_c
       (case current of
          None \<Rightarrow> throw_c Fault
        | Some i \<Rightarrow> try_modify_c (\<lambda>u.
            bindE (buf_write (G_io_apdu_buffer (usb_app u)) i bytes) (\<lambda>buf.
            Inr (u\<lparr>usb_app := (usb_app u)\<lparr>G_io_apdu_buffer := buf\<rparr>, hid_current_buffer := Some (i + unat l)\<rparr>))))
       (\<lambda>_.
     modify_c (\<lambda>u. u\<lparr>hid_remaining_length := hid_remaining_length u - ucast l,
                     hid_sequence_number := hid_sequence_number u + 1\<rparr>)))))"

text \<open>The tag \<open>0x05\<close>; the result is true for the jump to \<open>apdu_reset\<close>.\<close>

definition receive_chunk :: "u16 \<Rightarrow> (usb, bool) cm" where
  "receive_chunk l =
     bind_c (gets_c usb_ep_buffer) (\<lambda>ep.
     bind_c (gets_c hid_sequence_number) (\<lambda>sequence_number.
     bind_c (lift_c (U2BE ep 3)) (\<lambda>seq.
     if seq \<noteq> sequence_number then return_c True
     else
       let l = l - (2 + 1 + 2)
       in if sequence_number = 0 then
            bind_c (lift_c (U2BE ep 5)) (\<lambda>total.
            bind_c (modify_c (\<lambda>u. u\<lparr>hid_total_length := total\<rparr>)) (\<lambda>_.
            if unat total > IO_APDU_BUFFER_SIZE then return_c True
            else
              let l = l - 2
              in bind_c (modify_c (\<lambda>u. u\<lparr>hid_remaining_length := total, hid_current_buffer := Some 0\<rparr>)) (\<lambda>_.
                 bind_c (lift_c (U2BE ep 0)) (\<lambda>channel.
                 bind_c (modify_c (\<lambda>u. u\<lparr>hid_channel := channel\<rparr>)) (\<lambda>_.
                 bind_c (append_chunk 7 (if ucast l > total then ucast total else l)) (\<lambda>_.
                 return_c False))))))
          else
            bind_c (gets_c hid_remaining_length) (\<lambda>remaining.
            bind_c (append_chunk 5 (if ucast l > remaining then ucast remaining else l)) (\<lambda>_.
            return_c False)))))"

text \<open>The bytes \<open>rng\<close> are those \<open>cx_rng\<close> would write.\<close>

definition io_usb_hid_receive :: "u8 list \<Rightarrow> u8 list \<Rightarrow> u16 \<Rightarrow> (usb, hid_status) cm" where
  "io_usb_hid_receive rng buffer l =
     bind_c (modify_c (\<lambda>u. u\<lparr>usb_ep_buffer := replicate (length (usb_ep_buffer u)) 0\<rparr>)) (\<lambda>_.
     bind_c (gets_c (\<lambda>u. length (usb_ep_buffer u))) (\<lambda>size.
     bind_c (lift_c (buf_read buffer 0 (min (unat l) size))) (\<lambda>bytes.
     bind_c (set_ep 0 bytes) (\<lambda>_.
     bind_c (gets_c usb_ep_buffer) (\<lambda>ep.
     bind_c (lift_c (buf_read ep 2 1)) (\<lambda>tag.
     bind_c
       (if hd tag = 0x05 then receive_chunk l
        else if hd tag = 0x00 then
          bind_c (set_ep 3 [0, 0, 0, 0]) (\<lambda>_. bind_c (send_ep IO_HID_EP_LENGTH) (\<lambda>_. return_c True))
        else if hd tag = 0x01 then
          bind_c (set_ep 3 rng) (\<lambda>_. bind_c (send_ep IO_HID_EP_LENGTH) (\<lambda>_. return_c True))
        else if hd tag = 0x02 then bind_c (send_ep IO_HID_EP_LENGTH) (\<lambda>_. return_c True)
        else return_c False)
       (\<lambda>reset.
     if reset then bind_c io_usb_hid_init (\<lambda>_. return_c IO_USB_APDU_RESET)
     else
       bind_c (gets_c hid_remaining_length) (\<lambda>remaining.
       if remaining \<noteq> 0 then return_c IO_USB_APDU_MORE_DATA
       else bind_c io_usb_hid_init (\<lambda>_. return_c IO_USB_APDU_RECEIVED)))))))))"

definition USBD_HID_DataOut_impl :: "u8 list \<Rightarrow> u8 list \<Rightarrow> (usb, unit) cm" where
  "USBD_HID_DataOut_impl rng buffer =
     bind_c (gets_c (\<lambda>u. apdu_media (usb_app u))) (\<lambda>media.
     if media = IO_APDU_MEDIA_NONE then
       bind_c (io_usb_hid_receive rng buffer (of_nat (length buffer))) (\<lambda>status.
       case status of
         IO_USB_APDU_RECEIVED \<Rightarrow> modify_c (\<lambda>u. u\<lparr>apdu_idle := False,
           usb_app := (usb_app u)\<lparr>apdu_media := IO_APDU_MEDIA_USB_HID, apdu_length := ucast (hid_total_length u)\<rparr>\<rparr>)
       | _ \<Rightarrow> return_c ())
     else return_c ())"

text \<open>Sending: one packet per call, and the cleanup at the last acknowledgement.\<close>

definition io_usb_hid_sent :: "(usb, unit) cm" where
  "io_usb_hid_sent =
     bind_c (gets_c id) (\<lambda>u.
     case hid_current_buffer u of
       Some i \<Rightarrow>
         if hid_remaining_length u \<noteq> 0 then
           bind_c (modify_c (\<lambda>u. u\<lparr>usb_ep_buffer := replicate (length (usb_ep_buffer u)) 0\<rparr>)) (\<lambda>_.
           bind_c (set_ep 0 [ucast (drop_bit 8 (hid_channel u) AND 0xFF), ucast (hid_channel u AND 0xFF), 0x05,
                             ucast (drop_bit 8 (hid_sequence_number u)), ucast (hid_sequence_number u)]) (\<lambda>_.
           let first = (hid_sequence_number u = 0);
               room = (if first then IO_HID_EP_LENGTH - 7 else IO_HID_EP_LENGTH - 5);
               l = (if unat (hid_remaining_length u) > room then room else unat (hid_remaining_length u))
           in bind_c
                (if first then
                   set_ep 5 [ucast (drop_bit 8 (hid_remaining_length u)), ucast (hid_remaining_length u)]
                 else return_c ()) (\<lambda>_.
              bind_c (lift_c (buf_read (G_io_apdu_buffer (usb_app u)) i l)) (\<lambda>bytes.
              bind_c (set_ep (if first then 7 else 5) bytes) (\<lambda>_.
              bind_c (modify_c (\<lambda>u. u\<lparr>hid_current_buffer := Some (i + l),
                hid_remaining_length := hid_remaining_length u - of_nat l,
                hid_sequence_number := hid_sequence_number u + 1\<rparr>)) (\<lambda>_.
              send_ep IO_HID_EP_LENGTH))))))
         else bind_c io_usb_hid_init (\<lambda>_. modify_c (\<lambda>u. u\<lparr>apdu_idle := True\<rparr>))
     | None \<Rightarrow> bind_c io_usb_hid_init (\<lambda>_. modify_c (\<lambda>u. u\<lparr>apdu_idle := True\<rparr>)))"

definition io_usb_hid_send :: "u16 \<Rightarrow> (usb, unit) cm" where
  "io_usb_hid_send sndlength =
     (if sndlength \<noteq> 0 then
        bind_c (modify_c (\<lambda>u. u\<lparr>hid_sequence_number := 0, hid_current_buffer := Some 0,
          hid_remaining_length := ucast sndlength, hid_total_length := ucast sndlength\<rparr>)) (\<lambda>_.
        io_usb_hid_sent)
      else return_c ())"

section \<open>Packets\<close>

definition word_bytes :: "nat \<Rightarrow> u8 list" where
  "word_bytes n = [of_nat (n div 256), of_nat (n mod 256)]"

text \<open>The packets of a message: the host makes them for a command, the device for a reply.\<close>

definition hid_packet :: "nat \<Rightarrow> nat \<Rightarrow> u8 list \<Rightarrow> u8 list" where
  "hid_packet channel seq content =
     (let p = word_bytes channel @ [0x05] @ word_bytes seq @ content in p @ replicate (64 - length p) 0)"

function next_packets :: "nat \<Rightarrow> nat \<Rightarrow> u8 list \<Rightarrow> u8 list list" where
  "next_packets channel seq data =
     (if data = [] then []
      else hid_packet channel seq (take 59 data) # next_packets channel (Suc seq) (drop 59 data))"
  by pat_completeness auto
termination
  by (relation "measure (\<lambda>(_, _, data). length data)") (auto simp: length_greater_0_conv [symmetric] simp del: length_greater_0_conv)

declare next_packets.simps [simp del]

definition hid_packets :: "nat \<Rightarrow> u8 list \<Rightarrow> u8 list list" where
  "hid_packets channel data =
     hid_packet channel 0 (word_bytes (length data) @ take 57 data) # next_packets channel 1 (drop 57 data)"

lemma length_word_bytes [simp]: "length (word_bytes n) = 2"
  by (simp add: word_bytes_def)

lemma length_hid_packet: "length content \<le> 59 \<Longrightarrow> length (hid_packet channel seq content) = 64"
  by (simp add: hid_packet_def Let_def)

text \<open>A sequence of calls.\<close>

fun feed :: "u8 list \<Rightarrow> u8 list list \<Rightarrow> (usb, unit) cm" where
  "feed rng [] = return_c ()"
| "feed rng (p # ps) = bind_c (USBD_HID_DataOut_impl rng p) (\<lambda>_. feed rng ps)"

fun acknowledge :: "nat \<Rightarrow> (usb, unit) cm" where
  "acknowledge 0 = return_c ()"
| "acknowledge (Suc n) = bind_c io_usb_hid_sent (\<lambda>_. acknowledge n)"

section \<open>Receiving a command\<close>

lemma unat_bytes: "n < 65536 \<Longrightarrow> unat (of_nat (n div 256) :: u8) = n div 256" "unat (of_nat (n mod 256) :: u8) = n mod 256"
  by (simp_all add: unat_of_nat)

lemma U2BE_word_bytes:
  assumes "n < 65536" "length xs = off"
  shows "U2BE (xs @ word_bytes n @ ys) off = Inr (of_nat n)"
proof -
  have e: "(0xFF :: u32) = mask 8" by (simp add: mask_eq_exp_minus_1)
  have m: "ucast b AND 0xFF = (ucast b :: u32)" for b :: u8
    unfolding e take_bit_eq_mask [symmetric] using unat_u8_le [of b]
    by (simp add: word_unat_eq_iff unsigned_take_bit_eq take_bit_eq_mod unat_mod)
  have p: "unat (push_bit 8 (ucast (of_nat (n div 256) :: u8)) :: u32) = push_bit 8 (n div 256)"
    unfolding unat_push_bit unat_ucast_widen unat_bytes(1) [OF assms(1)] using assms(1) by (simp add: push_bit_eq_mult)
  have "unat (push_bit 8 (ucast (of_nat (n div 256) :: u8)) OR ucast (of_nat (n mod 256) :: u8) :: u32)
      = push_bit 8 (n div 256) OR n mod 256"
    unfolding unsigned_or_eq p unat_ucast_widen unat_bytes(2) by (rule refl)
  also have "\<dots> = n" by (subst nat_or_shifted) simp_all
  finally have "(push_bit 8 (ucast (of_nat (n div 256) :: u8)) OR ucast (of_nat (n mod 256) :: u8) :: u32) = of_nat n"
    using assms(1) by (simp add: word_unat_eq_iff unat_of_nat)
  then show ?thesis using assms(2) by (simp add: U2BE_def buf_read_def word_bytes_def m)
qed

lemma append_chunk_run:
  assumes "off + unat l \<le> length (usb_ep_buffer u)" "hid_current_buffer u = Some i"
    and "i + unat l \<le> length (G_io_apdu_buffer (usb_app u))"
  shows "append_chunk off l u = (Inr (), u\<lparr>usb_app := (usb_app u)\<lparr>G_io_apdu_buffer := take i (G_io_apdu_buffer (usb_app u))
      @ take (unat l) (drop off (usb_ep_buffer u)) @ drop (i + unat l) (G_io_apdu_buffer (usb_app u))\<rparr>,
    hid_current_buffer := Some (i + unat l), hid_remaining_length := hid_remaining_length u - ucast l,
    hid_sequence_number := hid_sequence_number u + 1\<rparr>)"
  using assms by (simp add: append_chunk_def cm_defs buf_read_def buf_write_def)

text \<open>The packet is in the endpoint buffer.\<close>

lemma io_usb_hid_receive_chunk:
  assumes "length p = 64" "length (usb_ep_buffer u) = 64" "p ! 2 = 0x05"
  shows "io_usb_hid_receive rng p 64 u = bind_c (receive_chunk 64) (\<lambda>reset.
     if reset then bind_c io_usb_hid_init (\<lambda>_. return_c IO_USB_APDU_RESET)
     else
       bind_c (gets_c hid_remaining_length) (\<lambda>remaining.
       if remaining \<noteq> 0 then return_c IO_USB_APDU_MORE_DATA
       else bind_c io_usb_hid_init (\<lambda>_. return_c IO_USB_APDU_RECEIVED))) (u\<lparr>usb_ep_buffer := p\<rparr>)"
proof -
  have "take (Suc 0) (drop 2 p) = [0x05]" using assms(1,3) by (simp add: take_Suc_conv_app_nth)
  then have "buf_read p 2 1 = Inr [0x05]" using assms(1) by (simp add: buf_read_def)
  then show ?thesis
    using assms(1,2)
    by (simp add: io_usb_hid_receive_def cm_defs buf_read_def [of p 0] buf_write_def set_ep_def)
qed

text \<open>A packet of the protocol.\<close>

lemma hid_packet_tag: "hid_packet channel seq content ! 2 = 0x05"
  by (simp add: hid_packet_def Let_def word_bytes_def)

lemma hid_packet_fields:
  assumes "channel < 65536" "seq < 65536"
  shows "U2BE (hid_packet channel seq content) 0 = Inr (of_nat channel)"
    "U2BE (hid_packet channel seq content) 3 = Inr (of_nat seq)"
    "n < 65536 \<Longrightarrow> U2BE (hid_packet channel seq (word_bytes n @ xs)) 5 = Inr (of_nat n)"
proof -
  let ?pad = "\<lambda>c. replicate (64 - length (word_bytes channel @ [0x05] @ word_bytes seq @ c)) (0 :: u8)"
  show "U2BE (hid_packet channel seq content) 0 = Inr (of_nat channel)"
    using U2BE_word_bytes [OF assms(1), of "[]" 0] by (simp add: hid_packet_def Let_def)
  show "U2BE (hid_packet channel seq content) 3 = Inr (of_nat seq)"
    using U2BE_word_bytes [OF assms(2), of "word_bytes channel @ [0x05]" 3 "content @ ?pad content"]
    by (simp add: hid_packet_def Let_def)
  show "U2BE (hid_packet channel seq (word_bytes n @ xs)) 5 = Inr (of_nat n)" if "n < 65536"
    using U2BE_word_bytes [OF that, of "word_bytes channel @ [0x05] @ word_bytes seq" 5 "xs @ ?pad (word_bytes n @ xs)"]
    by (simp add: hid_packet_def Let_def)
qed

lemma hid_packet_content:
  "take (length content) (drop 5 (hid_packet channel seq content)) = content"
  by (simp add: hid_packet_def Let_def word_bytes_def)

text \<open>
  \<open>k\<close> bytes of a command have arrived, and the packet \<open>seq\<close> is expected; the command is complete.
\<close>

definition hid_ready :: "usb \<Rightarrow> bool" where
  "hid_ready u \<longleftrightarrow> length (usb_ep_buffer u) = 64 \<and> length (G_io_apdu_buffer (usb_app u)) = IO_APDU_BUFFER_SIZE
     \<and> apdu_media (usb_app u) = IO_APDU_MEDIA_NONE \<and> hid_sequence_number u = 0"

definition arriving :: "usb \<Rightarrow> u8 list \<Rightarrow> nat \<Rightarrow> nat \<Rightarrow> usb \<Rightarrow> bool" where
  "arriving u0 data k seq u \<longleftrightarrow> k < length data \<and> hid_sequence_number u = of_nat seq
     \<and> hid_remaining_length u = of_nat (length data - k) \<and> hid_current_buffer u = Some k
     \<and> hid_total_length u = of_nat (length data) \<and> length (usb_ep_buffer u) = 64
     \<and> usb_app u = usb_receive (take k data) False (usb_app u0) \<and> ep_sent u = ep_sent u0"

definition has_arrived :: "usb \<Rightarrow> u8 list \<Rightarrow> usb \<Rightarrow> bool" where
  "has_arrived u0 data u \<longleftrightarrow> usb_app u = usb_receive data True (usb_app u0) \<and> ep_sent u = ep_sent u0
     \<and> hid_sequence_number u = 0 \<and> \<not> apdu_idle u"

lemma usb_receive_buffer:
  assumes "hid_ready u0" "length data \<le> 337"
  shows "usb_receive data b (usb_app u0) =
    (let s = (usb_app u0)\<lparr>G_io_apdu_buffer := data @ drop (length data) (G_io_apdu_buffer (usb_app u0))\<rparr>
     in if b then s\<lparr>apdu_media := IO_APDU_MEDIA_USB_HID, apdu_length := of_nat (length data)\<rparr> else s)"
  using assms by (simp add: usb_receive_def hid_ready_def IO_APDU_BUFFER_SIZE_def)

lemma first_packet:
  assumes u: "hid_ready u0" and d: "length data \<le> 337" "channel < 65536"
  shows "\<exists>u. USBD_HID_DataOut_impl rng (hid_packet channel 0 (word_bytes (length data) @ take 57 data)) u0 = (Inr (), u)
    \<and> (if length data \<le> 57 then has_arrived u0 data u else arriving u0 data 57 1 u)"
proof -
  let ?n = "length data" and ?k = "min 57 (length data)" and ?app = "usb_app u0"
  let ?p = "hid_packet channel 0 (word_bytes ?n @ take 57 data)"
  let ?l = "if (ucast (64 - (2 + 1 + 2) - 2 :: u16) :: u32) > of_nat ?n then ucast (of_nat ?n :: u32) else (64 - (2 + 1 + 2) - 2 :: u16)"
  have n: "?n < 65536" using d(1) by simp
  have lp: "length ?p = 64" by (rule length_hid_packet) simp
  have un: "unat (of_nat ?n :: u32) = ?n" using d(1) by (simp add: unat_of_nat)
  have l: "?l = of_nat ?k"
    using d(1) by (auto simp: word_less_nat_alt un min_def word_unat_eq_iff unat_of_nat unat_ucast_mod)
  have ul: "unat (of_nat ?k :: u16) = ?k" by (simp add: unat_of_nat)
  have uc: "ucast (of_nat ?k :: u16) = (of_nat ?k :: u32)" by (simp add: word_unat_eq_iff unat_of_nat)
  have ucn: "ucast (of_nat ?n :: u32) = (of_nat ?n :: u16)"
    using d(1) by (simp add: word_unat_eq_iff unat_of_nat unat_ucast_mod)
  note f = hid_packet_fields(1,2) [OF d(2), of 0 "word_bytes ?n @ take 57 data"]
    hid_packet_fields(3) [OF d(2) _ n, of 0 "take 57 data"]
  have "take ?k (drop 7 ?p) = drop 2 (take (?k + 2) (drop 5 ?p))" by (simp add: take_drop add.commute)
  moreover have "take (?k + 2) (drop 5 ?p) = word_bytes ?n @ take 57 data"
    using hid_packet_content [of "word_bytes ?n @ take 57 data" channel 0] by (simp add: min.commute)
  ultimately have c: "take ?k (drop 7 ?p) = take 57 data" by simp
  have r: "length (usb_ep_buffer u0) = 64" "length (G_io_apdu_buffer ?app) = 337" "hid_sequence_number u0 = 0"
    "apdu_media ?app = IO_APDU_MEDIA_NONE" using u by (simp_all add: hid_ready_def IO_APDU_BUFFER_SIZE_def)
  let ?u1 = "u0\<lparr>usb_ep_buffer := ?p, hid_total_length := of_nat ?n, hid_remaining_length := of_nat ?n,
    hid_current_buffer := Some 0, hid_channel := of_nat channel\<rparr>"
  let ?u2 = "?u1\<lparr>usb_app := ?app\<lparr>G_io_apdu_buffer := take 57 data @ drop ?k (G_io_apdu_buffer ?app)\<rparr>,
    hid_current_buffer := Some ?k, hid_remaining_length := of_nat ?n - of_nat ?k, hid_sequence_number := 1\<rparr>"
  have a: "append_chunk 7 (of_nat ?k) ?u1 = (Inr (), ?u2)"
    using append_chunk_run [of 7 "of_nat ?k" ?u1 0] lp r(2) d(1) r(3) by (simp add: ul c uc)
  have rc: "receive_chunk 64 (u0\<lparr>usb_ep_buffer := ?p\<rparr>) = (Inr False, ?u2)"
  proof -
    have big: "\<not> IO_APDU_BUFFER_SIZE < unat (of_nat ?n :: u32)" using d(1) by (simp add: un IO_APDU_BUFFER_SIZE_def)
    have a': "append_chunk 7 ?l ?u1 = (Inr (), ?u2)" unfolding l by (rule a)
    show ?thesis
      unfolding receive_chunk_def bind_c_def gets_c_def lift_c_def modify_c_def return_c_def Let_def
      using f big r(3) a' by simp
  qed
  have p2: "?p ! 2 = 0x05" by (rule hid_packet_tag)
  have rem: "hid_remaining_length ?u2 = of_nat (?n - ?k)" by (simp add: of_nat_diff)
  have urem: "unat (of_nat (?n - ?k) :: u32) = ?n - ?k" using d(1) by (simp only: unat_of_nat) simp
  have recv: "io_usb_hid_receive rng ?p 64 u0 = (if ?n \<le> 57
      then (Inr IO_USB_APDU_RECEIVED, ?u2\<lparr>hid_sequence_number := 0, hid_remaining_length := 0, hid_current_buffer := None\<rparr>)
      else (Inr IO_USB_APDU_MORE_DATA, ?u2))"
    unfolding io_usb_hid_receive_chunk [OF lp r(1) p2]
    using rc rem urem by (cases "?n \<le> 57") (auto simp: cm_defs io_usb_hid_init_def word_unat_eq_iff)
  have len: "(of_nat (length ?p) :: u16) = 64" unfolding lp by simp
  have app: "usb_receive (take 57 data) False ?app = ?app\<lparr>G_io_apdu_buffer := take 57 data @ drop ?k (G_io_apdu_buffer ?app)\<rparr>"
    using usb_receive_buffer [OF u, of "take 57 data" False] d(1) by (simp add: min.commute)
  show ?thesis
  proof (cases "?n \<le> 57")
    case True
    let ?u3 = "?u2\<lparr>hid_sequence_number := 0, hid_remaining_length := 0, hid_current_buffer := None\<rparr>"
    have "io_usb_hid_receive rng ?p 64 u0 = (Inr IO_USB_APDU_RECEIVED, ?u3)" using recv True by simp
    then have "USBD_HID_DataOut_impl rng ?p u0 = (Inr (), ?u3\<lparr>apdu_idle := False,
        usb_app := (usb_app ?u3)\<lparr>apdu_media := IO_APDU_MEDIA_USB_HID, apdu_length := of_nat ?n\<rparr>\<rparr>)"
      unfolding USBD_HID_DataOut_impl_def len using r(4) by (simp add: cm_defs ucn)
    moreover have "has_arrived u0 data (?u3\<lparr>apdu_idle := False,
        usb_app := (usb_app ?u3)\<lparr>apdu_media := IO_APDU_MEDIA_USB_HID, apdu_length := of_nat ?n\<rparr>\<rparr>)"
      using usb_receive_buffer [OF u d(1), of True] True by (simp add: has_arrived_def)
    ultimately show ?thesis using True by auto
  next
    case False
    then have "USBD_HID_DataOut_impl rng ?p u0 = (Inr (), ?u2)"
      unfolding USBD_HID_DataOut_impl_def len using r(4) recv by (simp add: cm_defs)
    moreover have "arriving u0 data 57 1 ?u2"
      using False lp app rem by (simp add: arriving_def)
    ultimately show ?thesis using False by auto
  qed
qed

lemma next_packet:
  assumes u: "hid_ready u0" "arriving u0 data k seq u" and d: "length data \<le> 337" "channel < 65536"
    and seq: "0 < seq" "seq < 65536"
  shows "\<exists>u'. USBD_HID_DataOut_impl rng (hid_packet channel seq (take 59 (drop k data))) u = (Inr (), u')
    \<and> (if length data \<le> k + 59 then has_arrived u0 data u' else arriving u0 data (k + 59) (Suc seq) u')"
proof -
  let ?n = "length data" and ?r = "length data - k" and ?c = "min 59 (length data - k)"
  let ?chunk = "take 59 (drop k data)" and ?buf = "G_io_apdu_buffer (usb_app u)"
  let ?p = "hid_packet channel seq ?chunk"
  note a = u(2) [unfolded arriving_def]
  have k: "k < ?n" using a by simp
  have lp: "length ?p = 64" by (rule length_hid_packet) simp
  have len: "(of_nat (length ?p) :: u16) = 64" unfolding lp by simp
  have ur: "unat (of_nat ?r :: u32) = ?r" using d(1) by (simp only: unat_of_nat) simp
  have uc: "unat (of_nat ?c :: u16) = ?c" by (simp only: unat_of_nat) simp
  have ucc: "ucast (of_nat ?c :: u16) = (of_nat ?c :: u32)" by (simp add: word_unat_eq_iff uc) (simp only: unat_of_nat, simp)
  have l: "(if (ucast (64 - (2 + 1 + 2) :: u16) :: u32) > of_nat ?r then ucast (of_nat ?r :: u32) else (64 - (2 + 1 + 2) :: u16))
      = of_nat ?c"
  proof -
    have v: "unat (of_nat ?r :: u16) = ?r" using d(1) by (simp only: unat_of_nat) simp
    have m: "?r mod 65536 = ?r" using d(1) by simp
    have r: "ucast (of_nat ?r :: u32) = (of_nat ?r :: u16)"
      by (simp only: word_unat_eq_iff unat_ucast_mod ur v) (simp add: m)
    show ?thesis unfolding r by (auto simp: word_less_nat_alt ur min_def simp del: of_nat_diff)
  qed
  have f: "U2BE ?p 3 = Inr (of_nat seq)" by (rule hid_packet_fields(2) [OF d(2) seq(2)])
  have s0: "of_nat seq \<noteq> (0 :: u32)" using seq by (simp add: word_unat_eq_iff unat_of_nat del: of_nat_eq_0_iff)
  have app: "usb_app u = (usb_app u0)\<lparr>G_io_apdu_buffer := take k data @ drop k (G_io_apdu_buffer (usb_app u0))\<rparr>"
    using usb_receive_buffer [OF u(1), of "take k data" False] a d(1) by simp
  have lb: "length (G_io_apdu_buffer (usb_app u0)) = 337" "length ?buf = 337" "apdu_media (usb_app u) = IO_APDU_MEDIA_NONE"
    using u(1) d(1) k by (simp_all add: app hid_ready_def IO_APDU_BUFFER_SIZE_def)
  have c: "take ?c (drop 5 ?p) = ?chunk"
    using hid_packet_content [of ?chunk channel seq] by (simp add: min.commute)
  let ?u1 = "u\<lparr>usb_ep_buffer := ?p\<rparr>"
  let ?app2 = "(usb_app u0)\<lparr>G_io_apdu_buffer := take (k + ?c) data @ drop (k + ?c) (G_io_apdu_buffer (usb_app u0))\<rparr>"
  let ?u2 = "?u1\<lparr>usb_app := ?app2, hid_current_buffer := Some (k + ?c), hid_remaining_length := of_nat (?r - ?c),
    hid_sequence_number := of_nat seq + 1\<rparr>"
  have kc: "k + ?c \<le> 337" using d(1) k by simp
  have join: "take k ?buf @ ?chunk @ drop (k + ?c) ?buf = take (k + ?c) data @ drop (k + ?c) (G_io_apdu_buffer (usb_app u0))"
  proof -
    have "take (k + ?c) data = take k data @ ?chunk" unfolding take_add by (simp add: min_def)
    then show ?thesis using k by (simp add: app add.commute)
  qed
  have ap: "append_chunk 5 (of_nat ?c) ?u1 = (Inr (), ?u2)"
  proof -
    have sq: "hid_current_buffer u = Some k" "hid_remaining_length u = of_nat ?r" "hid_sequence_number u = of_nat seq"
      using a by simp_all
    have diff: "of_nat ?r - of_nat ?c = (of_nat (?r - ?c) :: u32)" by (simp only: of_nat_diff min.cobounded2)
    show ?thesis
      using append_chunk_run [of 5 "of_nat ?c" ?u1 k] lp lb(2) kc
      by (simp add: uc c ucc join sq diff del: of_nat_diff) (simp add: app)
  qed
  have rc: "receive_chunk 64 ?u1 = (Inr False, ?u2)"
  proof -
    have ap': "append_chunk 5 (if (ucast (64 - (2 + 1 + 2) :: u16) :: u32) > of_nat ?r then ucast (of_nat ?r :: u32)
        else (64 - (2 + 1 + 2) :: u16)) ?u1 = (Inr (), ?u2)" unfolding l by (rule ap)
    have sq: "hid_sequence_number u = of_nat seq" "hid_remaining_length u = of_nat ?r" using a by simp_all
    show ?thesis
      unfolding receive_chunk_def bind_c_def gets_c_def lift_c_def modify_c_def return_c_def Let_def
      using f s0 sq ap' by (simp split del: if_split cong: if_cong del: of_nat_diff)
  qed
  have p2: "?p ! 2 = 0x05" by (rule hid_packet_tag)
  have urem: "unat (of_nat (?r - ?c) :: u32) = ?r - ?c" using d(1) by (simp only: unat_of_nat) simp
  have zero: "of_nat (?r - ?c) = (0 :: u32) \<longleftrightarrow> ?n \<le> k + 59"
    by (simp only: word_unat_eq_iff urem) auto
  have recv: "io_usb_hid_receive rng ?p 64 u = (if ?n \<le> k + 59
      then (Inr IO_USB_APDU_RECEIVED, ?u2\<lparr>hid_sequence_number := 0, hid_remaining_length := 0, hid_current_buffer := None\<rparr>)
      else (Inr IO_USB_APDU_MORE_DATA, ?u2))"
    using rc a zero by (simp add: io_usb_hid_receive_chunk [OF lp _ p2] cm_defs io_usb_hid_init_def del: of_nat_diff)
  show ?thesis
  proof (cases "?n \<le> k + 59")
    case True
    let ?u3 = "?u2\<lparr>hid_sequence_number := 0, hid_remaining_length := 0, hid_current_buffer := None\<rparr>"
    have ucn: "ucast (of_nat ?n :: u32) = (of_nat ?n :: u16)"
      using d(1) by (simp add: word_unat_eq_iff unat_of_nat unat_ucast_mod)
    have all: "take (k + ?c) data = data" "k + ?c = ?n" using True k by simp_all
    let ?u4 = "?u3\<lparr>apdu_idle := False,
        usb_app := (usb_app ?u3)\<lparr>apdu_media := IO_APDU_MEDIA_USB_HID, apdu_length := of_nat ?n\<rparr>\<rparr>"
    have "io_usb_hid_receive rng ?p 64 u = (Inr IO_USB_APDU_RECEIVED, ?u3)" using recv True by simp
    then have "USBD_HID_DataOut_impl rng ?p u = (Inr (), ?u4)"
      unfolding USBD_HID_DataOut_impl_def len using lb(3) a by (simp add: cm_defs ucn)
    moreover have "has_arrived u0 data ?u4"
      using usb_receive_buffer [OF u(1) d(1), of True] a all by (simp add: has_arrived_def)
    ultimately show ?thesis using True by auto
  next
    case False
    then have "USBD_HID_DataOut_impl rng ?p u = (Inr (), ?u2)"
      unfolding USBD_HID_DataOut_impl_def len using lb(3) recv by (simp add: cm_defs)
    moreover have "?app2 = usb_receive (take (k + 59) data) False (usb_app u0)"
      using usb_receive_buffer [OF u(1), of "take (k + 59) data" False] False d(1) by (simp add: min_def)
    then have "arriving u0 data (k + 59) (Suc seq) ?u2"
      using False lp a by (simp add: arriving_def del: of_nat_diff)
    ultimately show ?thesis using False by auto
  qed
qed

lemma feed_next:
  assumes u: "hid_ready u0" "arriving u0 data k seq u" and d: "length data \<le> 337" "channel < 65536"
    and seq: "0 < seq" "seq + length data - k < 65536"
  shows "\<exists>u'. feed rng (next_packets channel seq (drop k data)) u = (Inr (), u') \<and> has_arrived u0 data u'"
  using u(2) seq
proof (induction "length data - k" arbitrary: k seq u rule: less_induct)
  case less
  have k: "k < length data" using less.prems(1) by (simp add: arriving_def)
  then have "seq < 65536" using less.prems(3) by simp
  from next_packet [OF u(1) less.prems(1) d less.prems(2) this, of rng] obtain u' where
    u': "USBD_HID_DataOut_impl rng (hid_packet channel seq (take 59 (drop k data))) u = (Inr (), u')"
      "if length data \<le> k + 59 then has_arrived u0 data u' else arriving u0 data (k + 59) (Suc seq) u'" by blast
  have s: "next_packets channel seq (drop k data) = hid_packet channel seq (take 59 (drop k data))
      # next_packets channel (Suc seq) (drop (k + 59) data)"
    using k by (subst next_packets.simps) (simp add: add.commute)
  show ?case
  proof (cases "length data \<le> k + 59")
    case True
    then have "next_packets channel (Suc seq) (drop (k + 59) data) = []" by (simp add: next_packets.simps)
    with u' True show ?thesis by (simp add: s cm_defs)
  next
    case False
    have "length data - (k + 59) < length data - k" using k by linarith
    moreover have "arriving u0 data (k + 59) (Suc seq) u'" using u'(2) False by simp
    moreover have "Suc seq + length data - (k + 59) < 65536" using less.prems(3) False by linarith
    ultimately obtain u'' where "feed rng (next_packets channel (Suc seq) (drop (k + 59) data)) u' = (Inr (), u'')"
      "has_arrived u0 data u''" using less.hyps [of "k + 59" "Suc seq" u'] by auto
    with u'(1) show ?thesis by (simp add: s bind_c_def)
  qed
qed

lemma feed_packets:
  assumes "hid_ready u" "length data \<le> 337" "channel < 65536"
  shows "\<exists>u'. feed rng (hid_packets channel data) u = (Inr (), u') \<and> has_arrived u data u'"
proof -
  obtain u1 where u1: "USBD_HID_DataOut_impl rng (hid_packet channel 0 (word_bytes (length data) @ take 57 data)) u = (Inr (), u1)"
    "if length data \<le> 57 then has_arrived u data u1 else arriving u data 57 1 u1"
    using first_packet [OF assms] by blast
  show ?thesis
  proof (cases "length data \<le> 57")
    case True
    then have "next_packets channel 1 (drop 57 data) = []" by (simp add: next_packets.simps)
    with u1 True show ?thesis by (simp add: hid_packets_def cm_defs)
  next
    case False
    with u1 have "arriving u data 57 1 u1" by simp
    from feed_next [OF assms(1) this assms(2,3), of rng] u1(1) assms(2) show ?thesis
      by (auto simp: hid_packets_def bind_c_def)
  qed
qed

section \<open>Sending a reply\<close>

lemma and_0xFF: "x AND 0xFF = take_bit 8 x" for x :: u32
proof -
  have e: "(0xFF :: u32) = mask 8" by (simp add: mask_eq_exp_minus_1)
  show ?thesis unfolding e by (rule take_bit_eq_mask [symmetric])
qed

lemma word_bytes_word:
  assumes "n < 65536"
  shows "[ucast (drop_bit 8 (of_nat n :: u32)), ucast (of_nat n :: u32)] = word_bytes n"
    and "[ucast (drop_bit 8 (of_nat n :: u32) AND 0xFF), ucast ((of_nat n :: u32) AND 0xFF)] = word_bytes n"
proof -
  have u: "unat (of_nat n :: u32) = n" using assms by (simp add: unat_of_nat)
  have v: "unat (of_nat (n div 256) :: u8) = n div 256" using assms by (simp add: unat_of_nat)
  show "[ucast (drop_bit 8 (of_nat n :: u32)), ucast (of_nat n :: u32)] = word_bytes n"
    using assms by (simp add: word_bytes_def word_unat_eq_iff unat_ucast_mod unat_drop_bit u v unat_of_nat)
  show "[ucast (drop_bit 8 (of_nat n :: u32) AND 0xFF), ucast ((of_nat n :: u32) AND 0xFF)] = word_bytes n"
    unfolding and_0xFF
    using assms by (simp add: word_bytes_def word_unat_eq_iff unat_ucast_mod unsigned_take_bit_eq take_bit_eq_mod
        unat_drop_bit unat_mod u v unat_of_nat)
qed

lemma set_ep_append:
  assumes "usb_ep_buffer u = xs @ replicate m 0" "length xs = i" "length ys \<le> m"
  shows "set_ep i ys u = (Inr (), u\<lparr>usb_ep_buffer := (xs @ ys) @ replicate (m - length ys) 0\<rparr>)"
  using assms by (simp add: set_ep_def try_modify_c_def buf_write_def)

text \<open>The reply \<open>data\<close> is being sent: \<open>k\<close> bytes are on their way, the packet \<open>seq\<close> is next.\<close>

definition sending :: "nat \<Rightarrow> u8 list \<Rightarrow> nat \<Rightarrow> nat \<Rightarrow> usb \<Rightarrow> bool" where
  "sending channel data k seq u \<longleftrightarrow> hid_channel u = of_nat channel \<and> hid_sequence_number u = of_nat seq
     \<and> hid_remaining_length u = of_nat (length data - k) \<and> hid_current_buffer u = Some k
     \<and> length (usb_ep_buffer u) = 64 \<and> k \<le> length data
     \<and> length data \<le> length (G_io_apdu_buffer (usb_app u)) \<and> take (length data) (G_io_apdu_buffer (usb_app u)) = data"

definition packet_content :: "u8 list \<Rightarrow> nat \<Rightarrow> nat \<Rightarrow> u8 list" where
  "packet_content data k seq =
     (if seq = 0 then word_bytes (length data - k) @ take 57 (drop k data) else take 59 (drop k data))"

lemma sent_packet:
  assumes s: "sending channel data k seq u" "k < length data" and d: "length data < 65536" "channel < 65536" "seq < 65536"
  shows "\<exists>u'. io_usb_hid_sent u = (Inr (), u')
    \<and> sending channel data (min (length data) (k + (if seq = 0 then 57 else 59))) (Suc seq) u'
    \<and> ep_sent u' = ep_sent u @ [hid_packet channel seq (packet_content data k seq)]
    \<and> usb_app u' = usb_app u \<and> apdu_idle u' = apdu_idle u"
proof -
  note a = s(1) [unfolded sending_def]
  let ?r = "length data - k" and ?room = "if seq = 0 then 57 else 59 :: nat"
  let ?l = "min ?room ?r"
  let ?bytes = "take ?room (drop k data)"
  have ur: "unat (of_nat ?r :: u32) = ?r" using d(1) by (simp only: unat_of_nat) simp
  have nz: "of_nat ?r \<noteq> (0 :: u32)" using s(2) ur by (metis diff_is_0_eq' not_le unat_0 diff_is_0_eq)
  have sz: "of_nat seq = (0 :: u32) \<longleftrightarrow> seq = 0" using d(3) by (simp add: word_unat_eq_iff unat_of_nat del: of_nat_eq_0_iff)
  let ?h = "word_bytes channel @ [0x05] @ word_bytes seq"
  let ?x = "if seq = 0 then word_bytes ?r else []"
  have h: "[ucast (drop_bit 8 (of_nat channel :: u32) AND 0xFF), ucast ((of_nat channel :: u32) AND 0xFF), 0x05,
      ucast (drop_bit 8 (of_nat seq :: u32)), ucast (of_nat seq :: u32)] = ?h"
    using word_bytes_word(2) [OF d(2)] word_bytes_word(1) [OF d(3)] by (simp add: word_bytes_def)
  have x: "[ucast (drop_bit 8 (of_nat ?r :: u32)), ucast (of_nat ?r :: u32)] = word_bytes ?r"
    using word_bytes_word(1) [of ?r] d(1) by simp
  have l: "(if unat (of_nat ?r :: u32) > ?room then ?room else unat (of_nat ?r :: u32)) = ?l"
    by (simp only: ur) (simp add: min_def)
  have rd: "buf_read (G_io_apdu_buffer (usb_app u)) k ?l = Inr ?bytes"
  proof -
    have "take ?l (drop k (G_io_apdu_buffer (usb_app u))) = take ?l (drop k (take (length data) (G_io_apdu_buffer (usb_app u))))"
      using s(2) by (simp add: drop_take)
    also have "\<dots> = ?bytes" using a by (simp add: min_def)
    finally have t: "take ?l (drop k (G_io_apdu_buffer (usb_app u))) = ?bytes" .
    have "?l \<le> ?r" by (rule min.cobounded2)
    then have "k + ?l \<le> length (G_io_apdu_buffer (usb_app u))" using a s(2) by linarith
    then show ?thesis unfolding buf_read_def t by simp
  qed
  have lb: "length ?bytes = ?l" by simp
  let ?u1 = "u\<lparr>usb_ep_buffer := replicate 64 0\<rparr>"
  let ?u2 = "u\<lparr>usb_ep_buffer := ?h @ replicate 59 0\<rparr>"
  let ?u3 = "u\<lparr>usb_ep_buffer := (?h @ ?x) @ replicate (59 - length ?x) 0\<rparr>"
  let ?ep = "(?h @ ?x @ ?bytes) @ replicate (59 - length ?x - length ?bytes) 0"
  let ?u4 = "u\<lparr>usb_ep_buffer := ?ep\<rparr>"
  have e2: "set_ep 0 ?h ?u1 = (Inr (), ?u2)"
    using set_ep_append [of ?u1 "[]" 64 0 ?h] by simp
  have e3: "(if seq = 0 then set_ep 5 (word_bytes ?r) else return_c ()) ?u2 = (Inr (), ?u3)"
    using set_ep_append [of ?u2 ?h 59 5 "word_bytes ?r"] by (cases "seq = 0") (simp_all add: return_c_def)
  have e4: "set_ep (if seq = 0 then 7 else 5) ?bytes ?u3 = (Inr (), ?u4)"
    using set_ep_append [of ?u3 "?h @ ?x" "59 - length ?x" "if seq = 0 then 7 else 5" ?bytes] lb by (simp split: if_split_asm)
  have packet: "?ep = hid_packet channel seq (packet_content data k seq)"
    by (simp add: hid_packet_def packet_content_def Let_def)
  have f: "hid_channel u = of_nat channel" "hid_sequence_number u = of_nat seq" "hid_remaining_length u = of_nat ?r"
    "hid_current_buffer u = Some k" "length (usb_ep_buffer u) = 64" using a by simp_all
  let ?u5 = "?u4\<lparr>hid_current_buffer := Some (k + ?l), hid_remaining_length := of_nat ?r - of_nat ?l,
    hid_sequence_number := of_nat seq + 1\<rparr>"
  have room: "(if seq = 0 then IO_HID_EP_LENGTH - 7 else IO_HID_EP_LENGTH - 5) = ?room"
    by (simp add: IO_HID_EP_LENGTH_def)
  have run: "io_usb_hid_sent u = (Inr (), ?u5\<lparr>ep_sent := ep_sent u @ [?ep]\<rparr>)"
  proof -
    have se: "send_ep IO_HID_EP_LENGTH ?u5 = (Inr (), ?u5\<lparr>ep_sent := ep_sent u @ [?ep]\<rparr>)"
      using length_hid_packet [of "packet_content data k seq" channel seq] packet
      by (simp add: send_ep_def cm_defs buf_read_def IO_HID_EP_LENGTH_def packet_content_def)
    have sel: "hid_remaining_length ?u4 = of_nat ?r" "hid_sequence_number ?u4 = of_nat seq" using f by simp_all
    show ?thesis
      unfolding io_usb_hid_sent_def bind_c_def gets_c_def modify_c_def lift_c_def id_apply prod.case sum.case f option.case
        Let_def h if_P [OF nz] x sz room l
      by (simp only: e2 e3 e4 rd sel se prod.case sum.case)
  qed
  have k': "min (length data) (k + ?room) = k + ?l"
  proof -
    have "k \<le> length data" using a by blast
    then show ?thesis by (cases "seq = 0"; cases "?room \<le> ?r") (simp_all add: min_def, linarith+)
  qed
  have rem: "of_nat ?r - of_nat ?l = (of_nat (length data - (k + ?l)) :: u32)"
  proof -
    have "of_nat ?r - of_nat ?l = (of_nat (?r - ?l) :: u32)" by (simp only: of_nat_diff min.cobounded2)
    then show ?thesis by (simp only: diff_diff_left)
  qed
  have kl: "k + ?l \<le> length data" unfolding k' [symmetric] by (rule min.cobounded1)
  have le: "length ?ep = 64"
    unfolding packet by (rule length_hid_packet) (simp add: packet_content_def)
  have "sending channel data (k + ?l) (Suc seq) (?u5\<lparr>ep_sent := ep_sent u @ [?ep]\<rparr>)"
    using a le rem kl by (simp add: sending_def split del: if_split del: of_nat_diff)
  with run packet show ?thesis unfolding k' by auto
qed

text \<open>All packets, each after the acknowledgement of the one before; at the last
  acknowledgement the transport is idle again.\<close>

lemma acknowledge_rest:
  assumes "sending channel data k seq u" "0 < seq" and d: "length data < 65536" "channel < 65536"
    and "seq + length data - k < 65536"
  shows "\<exists>u'. acknowledge (Suc (length (next_packets channel seq (drop k data)))) u = (Inr (), u')
    \<and> ep_sent u' = ep_sent u @ next_packets channel seq (drop k data) \<and> usb_app u' = usb_app u
    \<and> apdu_idle u' \<and> hid_sequence_number u' = 0"
  using assms(1,2,5)
proof (induction "length data - k" arbitrary: k seq u rule: less_induct)
  case less
  note a = less.prems(1) [unfolded sending_def]
  show ?case
  proof (cases "k < length data")
    case False
    then have "next_packets channel seq (drop k data) = []" "hid_remaining_length u = 0"
      using a by (simp_all add: next_packets.simps)
    with a show ?thesis
      by (simp add: io_usb_hid_sent_def io_usb_hid_init_def cm_defs)
  next
    case True
    then have "seq < 65536" using less.prems(3) by simp
    from sent_packet [OF less.prems(1) True d this] less.prems(2) obtain u1 where
      u1: "io_usb_hid_sent u = (Inr (), u1)" "sending channel data (min (length data) (k + 59)) (Suc seq) u1"
        "ep_sent u1 = ep_sent u @ [hid_packet channel seq (take 59 (drop k data))]" "usb_app u1 = usb_app u"
      by (auto simp: packet_content_def)
    let ?k = "min (length data) (k + 59)"
    have m: "length data - ?k < length data - k" "Suc seq + length data - ?k < 65536"
      using True less.prems(3) by (auto simp: min_def)
    have dr: "drop ?k data = drop (k + 59) data" by (simp add: min_def)
    have s: "next_packets channel seq (drop k data) = hid_packet channel seq (take 59 (drop k data))
        # next_packets channel (Suc seq) (drop ?k data)"
      unfolding dr using True by (subst next_packets.simps) (simp add: add.commute)
    from less.hyps [OF m(1) u1(2) _ m(2)] obtain u2 where
      "acknowledge (Suc (length (next_packets channel (Suc seq) (drop ?k data)))) u1 = (Inr (), u2)"
      "ep_sent u2 = ep_sent u1 @ next_packets channel (Suc seq) (drop ?k data)" "usb_app u2 = usb_app u1"
      "apdu_idle u2" "hid_sequence_number u2 = 0" by auto
    with u1 show ?thesis unfolding s by (simp add: bind_c_def)
  qed
qed

lemma send_packets:
  assumes "length (usb_ep_buffer u) = 64" "hid_channel u = of_nat channel" "channel < 65536"
    and "0 < n" "n < 65536" "n \<le> length (G_io_apdu_buffer (usb_app u))"
  defines "data \<equiv> take n (G_io_apdu_buffer (usb_app u))"
  shows "\<exists>u'. bind_c (io_usb_hid_send (of_nat n)) (\<lambda>_. acknowledge (length (hid_packets channel data))) u = (Inr (), u')
    \<and> ep_sent u' = ep_sent u @ hid_packets channel data \<and> usb_app u' = usb_app u \<and> apdu_idle u'"
proof -
  have l: "length data = n" using assms(6) by (simp add: data_def)
  have un: "unat (of_nat n :: u16) = n" using assms(5) by (simp add: unat_of_nat)
  have nz: "of_nat n \<noteq> (0 :: u16)" using un assms(4) by (metis less_irrefl unat_0)
  have uc: "ucast (of_nat n :: u16) = (of_nat n :: u32)" using assms(5) by (simp add: word_unat_eq_iff un unat_of_nat)
  let ?u = "u\<lparr>hid_sequence_number := 0, hid_current_buffer := Some 0, hid_remaining_length := of_nat n, hid_total_length := of_nat n\<rparr>"
  have s: "sending channel data 0 0 ?u" using assms l by (simp add: sending_def)
  from sent_packet [OF s] l assms(3-5) obtain u1 where
    u1: "io_usb_hid_sent ?u = (Inr (), u1)" "sending channel data (min (length data) 57) 1 u1"
      "ep_sent u1 = ep_sent u @ [hid_packet channel 0 (word_bytes n @ take 57 data)]" "usb_app u1 = usb_app u"
    by (auto simp: packet_content_def)
  have dr: "drop (min (length data) 57) data = drop 57 data" by (simp add: min_def)
  have "1 + length data - min (length data) 57 < 65536" "length data < 65536" using l assms(5) by (auto simp: min_def)
  from acknowledge_rest [OF u1(2) _ this(2) assms(3) this(1)] obtain u2 where
    "acknowledge (Suc (length (next_packets channel 1 (drop 57 data)))) u1 = (Inr (), u2)"
    "ep_sent u2 = ep_sent u1 @ next_packets channel 1 (drop 57 data)" "usb_app u2 = usb_app u1" "apdu_idle u2"
    unfolding dr by auto
  with u1 nz l show ?thesis
    by (simp add: io_usb_hid_send_def hid_packets_def bind_c_def modify_c_def uc)
qed

section \<open>Packets that are refused\<close>

text \<open>The first packet announces more than the buffer holds, or a packet comes out of
  sequence: the reception starts again and the application does not change.\<close>

definition no_reception :: "usb \<Rightarrow> usb \<Rightarrow> bool" where
  "no_reception u0 u \<longleftrightarrow> usb_app u = usb_app u0 \<and> ep_sent u = ep_sent u0 \<and> hid_sequence_number u = 0
     \<and> length (usb_ep_buffer u) = 64"

lemma refused_packet:
  assumes u: "length (usb_ep_buffer u) = 64" "apdu_media (usb_app u) = IO_APDU_MEDIA_NONE"
    and p: "length p = 64" "p ! 2 = 0x05"
    and r: "\<exists>v. receive_chunk 64 (u\<lparr>usb_ep_buffer := p\<rparr>) = (Inr True, v) \<and> usb_app v = usb_app u
      \<and> ep_sent v = ep_sent u \<and> length (usb_ep_buffer v) = 64"
  shows "\<exists>u'. USBD_HID_DataOut_impl rng p u = (Inr (), u') \<and> no_reception u u'"
proof -
  obtain v where v: "receive_chunk 64 (u\<lparr>usb_ep_buffer := p\<rparr>) = (Inr True, v)" "usb_app v = usb_app u"
    "ep_sent v = ep_sent u" "length (usb_ep_buffer v) = 64" using r by blast
  then show ?thesis
    using u p by (simp add: USBD_HID_DataOut_impl_def io_usb_hid_receive_chunk cm_defs io_usb_hid_init_def no_reception_def)
qed

lemma out_of_sequence:
  assumes u: "length (usb_ep_buffer u) = 64" "apdu_media (usb_app u) = IO_APDU_MEDIA_NONE" "hid_sequence_number u = 0"
    and d: "channel < 65536" "0 < seq" "seq < 65536" "length content \<le> 59"
  shows "\<exists>u'. USBD_HID_DataOut_impl rng (hid_packet channel seq content) u = (Inr (), u') \<and> no_reception u u'"
proof (rule refused_packet [OF u(1,2) length_hid_packet [OF d(4)] hid_packet_tag])
  have "of_nat seq \<noteq> (0 :: u32)" using d by (simp add: word_unat_eq_iff unat_of_nat del: of_nat_eq_0_iff)
  then show "\<exists>v. receive_chunk 64 (u\<lparr>usb_ep_buffer := hid_packet channel seq content\<rparr>) = (Inr True, v)
      \<and> usb_app v = usb_app u \<and> ep_sent v = ep_sent u \<and> length (usb_ep_buffer v) = 64"
    using u length_hid_packet [OF d(4), of channel seq]
    by (simp add: receive_chunk_def cm_defs hid_packet_fields(2) [OF d(1,3)])
qed

lemma too_long_announced:
  assumes u: "length (usb_ep_buffer u) = 64" "apdu_media (usb_app u) = IO_APDU_MEDIA_NONE" "hid_sequence_number u = 0"
    and d: "channel < 65536" "337 < n" "n < 65536" "length xs \<le> 57"
  shows "\<exists>u'. USBD_HID_DataOut_impl rng (hid_packet channel 0 (word_bytes n @ xs)) u = (Inr (), u') \<and> no_reception u u'"
proof -
  have l: "length (word_bytes n @ xs) \<le> 59" using d(4) by simp
  show ?thesis
  proof (rule refused_packet [OF u(1,2) length_hid_packet [OF l] hid_packet_tag])
    have n: "unat (of_nat n :: u32) = n" using d(3) by (simp add: unat_of_nat)
    have z: "(0 :: nat) < 65536" by simp
    show "\<exists>v. receive_chunk 64 (u\<lparr>usb_ep_buffer := hid_packet channel 0 (word_bytes n @ xs)\<rparr>) = (Inr True, v)
        \<and> usb_app v = usb_app u \<and> ep_sent v = ep_sent u \<and> length (usb_ep_buffer v) = 64"
      using u n d(2) length_hid_packet [OF l, of channel 0]
      by (simp add: receive_chunk_def cm_defs Let_def hid_packet_fields(2) [OF d(1) z] hid_packet_fields(3) [OF d(1) z d(3)]
          IO_APDU_BUFFER_SIZE_def)
  qed
qed

lemma feed_out_of_sequence:
  assumes u: "length (usb_ep_buffer u) = 64" "apdu_media (usb_app u) = IO_APDU_MEDIA_NONE" "hid_sequence_number u = 0"
    and d: "channel < 65536" "0 < seq" "seq + length data < 65536"
  shows "\<exists>u'. feed rng (next_packets channel seq data) u = (Inr (), u') \<and> no_reception u u'"
  using u d
proof (induction channel seq data arbitrary: u rule: next_packets.induct)
  case (1 channel seq data)
  show ?case
  proof (cases "data = []")
    case True
    then show ?thesis using "1.prems" by (simp add: next_packets.simps cm_defs no_reception_def)
  next
    case False
    have "seq < 65536" "length (take 59 data) \<le> 59" using "1.prems"(6) by simp_all
    from out_of_sequence [OF "1.prems"(1-5) this, of rng] obtain u1 where
      u1: "USBD_HID_DataOut_impl rng (hid_packet channel seq (take 59 data)) u = (Inr (), u1)" "no_reception u u1" by blast
    have "Suc seq + length (drop 59 data) < 65536"
      using "1.prems"(6) False by (cases data) simp_all
    then obtain u2 where "feed rng (next_packets channel (Suc seq) (drop 59 data)) u1 = (Inr (), u2)" "no_reception u1 u2"
      using "1.IH" [OF False, of u1] u1(2) "1.prems" by (auto simp: no_reception_def)
    with u1 False show ?thesis
      by (subst next_packets.simps) (simp add: bind_c_def no_reception_def)
  qed
qed

text \<open>While the application works on a command nothing is received.\<close>

lemma feed_busy: "apdu_media (usb_app u) \<noteq> IO_APDU_MEDIA_NONE \<Longrightarrow> feed rng ps u = (Inr (), u)"
  by (induction ps) (simp_all add: cm_defs USBD_HID_DataOut_impl_def)

section \<open>Properties\<close>

text \<open>
Property C21: the reception of packets refines the event of the application, over a transport
that is receiving nothing (its sequence number is zero).  Whatever command of fewer than 65536
bytes the host splits into packets, after the packets the application is in the state in which \<open>usb_receive\<close> takes the whole command: it has arrived if
no other command is being worked on and it fits into the buffer, and otherwise nothing has
changed.  The transport is ready for the next command, and nothing has been sent.
\<close>

theorem hid_reception_refines:
  assumes "length (usb_ep_buffer u) = 64" "length (G_io_apdu_buffer (usb_app u)) = IO_APDU_BUFFER_SIZE"
    and "hid_sequence_number u = 0" and "length data < 65536" "channel < 65536"
  shows "\<exists>u'. feed rng (hid_packets channel data) u = (Inr (), u') \<and> usb_app u' = usb_receive data True (usb_app u)
    \<and> ep_sent u' = ep_sent u \<and> hid_sequence_number u' = 0"
proof (cases "apdu_media (usb_app u) = IO_APDU_MEDIA_NONE")
  case False
  then show ?thesis using feed_busy assms(3) by (auto simp: usb_receive_def)
next
  case media: True
  show ?thesis
  proof (cases "length data \<le> 337")
    case True
    have "hid_ready u" using assms media by (simp add: hid_ready_def)
    from feed_packets [OF this True assms(5), of rng] show ?thesis by (auto simp: has_arrived_def)
  next
    case False
    then have "337 < length data" "length (take 57 data) \<le> 57" by simp_all
    from too_long_announced [OF assms(1) media assms(3) assms(5) this(1) assms(4) this(2), of rng] obtain u1 where
      u1: "USBD_HID_DataOut_impl rng (hid_packet channel 0 (word_bytes (length data) @ take 57 data)) u = (Inr (), u1)"
        "no_reception u u1" by blast
    have "1 + length (drop 57 data) < 65536" using assms(4) False by simp
    from feed_out_of_sequence [OF _ _ _ assms(5) zero_less_one this, of u1 rng] u1(2) media obtain u2 where
      "feed rng (next_packets channel 1 (drop 57 data)) u1 = (Inr (), u2)" "no_reception u1 u2"
      by (auto simp: no_reception_def)
    with u1 False assms(2) show ?thesis
      by (simp add: hid_packets_def bind_c_def no_reception_def usb_receive_def IO_APDU_BUFFER_SIZE_def)
  qed
qed

text \<open>A device at rest, for the examples.\<close>

definition sample_usb :: usb where
  "sample_usb = \<lparr>hid_total_length = 0, hid_channel = 0x0101, hid_remaining_length = 0, hid_sequence_number = 0,
     hid_current_buffer = None, usb_ep_buffer = replicate 64 0, ep_sent = [], apdu_idle = True, usb_app = sample_app\<rparr>"

lemma sample_usb_fields:
  "length (usb_ep_buffer sample_usb) = 64" "length (G_io_apdu_buffer (usb_app sample_usb)) = IO_APDU_BUFFER_SIZE"
  "hid_sequence_number sample_usb = 0" "hid_channel sample_usb = of_nat 0x0101" "hid_remaining_length sample_usb = 0"
  "ep_sent sample_usb = []" "apdu_media (usb_app sample_usb) = IO_APDU_MEDIA_NONE"
  by (simp_all add: sample_usb_def sample_app_def)

theorem hid_reception_refines_witness:
  "\<exists>u'. feed [] (hid_packets 0x0101 (replicate 60 0xE0)) sample_usb = (Inr (), u')
     \<and> apdu_length (usb_app u') = 60 \<and> take 60 (G_io_apdu_buffer (usb_app u')) = replicate 60 0xE0"
proof -
  from hid_reception_refines [OF sample_usb_fields(1-3), of "replicate 60 0xE0" "0x0101" "[]"]
  obtain u' where "feed [] (hid_packets 0x0101 (replicate 60 0xE0)) sample_usb = (Inr (), u')"
    "usb_app u' = usb_receive (replicate 60 0xE0) True (usb_app sample_usb)" by auto
  then show ?thesis using sample_usb_fields(2,7) by (simp add: usb_receive_def IO_APDU_BUFFER_SIZE_def)
qed

text \<open>
Property C22: the transmission of a reply.  \<open>io_usb_hid_send\<close> for the first \<open>n\<close> bytes of the
buffer and the acknowledgements of the packets it makes send exactly the packets that
\<open>hid_packets\<close> makes of these bytes, on the channel of the command; after the last
acknowledgement the transport is idle, and a receiver that is fed with these packets holds
the reply.
\<close>

theorem hid_reply_packets:
  assumes "length (usb_ep_buffer u) = 64" "hid_channel u = of_nat channel" "channel < 65536"
    and "0 < n" "n \<le> length (G_io_apdu_buffer (usb_app u))" "length (G_io_apdu_buffer (usb_app u)) = IO_APDU_BUFFER_SIZE"
    and "hid_ready host"
  shows "\<exists>u' packets host'.
    bind_c (io_usb_hid_send (of_nat n)) (\<lambda>_. acknowledge (length packets)) u = (Inr (), u')
    \<and> ep_sent u' = ep_sent u @ packets \<and> packets = hid_packets channel (take n (G_io_apdu_buffer (usb_app u)))
    \<and> usb_app u' = usb_app u \<and> apdu_idle u'
    \<and> feed rng packets host = (Inr (), host')
    \<and> take n (G_io_apdu_buffer (usb_app host')) = take n (G_io_apdu_buffer (usb_app u))
    \<and> apdu_length (usb_app host') = of_nat n"
proof -
  have n: "n < 65536" "n \<le> 337" using assms(5,6) by (simp_all add: IO_APDU_BUFFER_SIZE_def)
  let ?data = "take n (G_io_apdu_buffer (usb_app u))"
  have l: "length ?data = n" using assms(5) by simp
  have "length ?data \<le> 337" unfolding l by (rule n(2))
  from feed_packets [OF assms(7) this assms(3), of rng] obtain host' where
    h: "feed rng (hid_packets channel ?data) host = (Inr (), host')" "has_arrived host ?data host'" by blast
  have "usb_app host' = usb_receive ?data True (usb_app host)" using h(2) by (simp add: has_arrived_def)
  then have "take n (G_io_apdu_buffer (usb_app host')) = ?data" "apdu_length (usb_app host') = of_nat n"
    using usb_receive_buffer [OF assms(7), of ?data True] l n(2) by simp_all
  with h(1) send_packets [OF assms(1-4) n(1) assms(5)] show ?thesis by blast
qed

theorem hid_reply_packets_witness:
  "\<exists>u' packets. bind_c (io_usb_hid_send 2) (\<lambda>_. acknowledge (length packets)) sample_usb = (Inr (), u')
     \<and> ep_sent u' = packets \<and> apdu_idle u'"
proof -
  have "hid_ready sample_usb" using sample_usb_fields by (simp add: hid_ready_def)
  from hid_reply_packets [OF sample_usb_fields(1,4) _ _ _ sample_usb_fields(2) this, of 2 "[]"]
  show ?thesis using sample_usb_fields(2,6) by (auto simp: IO_APDU_BUFFER_SIZE_def)
qed

text \<open>
Property C23: malformed packets.  A report of six bytes with the tag of a command and the
announced length 256 makes the remaining length of the report wrap around to 65535: the
copy runs past the endpoint buffer.  A packet with an unknown tag that arrives between two
commands is taken for a complete command of the length left from the last transfer: the
application works on whatever bytes its buffer holds.
\<close>

theorem hid_malformed_packets:
  assumes "hid_ready u" "hid_remaining_length u = 0" "length p = 64" "p ! 2 \<notin> {0x00, 0x01, 0x02, 0x05}"
  shows "fst (USBD_HID_DataOut_impl rng [c1, c2, 0x05, 0, 0, 1] u) = Inl Fault
    \<and> (\<exists>u'. USBD_HID_DataOut_impl rng p u = (Inr (), u')
        \<and> usb_app u' = (usb_app u)\<lparr>apdu_media := IO_APDU_MEDIA_USB_HID, apdu_length := ucast (hid_total_length u)\<rparr>)"
proof
  have m: "(ucast (- 1 :: u16) :: u32) = 65535" by code_simp
  show "fst (USBD_HID_DataOut_impl rng [c1, c2, 0x05, 0, 0, 1] u) = Inl Fault"
    using assms(1)
    by (simp add: hid_ready_def USBD_HID_DataOut_impl_def io_usb_hid_receive_def receive_chunk_def append_chunk_def
        cm_defs set_ep_def buf_read_def buf_write_def U2BE_def IO_APDU_BUFFER_SIZE_def Let_def m)
next
  have "take (Suc 0) (drop 2 p) = [p ! 2]" using assms(3) by (simp add: take_Suc_conv_app_nth)
  then show "\<exists>u'. USBD_HID_DataOut_impl rng p u = (Inr (), u')
        \<and> usb_app u' = (usb_app u)\<lparr>apdu_media := IO_APDU_MEDIA_USB_HID, apdu_length := ucast (hid_total_length u)\<rparr>"
    using assms
    by (simp add: hid_ready_def USBD_HID_DataOut_impl_def io_usb_hid_receive_def io_usb_hid_init_def
        cm_defs set_ep_def buf_read_def buf_write_def)
qed

theorem hid_malformed_packets_witness:
  "fst (USBD_HID_DataOut_impl [] [0, 0, 0x05, 0, 0, 1] sample_usb) = Inl Fault
    \<and> (\<exists>u'. USBD_HID_DataOut_impl [] (replicate 64 7) sample_usb = (Inr (), u')
        \<and> usb_app u' = sample_app\<lparr>apdu_media := IO_APDU_MEDIA_USB_HID, apdu_length := 0\<rparr>)"
proof -
  have "hid_ready sample_usb" using sample_usb_fields by (simp add: hid_ready_def)
  from hid_malformed_packets [OF this sample_usb_fields(5), of "replicate 64 7" "[]" 0 0]
  show ?thesis by (simp add: sample_usb_def)
qed

end
