(* ===== verification/U2f_Transport.thy ===== *)
theory U2f_Transport
  imports Os Globals
begin

text \<open>
  The U2F transport, \<open>src/sdk/nanos-secure-sdk/lib_u2f/src/u2f_transport.c\<close> with \<open>u2f_io_send\<close>
  of \<open>lib_stusb_impl/u2f_io.c\<close>: messages in packets of 64 bytes with a channel, errors as
  messages of their own, and the second, faked reception with which a host that has to wait
  for the user is kept from giving up.  This theory holds everything but the reception of a
  packet, which calls the message handlers (theories \<open>U2f_Impl\<close> and \<open>U2f_Receive\<close>).
\<close>

section \<open>State\<close>

datatype u2f_transport_state = U2F_IDLE | U2F_HANDLE_SEGMENTED | U2F_PROCESSING_COMMAND
  | U2F_SENDING_RESPONSE | U2F_SENDING_ERROR | U2F_INTERNAL_ERROR | U2F_FAKE_RECEIVED

datatype u2f_transport_media = U2F_MEDIA_NONE | U2F_MEDIA_USB | U2F_MEDIA_NFC | U2F_MEDIA_BLE

datatype u2f_wait_asynch = U2F_WAIT_ASYNCH_IDLE | U2F_WAIT_ASYNCH_ON | U2F_WAIT_ASYNCH_REPLY_READY

text \<open>
  A pointer to bytes: null, a position in \<open>G_io_apdu_buffer\<close> or in \<open>G_io_usb_ep_buffer\<close>, or a
  constant array.
\<close>

datatype u2f_pointer = Null | Apdu_Buffer nat | Ep_Buffer nat | Const_Array "u8 list"

text \<open>\<open>u2f_service_t\<close> without the timer fields, which no function of the library uses.\<close>

record u2f_service =
  next_channel :: u32
  channel :: "u8 list"
  media :: u2f_transport_media
  transportReceiveBuffer :: u2f_pointer
  transportReceiveBufferLength :: u16
  transportChannel :: "u8 list"
  transportOffset :: u16
  transportLength :: u16
  transportPacketIndex :: u8
  transportBuffer :: u2f_pointer
  transportState :: u2f_transport_state
  transportMedia :: u2f_transport_media
  fakeChannelTransportOffset :: u16
  fakeChannelTransportPacketIndex :: u8
  fakeChannelTransportState :: u2f_transport_state
  commandCrc :: u16
  fakeChannelCrc :: u16
  waitAsynchronousResponse :: u2f_wait_asynch
  sending :: bool
  seqTimeout :: u32
  sendCmd :: u8

datatype io_apdu_state = APDU_IDLE | APDU_BLE | APDU_BLE_WAIT_NOTIFY | APDU_NFC_M24SR
  | APDU_NFC_M24SR_SELECT | APDU_NFC_M24SR_FIRST | APDU_NFC_M24SR_RAPDU | APDU_USB_HID
  | APDU_USB_CCID | APDU_U2F | APDU_RAW | APDU_USB_WEBUSB

text \<open>
  The service with the variables it shares with the rest of the SDK; \<open>u2f_sent\<close> holds the
  packets handed to the endpoint, and \<open>tunnelled\<close> says whether \<open>G_io_app.apdu_media\<close> is
  \<open>IO_APDU_MEDIA_U2F\<close>.
\<close>

record u2f_io =
  service :: u2f_service
  io_apdu_buffer :: "u8 list"
  io_apdu_length :: u16
  io_apdu_state :: io_apdu_state
  tunnelled :: bool
  io_ep_buffer :: "u8 list"
  u2f_sent :: "u8 list list"

definition U2F_CMD_PING :: u8 where [const_defs]: "U2F_CMD_PING = 0x81"
definition U2F_CMD_MSG :: u8 where [const_defs]: "U2F_CMD_MSG = 0x83"
definition U2F_CMD_INIT :: u8 where [const_defs]: "U2F_CMD_INIT = 0x86"
definition U2F_CMD_WINK :: u8 where [const_defs]: "U2F_CMD_WINK = 0x88"
definition U2F_STATUS_ERROR :: u8 where [const_defs]: "U2F_STATUS_ERROR = 0xBF"
definition ERROR_INVALID_CMD :: u8 where [const_defs]: "ERROR_INVALID_CMD = 0x01"
definition ERROR_INVALID_LEN :: u8 where [const_defs]: "ERROR_INVALID_LEN = 0x03"
definition ERROR_INVALID_SEQ :: u8 where [const_defs]: "ERROR_INVALID_SEQ = 0x04"
definition ERROR_CHANNEL_BUSY :: u8 where [const_defs]: "ERROR_CHANNEL_BUSY = 0x06"
definition ERROR_INVALID_CID :: u8 where [const_defs]: "ERROR_INVALID_CID = 0x0b"
definition ERROR_PROP_MESSAGE_TOO_SHORT :: u8 where [const_defs]: "ERROR_PROP_MESSAGE_TOO_SHORT = 0x85"
definition ERROR_PROP_MEDIA_MIXED :: u8 where [const_defs]: "ERROR_PROP_MEDIA_MIXED = 0x8D"
definition USB_SEGMENT_SIZE :: nat where [const_defs]: "USB_SEGMENT_SIZE = 64"
definition BLE_SEGMENT_SIZE :: nat where [const_defs]: "BLE_SEGMENT_SIZE = 32"
definition U2F_MASK_COMMAND :: u8 where [const_defs]: "U2F_MASK_COMMAND = 0x80"
definition U2F_COMMAND_HEADER_SIZE :: nat where [const_defs]: "U2F_COMMAND_HEADER_SIZE = 3"
definition BROADCAST_CHANNEL :: "u8 list" where [const_defs]: "BROADCAST_CHANNEL = [0xff, 0xff, 0xff, 0xff]"
definition FORBIDDEN_CHANNEL :: "u8 list" where [const_defs]: "FORBIDDEN_CHANNEL = [0x00, 0x00, 0x00, 0x00]"

section \<open>Memory\<close>

definition get_service :: "(u2f_service \<Rightarrow> 'a) \<Rightarrow> (u2f_io, 'a) cm" where
  "get_service f = gets_c (\<lambda>s. f (service s))"

definition set_service :: "(u2f_service \<Rightarrow> u2f_service) \<Rightarrow> (u2f_io, unit) cm" where
  "set_service f = modify_c (\<lambda>s. s\<lparr>service := f (service s)\<rparr>)"

definition put_ep :: "nat \<Rightarrow> u8 list \<Rightarrow> (u2f_io, unit) cm" where
  "put_ep i bytes = try_modify_c (\<lambda>s.
     bindE (buf_write (io_ep_buffer s) i bytes) (\<lambda>b. Inr (s\<lparr>io_ep_buffer := b\<rparr>)))"

fun pointer_add :: "u2f_pointer \<Rightarrow> nat \<Rightarrow> u2f_pointer" where
  "pointer_add Null n = Null"
| "pointer_add (Apdu_Buffer i) n = Apdu_Buffer (i + n)"
| "pointer_add (Ep_Buffer i) n = Ep_Buffer (i + n)"
| "pointer_add (Const_Array bs) n = Const_Array (drop n bs)"

text \<open>Reading and writing through a pointer.\<close>

fun pointer_bytes :: "u2f_io \<Rightarrow> u2f_pointer \<Rightarrow> nat \<Rightarrow> nat \<Rightarrow> exn + u8 list" where
  "pointer_bytes s Null i n = Inl Fault"
| "pointer_bytes s (Apdu_Buffer j) i n = buf_read (io_apdu_buffer s) (j + i) n"
| "pointer_bytes s (Ep_Buffer j) i n = buf_read (io_ep_buffer s) (j + i) n"
| "pointer_bytes s (Const_Array bs) i n = buf_read bs i n"

definition read_pointer :: "u2f_pointer \<Rightarrow> nat \<Rightarrow> nat \<Rightarrow> (u2f_io, u8 list) cm" where
  "read_pointer p i n = bind_c (gets_c id) (\<lambda>s. lift_c (pointer_bytes s p i n))"

fun write_pointer :: "u2f_pointer \<Rightarrow> nat \<Rightarrow> u8 list \<Rightarrow> (u2f_io, unit) cm" where
  "write_pointer Null i bytes = throw_c Fault"
| "write_pointer (Apdu_Buffer j) i bytes = try_modify_c (\<lambda>s.
     bindE (buf_write (io_apdu_buffer s) (j + i) bytes) (\<lambda>b. Inr (s\<lparr>io_apdu_buffer := b\<rparr>)))"
| "write_pointer (Ep_Buffer j) i bytes = put_ep (j + i) bytes"
| "write_pointer (Const_Array bs) i bytes = throw_c Fault"

section \<open>Sending\<close>

definition u2f_transport_reset :: "u2f_service \<Rightarrow> u2f_service" where
  "u2f_transport_reset s = s\<lparr>transportState := U2F_IDLE, transportOffset := 0, transportMedia := U2F_MEDIA_NONE,
     transportPacketIndex := 0, fakeChannelTransportState := U2F_IDLE, fakeChannelTransportOffset := 0,
     fakeChannelTransportPacketIndex := 0, sending := False, waitAsynchronousResponse := U2F_WAIT_ASYNCH_IDLE,
     transportBuffer := transportReceiveBuffer s\<rparr>"

definition u2f_transport_init :: "u2f_pointer \<Rightarrow> u16 \<Rightarrow> u2f_service \<Rightarrow> u2f_service" where
  "u2f_transport_init message_buffer message_buffer_length s =
     u2f_transport_reset (s\<lparr>transportReceiveBuffer := message_buffer, transportReceiveBufferLength := message_buffer_length\<rparr>)"

definition u2f_message_repliable :: "u2f_service \<Rightarrow> bool" where
  "u2f_message_repliable s \<longleftrightarrow> waitAsynchronousResponse s = U2F_WAIT_ASYNCH_IDLE
     \<or> (waitAsynchronousResponse s \<noteq> U2F_WAIT_ASYNCH_ON \<and> fakeChannelTransportState s = U2F_FAKE_RECEIVED
        \<and> sending s = False)"

text \<open>The endpoint buffer is the source as well; \<open>HAVE_BLE\<close> is not defined.\<close>

definition u2f_io_send :: "nat \<Rightarrow> u2f_transport_media \<Rightarrow> (u2f_io, unit) cm" where
  "u2f_io_send len m =
     (if m = U2F_MEDIA_USB then
        bind_c (gets_c io_ep_buffer) (\<lambda>ep.
        bind_c (lift_c (buf_read ep 0 len)) (\<lambda>bytes.
        bind_c (put_ep 0 bytes) (\<lambda>_.
        bind_c (put_ep len (replicate (length ep - len) 0)) (\<lambda>_.
        bind_c (gets_c io_ep_buffer) (\<lambda>ep.
        bind_c (lift_c (buf_read ep 0 USB_SEGMENT_SIZE)) (\<lambda>packet.
        modify_c (\<lambda>s. s\<lparr>u2f_sent := u2f_sent s @ [packet]\<rparr>)))))))
      else return_c ())"

definition u2f_transport_sent :: "u2f_transport_media \<Rightarrow> (u2f_io, unit) cm" where
  "u2f_transport_sent m =
     bind_c (get_service id) (\<lambda>v.
     bind_c (set_service (\<lambda>v. v\<lparr>sending := False\<rparr>)) (\<lambda>_.
     if \<not> u2f_message_repliable v then return_c ()
     else if transportState v \<noteq> U2F_SENDING_RESPONSE \<and> transportState v \<noteq> U2F_SENDING_ERROR then return_c ()
     else if transportOffset v < transportLength v then
       let mtu = (if m = U2F_MEDIA_USB then USB_SEGMENT_SIZE else BLE_SEGMENT_SIZE);
           channelHeader = (if m = U2F_MEDIA_USB then 4 else 0);
           headerSize = (if transportPacketIndex v = 0 then channelHeader + 3 else channelHeader + 1);
           left = unat (transportLength v) - unat (transportOffset v);
           blockSize = (if left > mtu - headerSize then mtu - headerSize else left);
           dataSize = blockSize + headerSize
       in bind_c (if m = U2F_MEDIA_USB then put_ep 0 (take 4 (channel v)) else return_c ()) (\<lambda>_.
          bind_c
            (if transportPacketIndex v = 0 then
               put_ep channelHeader [sendCmd v, ucast (drop_bit 8 (transportLength v)), ucast (transportLength v AND 0xff)]
             else put_ep channelHeader [transportPacketIndex v - 1]) (\<lambda>_.
          bind_c
            (if transportBuffer v \<noteq> Null then
               bind_c (read_pointer (transportBuffer v) (unat (transportOffset v)) blockSize) (put_ep headerSize)
             else return_c ()) (\<lambda>_.
          bind_c (set_service (\<lambda>v. v\<lparr>transportOffset := transportOffset v + of_nat blockSize,
                                     transportPacketIndex := transportPacketIndex v + 1\<rparr>)) (\<lambda>_.
          u2f_io_send dataSize m))))
     else if transportOffset v = transportLength v then
       bind_c (set_service u2f_transport_reset) (\<lambda>_.
       modify_c (\<lambda>s. s\<lparr>io_apdu_state := APDU_IDLE\<rparr>))
     else return_c ()))"

definition u2f_transport_error :: "u8 \<Rightarrow> (u2f_io, unit) cm" where
  "u2f_transport_error errorCode =
     bind_c (put_ep 8 [errorCode]) (\<lambda>_.
     bind_c (set_service (\<lambda>v. v\<lparr>transportState := U2F_SENDING_ERROR, transportPacketIndex := 0,
       transportBuffer := Ep_Buffer 8, transportOffset := 0, transportLength := 1, sendCmd := U2F_STATUS_ERROR\<rparr>)) (\<lambda>_.
     bind_c (get_service media) u2f_transport_sent))"

definition u2f_transport_send_usb_user_presence_required :: "(u2f_io, unit) cm" where
  "u2f_transport_send_usb_user_presence_required =
     bind_c (set_service (\<lambda>v. v\<lparr>sending := True\<rparr>)) (\<lambda>_.
     bind_c (get_service channel) (\<lambda>ch.
     bind_c (put_ep 0 (take 4 ch)) (\<lambda>_.
     bind_c (put_ep 4 [U2F_CMD_MSG, 0, 2, 0x69, 0x85]) (\<lambda>_.
     u2f_io_send 9 U2F_MEDIA_USB))))"

definition u2f_transport_send_wink :: "(u2f_io, unit) cm" where
  "u2f_transport_send_wink =
     bind_c (set_service (\<lambda>v. v\<lparr>sending := True\<rparr>)) (\<lambda>_.
     bind_c (get_service channel) (\<lambda>ch.
     bind_c (put_ep 0 (take 4 ch)) (\<lambda>_.
     bind_c (put_ep 4 [U2F_CMD_WINK, 0, 0]) (\<lambda>_.
     u2f_io_send 7 U2F_MEDIA_USB))))"

definition u2f_message_set_autoreply_wait_user_presence :: "bool \<Rightarrow> (u2f_io, unit) cm" where
  "u2f_message_set_autoreply_wait_user_presence enabled =
     bind_c (get_service waitAsynchronousResponse) (\<lambda>w.
     if enabled then
       if w = U2F_WAIT_ASYNCH_IDLE then
         bind_c (set_service (\<lambda>v. v\<lparr>waitAsynchronousResponse := U2F_WAIT_ASYNCH_ON\<rparr>)) (\<lambda>_.
         u2f_transport_send_usb_user_presence_required)
       else return_c ()
     else if w = U2F_WAIT_ASYNCH_ON then
       set_service (\<lambda>v. v\<lparr>waitAsynchronousResponse := U2F_WAIT_ASYNCH_REPLY_READY\<rparr>)
     else return_c ())"

text \<open>
  A reply; over Bluetooth all packets are made at once.  Every round of that loop sends at
  least one byte or ends the transmission, so that one round more than there are bytes
  and two are enough.
\<close>

primrec pump_all :: "nat \<Rightarrow> (u2f_io, unit) cm" where
  "pump_all 0 = return_c ()"
| "pump_all (Suc n) =
     bind_c (gets_c io_apdu_state) (\<lambda>st.
     if st \<noteq> APDU_IDLE then
       bind_c (get_service transportMedia) (\<lambda>m. bind_c (u2f_transport_sent m) (\<lambda>_. pump_all n))
     else return_c ())"

definition u2f_message_reply :: "u8 \<Rightarrow> u2f_pointer \<Rightarrow> u16 \<Rightarrow> (u2f_io, unit) cm" where
  "u2f_message_reply cmd buffer len =
     bind_c (get_service id) (\<lambda>v.
     if u2f_message_repliable v then
       bind_c (set_service (\<lambda>v. v\<lparr>transportState := U2F_SENDING_RESPONSE, transportPacketIndex := 0,
         transportBuffer := buffer, transportOffset := 0, transportLength := len, sendCmd := cmd\<rparr>)) (\<lambda>_.
       if transportMedia v \<noteq> U2F_MEDIA_BLE then u2f_transport_sent (transportMedia v)
       else pump_all (unat len + 2))
     else return_c ())"

definition u2f_is_channel_broadcast :: "u8 list \<Rightarrow> bool" where
  "u2f_is_channel_broadcast ch \<longleftrightarrow> take 4 ch = BROADCAST_CHANNEL"

definition u2f_is_channel_forbidden :: "u8 list \<Rightarrow> bool" where
  "u2f_is_channel_forbidden ch \<longleftrightarrow> take 4 ch = FORBIDDEN_CHANNEL"

end
