(* ===== verification/U2f_Impl.thy ===== *)
theory U2f_Impl
  imports U2f_Transport
begin

text \<open>
  The messages of the U2F tunnel, \<open>src/sdk/nanos-secure-sdk/lib_stusb_impl/u2f_impl.c\<close>: a
  command of the application is the key handle of a FIDO sign request, masked with
  \<open>U2F_PROXY_MAGIC\<close>, and \<open>io_exchange\<close> answers it with a signature that holds the reply.
\<close>

section \<open>Constants\<close>

definition INIT_U2F_VERSION :: u8 where [const_defs]: "INIT_U2F_VERSION = 0x02"
definition INIT_DEVICE_VERSION_MAJOR :: u8 where [const_defs]: "INIT_DEVICE_VERSION_MAJOR = 0"
definition INIT_DEVICE_VERSION_MINOR :: u8 where [const_defs]: "INIT_DEVICE_VERSION_MINOR = 1"
definition INIT_BUILD_VERSION :: u8 where [const_defs]: "INIT_BUILD_VERSION = 0"
definition INIT_CAPABILITIES :: u8 where [const_defs]: "INIT_CAPABILITIES = 0x00"
definition FIDO_CLA :: u8 where [const_defs]: "FIDO_CLA = 0x00"
definition FIDO_INS_ENROLL :: u8 where [const_defs]: "FIDO_INS_ENROLL = 0x01"
definition FIDO_INS_SIGN :: u8 where [const_defs]: "FIDO_INS_SIGN = 0x02"
definition U2F_HANDLE_SIGN_HEADER_SIZE :: nat where [const_defs]: "U2F_HANDLE_SIGN_HEADER_SIZE = 32 + 32 + 1"
definition FIDO_INS_GET_VERSION :: u8 where [const_defs]: "FIDO_INS_GET_VERSION = 0x03"
definition FIDO_INS_PROP_GET_INFO :: u8 where [const_defs]: "FIDO_INS_PROP_GET_INFO = 0xC1"
definition P1_SIGN_CHECK_ONLY :: u8 where [const_defs]: "P1_SIGN_CHECK_ONLY = 0x07"

definition U2F_SW_BUSY :: "u8 list" where [const_defs]: "U2F_SW_BUSY = [0x90, 0x01]"
definition U2F_SW_PROOF_OF_PRESENCE_REQUIRED :: "u8 list" where [const_defs]:
  "U2F_SW_PROOF_OF_PRESENCE_REQUIRED = [0x69, 0x85]"
definition U2F_SW_BAD_KEY_HANDLE :: "u8 list" where [const_defs]: "U2F_SW_BAD_KEY_HANDLE = [0x6A, 0x80]"
definition U2F_SW_UNKNOWN_INSTRUCTION :: "u8 list" where [const_defs]: "U2F_SW_UNKNOWN_INSTRUCTION = [0x6d, 0x00]"
definition U2F_SW_UNKNOWN_CLASS :: "u8 list" where [const_defs]: "U2F_SW_UNKNOWN_CLASS = [0x6e, 0x00]"
definition U2F_SW_WRONG_LENGTH :: "u8 list" where [const_defs]: "U2F_SW_WRONG_LENGTH = [0x67, 0x00]"
definition U2F_SW_INTERNAL :: "u8 list" where [const_defs]: "U2F_SW_INTERNAL = [0x6F, 0x00]"

text \<open>\<open>U2F_PROXY_MAGIC\<close> of the \<open>Makefile\<close>: the name of the application and \<open>abrcadabr\<close>.\<close>

definition U2F_PROXY_MAGIC :: "u8 list" where [const_defs]: "U2F_PROXY_MAGIC = map c8 ''IOSTabrcadabr''"

definition U2F_VERSION :: "u8 list" where [const_defs]: "U2F_VERSION = map c8 ''U2F_V2'' @ [0x90, 0x00]"

definition INFO :: "u8 list" where [const_defs]:
  "INFO = [1, of_nat (IO_APDU_BUFFER_SIZE - U2F_HANDLE_SIGN_HEADER_SIZE - 3 - 4), 0x90, 0x00]"

section \<open>FIDO commands\<close>

text \<open>A reply with a constant array, of its whole length.\<close>

definition reply_array :: "u8 \<Rightarrow> u8 list \<Rightarrow> (u2f_io, unit) cm" where
  "reply_array cmd bytes = u2f_message_reply cmd (Const_Array bytes) (of_nat (length bytes))"

definition u2f_apdu_enroll :: "(u2f_io, unit) cm" where
  "u2f_apdu_enroll = reply_array U2F_CMD_MSG U2F_SW_INTERNAL"

definition u2f_apdu_get_version :: "(u2f_io, unit) cm" where
  "u2f_apdu_get_version = reply_array U2F_CMD_MSG U2F_VERSION"

definition u2f_apdu_get_info :: "(u2f_io, unit) cm" where
  "u2f_apdu_get_info = reply_array U2F_CMD_MSG INFO"

definition write_apdu :: "nat \<Rightarrow> u8 list \<Rightarrow> (u2f_io, unit) cm" where
  "write_apdu i bytes = write_pointer (Apdu_Buffer 0) i bytes"

text \<open>Byte \<open>i\<close> of the key handle is masked with byte \<open>i mod 13\<close> of the magic.\<close>

definition mask_magic :: "u8 list \<Rightarrow> u8 list" where
  "mask_magic bytes =
     map (\<lambda>i. bytes ! i XOR U2F_PROXY_MAGIC ! (i mod length U2F_PROXY_MAGIC)) [0..<length bytes]"

definition u2f_apdu_sign :: "u8 \<Rightarrow> u2f_pointer \<Rightarrow> u16 \<Rightarrow> (u2f_io, unit) cm" where
  "u2f_apdu_sign p1 buffer len =
     bind_c (gets_c io_apdu_state) (\<lambda>st.
     if st \<noteq> APDU_IDLE then reply_array U2F_CMD_MSG U2F_SW_BUSY
     else if unat len < U2F_HANDLE_SIGN_HEADER_SIZE + 5 then reply_array U2F_CMD_MSG U2F_SW_WRONG_LENGTH
     else if p1 = P1_SIGN_CHECK_ONLY then reply_array U2F_CMD_MSG U2F_SW_PROOF_OF_PRESENCE_REQUIRED
     else
       bind_c (read_pointer buffer (U2F_HANDLE_SIGN_HEADER_SIZE - 1) 1) (\<lambda>h.
       let keyHandleLength = unat (hd h)
       in bind_c
            (if keyHandleLength = 5 then
               bind_c (read_pointer buffer U2F_HANDLE_SIGN_HEADER_SIZE 5) (\<lambda>q.
               return_c (q = [0xF1, 0xD0, 0x00, 0x00, 0x00]))
             else return_c False) (\<lambda>get_magic.
          if get_magic then
            bind_c (write_apdu 0 [of_nat (length U2F_PROXY_MAGIC)]) (\<lambda>_.
            bind_c (write_apdu 1 U2F_PROXY_MAGIC) (\<lambda>_.
            bind_c (write_apdu (1 + length U2F_PROXY_MAGIC) [0x90, 0x00, 0x90, 0x00]) (\<lambda>_.
            bind_c (read_pointer (Apdu_Buffer 0) 0 1) (\<lambda>n.
            u2f_message_reply U2F_CMD_MSG (Apdu_Buffer 0) (ucast (hd n) + 1 + 2 + 2)))))
          else
            bind_c (read_pointer buffer U2F_HANDLE_SIGN_HEADER_SIZE keyHandleLength) (\<lambda>handle.
            bind_c (write_pointer buffer U2F_HANDLE_SIGN_HEADER_SIZE (mask_magic handle)) (\<lambda>_.
            bind_c (read_pointer buffer (U2F_HANDLE_SIGN_HEADER_SIZE + 4) 1) (\<lambda>lc.
            if unat len \<noteq> U2F_HANDLE_SIGN_HEADER_SIZE + 5 + unat (hd lc) then
              reply_array U2F_CMD_MSG U2F_SW_BAD_KEY_HANDLE
            else
              bind_c (read_pointer buffer U2F_HANDLE_SIGN_HEADER_SIZE keyHandleLength) (\<lambda>apdu.
              bind_c (write_apdu 0 apdu) (\<lambda>_.
              bind_c (modify_c (\<lambda>s. s\<lparr>io_apdu_length := of_nat keyHandleLength, tunnelled := True,
                                      io_apdu_state := APDU_U2F\<rparr>)) (\<lambda>_.
              u2f_message_set_autoreply_wait_user_presence True)))))))))"

section \<open>Messages\<close>

text \<open>\<open>channelInit\<close> is \<open>service->channel\<close>, which \<open>u2f_message_complete\<close> passes.\<close>

definition u2f_handle_cmd_init :: "u2f_pointer \<Rightarrow> u8 list \<Rightarrow> (u2f_io, unit) cm" where
  "u2f_handle_cmd_init buffer channelInit =
     bind_c
       (if u2f_is_channel_broadcast channelInit then
          bind_c (set_service (\<lambda>v. v\<lparr>next_channel := next_channel v + 1\<rparr>)) (\<lambda>_.
          bind_c (get_service next_channel) (\<lambda>n.
          return_c [ucast (drop_bit 24 n), ucast (drop_bit 16 n), ucast (drop_bit 8 n), ucast n]))
        else return_c (take 4 channelInit)) (\<lambda>ch.
     bind_c (read_pointer buffer 0 8) (\<lambda>nonce.
     bind_c (write_apdu 0 nonce) (\<lambda>_.
     bind_c (write_apdu 8 ch) (\<lambda>_.
     bind_c (write_apdu 12 [INIT_U2F_VERSION, INIT_DEVICE_VERSION_MAJOR, INIT_DEVICE_VERSION_MINOR,
                            INIT_BUILD_VERSION, INIT_CAPABILITIES]) (\<lambda>_.
     bind_c (set_service (\<lambda>v. v\<lparr>channel := (if u2f_is_channel_broadcast channelInit then replicate 4 0xff else ch)\<rparr>)) (\<lambda>_.
     u2f_message_reply U2F_CMD_INIT (Apdu_Buffer 0) 17))))))"

definition u2f_handle_cmd_ping :: "u2f_pointer \<Rightarrow> u16 \<Rightarrow> (u2f_io, unit) cm" where
  "u2f_handle_cmd_ping buffer len = u2f_message_reply U2F_CMD_PING buffer len"

text \<open>The two encodings of the length, and those with the length of one byte only.\<close>

definition message_data_length :: "u32 \<Rightarrow> u16 \<Rightarrow> u32 option" where
  "message_data_length dataLength len =
     (if dataLength = ucast (len - 9) \<or> dataLength = ucast (len - 7) then Some dataLength
      else if dataLength = ucast (len - 9) mod 256 then Some (ucast len - 9)
      else if dataLength = ucast (len - 7) mod 256 then Some (ucast len - 7)
      else None)"

definition u2f_handle_cmd_msg :: "u2f_pointer \<Rightarrow> u16 \<Rightarrow> (u2f_io, unit) cm" where
  "u2f_handle_cmd_msg buffer len =
     bind_c (read_pointer buffer 0 7) (\<lambda>h.
     let cla = h ! 0; ins = h ! 1; p1 = h ! 2;
         dataLength = push_bit 8 (ucast (h ! 5)) OR ucast (h ! 6)
     in case message_data_length dataLength len of
          None \<Rightarrow> reply_array U2F_CMD_MSG U2F_SW_WRONG_LENGTH
        | Some dataLength \<Rightarrow>
            if cla \<noteq> FIDO_CLA then reply_array U2F_CMD_MSG U2F_SW_UNKNOWN_CLASS
            else if ins = FIDO_INS_ENROLL then u2f_apdu_enroll
            else if ins = FIDO_INS_SIGN then u2f_apdu_sign p1 (pointer_add buffer 7) (ucast dataLength)
            else if ins = FIDO_INS_GET_VERSION then u2f_apdu_get_version
            else if ins = FIDO_INS_PROP_GET_INFO then u2f_apdu_get_info
            else reply_array U2F_CMD_MSG U2F_SW_UNKNOWN_INSTRUCTION)"

definition u2f_message_complete :: "(u2f_io, unit) cm" where
  "u2f_message_complete =
     bind_c (get_service id) (\<lambda>v.
     bind_c (read_pointer (transportBuffer v) 0 3) (\<lambda>h.
     let len = push_bit 8 (ucast (h ! 1)) OR ucast (h ! 2);
         buffer = pointer_add (transportBuffer v) 3
     in if h ! 0 = U2F_CMD_INIT then u2f_handle_cmd_init buffer (channel v)
        else if h ! 0 = U2F_CMD_PING then u2f_handle_cmd_ping buffer len
        else if h ! 0 = U2F_CMD_MSG then u2f_handle_cmd_msg buffer len
        else return_c ()))"

section \<open>The reply of the application\<close>

text \<open>
  The branch \<open>APDU_U2F\<close> of \<open>io_exchange\<close> (\<open>os_io_seproxyhal.c\<close>) around the loop that waits
  until a reply can be sent: the reply becomes the signature of the FIDO response, with
  the user presence byte, the counter and a status of its own.
\<close>

definition INVALID_PARAMETER :: u16 where [const_defs]: "INVALID_PARAMETER = 2"

definition u2f_reply_ready :: "(u2f_io, bool) cm" where
  "u2f_reply_ready =
     bind_c (u2f_message_set_autoreply_wait_user_presence False) (\<lambda>_.
     get_service u2f_message_repliable)"

definition io_exchange_u2f_reply :: "u16 \<Rightarrow> (u2f_io, unit) cm" where
  "io_exchange_u2f_reply tx_len =
     bind_c (gets_c (\<lambda>s. length (io_apdu_buffer s))) (\<lambda>size.
     if 1 + 4 + unat tx_len + 2 > size then throw_c (Throw INVALID_PARAMETER)
     else
       bind_c (write_apdu (unat tx_len) [0x90]) (\<lambda>_.
       bind_c (write_apdu (unat tx_len + 1) [0x00]) (\<lambda>_.
       let tx_len = tx_len + 2
       in bind_c (read_pointer (Apdu_Buffer 0) 0 (unat tx_len)) (\<lambda>bytes.
          bind_c (write_apdu 5 bytes) (\<lambda>_.
          bind_c (write_apdu 0 (replicate 5 0)) (\<lambda>_.
          u2f_message_reply U2F_CMD_MSG (Apdu_Buffer 0) (tx_len + 5)))))))"

end
