(* ===== verification/U2f_Receive.thy ===== *)
theory U2f_Receive
  imports U2f_Impl
begin

text \<open>
  The reception of U2F packets: \<open>u2f_transport_received\<close> and the faked reception of
  \<open>lib_u2f/src/u2f_transport.c\<close>, and the endpoint callbacks of \<open>usbd_impl.c\<close>.

  \<open>buffer\<close> holds the packet and what lies behind it in the buffer of the driver, \<open>sz\<close> is the
  length of the packet.  The firmware's checksum \<open>cx_crc16_update\<close> is the argument \<open>crc\<close>.
\<close>

section \<open>The faked reception\<close>

text \<open>\<open>MIN(sz - n, rest)\<close>, computed with signed integers and stored in 16 bits.\<close>

definition min_length :: "u16 \<Rightarrow> int \<Rightarrow> int \<Rightarrow> u16" where
  "min_length sz n rest = word_of_int (min (int (unat sz) - n) rest)"

definition fake_error :: "(u2f_io, bool) cm" where
  "fake_error =
     bind_c (set_service (\<lambda>v. v\<lparr>fakeChannelTransportState := U2F_INTERNAL_ERROR\<rparr>)) (\<lambda>_.
     throw_c (Throw EXCEPTION_IO_RESET))"

definition fake_complete :: "(u2f_io, bool) cm" where
  "fake_complete =
     bind_c (get_service id) (\<lambda>v.
     if fakeChannelTransportOffset v \<ge> transportLength v then
       if fakeChannelCrc v \<noteq> commandCrc v then fake_error
       else
         bind_c (set_service (\<lambda>v. v\<lparr>fakeChannelTransportState := U2F_FAKE_RECEIVED, fakeChannelTransportOffset := 0\<rparr>)) (\<lambda>_.
         bind_c
           (if waitAsynchronousResponse v = U2F_WAIT_ASYNCH_ON then
              bind_c u2f_transport_send_usb_user_presence_required (\<lambda>_.
              set_service (\<lambda>v. v\<lparr>fakeChannelTransportState := U2F_IDLE\<rparr>))
            else return_c ()) (\<lambda>_.
         return_c True))
     else return_c True)"

definition u2f_transport_receive_fakeChannel :: "(u16 \<Rightarrow> u8 list \<Rightarrow> u16) \<Rightarrow> u8 list \<Rightarrow> u16 \<Rightarrow> (u2f_io, bool) cm" where
  "u2f_transport_receive_fakeChannel crc buffer sz =
     bind_c (get_service id) (\<lambda>v.
     if fakeChannelTransportState v = U2F_INTERNAL_ERROR then return_c False
     else
       bind_c (lift_c (buf_read buffer 0 4)) (\<lambda>ch.
       if ch \<noteq> take 4 (channel v) then fake_error
       else
         bind_c (lift_c (buf_read buffer 4 1)) (\<lambda>b.
         if fakeChannelTransportOffset v = 0 then
           bind_c (lift_c (U2BE buffer (4 + 1))) (\<lambda>l.
           let commandLength = ucast (l + of_nat U2F_COMMAND_HEADER_SIZE) :: u16
           in if hd b = U2F_CMD_WINK then bind_c u2f_transport_send_wink (\<lambda>_. return_c True)
              else if commandLength \<noteq> transportLength v then fake_error
              else if hd b \<noteq> U2F_CMD_MSG then fake_error
              else
                let n = min_length sz 4 (int (unat (transportLength v)))
                in bind_c (set_service (\<lambda>v. v\<lparr>fakeChannelTransportPacketIndex := 0, fakeChannelTransportOffset := n\<rparr>)) (\<lambda>_.
                   bind_c (lift_c (buf_read buffer 4 (unat n))) (\<lambda>bytes.
                   bind_c (set_service (\<lambda>v. v\<lparr>fakeChannelCrc := crc 0 bytes\<rparr>)) (\<lambda>_.
                   fake_complete))))
         else if hd b \<noteq> fakeChannelTransportPacketIndex v then fake_error
         else
           let xfer_len = min_length sz 5 (int (unat (transportLength v)) - int (unat (fakeChannelTransportOffset v)))
           in bind_c (set_service (\<lambda>v. v\<lparr>fakeChannelTransportPacketIndex := fakeChannelTransportPacketIndex v + 1,
                                        fakeChannelTransportOffset := fakeChannelTransportOffset v + xfer_len\<rparr>)) (\<lambda>_.
              bind_c (lift_c (buf_read buffer 5 (unat xfer_len))) (\<lambda>bytes.
              bind_c (set_service (\<lambda>v. v\<lparr>fakeChannelCrc := crc (fakeChannelCrc v) bytes\<rparr>)) (\<lambda>_.
              fake_complete))))))"

section \<open>A packet\<close>

text \<open>The end of both branches: the message is complete, or more is to come.\<close>

definition received_end :: "u2f_transport_media \<Rightarrow> (u2f_io, unit) cm" where
  "received_end m =
     bind_c (get_service id) (\<lambda>v.
     if m \<noteq> U2F_MEDIA_USB \<and> unat (transportOffset v) > unat (transportLength v) + U2F_COMMAND_HEADER_SIZE then
       u2f_transport_error ERROR_INVALID_LEN
     else if transportOffset v \<ge> transportLength v then
       bind_c (set_service (\<lambda>v. v\<lparr>transportState := U2F_PROCESSING_COMMAND\<rparr>)) (\<lambda>_. u2f_message_complete)
     else set_service (\<lambda>v. v\<lparr>seqTimeout := 0, transportState := U2F_HANDLE_SEGMENTED\<rparr>))"

text \<open>The busy reply that leaves the message of the other channel alone.\<close>

definition reply_busy :: "u2f_transport_media \<Rightarrow> (u2f_io, unit) cm" where
  "reply_busy m =
     bind_c (get_service channel) (\<lambda>ch.
     bind_c (put_ep 0 (take 4 ch)) (\<lambda>_.
     bind_c (put_ep 4 [U2F_STATUS_ERROR, 0, 1, ERROR_CHANNEL_BUSY]) (\<lambda>_.
     u2f_io_send 8 m)))"

definition receive_first_data ::
  "(u16 \<Rightarrow> u8 list \<Rightarrow> u16) \<Rightarrow> u8 list \<Rightarrow> u16 \<Rightarrow> u2f_transport_media \<Rightarrow> nat \<Rightarrow> (u2f_io, unit) cm" where
  "receive_first_data crc buffer sz m commandLength =
     (let channelHeader = (if m = U2F_MEDIA_USB then 4 else 0);
          xfer_len = min (unat sz - channelHeader) (U2F_COMMAND_HEADER_SIZE + commandLength)
      in bind_c (lift_c (buf_read buffer channelHeader xfer_len)) (\<lambda>bytes.
         bind_c (get_service id) (\<lambda>v.
         bind_c (write_pointer (transportBuffer v) 0 bytes) (\<lambda>_.
         bind_c
           (if m = U2F_MEDIA_USB then
              bind_c (read_pointer (transportBuffer v) 0 xfer_len) (\<lambda>bytes.
              set_service (\<lambda>v. v\<lparr>commandCrc := crc 0 bytes\<rparr>))
            else return_c ()) (\<lambda>_.
         bind_c (set_service (\<lambda>v. v\<lparr>transportOffset := of_nat xfer_len,
           transportLength := of_nat (U2F_COMMAND_HEADER_SIZE + commandLength), transportMedia := m,
           transportPacketIndex := 0, transportChannel := take 4 (channel v)\<rparr>)) (\<lambda>_.
         received_end m))))))"

text \<open>The first packet of a message; the checks in their order.\<close>

definition receive_first :: "(u16 \<Rightarrow> u8 list \<Rightarrow> u16) \<Rightarrow> u8 list \<Rightarrow> u16 \<Rightarrow> u2f_transport_media \<Rightarrow> (u2f_io, unit) cm" where
  "receive_first crc buffer sz m =
     (let channelHeader = (if m = U2F_MEDIA_USB then 4 else 0)
      in bind_c (get_service id) (\<lambda>v.
         if unat sz < channelHeader + 3 then u2f_transport_error ERROR_PROP_MESSAGE_TOO_SHORT
         else
           bind_c (lift_c (buf_read buffer channelHeader 1)) (\<lambda>b.
           let cmd = hd b
           in if cmd AND U2F_MASK_COMMAND = 0 then u2f_transport_error ERROR_INVALID_SEQ
              else if m = U2F_MEDIA_USB \<and> transportState v = U2F_HANDLE_SEGMENTED
                   \<and> take 4 (channel v) \<noteq> take 4 (transportChannel v) \<and> cmd \<noteq> U2F_CMD_INIT then reply_busy m
              else if transportState v = U2F_HANDLE_SEGMENTED \<and> \<not> (m = U2F_MEDIA_USB \<and> cmd = U2F_CMD_INIT) then
                u2f_transport_error ERROR_INVALID_SEQ
              else
                bind_c (lift_c (U2BE buffer (channelHeader + 1))) (\<lambda>l.
                let commandLength = unat (ucast l :: u16)
                in if int commandLength > int (unat (transportReceiveBufferLength v)) - 3 then
                     u2f_transport_error ERROR_INVALID_LEN
                   else if cmd = U2F_CMD_PING \<or> cmd = U2F_CMD_MSG then
                     if m = U2F_MEDIA_USB \<and> (u2f_is_channel_broadcast (channel v) \<or> u2f_is_channel_forbidden (channel v)) then
                       u2f_transport_error ERROR_INVALID_CID
                     else receive_first_data crc buffer sz m commandLength
                   else if cmd = U2F_CMD_INIT then
                     if m \<noteq> U2F_MEDIA_USB then u2f_transport_error ERROR_INVALID_CMD
                     else if u2f_is_channel_forbidden (channel v) then u2f_transport_error ERROR_INVALID_CID
                     else receive_first_data crc buffer sz m commandLength
                   else u2f_transport_error ERROR_INVALID_CMD))))"

text \<open>A packet that continues a message.\<close>

definition receive_next :: "(u16 \<Rightarrow> u8 list \<Rightarrow> u16) \<Rightarrow> u8 list \<Rightarrow> u16 \<Rightarrow> u2f_transport_media \<Rightarrow> (u2f_io, unit) cm" where
  "receive_next crc buffer sz m =
     (let channelHeader = (if m = U2F_MEDIA_USB then 4 else 0)
      in bind_c (get_service id) (\<lambda>v.
         if unat sz < channelHeader + 2 then u2f_transport_error ERROR_PROP_MESSAGE_TOO_SHORT
         else if m \<noteq> transportMedia v then u2f_transport_error ERROR_PROP_MEDIA_MIXED
         else if transportState v \<noteq> U2F_HANDLE_SEGMENTED then
           if m = U2F_MEDIA_USB then set_service u2f_transport_reset
           else u2f_transport_error ERROR_INVALID_SEQ
         else
           bind_c (lift_c (buf_read buffer 0 channelHeader)) (\<lambda>ch.
           if m = U2F_MEDIA_USB \<and> ch \<noteq> take 4 (channel v) then u2f_transport_error ERROR_CHANNEL_BUSY
           else
             bind_c (lift_c (buf_read buffer channelHeader 1)) (\<lambda>b.
             if hd b \<noteq> transportPacketIndex v then u2f_transport_error ERROR_INVALID_SEQ
             else
               let xfer_len = min_length sz (int (channelHeader + 1))
                     (int (unat (transportLength v)) - int (unat (transportOffset v)))
               in bind_c (lift_c (buf_read buffer (channelHeader + 1) (unat xfer_len))) (\<lambda>bytes.
                  bind_c (write_pointer (transportBuffer v) (unat (transportOffset v)) bytes) (\<lambda>_.
                  bind_c
                    (if m = U2F_MEDIA_USB then
                       bind_c (read_pointer (transportBuffer v) (unat (transportOffset v)) (unat xfer_len)) (\<lambda>bytes.
                       set_service (\<lambda>v. v\<lparr>commandCrc := crc (commandCrc v) bytes\<rparr>))
                     else return_c ()) (\<lambda>_.
                  bind_c (set_service (\<lambda>v. v\<lparr>transportOffset := transportOffset v + xfer_len,
                    transportPacketIndex := transportPacketIndex v + 1\<rparr>)) (\<lambda>_.
                  received_end m))))))))"

definition u2f_transport_received :: "(u16 \<Rightarrow> u8 list \<Rightarrow> u16) \<Rightarrow> u8 list \<Rightarrow> u16 \<Rightarrow> u2f_transport_media \<Rightarrow> (u2f_io, unit) cm" where
  "u2f_transport_received crc buffer sz m =
     bind_c (set_service (\<lambda>v. v\<lparr>media := m\<rparr>)) (\<lambda>_.
     bind_c (get_service id) (\<lambda>v.
     if transportState v = U2F_SENDING_RESPONSE then u2f_transport_error ERROR_CHANNEL_BUSY
     else if waitAsynchronousResponse v \<noteq> U2F_WAIT_ASYNCH_IDLE then
       bind_c (u2f_transport_receive_fakeChannel crc buffer sz) (\<lambda>ok.
       if \<not> ok then u2f_transport_error ERROR_CHANNEL_BUSY else return_c ())
     else
       bind_c (if transportState v = U2F_SENDING_ERROR then set_service u2f_transport_reset else return_c ()) (\<lambda>_.
       let channelHeader = (if m = U2F_MEDIA_USB then 4 else 0)
       in if unat sz < 1 + channelHeader then u2f_transport_error ERROR_PROP_MESSAGE_TOO_SHORT
          else
            bind_c
              (if m = U2F_MEDIA_USB then
                 bind_c (lift_c (buf_read buffer 0 4)) (\<lambda>ch. set_service (\<lambda>v. v\<lparr>channel := ch\<rparr>))
               else return_c ()) (\<lambda>_.
            bind_c (get_service id) (\<lambda>v.
            if transportOffset v = 0 \<or> (m = U2F_MEDIA_USB \<and> take 4 (transportChannel v) \<noteq> take 4 (channel v)) then
              receive_first crc buffer sz m
            else receive_next crc buffer sz m)))))"

section \<open>The endpoint\<close>

definition USBD_U2F_DataIn_impl :: "(u2f_io, unit) cm" where
  "USBD_U2F_DataIn_impl = u2f_transport_sent U2F_MEDIA_USB"

text \<open>The packet is followed by whatever the buffer of the driver holds.\<close>

definition USBD_U2F_DataOut_impl :: "(u16 \<Rightarrow> u8 list \<Rightarrow> u16) \<Rightarrow> u8 list \<Rightarrow> u8 list \<Rightarrow> (u2f_io, unit) cm" where
  "USBD_U2F_DataOut_impl crc packet rest =
     u2f_transport_received crc (packet @ rest) (of_nat (length packet)) U2F_MEDIA_USB"

end
