(* ===== verification/U2f_Inv.thy ===== *)
theory U2f_Inv
  imports U2f_Receive
begin

text \<open>
  The invariant of the U2F transport: no packet of at least five bytes and no other event
  makes it leave its buffers.  The proofs compute weakest preconditions of the operations.
\<close>

section \<open>Weakest preconditions\<close>

definition wp_c :: "('s, 'a) cm \<Rightarrow> ('a \<Rightarrow> 's \<Rightarrow> bool) \<Rightarrow> ('s \<Rightarrow> bool) \<Rightarrow> 's \<Rightarrow> bool" where
  "wp_c m Q E s = (case m s of (Inr x, s') \<Rightarrow> Q x s' | (Inl (Throw e), s') \<Rightarrow> E s' | (Inl Fault, s') \<Rightarrow> False)"

lemma wp_bind [simp]: "wp_c (bind_c m f) Q E s = wp_c m (\<lambda>x. wp_c (f x) Q E) E s"
  by (simp add: wp_c_def bind_c_def split: prod.split sum.split)

lemma wp_return [simp]: "wp_c (return_c x) Q E = Q x"
  by (rule ext) (simp add: wp_c_def cm_defs)

lemma wp_throw [simp]: "wp_c (throw_c e) Q E s = (e \<noteq> Fault \<and> E s)"
  by (simp add: wp_c_def cm_defs split: exn.split)

lemma wp_gets [simp]: "wp_c (gets_c f) Q E s = Q (f s) s"
  by (simp add: wp_c_def cm_defs)

lemma wp_modify [simp]: "wp_c (modify_c g) Q E s = Q () (g s)"
  by (simp add: wp_c_def cm_defs)

lemma wp_lift [simp]: "wp_c (lift_c (Inr x)) Q E s = Q x s"
  by (simp add: wp_c_def cm_defs)

lemma wp_try_modify [simp]:
  "g s = Inr s' \<Longrightarrow> wp_c (try_modify_c g) Q E s = Q () s'"
  by (simp add: wp_c_def try_modify_c_def)

lemma wp_get_service [simp]: "wp_c (get_service h) Q E s = Q (h (service s)) s"
  by (simp add: get_service_def)

lemma wp_set_service [simp]: "wp_c (set_service k) Q E s = Q () (s\<lparr>service := k (service s)\<rparr>)"
  by (simp add: set_service_def)

lemma wp_mono:
  "wp_c m Q E s \<Longrightarrow> (\<And>x s. Q x s \<Longrightarrow> Q' x s) \<Longrightarrow> (\<And>s. E s \<Longrightarrow> E' s) \<Longrightarrow> wp_c m Q' E' s"
  by (auto simp: wp_c_def split: prod.splits sum.splits exn.splits)

lemma wp_read [simp]: "i + n \<le> length b \<Longrightarrow> wp_c (lift_c (buf_read b i n)) Q E s = Q (take n (drop i b)) s"
  by (simp add: buf_read_def)

lemma wp_put_ep [simp]:
  "i + length bs \<le> length (io_ep_buffer s) \<Longrightarrow> wp_c (put_ep i bs) Q E s =
    Q () (s\<lparr>io_ep_buffer := take i (io_ep_buffer s) @ bs @ drop (i + length bs) (io_ep_buffer s)\<rparr>)"
  by (simp add: put_ep_def buf_write_def wp_c_def try_modify_c_def)

lemma wp_U2BE [simp]: "off + 2 \<le> length b \<Longrightarrow> wp_c (lift_c (U2BE b off)) Q E s =
    Q (push_bit 8 (ucast (b ! off) AND 0xFF) OR (ucast (b ! (off + 1)) AND 0xFF)) s"
  by (simp add: U2BE_def buf_read_def take_Suc_conv_app_nth numeral_2_eq_2)

lemma wp_u2f_io_send [simp]:
  "n \<le> 64 \<Longrightarrow> length (io_ep_buffer s) = 64 \<Longrightarrow> wp_c (u2f_io_send n m) Q E s =
    (if m = U2F_MEDIA_USB
     then Q () (s\<lparr>io_ep_buffer := take n (io_ep_buffer s) @ replicate (64 - n) 0,
                  u2f_sent := u2f_sent s @ [take n (io_ep_buffer s) @ replicate (64 - n) 0]\<rparr>)
     else Q () s)"
  by (simp add: u2f_io_send_def USB_SEGMENT_SIZE_def)

section \<open>The invariant\<close>

definition sending_state :: "u2f_transport_state \<Rightarrow> bool" where
  "sending_state st \<longleftrightarrow> st = U2F_SENDING_RESPONSE \<or> st = U2F_SENDING_ERROR"

fun pointer_ok :: "u2f_pointer \<Rightarrow> nat \<Rightarrow> bool" where
  "pointer_ok Null n = True"
| "pointer_ok (Apdu_Buffer j) n = (j + n \<le> 337)"
| "pointer_ok (Ep_Buffer j) n = (j + n \<le> 64)"
| "pointer_ok (Const_Array bs) n = (n \<le> length bs)"

text \<open>The length a message announces, in its first bytes.\<close>

definition announced :: "u8 list \<Rightarrow> nat" where
  "announced b = unat (b ! 1) * 256 + unat (b ! 2) + 3"

definition u2f_memory :: "u2f_io \<Rightarrow> bool" where
  "u2f_memory s \<longleftrightarrow> length (io_apdu_buffer s) = 337 \<and> length (io_ep_buffer s) = 64
     \<and> length (channel (service s)) = 4 \<and> length (transportChannel (service s)) = 4
     \<and> transportReceiveBuffer (service s) = Apdu_Buffer 0 \<and> transportReceiveBufferLength (service s) = 337
     \<and> transportMedia (service s) \<noteq> U2F_MEDIA_BLE"

definition u2f_sending :: "u2f_service \<Rightarrow> bool" where
  "u2f_sending v \<longleftrightarrow> (if sending_state (transportState v)
     then pointer_ok (transportBuffer v) (unat (transportLength v)) \<and> transportOffset v \<le> transportLength v
       \<and> (transportState v = U2F_SENDING_ERROR \<longrightarrow> transportLength v = 1)
     else transportBuffer v = Apdu_Buffer 0)"

definition u2f_segmented :: "u2f_io \<Rightarrow> bool" where
  "u2f_segmented s \<longleftrightarrow> (transportState (service s) = U2F_HANDLE_SEGMENTED \<longrightarrow>
     transportOffset (service s) < transportLength (service s) \<and> unat (transportLength (service s)) \<le> 337
     \<and> unat (transportLength (service s)) = announced (io_apdu_buffer s) \<and> 3 \<le> unat (transportOffset (service s)))"

definition u2f_faked :: "u2f_service \<Rightarrow> bool" where
  "u2f_faked v \<longleftrightarrow> (fakeChannelTransportOffset v \<noteq> 0 \<longrightarrow> waitAsynchronousResponse v \<noteq> U2F_WAIT_ASYNCH_IDLE
     \<and> (fakeChannelTransportState v = U2F_INTERNAL_ERROR
        \<or> (\<not> sending_state (transportState v) \<and> fakeChannelTransportOffset v < transportLength v)))"

definition u2f_inv :: "u2f_io \<Rightarrow> bool" where
  "u2f_inv s \<longleftrightarrow> u2f_memory s \<and> u2f_sending (service s) \<and> u2f_segmented s \<and> u2f_faked (service s)"

lemmas u2f_inv_defs = u2f_inv_def u2f_memory_def u2f_sending_def u2f_segmented_def u2f_faked_def sending_state_def

lemma pointer_bytes_ok:
  "pointer_ok p n \<Longrightarrow> p \<noteq> Null \<Longrightarrow> i + k \<le> n \<Longrightarrow> length (io_apdu_buffer s) = 337 \<Longrightarrow> length (io_ep_buffer s) = 64
    \<Longrightarrow> \<exists>bs. pointer_bytes s p i k = Inr bs \<and> length bs = k"
  by (cases p) (auto simp: buf_read_def)

lemma unat_u16_less [simp]: "unat (x :: u16) < 65536"
  using unsigned_less [of x] by simp

text \<open>The acknowledgement of a packet: the next one, or the end of the transmission.\<close>

lemma inv_sending_flag: "u2f_inv s \<Longrightarrow> u2f_inv (s\<lparr>service := (service s)\<lparr>sending := b\<rparr>\<rparr>)"
  by (auto simp: u2f_inv_def u2f_memory_def u2f_sending_def u2f_segmented_def u2f_faked_def)

lemma inv_reset:
  "u2f_memory s \<Longrightarrow> u2f_inv (s\<lparr>service := u2f_transport_reset (service s)\<rparr>)"
  "u2f_memory s \<Longrightarrow> u2f_inv (s\<lparr>service := u2f_transport_reset ((service s)\<lparr>sending := b\<rparr>), io_apdu_state := st\<rparr>)"
  by (simp_all add: u2f_inv_def u2f_memory_def u2f_sending_def u2f_segmented_def u2f_faked_def u2f_transport_reset_def sending_state_def)

lemma inv_sent_packet:
  assumes "u2f_inv s" "sending_state (transportState (service s))" "off \<le> transportLength (service s)" "length ep = 64"
  shows "u2f_inv (s\<lparr>service := (service s)\<lparr>sending := False, transportOffset := off, transportPacketIndex := i\<rparr>,
    io_ep_buffer := ep, u2f_sent := x\<rparr>)"
    "u2f_inv (s\<lparr>io_ep_buffer := ep,
    service := (service s)\<lparr>sending := False, transportOffset := off, transportPacketIndex := i\<rparr>\<rparr>)"
  using assms by (auto simp: u2f_inv_defs)

lemma wp_transport_sent:
  assumes "u2f_inv s"
  shows "wp_c (u2f_transport_sent m) (\<lambda>_. u2f_inv) E s"
proof -
  let ?v = "service s"
  note a = assms [unfolded u2f_inv_defs]
  show ?thesis
  proof (cases "u2f_message_repliable ?v \<and> (transportState ?v = U2F_SENDING_RESPONSE \<or> transportState ?v = U2F_SENDING_ERROR)
      \<and> transportOffset ?v < transportLength ?v")
    case False
    have m: "u2f_memory s" using assms by (simp add: u2f_inv_def)
    have "wp_c (u2f_transport_sent m) (\<lambda>_. u2f_inv) E s" if "\<not> u2f_message_repliable ?v"
      unfolding u2f_transport_sent_def using that by (simp add: inv_sending_flag [OF assms])
    moreover have "wp_c (u2f_transport_sent m) (\<lambda>_. u2f_inv) E s"
      if "transportState ?v \<noteq> U2F_SENDING_RESPONSE \<and> transportState ?v \<noteq> U2F_SENDING_ERROR"
      unfolding u2f_transport_sent_def using that by (simp add: inv_sending_flag [OF assms])
    moreover have "wp_c (u2f_transport_sent m) (\<lambda>_. u2f_inv) E s" if "\<not> transportOffset ?v < transportLength ?v"
      unfolding u2f_transport_sent_def using that by (simp add: inv_sending_flag [OF assms] inv_reset(2) [OF m])
    ultimately show ?thesis using False by blast
  next
    case True
    let ?mtu = "if m = U2F_MEDIA_USB then 64 else 32 :: nat" and ?c = "if m = U2F_MEDIA_USB then 4 else 0 :: nat"
    let ?h = "if transportPacketIndex ?v = 0 then ?c + 3 else ?c + 1"
    let ?left = "unat (transportLength ?v) - unat (transportOffset ?v)"
    let ?b = "if ?left > ?mtu - ?h then ?mtu - ?h else ?left"
    have b: "unat (transportOffset ?v) + ?b \<le> unat (transportLength ?v)" "?b + ?h \<le> 64" "?b < 65536"
      using True by (auto simp: word_less_nat_alt)
    have u: "unat (transportOffset ?v + of_nat ?b) = unat (transportOffset ?v) + ?b"
    proof -
      have "unat (transportLength ?v) < 2 ^ 16" by simp
      then have "unat (transportOffset ?v) + ?b < 2 ^ 16" using b(1) by linarith
      then show ?thesis using b(3) by (simp add: unat_word_ariths unat_of_nat split del: if_split)
    qed
    have ok: "pointer_ok (transportBuffer ?v) (unat (transportLength ?v))" using a True by auto
    have r: "\<exists>bs. pointer_bytes t (transportBuffer ?v) (unat (transportOffset ?v)) ?b = Inr bs \<and> length bs = ?b"
      if "transportBuffer ?v \<noteq> Null" "length (io_apdu_buffer t) = 337" "length (io_ep_buffer t) = 64" for t
      by (rule pointer_bytes_ok [OF ok that(1) b(1) that(2,3)])
    obtain f where f: "transportBuffer ?v \<noteq> Null \<Longrightarrow> length (io_apdu_buffer t) = 337 \<Longrightarrow> length (io_ep_buffer t) = 64
        \<Longrightarrow> pointer_bytes t (transportBuffer ?v) (unat (transportOffset ?v)) ?b = Inr (f t) \<and> length (f t) = ?b" for t
      using r by metis
    have v: "u2f_message_repliable ?v" "\<not> (transportState ?v \<noteq> U2F_SENDING_RESPONSE \<and> transportState ?v \<noteq> U2F_SENDING_ERROR)"
      "transportOffset ?v < transportLength ?v" using True by auto
    define n where "n = ?b"
    note f = f [folded n_def] and b = b [folded n_def] and u = u [folded n_def]
    have l: "length (io_ep_buffer s) = 64" "length (io_apdu_buffer s) = 337" "length (channel ?v) = 4" using a by simp_all
    have st: "sending_state (transportState ?v)" using v(2) by (simp add: sending_state_def)
    have le: "transportOffset ?v + of_nat n \<le> transportLength ?v" using b(1) u by (simp only: word_le_nat_alt)
    show ?thesis
      unfolding u2f_transport_sent_def Let_def USB_SEGMENT_SIZE_def BLE_SEGMENT_SIZE_def
      apply (simp only: wp_bind wp_get_service wp_set_service id_apply v if_True if_False not_True_eq_False n_def [symmetric])
      using b f le l st
      by (cases "m = U2F_MEDIA_USB"; cases "transportPacketIndex ?v = 0"; cases "transportBuffer ?v = Null")
        (simp_all add: read_pointer_def inv_sent_packet [OF assms])
  qed
qed

text \<open>
  The loop that sends all segments of a reply over Bluetooth: each round sends a segment of at
  least one byte or ends the transmission, so one round more than there are bytes left suffices.
\<close>

definition u2f_pumping :: "u2f_io \<Rightarrow> bool" where
  "u2f_pumping s \<longleftrightarrow> length (io_apdu_buffer s) = 337 \<and> length (io_ep_buffer s) = 64
     \<and> u2f_message_repliable (service s) \<and> transportState (service s) = U2F_SENDING_RESPONSE
     \<and> transportMedia (service s) \<noteq> U2F_MEDIA_USB \<and> transportOffset (service s) \<le> transportLength (service s)
     \<and> pointer_ok (transportBuffer (service s)) (unat (transportLength (service s)))"

definition bytes_left :: "u2f_io \<Rightarrow> nat" where
  "bytes_left s = unat (transportLength (service s)) - unat (transportOffset (service s))"

lemma pumping_next:
  "u2f_pumping s \<Longrightarrow> off \<le> transportLength (service s) \<Longrightarrow> length ep = 64 \<Longrightarrow>
    u2f_pumping (s\<lparr>io_ep_buffer := ep,
      service := (service s)\<lparr>sending := False, transportOffset := off, transportPacketIndex := i\<rparr>\<rparr>)"
  by (auto simp: u2f_pumping_def u2f_message_repliable_def)

lemma wp_pumping_sent:
  assumes s: "u2f_pumping s" and m: "m \<noteq> U2F_MEDIA_USB"
  shows "wp_c (u2f_transport_sent m) (\<lambda>_ t. if bytes_left s = 0 then io_apdu_state t = APDU_IDLE
    else u2f_pumping t \<and> bytes_left t < bytes_left s) E s"
proof -
  let ?v = "service s"
  note a = s [unfolded u2f_pumping_def]
  show ?thesis
  proof (cases "transportOffset ?v < transportLength ?v")
    case False
    then have "transportOffset ?v = transportLength ?v" using a by auto
    with a show ?thesis by (simp add: u2f_transport_sent_def bytes_left_def)
  next
    case True
    let ?h = "if transportPacketIndex ?v = 0 then 0 + 3 else 0 + 1 :: nat"
    let ?left = "unat (transportLength ?v) - unat (transportOffset ?v)"
    define n where "n = (if ?left > 32 - ?h then 32 - ?h else ?left)"
    have n: "0 < n" "unat (transportOffset ?v) + n \<le> unat (transportLength ?v)" "n + ?h \<le> 64" "n < 65536"
      using True by (auto simp: word_less_nat_alt n_def)
    have u: "unat (transportOffset ?v + of_nat n) = unat (transportOffset ?v) + n"
    proof -
      have "unat (transportLength ?v) < 2 ^ 16" by simp
      then have "unat (transportOffset ?v) + n < 2 ^ 16" using n(2) by linarith
      then show ?thesis using n(4) by (simp add: unat_word_ariths unat_of_nat)
    qed
    have ok: "pointer_ok (transportBuffer ?v) (unat (transportLength ?v))" using a by simp
    obtain f where f: "transportBuffer ?v \<noteq> Null \<Longrightarrow> length (io_apdu_buffer t) = 337 \<Longrightarrow> length (io_ep_buffer t) = 64
        \<Longrightarrow> pointer_bytes t (transportBuffer ?v) (unat (transportOffset ?v)) n = Inr (f t) \<and> length (f t) = n" for t
      using pointer_bytes_ok [OF ok _ n(2)] by metis
    have le: "transportOffset ?v + of_nat n \<le> transportLength ?v" using n(2) u by (simp only: word_le_nat_alt)
    have left: "bytes_left s \<noteq> 0" using True by (simp add: bytes_left_def word_less_nat_alt)
    have less: "?left - n < ?left" "unat (transportLength ?v) - (unat (transportOffset ?v) + n) < ?left"
      using n(1,2) True by (simp_all add: word_less_nat_alt)
    have v: "u2f_message_repliable ?v" "\<not> (transportState ?v \<noteq> U2F_SENDING_RESPONSE \<and> transportState ?v \<noteq> U2F_SENDING_ERROR)"
      "length (io_ep_buffer s) = 64" "length (io_apdu_buffer s) = 337" using a by simp_all
    show ?thesis
      unfolding u2f_transport_sent_def Let_def USB_SEGMENT_SIZE_def BLE_SEGMENT_SIZE_def
      apply (simp only: wp_bind wp_get_service wp_set_service id_apply v(1,2) True m if_True if_False
          not_True_eq_False n_def [symmetric])
      using n f le left less v(3,4) u
      by (cases "transportPacketIndex ?v = 0"; cases "transportBuffer ?v = Null")
        (simp_all add: read_pointer_def pumping_next [OF s] m bytes_left_def)
  qed
qed

lemma pump_all_finishes:
  "u2f_pumping s \<or> io_apdu_state s = APDU_IDLE \<Longrightarrow> bytes_left s < n \<or> io_apdu_state s = APDU_IDLE \<Longrightarrow>
    wp_c (pump_all n) (\<lambda>_ t. io_apdu_state t = APDU_IDLE) E s"
proof (induction n arbitrary: s)
  case (Suc n)
  show ?case
  proof (cases "io_apdu_state s = APDU_IDLE")
    case False
    with Suc.prems have s: "u2f_pumping s" "bytes_left s < Suc n" by auto
    then have "transportMedia (service s) \<noteq> U2F_MEDIA_USB" by (simp add: u2f_pumping_def)
    note sent = wp_pumping_sent [OF s(1) this]
    have "wp_c (u2f_transport_sent (transportMedia (service s)))
        (\<lambda>_. wp_c (pump_all n) (\<lambda>_ t. io_apdu_state t = APDU_IDLE) E) E s"
      by (rule wp_mono [OF sent]) (use s(2) Suc.IH in \<open>auto split: if_splits\<close>)
    with False show ?thesis by simp
  qed simp
qed simp

lemma wp_transport_error:
  assumes "u2f_memory s" "fakeChannelTransportOffset (service s) \<noteq> 0 \<longrightarrow>
      waitAsynchronousResponse (service s) \<noteq> U2F_WAIT_ASYNCH_IDLE \<and> fakeChannelTransportState (service s) = U2F_INTERNAL_ERROR"
  shows "wp_c (u2f_transport_error e) (\<lambda>_. u2f_inv) E s"
proof -
  have "length (io_ep_buffer s) = 64" using assms(1) by (simp add: u2f_memory_def)
  then show ?thesis
    using assms by (auto simp: u2f_transport_error_def u2f_inv_defs intro!: wp_transport_sent)
qed

lemma wp_presence_required:
  "u2f_inv s \<Longrightarrow> wp_c u2f_transport_send_usb_user_presence_required (\<lambda>_ t. u2f_inv t
     \<and> (\<exists>x y z. t = s\<lparr>service := (service s)\<lparr>sending := x\<rparr>, io_ep_buffer := y, u2f_sent := z\<rparr>)) E s"
  by (auto simp: u2f_transport_send_usb_user_presence_required_def u2f_inv_defs)

lemma wp_wink: "u2f_inv s \<Longrightarrow> wp_c u2f_transport_send_wink (\<lambda>_. u2f_inv) E s"
  by (auto simp: u2f_transport_send_wink_def u2f_inv_defs)

lemma wp_message_reply:
  assumes "u2f_inv s" "pointer_ok buffer (unat len)" "fakeChannelTransportOffset (service s) = 0"
  shows "wp_c (u2f_message_reply cmd buffer len) (\<lambda>_. u2f_inv) E s"
proof -
  have "transportMedia (service s) \<noteq> U2F_MEDIA_BLE" using assms(1) by (simp add: u2f_inv_defs)
  then show ?thesis
    using assms by (auto simp: u2f_message_reply_def u2f_inv_defs intro!: wp_transport_sent)
qed

lemma wp_reply_array:
  "u2f_inv s \<Longrightarrow> length bs < 65536 \<Longrightarrow> fakeChannelTransportOffset (service s) = 0 \<Longrightarrow>
    wp_c (reply_array cmd bs) (\<lambda>_. u2f_inv) E s"
  unfolding reply_array_def by (rule wp_message_reply) (simp_all add: unat_of_nat)

section \<open>Messages\<close>

lemma wp_read_apdu [simp]:
  "i + j + n \<le> length (io_apdu_buffer s) \<Longrightarrow>
    wp_c (read_pointer (Apdu_Buffer i) j n) Q E s = Q (take n (drop (i + j) (io_apdu_buffer s))) s"
  by (simp add: read_pointer_def buf_read_def)

lemma wp_write_apdu [simp]:
  "i + j + length bs \<le> length (io_apdu_buffer s) \<Longrightarrow> wp_c (write_pointer (Apdu_Buffer i) j bs) Q E s =
    Q () (s\<lparr>io_apdu_buffer := take (i + j) (io_apdu_buffer s) @ bs @ drop (i + j + length bs) (io_apdu_buffer s)\<rparr>)"
  by (simp add: buf_write_def wp_c_def try_modify_c_def)

declare write_pointer.simps [simp del]

text \<open>While a complete message is handled nobody waits for the user.\<close>

definition u2f_handling :: "u2f_io \<Rightarrow> bool" where
  "u2f_handling s \<longleftrightarrow> u2f_memory s \<and> transportState (service s) = U2F_PROCESSING_COMMAND
     \<and> transportBuffer (service s) = Apdu_Buffer 0 \<and> fakeChannelTransportOffset (service s) = 0"

lemma handling_inv: "u2f_handling s \<Longrightarrow> u2f_inv s"
  by (simp add: u2f_handling_def u2f_inv_defs)

lemma handling_buffer:
  "u2f_handling s \<Longrightarrow> length b = 337 \<Longrightarrow> u2f_handling (s\<lparr>io_apdu_buffer := b\<rparr>)"
  by (simp add: u2f_handling_def u2f_memory_def)

lemma handling_array: "u2f_handling s \<Longrightarrow> length bs < 65536 \<Longrightarrow> wp_c (reply_array cmd bs) (\<lambda>_. u2f_inv) E s"
  by (rule wp_reply_array) (simp_all add: handling_inv u2f_handling_def)

lemma handling_length: "u2f_handling s \<Longrightarrow> length (io_apdu_buffer s) = 337"
  by (simp add: u2f_handling_def u2f_memory_def)

lemmas u2f_arrays = U2F_SW_BUSY_def U2F_SW_PROOF_OF_PRESENCE_REQUIRED_def U2F_SW_BAD_KEY_HANDLE_def
  U2F_SW_UNKNOWN_INSTRUCTION_def U2F_SW_UNKNOWN_CLASS_def U2F_SW_WRONG_LENGTH_def U2F_SW_INTERNAL_def
  U2F_VERSION_def INFO_def U2F_PROXY_MAGIC_def

lemma wp_seq: "wp_c m R E s \<Longrightarrow> (\<And>x t. R x t \<Longrightarrow> wp_c (f x) Q E t) \<Longrightarrow> wp_c (bind_c m f) Q E s"
  unfolding wp_bind by (rule wp_mono)

lemma wp_if: "(b \<Longrightarrow> wp_c m Q E s) \<Longrightarrow> (\<not> b \<Longrightarrow> wp_c m' Q E s) \<Longrightarrow> wp_c (if b then m else m') Q E s"
  by simp

lemma wp_handling_read:
  "u2f_handling s \<Longrightarrow> i + j + n \<le> 337 \<Longrightarrow>
    wp_c (read_pointer (Apdu_Buffer i) j n) (\<lambda>bs t. u2f_handling t \<and> length bs = n) E s"
  using handling_length [of s] by simp

lemma wp_handling_write:
  "u2f_handling s \<Longrightarrow> i + j + length bs \<le> 337 \<Longrightarrow> wp_c (write_pointer (Apdu_Buffer i) j bs) (\<lambda>_. u2f_handling) E s"
  using handling_length [of s] by (simp add: handling_buffer)

lemma wp_handling_reply:
  "u2f_handling s \<Longrightarrow> j + unat len \<le> 337 \<Longrightarrow> wp_c (u2f_message_reply cmd (Apdu_Buffer j) len) (\<lambda>_. u2f_inv) E s"
  by (rule wp_message_reply) (simp_all add: handling_inv u2f_handling_def)

lemma wp_apdu_sign:
  assumes "u2f_handling s"
  shows "wp_c (u2f_apdu_sign p1 (Apdu_Buffer 10) len) (\<lambda>_. u2f_inv) E s"
proof -
  note [simp] = handling_length [OF assms]
  have h: "u2f_handling (t\<lparr>io_apdu_length := x, tunnelled := y, io_apdu_state := z\<rparr>)" if "u2f_handling t" for t x y z
    using that by (simp add: u2f_handling_def u2f_memory_def)
  have wait: "wp_c (u2f_message_set_autoreply_wait_user_presence True) (\<lambda>_. u2f_inv) E t" if "u2f_handling t" for t
    using that
    by (auto simp: u2f_message_set_autoreply_wait_user_presence_def handling_inv u2f_handling_def u2f_inv_defs
        intro!: wp_mono [OF wp_presence_required])
  have le: "unat (b :: u8) \<le> 262" for b using unat_u8_le [of b] by linarith
  have mask: "length (mask_magic bs) = length bs" for bs by (simp add: mask_magic_def)
  have small: "0 + unat (ucast (b :: u8) + 1 + 2 + 2 :: u16) \<le> 337" for b
  proof -
    have "5 + unat b \<le> 260" using unat_u8_le [of b] by linarith
    then have "(5 + unat b) mod 65536 \<le> 337" using mod_less_eq_dividend [of "5 + unat b" 65536] by linarith
    then show ?thesis by (simp add: unat_word_ariths)
  qed
  have arrays: "length U2F_SW_BUSY < 65536" "length U2F_SW_WRONG_LENGTH < 65536" "length U2F_SW_PROOF_OF_PRESENCE_REQUIRED < 65536"
    "length U2F_SW_BAD_KEY_HANDLE < 65536" "length U2F_PROXY_MAGIC = 13"
    by (simp_all add: u2f_arrays)
  have magic: "wp_c (bind_c (write_apdu 0 [of_nat (length U2F_PROXY_MAGIC)]) (\<lambda>_.
      bind_c (write_apdu 1 U2F_PROXY_MAGIC) (\<lambda>_.
      bind_c (write_apdu (1 + length U2F_PROXY_MAGIC) [0x90, 0x00, 0x90, 0x00]) (\<lambda>_.
      bind_c (read_pointer (Apdu_Buffer 0) 0 1) (\<lambda>n.
      u2f_message_reply U2F_CMD_MSG (Apdu_Buffer 0) (ucast (hd n) + 1 + 2 + 2)))))) (\<lambda>_. u2f_inv) E t"
    if "u2f_handling t" for t
    unfolding write_apdu_def
    apply (rule wp_seq [OF wp_handling_write [OF that]], simp)
    apply (rule wp_seq [OF wp_handling_write], assumption, simp add: arrays)
    apply (rule wp_seq [OF wp_handling_write], assumption, simp add: arrays)
    apply (rule wp_seq [OF wp_handling_read], assumption, simp)
    apply (rule wp_handling_reply, blast, rule small)
    done
  have unmask: "wp_c (bind_c (read_pointer (Apdu_Buffer 10) U2F_HANDLE_SIGN_HEADER_SIZE (unat k)) (\<lambda>handle.
      bind_c (write_pointer (Apdu_Buffer 10) U2F_HANDLE_SIGN_HEADER_SIZE (mask_magic handle)) (\<lambda>_.
      bind_c (read_pointer (Apdu_Buffer 10) (U2F_HANDLE_SIGN_HEADER_SIZE + 4) 1) (\<lambda>lc.
      if unat len \<noteq> U2F_HANDLE_SIGN_HEADER_SIZE + 5 + unat (hd lc) then reply_array U2F_CMD_MSG U2F_SW_BAD_KEY_HANDLE
      else
        bind_c (read_pointer (Apdu_Buffer 10) U2F_HANDLE_SIGN_HEADER_SIZE (unat k)) (\<lambda>apdu.
        bind_c (write_apdu 0 apdu) (\<lambda>_.
        bind_c (modify_c (\<lambda>s. s\<lparr>io_apdu_length := of_nat (unat k), tunnelled := True, io_apdu_state := APDU_U2F\<rparr>)) (\<lambda>_.
        u2f_message_set_autoreply_wait_user_presence True))))))) (\<lambda>_. u2f_inv) E t"
    if "u2f_handling t" for t and k :: u8
    unfolding write_apdu_def U2F_HANDLE_SIGN_HEADER_SIZE_def
    by (rule wp_seq [OF wp_handling_read [OF that]], simp add: le,
        rule wp_seq [OF wp_handling_write], blast, simp add: mask le,
        rule wp_seq [OF wp_handling_read], assumption, simp,
        rule wp_if, rule handling_array, blast, rule arrays,
        rule wp_seq [OF wp_handling_read], blast, simp add: le,
        rule wp_seq [OF wp_handling_write], blast, simp add: order_trans [OF le],
        simp, rule wait, rule h, assumption)
  show ?thesis
    unfolding u2f_apdu_sign_def Let_def
    apply (subst wp_bind, subst wp_gets, intro wp_if)
       apply (rule handling_array [OF assms], rule arrays)+
    apply (rule wp_seq [OF wp_handling_read [OF assms]])
     apply (simp add: U2F_HANDLE_SIGN_HEADER_SIZE_def)
    apply (rule wp_seq [where R = "\<lambda>_. u2f_handling"])
     apply (rule wp_if)
      apply (rule wp_seq [OF wp_handling_read], blast)
       apply (simp add: U2F_HANDLE_SIGN_HEADER_SIZE_def)
      apply simp
     apply simp
    apply (rule wp_if)
     apply (rule magic, assumption)
    apply (rule unmask, assumption)
    done
qed

lemma wp_cmd_init:
  assumes "u2f_handling s" "length ch = 4"
  shows "wp_c (u2f_handle_cmd_init (Apdu_Buffer 3) ch) (\<lambda>_. u2f_inv) E s"
proof -
  have v: "u2f_handling (t\<lparr>service := (service t)\<lparr>next_channel := n\<rparr>\<rparr>)"
    "length c = 4 \<Longrightarrow> u2f_handling (t\<lparr>service := (service t)\<lparr>channel := c\<rparr>\<rparr>)" if "u2f_handling t" for t n c
    using that by (simp_all add: u2f_handling_def u2f_memory_def)
  show ?thesis
    unfolding u2f_handle_cmd_init_def write_apdu_def
    apply (rule wp_seq [where R = "\<lambda>c t. u2f_handling t \<and> length c = 4"])
     apply (use assms v(1) in simp)
    apply (rule wp_seq [OF wp_handling_read], blast, simp)
    apply (rule wp_seq [OF wp_handling_write], blast, simp)
    apply (rule wp_seq [OF wp_handling_write], blast, simp)
    apply (rule wp_seq [OF wp_handling_write], blast, simp)
    apply (rule wp_seq [where R = "\<lambda>_. u2f_handling"])
     apply (use v(2) in simp)
    apply (rule wp_handling_reply, assumption, simp)
    done
qed

lemma wp_cmd_msg:
  assumes "u2f_handling s"
  shows "wp_c (u2f_handle_cmd_msg (Apdu_Buffer 3) len) (\<lambda>_. u2f_inv) E s"
proof -
  have arrays: "length U2F_SW_WRONG_LENGTH < 65536" "length U2F_SW_UNKNOWN_CLASS < 65536" "length U2F_SW_INTERNAL < 65536"
    "length U2F_VERSION < 65536" "length INFO < 65536" "length U2F_SW_UNKNOWN_INSTRUCTION < 65536"
    by (simp_all add: u2f_arrays)
  show ?thesis
    unfolding u2f_handle_cmd_msg_def Let_def u2f_apdu_enroll_def u2f_apdu_get_version_def u2f_apdu_get_info_def
    by (rule wp_seq [OF wp_handling_read [OF assms]])
      (auto intro!: handling_array wp_apdu_sign simp: arrays split: option.split)
qed

lemma unat_two_bytes:
  "unat (push_bit 8 (ucast x) OR ucast y :: u16) = unat x * 256 + unat y"
  "unat (push_bit 8 (ucast x) OR ucast y :: u32) = unat x * 256 + unat y" for x y :: u8
proof -
  have less: "unat x * 256 mod 65536 = unat x * 256" "unat x * 256 mod 4294967296 = unat x * 256"
    using unat_u8_less [of x] by (simp_all only: mod_less)
  have p: "unat (push_bit 8 (ucast x) :: u16) = push_bit 8 (unat x)" "unat (push_bit 8 (ucast x) :: u32) = push_bit 8 (unat x)"
    unfolding unat_push_bit unat_ucast_widen by (simp_all add: push_bit_eq_mult less)
  have e: "push_bit 8 (unat x) OR unat y = unat x * 256 + unat y" by (subst nat_or_shifted) simp_all
  show "unat (push_bit 8 (ucast x) OR ucast y :: u16) = unat x * 256 + unat y"
    unfolding unsigned_or_eq p unat_ucast_widen by (rule e)
  show "unat (push_bit 8 (ucast x) OR ucast y :: u32) = unat x * 256 + unat y"
    unfolding unsigned_or_eq p unat_ucast_widen by (rule e)
qed

lemma wp_message_complete:
  assumes "u2f_handling s" "announced (io_apdu_buffer s) \<le> 337"
  shows "wp_c u2f_message_complete (\<lambda>_. u2f_inv) E s"
proof -
  have l: "length (io_apdu_buffer s) = 337" by (rule handling_length [OF assms(1)])
  have f: "transportBuffer (service s) = Apdu_Buffer 0" "length (channel (service s)) = 4"
    using assms(1) by (simp_all add: u2f_handling_def u2f_memory_def)
  let ?h = "take 3 (io_apdu_buffer s)"
  have n: "?h ! 1 = io_apdu_buffer s ! 1" "?h ! 2 = io_apdu_buffer s ! 2" by simp_all
  have p: "3 + unat (push_bit 8 (ucast (?h ! 1)) OR ucast (?h ! 2) :: u16) \<le> 337"
    unfolding unat_two_bytes n using assms(2) by (simp add: announced_def)
  show ?thesis
    using l f wp_cmd_init [OF assms(1) f(2)] wp_cmd_msg [OF assms(1)] wp_handling_reply [OF assms(1) p] handling_inv [OF assms(1)]
    by (simp add: u2f_message_complete_def u2f_handle_cmd_ping_def Let_def del: nth_take One_nat_def)
qed

section \<open>Packets\<close>

lemma wp_fake_error:
  assumes "u2f_memory s" "u2f_sending (service s)" "u2f_segmented s" "waitAsynchronousResponse (service s) \<noteq> U2F_WAIT_ASYNCH_IDLE"
  shows "wp_c fake_error Q u2f_inv s"
  using assms by (auto simp: fake_error_def u2f_inv_def u2f_memory_def u2f_sending_def u2f_segmented_def u2f_faked_def)

lemma wp_fake_complete:
  assumes "u2f_memory s" "u2f_sending (service s)" "u2f_segmented s" "waitAsynchronousResponse (service s) \<noteq> U2F_WAIT_ASYNCH_IDLE"
    and "fakeChannelTransportOffset (service s) < transportLength (service s) \<Longrightarrow> fakeChannelTransportOffset (service s) \<noteq> 0
      \<Longrightarrow> \<not> sending_state (transportState (service s))"
  shows "wp_c fake_complete (\<lambda>x t. x \<and> u2f_inv t) u2f_inv s"
proof -
  let ?v = "service s"
  let ?t = "s\<lparr>service := ?v\<lparr>fakeChannelTransportState := U2F_FAKE_RECEIVED, fakeChannelTransportOffset := 0\<rparr>\<rparr>"
  have inv: "u2f_inv ?t"
    using assms(1-3) by (auto simp: u2f_inv_def u2f_memory_def u2f_sending_def u2f_segmented_def u2f_faked_def)
  have idle: "u2f_inv (u\<lparr>service := (service u)\<lparr>fakeChannelTransportState := U2F_IDLE\<rparr>\<rparr>)"
    if "u2f_inv u" "fakeChannelTransportOffset (service u) = 0" for u
    using that by (auto simp: u2f_inv_def u2f_memory_def u2f_sending_def u2f_segmented_def u2f_faked_def)
  have presence: "wp_c u2f_transport_send_usb_user_presence_required
      (\<lambda>_ u. u2f_inv (u\<lparr>service := (service u)\<lparr>fakeChannelTransportState := U2F_IDLE\<rparr>\<rparr>)) u2f_inv ?t"
    by (rule wp_mono [OF wp_presence_required [OF inv, where E = u2f_inv]]) (auto intro!: idle)
  consider (more) "\<not> transportLength ?v \<le> fakeChannelTransportOffset ?v" | (bad) "transportLength ?v \<le> fakeChannelTransportOffset ?v"
      "fakeChannelCrc ?v \<noteq> commandCrc ?v" | (same) "transportLength ?v \<le> fakeChannelTransportOffset ?v" "fakeChannelCrc ?v = commandCrc ?v"
    by blast
  then show ?thesis
  proof cases
    case more
    then have "u2f_inv s" using assms by (auto simp: u2f_inv_def u2f_faked_def not_le)
    then show ?thesis using more by (simp add: fake_complete_def)
  next
    case bad
    then show ?thesis using wp_fake_error [OF assms(1-4)] by (simp add: fake_complete_def)
  next
    case same
    moreover have "wp_c u2f_transport_send_usb_user_presence_required
        (\<lambda>_. wp_c (set_service (\<lambda>v. v\<lparr>fakeChannelTransportState := U2F_IDLE\<rparr>))
          (\<lambda>_. wp_c (return_c True) (\<lambda>x t. x \<and> u2f_inv t) u2f_inv) u2f_inv) u2f_inv ?t"
      by (rule wp_mono [OF presence]) simp_all
    ultimately show ?thesis using inv by (simp add: fake_complete_def)
  qed
qed

lemma unat_min_length:
  assumes "n \<le> int (unat sz)" "0 \<le> rest" "0 \<le> n"
  shows "int (unat (min_length sz n rest)) = min (int (unat sz) - n) rest"
proof -
  have "int (unat sz) < 65536" by (metis of_nat_less_iff of_nat_numeral unat_u16_less)
  then have "min (int (unat sz) - n) rest < 65536" using min.cobounded1 [of "int (unat sz) - n" rest] assms(3) by linarith
  then show ?thesis using assms by (simp add: min_length_def unsigned_of_int take_bit_int_eq_self)
qed

text \<open>The parts of the invariant that only look at some of the fields.\<close>

lemma fake_fields:
  assumes "u2f_memory s" "u2f_sending (service s)" "u2f_segmented s"
    and "t = s\<lparr>service := (service s)\<lparr>fakeChannelTransportPacketIndex := i, fakeChannelTransportOffset := x, fakeChannelCrc := c\<rparr>\<rparr>"
  shows "u2f_memory t" "u2f_sending (service t)" "u2f_segmented t"
  using assms by (auto simp: u2f_memory_def u2f_sending_def u2f_segmented_def)

lemma wp_fake:
  assumes inv: "u2f_inv s" and w: "waitAsynchronousResponse (service s) \<noteq> U2F_WAIT_ASYNCH_IDLE"
    and st: "transportState (service s) \<noteq> U2F_SENDING_RESPONSE" and sz: "5 \<le> unat sz" "unat sz \<le> length buffer" "7 \<le> length buffer"
  shows "wp_c (u2f_transport_receive_fakeChannel crc buffer sz)
    (\<lambda>ok t. u2f_inv t \<and> (\<not> ok \<longrightarrow> fakeChannelTransportState (service t) = U2F_INTERNAL_ERROR
      \<and> waitAsynchronousResponse (service t) \<noteq> U2F_WAIT_ASYNCH_IDLE)) u2f_inv s"
proof -
  let ?v = "service s"
  have parts: "u2f_memory s" "u2f_sending ?v" "u2f_segmented s" "u2f_faked ?v" using inv by (simp_all add: u2f_inv_def)
  note error = wp_fake_error [OF parts(1-3) w]
  note fields = fake_fields [OF parts(1-3) refl]
  show ?thesis
  proof (cases "fakeChannelTransportState ?v = U2F_INTERNAL_ERROR \<or> take 4 buffer \<noteq> take 4 (channel ?v)")
    case True
    then show ?thesis using inv w sz error by (auto simp: u2f_transport_receive_fakeChannel_def)
  next
    case go: False
    show ?thesis
    proof (cases "fakeChannelTransportOffset ?v = 0")
      case True
      let ?n = "min_length sz 4 (int (unat (transportLength ?v)))"
      have n: "int (unat ?n) = min (int (unat sz) - 4) (int (unat (transportLength ?v)))"
        by (rule unat_min_length) (use sz in linarith)+
      then have nl: "4 + unat ?n \<le> length buffer" using sz by linarith
      let ?t = "s\<lparr>service := ?v\<lparr>fakeChannelTransportPacketIndex := 0, fakeChannelTransportOffset := ?n,
        fakeChannelCrc := crc 0 (take (unat ?n) (drop 4 buffer))\<rparr>\<rparr>"
      have "wp_c fake_complete (\<lambda>x t. x \<and> u2f_inv t) u2f_inv ?t"
      proof (rule wp_fake_complete [OF fields])
        assume "fakeChannelTransportOffset (service ?t) < transportLength (service ?t)"
        then have "unat ?n < unat (transportLength ?v)" by (simp add: word_less_nat_alt)
        then have "unat (transportLength ?v) \<noteq> 1" using n sz(1) by linarith
        then have "transportLength ?v \<noteq> 1" by auto
        then show "\<not> sending_state (transportState (service ?t))"
          using parts(2) st by (auto simp: u2f_sending_def sending_state_def)
      qed (use w in simp)
      then have fc: "wp_c fake_complete (\<lambda>x t. u2f_inv t \<and> (\<not> x \<longrightarrow> fakeChannelTransportState (service t) = U2F_INTERNAL_ERROR
        \<and> waitAsynchronousResponse (service t) \<noteq> U2F_WAIT_ASYNCH_IDLE)) u2f_inv ?t"
        by (rule wp_mono) auto
      have wk: "wp_c u2f_transport_send_wink (\<lambda>_. u2f_inv) u2f_inv s" by (rule wp_wink [OF inv])
      show ?thesis
        using go True sz nl error fc wk
        by (simp add: u2f_transport_receive_fakeChannel_def Let_def)
    next
      case False
      let ?rest = "int (unat (transportLength ?v)) - int (unat (fakeChannelTransportOffset ?v))"
      let ?n = "min_length sz 5 ?rest"
      have f: "\<not> sending_state (transportState ?v)" "fakeChannelTransportOffset ?v < transportLength ?v"
        using parts(4) False go by (auto simp: u2f_faked_def)
      have n: "int (unat ?n) = min (int (unat sz) - 5) ?rest"
        by (rule unat_min_length) (use sz f(2) [unfolded word_less_nat_alt] in linarith)+
      then have nl: "5 + unat ?n \<le> length buffer" using sz by linarith
      let ?t = "s\<lparr>service := ?v\<lparr>fakeChannelTransportPacketIndex := fakeChannelTransportPacketIndex ?v + 1,
        fakeChannelTransportOffset := fakeChannelTransportOffset ?v + ?n,
        fakeChannelCrc := crc (fakeChannelCrc ?v) (take (unat ?n) (drop 5 buffer))\<rparr>\<rparr>"
      have "wp_c fake_complete (\<lambda>x t. x \<and> u2f_inv t) u2f_inv ?t"
        by (rule wp_fake_complete [OF fields]) (use w f in simp_all)
      then have fc: "wp_c fake_complete (\<lambda>x t. u2f_inv t \<and> (\<not> x \<longrightarrow> fakeChannelTransportState (service t) = U2F_INTERNAL_ERROR
        \<and> waitAsynchronousResponse (service t) \<noteq> U2F_WAIT_ASYNCH_IDLE)) u2f_inv ?t"
        by (rule wp_mono) auto
      show ?thesis
        using go False sz nl error fc by (simp add: u2f_transport_receive_fakeChannel_def Let_def)
    qed
  qed
qed

text \<open>Nothing is being sent, and nobody waits.\<close>

definition u2f_ready :: "u2f_io \<Rightarrow> bool" where
  "u2f_ready s \<longleftrightarrow> u2f_memory s \<and> fakeChannelTransportOffset (service s) = 0
     \<and> transportBuffer (service s) = Apdu_Buffer 0 \<and> \<not> sending_state (transportState (service s))"

lemma ready_inv: "u2f_ready s \<Longrightarrow> u2f_segmented s \<Longrightarrow> u2f_inv s"
  by (auto simp: u2f_ready_def u2f_inv_def u2f_sending_def u2f_faked_def)

lemma ready_error: "u2f_ready s \<Longrightarrow> wp_c (u2f_transport_error e) (\<lambda>_. u2f_inv) E s"
  by (rule wp_transport_error) (simp_all add: u2f_ready_def)

lemma wp_received_end:
  assumes "u2f_ready s" "unat (transportLength (service s)) = announced (io_apdu_buffer s)"
    and "announced (io_apdu_buffer s) \<le> 337" "3 \<le> unat (transportOffset (service s))"
  shows "wp_c (received_end U2F_MEDIA_USB) (\<lambda>_. u2f_inv) E s"
proof (cases "transportOffset (service s) \<ge> transportLength (service s)")
  case True
  let ?t = "s\<lparr>service := (service s)\<lparr>transportState := U2F_PROCESSING_COMMAND\<rparr>\<rparr>"
  have "u2f_handling ?t" using assms(1) by (simp add: u2f_ready_def u2f_handling_def u2f_memory_def)
  then have "wp_c u2f_message_complete (\<lambda>_. u2f_inv) E ?t"
    by (rule wp_message_complete) (use assms(3) in simp)
  then show ?thesis using True by (simp add: received_end_def)
next
  case False
  let ?t = "s\<lparr>service := (service s)\<lparr>seqTimeout := 0, transportState := U2F_HANDLE_SEGMENTED\<rparr>\<rparr>"
  have "u2f_ready ?t" "u2f_segmented ?t"
    using assms False by (auto simp: u2f_ready_def u2f_memory_def sending_state_def u2f_segmented_def)
  then show ?thesis using False by (simp add: received_end_def ready_inv)
qed

text \<open>Both kinds of packets end with the same step.\<close>

lemma wp_stored:
  assumes "u2f_ready s" "length b = 337" "announced b \<le> 337" "unat l = announced b" "3 \<le> unat off" "length ch = 4"
  shows "wp_c (received_end U2F_MEDIA_USB) (\<lambda>_. u2f_inv) E
    (s\<lparr>io_apdu_buffer := b, service := (service s)\<lparr>commandCrc := c, transportOffset := off, transportLength := l,
      transportMedia := U2F_MEDIA_USB, transportPacketIndex := i, transportChannel := ch\<rparr>\<rparr>)"
  by (rule wp_received_end) (use assms in \<open>simp_all add: u2f_ready_def u2f_memory_def\<close>)

lemma wp_first_data:
  assumes r: "u2f_ready s" and sz: "7 \<le> unat sz" "unat sz \<le> length buffer"
    and n: "n = unat (buffer ! 5) * 256 + unat (buffer ! 6)" "n \<le> 334"
  shows "wp_c (receive_first_data crc buffer sz U2F_MEDIA_USB n) (\<lambda>_. u2f_inv) E s"
proof -
  let ?x = "min (unat sz - 4) (3 + n)" and ?v = "service s"
  have l: "length (io_apdu_buffer s) = 337" "transportBuffer ?v = Apdu_Buffer 0" "length (channel ?v) = 4"
    using r by (simp_all add: u2f_ready_def u2f_memory_def)
  have x: "4 + ?x \<le> length buffer" "?x \<le> 337" "3 \<le> ?x" using sz n(2) by auto
  let ?bytes = "take ?x (drop 4 buffer)"
  let ?b = "?bytes @ drop ?x (io_apdu_buffer s)"
  have lb: "length ?bytes = ?x" using x(1) by simp
  have a: "announced ?b = n + 3"
    using x(1,3) n(1) by (simp add: announced_def nth_append)
  have ln: "unat (of_nat (3 + n) :: u16) = n + 3" "unat (of_nat ?x :: u16) = ?x"
    using n(2) x(2) by (simp_all only: unat_of_nat) simp_all
  have st: "wp_c (received_end U2F_MEDIA_USB) (\<lambda>_. u2f_inv) E
    (s\<lparr>io_apdu_buffer := ?b, service := ?v\<lparr>commandCrc := crc 0 (take ?x ?b), transportOffset := of_nat ?x,
      transportLength := of_nat (3 + n), transportMedia := U2F_MEDIA_USB, transportPacketIndex := 0,
      transportChannel := take 4 (channel ?v)\<rparr>\<rparr>)"
    by (rule wp_stored [OF r]; (simp only: a ln)?) (use lb l x n(2) in simp_all)
  show ?thesis
    unfolding receive_first_data_def Let_def U2F_COMMAND_HEADER_SIZE_def if_P [OF refl]
    using l x(1,2) lb st by (simp split del: if_split)
qed

lemma wp_reply_busy: "u2f_inv s \<Longrightarrow> wp_c (reply_busy U2F_MEDIA_USB) (\<lambda>_. u2f_inv) E s"
  by (auto simp: reply_busy_def u2f_inv_defs)

lemma unat_u2be:
  "unat (ucast (push_bit 8 (ucast x AND 0xFF) OR (ucast y AND 0xFF) :: u32) :: u16) = unat x * 256 + unat y" for x y :: u8
proof -
  have "unat x * 256 + unat y < 65536" using unat_u8_less [of x] unat_u8_less [of y] by linarith
  then show ?thesis by (simp only: byte_and_FF unat_ucast_mod unat_two_bytes) simp
qed

lemma wp_receive_first:
  assumes r: "u2f_ready s" "u2f_segmented s" and sz: "5 \<le> unat sz" "unat sz \<le> length buffer"
  shows "wp_c (receive_first crc buffer sz U2F_MEDIA_USB) (\<lambda>_. u2f_inv) E s"
proof (cases "unat sz < 7")
  case True
  then show ?thesis using ready_error [OF r(1)] by (simp add: receive_first_def Let_def)
next
  case False
  let ?n = "unat (buffer ! 5) * 256 + unat (buffer ! 6)"
  have l: "5 + 2 \<le> length buffer" "4 < length buffer" using sz False by simp_all
  have limit: "int (unat (transportReceiveBufferLength (service s))) - 3 = 334"
    using r(1) by (simp add: u2f_ready_def u2f_memory_def)
  let ?w = "ucast (push_bit 8 (ucast (buffer ! 5) AND 0xFF) OR (ucast (buffer ! 6) AND 0xFF) :: u32) :: u16"
  have data: "wp_c (receive_first_data crc buffer sz U2F_MEDIA_USB (unat ?w)) (\<lambda>_. u2f_inv) E s"
    if "\<not> int (unat (transportReceiveBufferLength (service s))) - 3 < int (unat ?w)"
  proof (rule wp_first_data [OF r(1) _ sz(2) unat_u2be])
    show "unat ?w \<le> 334" using that unfolding limit by linarith
  qed (use False in linarith)
  have body: "wp_c (lift_c (U2BE buffer 5)) Q E s = Q (push_bit 8 (ucast (buffer ! 5) AND 0xFF) OR (ucast (buffer ! 6) AND 0xFF)) s" for Q
    using wp_U2BE [of 5 buffer Q E s] l(1) by (simp only:) simp
  show ?thesis
    unfolding receive_first_def Let_def if_P [OF refl]
    using l(2) False
    by (simp add: body ready_error [OF r(1)] wp_reply_busy [OF ready_inv [OF r]] data [simplified])
qed

lemma wp_next_data:
  assumes r: "u2f_ready s" "u2f_segmented s" "transportState (service s) = U2F_HANDLE_SEGMENTED"
    and k: "off = unat (transportOffset (service s))" "off + length bytes \<le> unat (transportLength (service s))" "unat x = length bytes"
  defines "b \<equiv> take off (io_apdu_buffer s) @ bytes @ drop (off + length bytes) (io_apdu_buffer s)"
  shows "wp_c (received_end U2F_MEDIA_USB) (\<lambda>_. u2f_inv) E
    (s\<lparr>io_apdu_buffer := b, service := (service s)\<lparr>commandCrc := c,
      transportOffset := transportOffset (service s) + x, transportPacketIndex := i\<rparr>\<rparr>)"
proof -
  have a: "unat (transportLength (service s)) = announced (io_apdu_buffer s)" "announced (io_apdu_buffer s) \<le> 337" "3 \<le> off"
    using r(2,3) k(1) by (auto simp: u2f_segmented_def)
  have l: "length (io_apdu_buffer s) = 337" using r(1) by (simp add: u2f_ready_def u2f_memory_def)
  have m: "min (length (io_apdu_buffer s)) off = off" using a k(2) l by simp
  have b: "length b = 337" "announced b = announced (io_apdu_buffer s)"
    using a k(2) l m by (simp_all add: b_def announced_def nth_append)
  have o: "unat (transportOffset (service s) + x) = off + length bytes"
    using k a by (simp add: unat_word_ariths)
  show ?thesis
    by (rule wp_received_end) (use r(1) a b o in \<open>simp_all add: u2f_ready_def u2f_memory_def\<close>)
qed

lemma wp_receive_next:
  assumes r: "u2f_ready s" "u2f_segmented s" and sz: "5 \<le> unat sz" "unat sz \<le> length buffer"
  shows "wp_c (receive_next crc buffer sz U2F_MEDIA_USB) (\<lambda>_. u2f_inv) E s"
proof -
  let ?v = "service s"
  have m: "u2f_memory s" using r(1) by (simp add: u2f_ready_def)
  note error = ready_error [OF r(1)]
  show ?thesis
  proof (cases "unat sz < 6 \<or> U2F_MEDIA_USB \<noteq> transportMedia ?v \<or> transportState ?v \<noteq> U2F_HANDLE_SEGMENTED
      \<or> take 4 buffer \<noteq> take 4 (channel ?v) \<or> buffer ! 4 \<noteq> transportPacketIndex ?v")
    case True
    then show ?thesis using sz error inv_reset(1) [OF m] by (auto simp: receive_next_def Let_def)
  next
    case False
    let ?rest = "int (unat (transportLength ?v)) - int (unat (transportOffset ?v))"
    let ?n = "min_length sz 5 ?rest" and ?off = "unat (transportOffset ?v)"
    have st: "transportState ?v = U2F_HANDLE_SEGMENTED" using False by simp
    then have f: "transportOffset ?v < transportLength ?v" "unat (transportLength ?v) \<le> 337"
      using r(2) by (auto simp: u2f_segmented_def)
    have n: "int (unat ?n) = min (int (unat sz) - 5) ?rest"
      by (rule unat_min_length) (use sz f(1) [unfolded word_less_nat_alt] in linarith)+
    then have nl: "5 + unat ?n \<le> length buffer" "?off + unat ?n \<le> unat (transportLength ?v)" using sz by linarith+
    let ?bytes = "take (unat ?n) (drop 5 buffer)"
    have lb: "length ?bytes = unat ?n" using nl(1) by simp
    have l: "length (io_apdu_buffer s) = 337" "transportBuffer ?v = Apdu_Buffer 0"
      using r(1) by (simp_all add: u2f_ready_def u2f_memory_def)
    have fit: "?off + unat ?n \<le> 337" using nl(2) f(2) by linarith
    let ?b = "take ?off (io_apdu_buffer s) @ ?bytes @ drop (?off + length ?bytes) (io_apdu_buffer s)"
    have "wp_c (received_end U2F_MEDIA_USB) (\<lambda>_. u2f_inv) E
      (s\<lparr>io_apdu_buffer := ?b, service := ?v\<lparr>commandCrc := crc (commandCrc ?v) (take (unat ?n) (drop ?off ?b)),
        transportOffset := transportOffset ?v + ?n, transportPacketIndex := transportPacketIndex ?v + 1\<rparr>\<rparr>)"
      by (rule wp_next_data [OF r st refl]) (use nl(2) lb in simp_all)
    then show ?thesis
      using False sz nl(1) lb l fit by (simp add: receive_next_def Let_def)
  qed
qed

lemma wp_received:
  assumes inv: "u2f_inv s" and sz: "5 \<le> unat sz" "unat sz \<le> length buffer" "7 \<le> length buffer"
  shows "wp_c (u2f_transport_received crc buffer sz U2F_MEDIA_USB) (\<lambda>_. u2f_inv) u2f_inv s"
proof -
  let ?s = "s\<lparr>service := (service s)\<lparr>media := U2F_MEDIA_USB\<rparr>\<rparr>"
  have inv': "u2f_inv ?s"
    using inv by (auto simp: u2f_inv_def u2f_memory_def u2f_sending_def u2f_segmented_def u2f_faked_def)
  have m: "u2f_memory ?s" and faked: "u2f_faked (service ?s)" using inv' by (simp_all add: u2f_inv_def)
  consider (busy) "transportState (service s) = U2F_SENDING_RESPONSE"
    | (waiting) "transportState (service s) \<noteq> U2F_SENDING_RESPONSE" "waitAsynchronousResponse (service s) \<noteq> U2F_WAIT_ASYNCH_IDLE"
    | (receive) "transportState (service s) \<noteq> U2F_SENDING_RESPONSE" "waitAsynchronousResponse (service s) = U2F_WAIT_ASYNCH_IDLE"
    by blast
  then show ?thesis
  proof cases
    case busy
    have "wp_c (u2f_transport_error ERROR_CHANNEL_BUSY) (\<lambda>_. u2f_inv) u2f_inv ?s"
      by (rule wp_transport_error [OF m]) (use busy faked in \<open>auto simp: u2f_faked_def sending_state_def\<close>)
    then show ?thesis using busy by (simp add: u2f_transport_received_def)
  next
    case waiting
    have "wp_c (u2f_transport_receive_fakeChannel crc buffer sz)
      (\<lambda>ok t. (ok \<longrightarrow> u2f_inv t) \<and> (\<not> ok \<longrightarrow> wp_c (u2f_transport_error ERROR_CHANNEL_BUSY) (\<lambda>_. u2f_inv) u2f_inv t)) u2f_inv ?s"
      by (rule wp_mono [OF wp_fake [OF inv' _ _ sz, of crc]])
        (use waiting in \<open>auto simp: u2f_inv_def intro!: wp_transport_error\<close>)
    then show ?thesis
      using waiting by (simp add: u2f_transport_received_def) (auto elim!: wp_mono)
  next
    case receive
    let ?t = "if transportState (service s) = U2F_SENDING_ERROR then ?s\<lparr>service := u2f_transport_reset (service ?s)\<rparr> else ?s"
    have t: "u2f_ready ?t" "u2f_segmented ?t"
      using inv' receive inv_reset(1) [OF m]
      by (auto simp: u2f_ready_def u2f_inv_def u2f_faked_def u2f_sending_def sending_state_def u2f_transport_reset_def u2f_memory_def)
    let ?u = "?t\<lparr>service := (service ?t)\<lparr>channel := take 4 buffer\<rparr>\<rparr>"
    have u: "u2f_ready ?u" "u2f_segmented ?u" using t sz by (auto simp: u2f_ready_def u2f_memory_def u2f_segmented_def)
    have go: "wp_c (if transportOffset (service ?u) = 0 \<or> take 4 (transportChannel (service ?u)) \<noteq> take 4 (channel (service ?u))
        then receive_first crc buffer sz U2F_MEDIA_USB else receive_next crc buffer sz U2F_MEDIA_USB) (\<lambda>_. u2f_inv) u2f_inv ?u"
      using wp_receive_first [OF u sz(1,2)] wp_receive_next [OF u sz(1,2)] by (intro wp_if) blast+
    show ?thesis
      using receive sz go
      by (cases "transportState (service s) = U2F_SENDING_ERROR") (simp_all add: u2f_transport_received_def Let_def)
  qed
qed

lemma wp_exchange_reply:
  assumes h: "u2f_handling s"
  shows "wp_c (io_exchange_u2f_reply tx_len) (\<lambda>_. u2f_inv) u2f_inv s"
proof (cases "1 + 4 + unat tx_len + 2 > length (io_apdu_buffer s)")
  case True
  then show ?thesis using handling_inv [OF h] by (simp add: io_exchange_u2f_reply_def)
next
  case False
  then have t: "unat tx_len + 7 \<le> 337" using handling_length [OF h] by simp
  then have u: "unat (tx_len + 2) = unat tx_len + 2" "unat (tx_len + 2 + 5) = unat tx_len + 7"
    by (simp_all add: unat_word_ariths)
  have rest: "wp_c (bind_c (write_apdu (unat tx_len) [0x90]) (\<lambda>_.
       bind_c (write_apdu (unat tx_len + 1) [0x00]) (\<lambda>_.
       bind_c (read_pointer (Apdu_Buffer 0) 0 (unat (tx_len + 2))) (\<lambda>bytes.
       bind_c (write_apdu 5 bytes) (\<lambda>_.
       bind_c (write_apdu 0 (replicate 5 0)) (\<lambda>_.
       u2f_message_reply U2F_CMD_MSG (Apdu_Buffer 0) (tx_len + 2 + 5)))))) ) (\<lambda>_. u2f_inv) u2f_inv s"
    unfolding write_apdu_def
    apply (rule wp_seq [OF wp_handling_write [OF h]])
     apply (use t in simp)
    apply (rule wp_seq [OF wp_handling_write], assumption)
     apply (use t in simp)
    apply (rule wp_seq [OF wp_handling_read], assumption)
     apply (use t u in simp)
    apply (rule wp_seq [OF wp_handling_write], blast)
     apply (use t u in simp)
    apply (rule wp_seq [OF wp_handling_write], assumption, simp)
    apply (rule wp_handling_reply, assumption)
    apply (use t u in simp)
    done
  show ?thesis
    unfolding io_exchange_u2f_reply_def wp_bind [of "gets_c _"] wp_gets if_not_P [OF False] Let_def
    by (rule rest)
qed

section \<open>Properties\<close>

text \<open>
The service before \<open>USB_power\<close> calls \<open>u2f_transport_init\<close> for the first time: a global variable,
all of whose bytes are zero.
\<close>

definition zero_service :: u2f_service where
  "zero_service =
     \<lparr>next_channel = 0, channel = [0, 0, 0, 0], media = U2F_MEDIA_NONE, transportReceiveBuffer = Null,
      transportReceiveBufferLength = 0, transportChannel = [0, 0, 0, 0], transportOffset = 0, transportLength = 0,
      transportPacketIndex = 0, transportBuffer = Null, transportState = U2F_IDLE, transportMedia = U2F_MEDIA_NONE,
      fakeChannelTransportOffset = 0, fakeChannelTransportPacketIndex = 0, fakeChannelTransportState = U2F_IDLE,
      commandCrc = 0, fakeChannelCrc = 0, waitAsynchronousResponse = U2F_WAIT_ASYNCH_IDLE, sending = False,
      seqTimeout = 0, sendCmd = 0\<rparr>"

lemma init_inv:
  assumes "length (io_apdu_buffer s) = 337" "length (io_ep_buffer s) = 64" "length (channel (service s)) = 4"
    "length (transportChannel (service s)) = 4"
  shows "u2f_inv (s\<lparr>service := u2f_transport_init (Apdu_Buffer 0) 337 (service s)\<rparr>)"
  using assms by (simp add: u2f_inv_defs u2f_transport_init_def u2f_transport_reset_def)

text \<open>
Property C24: the U2F transport stays inside its buffers.  From any service with its
declared arrays, such as the zeroed one of a device that has just been started,
\<open>u2f_transport_init\<close> leads into the invariant \<open>u2f_inv\<close>; and from a state that satisfies it, a packet of at least five bytes, whatever it
contains and whatever the buffer of the driver holds behind it, the acknowledgement of a
packet, and the reply of the application to a complete message return or throw in a state that
satisfies it again.
\<close>

theorem u2f_transport_safe:
  "(length (io_apdu_buffer t) = 337 \<and> length (io_ep_buffer t) = 64
      \<and> length (channel (service t)) = 4 \<and> length (transportChannel (service t)) = 4 \<longrightarrow>
      u2f_inv (t\<lparr>service := u2f_transport_init (Apdu_Buffer 0) 337 (service t)\<rparr>))
    \<and> (u2f_inv s \<and> 5 \<le> length packet \<and> length packet \<le> 64 \<and> 7 \<le> length (packet @ rest) \<longrightarrow>
      wp_c (USBD_U2F_DataOut_impl crc packet rest) (\<lambda>_. u2f_inv) u2f_inv s)
    \<and> (u2f_inv s \<longrightarrow> wp_c USBD_U2F_DataIn_impl (\<lambda>_. u2f_inv) u2f_inv s)
    \<and> (u2f_inv s \<and> transportState (service s) = U2F_PROCESSING_COMMAND \<and> fakeChannelTransportOffset (service s) = 0 \<longrightarrow>
      wp_c (io_exchange_u2f_reply tx_len) (\<lambda>_. u2f_inv) u2f_inv s)"
proof (intro conjI impI)
  assume "length (io_apdu_buffer t) = 337 \<and> length (io_ep_buffer t) = 64
      \<and> length (channel (service t)) = 4 \<and> length (transportChannel (service t)) = 4"
  then show "u2f_inv (t\<lparr>service := u2f_transport_init (Apdu_Buffer 0) 337 (service t)\<rparr>)" by (intro init_inv) simp_all
next
  assume p: "u2f_inv s \<and> 5 \<le> length packet \<and> length packet \<le> 64 \<and> 7 \<le> length (packet @ rest)"
  then have "unat (of_nat (length packet) :: u16) = length packet" by (simp add: unat_of_nat)
  with p show "wp_c (USBD_U2F_DataOut_impl crc packet rest) (\<lambda>_. u2f_inv) u2f_inv s"
    unfolding USBD_U2F_DataOut_impl_def by (intro wp_received) simp_all
next
  assume "u2f_inv s"
  then show "wp_c USBD_U2F_DataIn_impl (\<lambda>_. u2f_inv) u2f_inv s"
    unfolding USBD_U2F_DataIn_impl_def by (rule wp_transport_sent)
next
  assume "u2f_inv s \<and> transportState (service s) = U2F_PROCESSING_COMMAND \<and> fakeChannelTransportOffset (service s) = 0"
  then have "u2f_handling s" by (simp add: u2f_handling_def u2f_inv_def u2f_sending_def sending_state_def)
  then show "wp_c (io_exchange_u2f_reply tx_len) (\<lambda>_. u2f_inv) u2f_inv s" by (rule wp_exchange_reply)
qed

text \<open>A device at rest, for the examples.\<close>

definition sample_service :: u2f_service where
  "sample_service = u2f_transport_init (Apdu_Buffer 0) 337 (zero_service\<lparr>channel := [0, 0, 0, 1], media := U2F_MEDIA_USB\<rparr>)"

definition sample_u2f :: u2f_io where
  "sample_u2f = \<lparr>service = sample_service, io_apdu_buffer = replicate 337 0, io_apdu_length = 0,
     io_apdu_state = APDU_IDLE, tunnelled = False, io_ep_buffer = replicate 64 0, u2f_sent = []\<rparr>"

lemma sample_u2f_inv: "u2f_inv sample_u2f"
  by (simp add: sample_u2f_def sample_service_def zero_service_def u2f_transport_init_def u2f_transport_reset_def u2f_inv_defs)

theorem u2f_transport_safe_witness:
  "u2f_inv (sample_u2f\<lparr>service := u2f_transport_init (Apdu_Buffer 0) 337 zero_service\<rparr>)
    \<and> wp_c (USBD_U2F_DataOut_impl (\<lambda>c _. c) (replicate 5 0xFF) [0, 0]) (\<lambda>_. u2f_inv) u2f_inv sample_u2f"
proof -
  let ?t = "sample_u2f\<lparr>service := zero_service\<rparr>"
  have "length (io_apdu_buffer ?t) = 337 \<and> length (io_ep_buffer ?t) = 64
      \<and> length (channel (service ?t)) = 4 \<and> length (transportChannel (service ?t)) = 4"
    by (simp add: sample_u2f_def zero_service_def)
  then show ?thesis
    using u2f_transport_safe [of ?t sample_u2f "replicate 5 0xFF" "[0, 0]" "\<lambda>c _. c" 0] sample_u2f_inv
    by simp
qed

lemma packet_fields:
  assumes "7 \<le> length b"
  shows "buf_read b 0 4 = Inr (take 4 b)" "buf_read b 4 1 = Inr [b ! 4]"
    "U2BE b (4 + 1) = Inr (push_bit 8 (ucast (b ! 5) AND 0xFF) OR (ucast (b ! 6) AND 0xFF))"
  using assms by (simp_all add: buf_read_def U2BE_def take_Suc_conv_app_nth numeral_2_eq_2)

lemma negative_length: "unat (min_length 3 4 (int (unat l))) = 65535"
proof -
  have "min (int (unat (3 :: u16)) - 4) (int (unat l)) = - 1"
  proof -
    have "int (unat (3 :: u16)) - 4 = - 1" by simp
    moreover have "- 1 \<le> int (unat l)" by (rule order_trans [of _ 0]) simp_all
    ultimately show ?thesis by (simp only: min_absorb1)
  qed
  moreover have "unat (word_of_int (- 1) :: u16) = 65535"
    by (simp add: unsigned_minus_1_eq_mask mask_eq_exp_minus_1)
  ultimately show ?thesis unfolding min_length_def by (simp only:)
qed

text \<open>
Property C28: a short packet in the faked reception.  While the device waits for the user, a
packet of three bytes that repeats the channel and the header left in the buffer of the
driver makes the length negative: 65535 bytes are read from behind the packet.
\<close>

theorem u2f_short_packet_overreads:
  assumes "waitAsynchronousResponse (service s) \<noteq> U2F_WAIT_ASYNCH_IDLE" "transportState (service s) \<noteq> U2F_SENDING_RESPONSE"
    and "fakeChannelTransportState (service s) \<noteq> U2F_INTERNAL_ERROR" "fakeChannelTransportOffset (service s) = 0"
    and "length packet = 3" "packet @ rest = channel (service s) @ [U2F_CMD_MSG, hi, lo] @ ys" "length (channel (service s)) = 4"
    and "unat (transportLength (service s)) = unat hi * 256 + unat lo + 3" "length rest < 65536"
  shows "fst (USBD_U2F_DataOut_impl crc packet rest s) = Inl Fault"
proof -
  let ?b = "packet @ rest" and ?tl = "transportLength (service s)"
  have nth: "?b ! 4 = U2F_CMD_MSG" "?b ! 5 = hi" "?b ! 6 = lo" "take 4 ?b = channel (service s)"
    unfolding assms(6) using assms(7) by (simp_all add: nth_append)
  have l: "length ?b \<ge> 7" unfolding assms(6) using assms(7) by simp
  have u: "unat (3 :: u16) = 3" by simp
  have n: "unat (min_length 3 4 (int (unat ?tl))) = 65535" by (rule negative_length)
  have over: "buf_read ?b 4 65535 = Inl Fault" using assms(5,9) by (simp add: buf_read_def)
  have cl: "(ucast ((push_bit 8 (ucast hi AND 0xFF) OR (ucast lo AND 0xFF)) + of_nat 3 :: u32) :: u16) = ?tl"
  proof -
    have "unat hi * 256 + unat lo + 3 < 65536" using unat_u16_less [of ?tl] unfolding assms(8) .
    then show ?thesis
      using assms(8) by (simp add: word_unat_eq_iff unat_ucast_mod byte_and_FF unat_two_bytes unat_word_ariths)
  qed
  let ?w = "push_bit 8 (ucast hi AND 0xFF) OR (ucast lo AND 0xFF) :: u32"
  have rd: "buf_read ?b 0 4 = Inr (channel (service s))" "buf_read ?b 4 1 = Inr [U2F_CMD_MSG]" "U2BE ?b (4 + 1) = Inr ?w"
    unfolding packet_fields [OF l] nth by (rule refl)+
  have sz: "of_nat (length packet) = (3 :: u16)" using assms(5) by simp
  have cmd: "U2F_CMD_MSG \<noteq> U2F_CMD_WINK" by (simp add: const_defs)
  let ?s = "s\<lparr>service := (service s)\<lparr>media := U2F_MEDIA_USB\<rparr>\<rparr>"
  have sel: "fakeChannelTransportState (service ?s) \<noteq> U2F_INTERNAL_ERROR" "fakeChannelTransportOffset (service ?s) = 0"
    "channel (service ?s) = channel (service s)" "transportLength (service ?s) = ?tl"
    "transportState (service ?s) \<noteq> U2F_SENDING_RESPONSE" "waitAsynchronousResponse (service ?s) \<noteq> U2F_WAIT_ASYNCH_IDLE"
    using assms(1-4) by simp_all
  have c4: "take 4 (channel (service s)) = channel (service s)" using assms(7) by simp
  have fake: "fst (u2f_transport_receive_fakeChannel crc ?b 3 ?s) = Inl Fault"
    unfolding u2f_transport_receive_fakeChannel_def bind_c_def get_service_def set_service_def gets_c_def modify_c_def
      lift_c_def U2F_COMMAND_HEADER_SIZE_def Let_def id_apply prod.case sum.case sel c4 rd list.sel
    by (simp only: cl cmd sel c4 rd n over if_False if_True simp_thms sum.case prod.case fst_conv list.sel)
  then obtain t where "u2f_transport_receive_fakeChannel crc ?b 3 ?s = (Inl Fault, t)"
    by (cases "u2f_transport_receive_fakeChannel crc ?b 3 ?s") simp
  then have "fst (u2f_transport_received crc ?b 3 U2F_MEDIA_USB s) = Inl Fault"
    by (simp add: u2f_transport_received_def bind_c_def get_service_def set_service_def gets_c_def modify_c_def assms(1,2))
  then show ?thesis unfolding USBD_U2F_DataOut_impl_def sz .
qed

theorem u2f_short_packet_overreads_witness:
  "fst (USBD_U2F_DataOut_impl (\<lambda>c _. c) [0, 0, 0] [1, U2F_CMD_MSG, 0, 7, 0]
    (sample_u2f\<lparr>service := sample_service\<lparr>waitAsynchronousResponse := U2F_WAIT_ASYNCH_ON, transportLength := 10\<rparr>\<rparr>)) = Inl Fault"
  by (rule u2f_short_packet_overreads [where hi = 0 and lo = 7 and ys = "[0]"])
    (simp_all add: sample_service_def zero_service_def u2f_transport_init_def u2f_transport_reset_def)

end
