(* ===== verification/U2f_Messages.thy ===== *)
theory U2f_Messages
  imports U2f_Inv
begin

text \<open>
  Whole messages over the U2F transport: the packets of a message are put together, the
  packets of a reply are those of its message, and a PING is echoed.
\<close>

section \<open>Packets\<close>

definition be16 :: "nat \<Rightarrow> u8 list" where
  "be16 n = [of_nat (n div 256), of_nat (n mod 256)]"

definition u2f_packet :: "u8 list \<Rightarrow> u8 list \<Rightarrow> u8 list" where
  "u2f_packet ch content = (ch @ content) @ replicate (64 - length (ch @ content)) 0"

function u2f_next_packets :: "u8 list \<Rightarrow> nat \<Rightarrow> u8 list \<Rightarrow> u8 list list" where
  "u2f_next_packets ch i data =
     (if data = [] then []
      else u2f_packet ch (of_nat i # take 59 data) # u2f_next_packets ch (Suc i) (drop 59 data))"
  by pat_completeness auto
termination
  by (relation "measure (\<lambda>(_, _, data). length data)") (auto simp: length_greater_0_conv [symmetric] simp del: length_greater_0_conv)

declare u2f_next_packets.simps [simp del]

definition u2f_packets :: "u8 \<Rightarrow> u8 list \<Rightarrow> u8 list \<Rightarrow> u8 list list" where
  "u2f_packets cmd ch data =
     u2f_packet ch (cmd # be16 (length data) @ take 57 data) # u2f_next_packets ch 0 (drop 57 data)"

text \<open>Packets that arrive one after the other, and acknowledgements.\<close>

fun u2f_feed :: "(u16 \<Rightarrow> u8 list \<Rightarrow> u16) \<Rightarrow> u8 list \<Rightarrow> u8 list list \<Rightarrow> (u2f_io, unit) cm" where
  "u2f_feed crc rest [] = return_c ()"
| "u2f_feed crc rest (p # ps) = bind_c (USBD_U2F_DataOut_impl crc p rest) (\<lambda>_. u2f_feed crc rest ps)"

fun u2f_acknowledge :: "nat \<Rightarrow> (u2f_io, unit) cm" where
  "u2f_acknowledge 0 = return_c ()"
| "u2f_acknowledge (Suc n) = bind_c USBD_U2F_DataIn_impl (\<lambda>_. u2f_acknowledge n)"

text \<open>The checksum of a message, which is computed packet by packet.\<close>

function crc_rest :: "(u16 \<Rightarrow> u8 list \<Rightarrow> u16) \<Rightarrow> u16 \<Rightarrow> u8 list \<Rightarrow> u16" where
  "crc_rest crc c data = (if data = [] then c else crc_rest crc (crc c (take 59 data)) (drop 59 data))"
  by pat_completeness auto
termination
  by (relation "measure (\<lambda>(_, _, data). length data)") (auto simp: length_greater_0_conv [symmetric] simp del: length_greater_0_conv)

declare crc_rest.simps [simp del]

definition message_crc :: "(u16 \<Rightarrow> u8 list \<Rightarrow> u16) \<Rightarrow> u8 \<Rightarrow> u8 list \<Rightarrow> u16" where
  "message_crc crc cmd data = crc_rest crc (crc 0 (cmd # be16 (length data) @ take 57 data)) (drop 57 data)"

section \<open>Receiving\<close>

text \<open>Ready for a message.\<close>

definition u2f_idle :: "u2f_io \<Rightarrow> bool" where
  "u2f_idle s \<longleftrightarrow> u2f_inv s \<and> transportState (service s) = U2F_IDLE \<and> transportOffset (service s) = 0
     \<and> waitAsynchronousResponse (service s) = U2F_WAIT_ASYNCH_IDLE \<and> fakeChannelTransportState (service s) = U2F_IDLE"

definition u2f_channel :: "u8 list \<Rightarrow> bool" where
  "u2f_channel ch \<longleftrightarrow> length ch = 4 \<and> ch \<noteq> BROADCAST_CHANNEL \<and> ch \<noteq> FORBIDDEN_CHANNEL"

text \<open>What stays the same while a message arrives.\<close>

definition same_io :: "u2f_io \<Rightarrow> u2f_io \<Rightarrow> bool" where
  "same_io s t \<longleftrightarrow> u2f_sent t = u2f_sent s \<and> io_apdu_state t = io_apdu_state s"

text \<open>\<open>k\<close> bytes of the message have arrived, packet \<open>i\<close> is next.\<close>

definition u2f_receiving :: "(u16 \<Rightarrow> u8 list \<Rightarrow> u16) \<Rightarrow> u8 \<Rightarrow> u8 list \<Rightarrow> u8 list \<Rightarrow> nat \<Rightarrow> nat \<Rightarrow> u2f_io \<Rightarrow> bool" where
  "u2f_receiving crc cmd ch data k i s \<longleftrightarrow> u2f_ready s \<and> transportState (service s) = U2F_HANDLE_SEGMENTED
     \<and> fakeChannelTransportState (service s) = U2F_IDLE
     \<and> waitAsynchronousResponse (service s) = U2F_WAIT_ASYNCH_IDLE \<and> transportChannel (service s) = ch
     \<and> transportMedia (service s) = U2F_MEDIA_USB \<and> unat (transportLength (service s)) = 3 + length data
     \<and> unat (transportOffset (service s)) = 3 + k \<and> transportPacketIndex (service s) = of_nat i
     \<and> take (3 + k) (io_apdu_buffer s) = cmd # be16 (length data) @ take k data
     \<and> crc_rest crc (commandCrc (service s)) (drop k data) = message_crc crc cmd data"

definition u2f_complete :: "(u16 \<Rightarrow> u8 list \<Rightarrow> u16) \<Rightarrow> u8 \<Rightarrow> u8 list \<Rightarrow> u8 list \<Rightarrow> u2f_io \<Rightarrow> bool" where
  "u2f_complete crc cmd ch data s \<longleftrightarrow> u2f_handling s
     \<and> fakeChannelTransportState (service s) = U2F_IDLE
     \<and> waitAsynchronousResponse (service s) = U2F_WAIT_ASYNCH_IDLE \<and> channel (service s) = ch
     \<and> transportMedia (service s) = U2F_MEDIA_USB
     \<and> take (3 + length data) (io_apdu_buffer s) = cmd # be16 (length data) @ data
     \<and> unat (transportLength (service s)) = 3 + length data \<and> commandCrc (service s) = message_crc crc cmd data"

lemma crc_rest_Nil [simp]: "crc_rest crc c [] = c"
  by (simp add: crc_rest.simps)

lemma length_be16 [simp]: "length (be16 n) = 2"
  by (simp add: be16_def)

lemma length_u2f_packet: "length ch = 4 \<Longrightarrow> length content \<le> 60 \<Longrightarrow> length (u2f_packet ch content) = 64"
  by (simp add: u2f_packet_def)

lemma be16_value: "n < 65536 \<Longrightarrow> be16 n = [x, y] \<Longrightarrow> unat x * 256 + unat y = n"
  by (auto simp: be16_def unat_of_nat)

text \<open>After the bytes of a packet have been stored.\<close>

lemma wp_end_of_packet:
  assumes r: "u2f_ready t" "waitAsynchronousResponse (service t) = U2F_WAIT_ASYNCH_IDLE" "transportChannel (service t) = ch"
    and f: "transportMedia (service t) = U2F_MEDIA_USB" "unat (transportLength (service t)) = 3 + length data"
      "unat (transportOffset (service t)) = 3 + k" "k \<le> length data" "transportPacketIndex (service t) = of_nat i"
      "take (3 + k) (io_apdu_buffer t) = cmd # be16 (length data) @ take k data" "channel (service t) = ch"
    and go: "k < length data \<Longrightarrow> Q () (t\<lparr>service := (service t)\<lparr>seqTimeout := 0, transportState := U2F_HANDLE_SEGMENTED\<rparr>\<rparr>)"
      "k = length data \<Longrightarrow> wp_c u2f_message_complete Q E (t\<lparr>service := (service t)\<lparr>transportState := U2F_PROCESSING_COMMAND\<rparr>\<rparr>)"
  shows "wp_c (received_end U2F_MEDIA_USB) Q E t"
proof -
  have "transportOffset (service t) \<ge> transportLength (service t) \<longleftrightarrow> k = length data"
    using f(2-4) by (auto simp: word_le_nat_alt)
  then show ?thesis using go f(4) by (cases "k = length data") (simp_all add: received_end_def)
qed

lemma packet_parts:
  assumes "length ch = 4" "length content \<le> 60"
  shows "take 4 (u2f_packet ch content @ rest) = ch" "j < length content \<Longrightarrow> (u2f_packet ch content @ rest) ! (4 + j) = content ! j"
    "take (length content) (drop 4 (u2f_packet ch content @ rest)) = content"
    "length (u2f_packet ch content @ rest) = 64 + length rest"
  using assms by (simp_all add: u2f_packet_def nth_append)

lemma unat_3: "n \<le> 334 \<Longrightarrow> unat (of_nat (3 + n) :: u16) = 3 + n"
  by (simp only: unat_of_nat) simp

text \<open>The packet is stored at the start of the buffer.\<close>

lemma wp_store_first:
  assumes b: "take x (drop 4 b) = content" "length content = x" "x = min (unat sz - 4) (3 + n)" "4 \<le> length b"
    and l: "x \<le> 337" "length (io_apdu_buffer s) = 337" "transportBuffer (service s) = Apdu_Buffer 0"
    and fin: "wp_c (received_end U2F_MEDIA_USB) Q E (s\<lparr>io_apdu_buffer := content @ drop x (io_apdu_buffer s),
      service := (service s)\<lparr>commandCrc := crc 0 content, transportOffset := of_nat x, transportLength := of_nat (3 + n),
        transportMedia := U2F_MEDIA_USB, transportPacketIndex := 0, transportChannel := take 4 (channel (service s))\<rparr>\<rparr>)"
  shows "wp_c (receive_first_data crc b sz U2F_MEDIA_USB n) Q E s"
proof -
  have rd: "buf_read b 4 x = Inr content"
  proof -
    have "length (take x (drop 4 b)) = x" unfolding b(1) by (rule b(2))
    then have "4 + x \<le> length b" using b(4) by auto
    then show ?thesis using b(1) by (simp add: buf_read_def)
  qed
  show ?thesis
    unfolding receive_first_data_def Let_def U2F_COMMAND_HEADER_SIZE_def if_P [OF refl] b(3) [symmetric]
    using fin l b(2) by (simp add: rd del: of_nat_add)
qed

lemma wp_first_packet:
  assumes s: "u2f_idle s" and ch: "u2f_channel ch" and c: "cmd = U2F_CMD_PING \<or> cmd = U2F_CMD_MSG" and n: "length data \<le> 334"
    and more: "\<And>t. 57 < length data \<Longrightarrow> u2f_receiving crc cmd ch data 57 0 t \<Longrightarrow> same_io s t \<Longrightarrow> Q () t"
    and last: "\<And>t. length data \<le> 57 \<Longrightarrow> u2f_complete crc cmd ch data t \<Longrightarrow> same_io s t \<Longrightarrow> wp_c u2f_message_complete Q E t"
  shows "wp_c (USBD_U2F_DataOut_impl crc (u2f_packet ch (cmd # be16 (length data) @ take 57 data)) rest) Q E s"
proof -
  let ?n = "length data"
  define k where "k = min 57 (length data)"
  define content where "content = cmd # be16 ?n @ take 57 data"
  define b where "b = u2f_packet ch content @ rest"
  have ch4: "length ch = 4" "take 4 ch = ch" "\<not> u2f_is_channel_broadcast ch" "\<not> u2f_is_channel_forbidden ch"
    using ch by (simp_all add: u2f_channel_def u2f_is_channel_broadcast_def u2f_is_channel_forbidden_def)
  have lc: "length content = 3 + k" "length content \<le> 60" by (simp_all add: content_def k_def min.commute)
  obtain hi lo where b16: "be16 ?n = [hi, lo]" by (simp add: be16_def)
  have val: "unat hi * 256 + unat lo = ?n" by (rule be16_value [OF _ b16]) (use n in simp)
  note parts = packet_parts [OF ch4(1) lc(2), where rest = rest, folded b_def]
  have nth: "b ! 4 = cmd" "b ! 5 = hi" "b ! 6 = lo"
    using parts(2) [of 0] parts(2) [of 1] parts(2) [of 2] lc(1) by (simp_all add: content_def b16)
  have l: "7 \<le> length b" using parts(4) by simp
  have sz: "(of_nat (length (u2f_packet ch content)) :: u16) = 64" by (simp add: length_u2f_packet [OF ch4(1) lc(2)])
  let ?s = "s\<lparr>service := (service s)\<lparr>media := U2F_MEDIA_USB, channel := ch\<rparr>\<rparr>"
  have r: "u2f_ready ?s" and m: "u2f_memory s"
    using s ch4 by (auto simp: u2f_idle_def u2f_ready_def u2f_inv_def u2f_sending_def u2f_faked_def sending_state_def u2f_memory_def)
  have buf: "length (io_apdu_buffer s) = 337" "transportReceiveBufferLength (service s) = 337" "transportBuffer (service s) = Apdu_Buffer 0"
    "transportState (service s) = U2F_IDLE" "transportOffset (service s) = 0"
    "waitAsynchronousResponse (service s) = U2F_WAIT_ASYNCH_IDLE" "fakeChannelTransportState (service s) = U2F_IDLE"
    using m r s by (simp_all add: u2f_memory_def u2f_ready_def u2f_idle_def)
  have cmd: "cmd AND U2F_MASK_COMMAND \<noteq> 0" using c by (auto simp: const_defs)
  have w: "unat (ucast (push_bit 8 (ucast hi AND 0xFF) OR (ucast lo AND 0xFF) :: u32) :: u16) = ?n"
    unfolding unat_u2be by (rule val)
  have w2: "\<not> 334 < uint (ucast (push_bit 8 (ucast hi) OR ucast lo :: u32) :: u16)"
    unfolding uint_nat w [unfolded byte_and_FF] using n by simp
  have x: "3 + k = min (unat (64 :: u16) - 4) (3 + ?n)" by (simp add: k_def)
  have u: "unat (of_nat (3 + k) :: u16) = 3 + k" "unat (of_nat (3 + ?n) :: u16) = 3 + ?n"
    using n by (simp_all only: unat_of_nat k_def) simp_all
  let ?t = "?s\<lparr>io_apdu_buffer := content @ drop (3 + k) (io_apdu_buffer s), service := (service ?s)\<lparr>commandCrc := crc 0 content,
      transportOffset := of_nat (3 + k), transportLength := of_nat (3 + ?n), transportMedia := U2F_MEDIA_USB,
      transportPacketIndex := 0, transportChannel := ch\<rparr>\<rparr>"
  have tk: "take (3 + k) (io_apdu_buffer ?t) = cmd # be16 ?n @ take k data"
  proof -
    have "take 57 data = take k data" by (simp add: k_def min_def)
    then have e: "content = cmd # be16 ?n @ take k data" by (simp add: content_def)
    have "take (3 + k) (io_apdu_buffer ?t) = content" using lc(1) by simp
    then show ?thesis by (rule trans) (rule e)
  qed
  have cr: "crc_rest crc (commandCrc (service ?t)) (drop k data) = message_crc crc cmd data"
    by (simp add: message_crc_def content_def k_def min_def)
  have rt: "u2f_ready ?t" using r lc buf ch4 by (simp add: u2f_ready_def u2f_memory_def k_def)
  have fin: "wp_c (received_end U2F_MEDIA_USB) Q E ?t"
  proof (rule wp_end_of_packet [OF rt, where k = k and data = data and ch = ch and i = 0])
    assume "k < ?n"
    then have "57 < ?n" "k = 57" by (simp_all add: k_def min_def split: if_split_asm)
    then show "Q () (?t\<lparr>service := (service ?t)\<lparr>seqTimeout := 0, transportState := U2F_HANDLE_SEGMENTED\<rparr>\<rparr>)"
      using rt tk u buf cr
      by (intro more) (simp_all add: u2f_receiving_def same_io_def u2f_ready_def u2f_memory_def sending_state_def)
  next
    assume "k = ?n"
    then have "?n \<le> 57" by (simp add: k_def)
    then show "wp_c u2f_message_complete Q E (?t\<lparr>service := (service ?t)\<lparr>transportState := U2F_PROCESSING_COMMAND\<rparr>\<rparr>)"
      using rt tk buf u cr [unfolded \<open>k = ?n\<close>] \<open>k = ?n\<close>
      by (intro last) (simp_all add: u2f_complete_def same_io_def u2f_ready_def u2f_memory_def u2f_handling_def)
  qed (use u tk buf in \<open>simp_all add: k_def\<close>)
  have "wp_c (receive_first_data crc b 64 U2F_MEDIA_USB ?n) Q E ?s"
    by (rule wp_store_first [OF _ lc(1) x]) (use l parts(3) lc n buf ch4 fin in \<open>simp_all add: k_def\<close>)
  moreover have "\<not> int ?n > int (unat (337 :: u16)) - 3" using n by simp
  ultimately have first: "wp_c (receive_first crc b 64 U2F_MEDIA_USB) Q E ?s"
    unfolding receive_first_def Let_def if_P [OF refl]
    using buf l nth cmd c ch4 w w2 by (simp add: byte_and_FF)
  have "wp_c (u2f_transport_received crc b 64 U2F_MEDIA_USB) Q E s"
    unfolding u2f_transport_received_def Let_def
    using first buf l parts(1) by simp
  then show ?thesis unfolding USBD_U2F_DataOut_impl_def content_def [symmetric] b_def [symmetric] sz .
qed

lemma receiving_ready: "u2f_receiving crc cmd ch data k i s \<Longrightarrow> u2f_ready s"
  by (simp add: u2f_receiving_def)

lemma wp_next_packet:
  assumes s: "u2f_receiving crc cmd ch data k i s" and ch: "u2f_channel ch" and n: "length data \<le> 334" and k: "k < length data"
    and more: "\<And>t. k + 59 < length data \<Longrightarrow> u2f_receiving crc cmd ch data (k + 59) (Suc i) t \<Longrightarrow> same_io s t \<Longrightarrow> Q () t"
    and last: "\<And>t. length data \<le> k + 59 \<Longrightarrow> u2f_complete crc cmd ch data t \<Longrightarrow> same_io s t \<Longrightarrow> wp_c u2f_message_complete Q E t"
  shows "wp_c (USBD_U2F_DataOut_impl crc (u2f_packet ch (of_nat i # take 59 (drop k data))) rest) Q E s"
proof -
  let ?n = "length data" and ?v = "service s"
  define bytes where "bytes = take 59 (drop k data)"
  define x where "x = length bytes"
  define b where "b = u2f_packet ch (of_nat i # bytes) @ rest"
  have ch4: "length ch = 4" "take 4 ch = ch" using ch by (simp_all add: u2f_channel_def)
  have x: "x = min 59 (?n - k)" "k + x \<le> ?n" using k by (simp_all add: x_def bytes_def min.commute)
  have lc: "length (of_nat i # bytes) \<le> 60" using x(1) by (simp add: x_def [symmetric])
  note parts = packet_parts [OF ch4(1) lc, where rest = rest, folded b_def]
  have b4: "b ! 4 = of_nat i" using parts(2) [of 0] by simp
  have l: "64 \<le> length b" using parts(4) by simp
  have bytes: "take x (drop 5 b) = bytes"
  proof -
    have "drop 1 (take (Suc x) (drop 4 b)) = bytes" using parts(3) by (simp add: x_def)
    then show ?thesis by (simp add: drop_take)
  qed
  have sz: "(of_nat (length (u2f_packet ch (of_nat i # bytes))) :: u16) = 64" by (simp add: length_u2f_packet [OF ch4(1) lc])
  note st = s [unfolded u2f_receiving_def]
  let ?s = "s\<lparr>service := ?v\<lparr>media := U2F_MEDIA_USB, channel := ch\<rparr>\<rparr>"
  have r: "u2f_ready ?s" using receiving_ready [OF s] ch4 by (simp add: u2f_ready_def u2f_memory_def)
  have buf: "length (io_apdu_buffer s) = 337" "transportBuffer ?v = Apdu_Buffer 0"
    using st by (simp_all add: u2f_ready_def u2f_memory_def)
  have off: "transportOffset ?v \<noteq> 0" using st by (metis add_is_0 unat_0 zero_neq_numeral)
  define ml where "ml = min_length 64 5 (int ?n - int k)"
  have u: "unat ml = x"
  proof -
    have "int (unat ml) = min (int (unat (64 :: u16)) - 5) (int ?n - int k)"
      unfolding ml_def by (rule unat_min_length) (use k in simp_all)
    also have "\<dots> = int x" using x(1) k by (simp add: of_nat_diff)
    finally show ?thesis by (rule of_nat_eq_iff [THEN iffD1])
  qed
  have uo: "unat (transportOffset ?v + ml) = 3 + (k + x)"
    using st u x(2) n by (simp add: unat_word_ariths)
  define buf' where "buf' = take (3 + k) (io_apdu_buffer s) @ bytes @ drop (3 + k + x) (io_apdu_buffer s)"
  have lb: "length buf' = 337" using buf(1) x(2) n by (simp add: buf'_def x_def)
  define t where "t = s\<lparr>io_apdu_buffer := buf', service := ?v\<lparr>media := U2F_MEDIA_USB, channel := ch,
    commandCrc := crc (commandCrc ?v) (take x (drop (3 + k) buf')), transportOffset := transportOffset ?v + ml,
    transportPacketIndex := of_nat i + 1\<rparr>\<rparr>"
  have tk: "take (3 + (k + x)) (io_apdu_buffer t) = cmd # be16 ?n @ take (k + x) data"
  proof -
    have "length (take (3 + k) (io_apdu_buffer s)) = 3 + k" using buf(1) k n by simp
    then have "take (3 + (k + x)) buf' = take (3 + k) (io_apdu_buffer s) @ bytes" by (simp add: buf'_def x_def)
    moreover have "take (k + x) data = take k data @ bytes"
      using x(1) by (simp add: take_add bytes_def min_def)
    ultimately show ?thesis using st by (simp add: t_def)
  qed
  have cr: "crc_rest crc (commandCrc (service t)) (drop (k + x) data) = message_crc crc cmd data"
  proof -
    have "drop k data \<noteq> []" using k by simp
    then have "crc_rest crc (commandCrc ?v) (drop k data) = crc_rest crc (crc (commandCrc ?v) bytes) (drop 59 (drop k data))"
      by (subst crc_rest.simps) (simp add: bytes_def)
    moreover have "drop 59 (drop k data) = drop (k + x) data" using x(1) by (simp add: min_def add.commute)
    moreover have "take x (drop (3 + k) buf') = bytes" using buf(1) k n by (simp add: buf'_def x_def)
    ultimately show ?thesis using st by (simp add: t_def)
  qed
  have rt: "u2f_ready t" using r lb by (simp add: t_def u2f_ready_def u2f_memory_def)
  have fin: "wp_c (received_end U2F_MEDIA_USB) Q E t"
  proof (rule wp_end_of_packet [OF rt, where k = "k + x" and data = data and ch = ch and i = "Suc i"])
    assume "k + x < ?n"
    then have "k + 59 < ?n" "x = 59" using x(1) by simp_all
    then show "Q () (t\<lparr>service := (service t)\<lparr>seqTimeout := 0, transportState := U2F_HANDLE_SEGMENTED\<rparr>\<rparr>)"
      using rt tk uo st cr
      by (intro more) (simp_all add: t_def u2f_receiving_def same_io_def u2f_ready_def u2f_memory_def sending_state_def)
  next
    assume "k + x = ?n"
    then have "?n \<le> k + 59" using x(1) by simp
    then show "wp_c u2f_message_complete Q E (t\<lparr>service := (service t)\<lparr>transportState := U2F_PROCESSING_COMMAND\<rparr>\<rparr>)"
      using rt tk st cr [unfolded \<open>k + x = ?n\<close>] \<open>k + x = ?n\<close>
      by (intro last) (simp_all add: t_def u2f_complete_def same_io_def u2f_ready_def u2f_memory_def u2f_handling_def)
  qed (use uo tk st x(2) in \<open>simp_all add: t_def\<close>)
  have fields: "transportState ?v = U2F_HANDLE_SEGMENTED" "transportMedia ?v = U2F_MEDIA_USB"
    "unat (transportLength ?v) = 3 + ?n" "unat (transportOffset ?v) = 3 + k" "transportPacketIndex ?v = of_nat i"
    using st by simp_all
  have lx: "5 + x \<le> length b" "length bytes = x" using l x(1) by (simp_all add: x_def [symmetric])
  have "wp_c (receive_next crc b 64 U2F_MEDIA_USB) Q E ?s"
    unfolding receive_next_def Let_def if_P [OF refl]
    using fin fields l b4 parts(1) ch4 buf u bytes lb x(2) n lx
    by (simp add: ml_def [symmetric] buf'_def [symmetric] t_def [symmetric])
  then have "wp_c (u2f_transport_received crc b 64 U2F_MEDIA_USB) Q E s"
    unfolding u2f_transport_received_def Let_def
    using st l parts(1) ch4 off by simp
  then show ?thesis unfolding USBD_U2F_DataOut_impl_def bytes_def [symmetric] b_def [symmetric] sz .
qed

text \<open>A whole message.\<close>

lemma same_io_trans: "same_io s t \<Longrightarrow> same_io t u \<Longrightarrow> same_io s u"
  by (simp add: same_io_def)

lemma wp_next_packets:
  assumes "u2f_receiving crc cmd ch data k i s" "u2f_channel ch" "length data \<le> 334" "k < length data"
    and "\<And>t. u2f_complete crc cmd ch data t \<Longrightarrow> same_io s t \<Longrightarrow> wp_c u2f_message_complete (\<lambda>_. Q) E t"
  shows "wp_c (u2f_feed crc rest (u2f_next_packets ch i (drop k data))) (\<lambda>_. Q) E s"
  using assms(1,4,5)
proof (induction "length data - k" arbitrary: k i s rule: less_induct)
  case less
  have ne: "drop k data \<noteq> []" using less.prems(2) by simp
  have next_packets: "u2f_next_packets ch i (drop k data) = u2f_packet ch (of_nat i # take 59 (drop k data)) # u2f_next_packets ch (Suc i) (drop (k + 59) data)"
    using ne by (subst u2f_next_packets.simps) (simp add: add.commute)
  show ?case
    unfolding next_packets u2f_feed.simps wp_bind
  proof (rule wp_next_packet [OF less.prems(1) assms(2,3) less.prems(2)])
    fix t assume t: "k + 59 < length data" "u2f_receiving crc cmd ch data (k + 59) (Suc i) t" "same_io s t"
    show "wp_c (u2f_feed crc rest (u2f_next_packets ch (Suc i) (drop (k + 59) data))) (\<lambda>_. Q) E t"
      by (rule less.hyps [OF _ t(2,1)]) (use t(1) less.prems(3) same_io_trans [OF t(3)] in auto)
  next
    fix t assume t: "length data \<le> k + 59" "u2f_complete crc cmd ch data t" "same_io s t"
    then have "u2f_next_packets ch (Suc i) (drop (k + 59) data) = []" by (simp add: u2f_next_packets.simps)
    then show "wp_c u2f_message_complete (\<lambda>_. wp_c (u2f_feed crc rest (u2f_next_packets ch (Suc i) (drop (k + 59) data))) (\<lambda>_. Q) E) E t"
      using less.prems(3) [OF t(2,3)] by simp
  qed
qed

lemma wp_message:
  assumes "u2f_idle s" "u2f_channel ch" "cmd = U2F_CMD_PING \<or> cmd = U2F_CMD_MSG" "length data \<le> 334"
    and "\<And>t. u2f_complete crc cmd ch data t \<Longrightarrow> same_io s t \<Longrightarrow> wp_c u2f_message_complete (\<lambda>_. Q) E t"
  shows "wp_c (u2f_feed crc rest (u2f_packets cmd ch data)) (\<lambda>_. Q) E s"
  unfolding u2f_packets_def u2f_feed.simps wp_bind
proof (rule wp_first_packet [OF assms(1-4)])
  fix t assume t: "57 < length data" "u2f_receiving crc cmd ch data 57 0 t" "same_io s t"
  show "wp_c (u2f_feed crc rest (u2f_next_packets ch 0 (drop 57 data))) (\<lambda>_. Q) E t"
    by (rule wp_next_packets [OF t(2) assms(2,4) t(1)]) (rule assms(5), assumption, rule same_io_trans [OF t(3)])
next
  fix t assume t: "length data \<le> 57" "u2f_complete crc cmd ch data t" "same_io s t"
  then have "u2f_next_packets ch 0 (drop 57 data) = []" by (simp add: u2f_next_packets.simps)
  then show "wp_c u2f_message_complete (\<lambda>_. wp_c (u2f_feed crc rest (u2f_next_packets ch 0 (drop 57 data))) (\<lambda>_. Q) E) E t"
    using assms(5) [OF t(2,3)] by simp
qed

section \<open>Sending\<close>

text \<open>A reply of which \<open>k\<close> bytes have been sent in \<open>i\<close> packets.\<close>

definition u2f_replying :: "u8 \<Rightarrow> u8 list \<Rightarrow> u8 list \<Rightarrow> nat \<Rightarrow> nat \<Rightarrow> nat \<Rightarrow> u2f_io \<Rightarrow> bool" where
  "u2f_replying cmd ch data j k i s \<longleftrightarrow> u2f_memory s \<and> u2f_message_repliable (service s)
     \<and> transportState (service s) = U2F_SENDING_RESPONSE \<and> channel (service s) = ch \<and> sendCmd (service s) = cmd
     \<and> transportBuffer (service s) = Apdu_Buffer j \<and> j + length data \<le> 337
     \<and> take (length data) (drop j (io_apdu_buffer s)) = data
     \<and> unat (transportLength (service s)) = length data \<and> unat (transportOffset (service s)) = k
     \<and> transportPacketIndex (service s) = of_nat i \<and> k \<le> length data \<and> (k < length data \<longrightarrow> 57 * i \<le> k) \<and> (i = 0 \<longleftrightarrow> k = 0)"

definition reply_content :: "u8 \<Rightarrow> u8 list \<Rightarrow> nat \<Rightarrow> nat \<Rightarrow> u8 list" where
  "reply_content cmd data k i =
     (if i = 0 then cmd # be16 (length data) @ take 57 data else of_nat (i - 1) # take 59 (drop k data))"

lemma length_bytes_be16:
  assumes "unat (l :: u16) = n"
  shows "[ucast (drop_bit 8 l), ucast (l AND 0xff)] = be16 n"
proof -
  have "unat (ucast (drop_bit 8 l) :: u8) = n div 256 mod 256"
    using assms by (simp add: unat_ucast_mod unat_drop_bit)
  moreover have "unat (ucast (l AND 0xff) :: u8) = n mod 256"
  proof -
    have "(0xff :: u16) = mask 8" by (simp add: mask_eq_exp_minus_1)
    then have "unat (l AND 0xff) = take_bit 8 (unat l)"
      by (simp only: take_bit_eq_mask [symmetric] unsigned_take_bit_eq)
    then show ?thesis using assms by (simp add: unat_ucast_mod take_bit_eq_mod)
  qed
  ultimately show ?thesis by (simp add: be16_def word_unat_eq_iff unat_of_nat)
qed

lemma wp_reply_packet:
  assumes s: "u2f_replying cmd ch data j k i s" and ch: "length ch = 4" and k: "k < length data"
    and x: "x = (if i = 0 then min 57 (length data) else min 59 (length data - k))"
    and go: "\<And>t. u2f_replying cmd ch data j (k + x) (Suc i) t \<Longrightarrow> io_apdu_state t = io_apdu_state s
      \<Longrightarrow> u2f_sent t = u2f_sent s @ [u2f_packet ch (reply_content cmd data k i)] \<Longrightarrow> Q t"
  shows "wp_c (u2f_transport_sent U2F_MEDIA_USB) (\<lambda>_. Q) E s"
proof -
  note st = s [unfolded u2f_replying_def]
  let ?v = "service s" and ?n = "length data"
  have i: "(of_nat i :: u8) = 0 \<longleftrightarrow> i = 0"
  proof -
    have "i < 256" using st k by auto
    then show ?thesis by (auto simp: word_of_nat_eq_0_iff dest: dvd_imp_le)
  qed
  let ?h = "if i = 0 then 7 else 5 :: nat"
  let ?hdr = "if i = 0 then cmd # be16 ?n else [of_nat (i - 1)]"
  have xs: "x + ?h \<le> 64" "k + x \<le> ?n" "0 < x" using x k st by (auto split: if_splits)
  have block: "(if ?n - k > 64 - ?h then 64 - ?h else ?n - k) = x" using x st by (auto split: if_splits)
  define bytes where "bytes = take x (drop k data)"
  have lb: "length bytes = x" using xs(2) by (simp add: bytes_def)
  have rd: "buf_read (io_apdu_buffer s) (j + k) x = Inr bytes"
  proof -
    have "take x (drop k (take ?n (drop j (io_apdu_buffer s)))) = bytes" using st by (simp add: bytes_def)
    then have "take x (drop (j + k) (io_apdu_buffer s)) = bytes" using xs(2) by (simp add: drop_take min_absorb1 add.commute)
    then show ?thesis using st xs(2) by (simp add: buf_read_def u2f_memory_def)
  qed
  have f: "u2f_message_repliable ?v" "transportState ?v = U2F_SENDING_RESPONSE" "unat (transportLength ?v) = ?n"
    "unat (transportOffset ?v) = k" "transportPacketIndex ?v = of_nat i" "channel ?v = ch" "sendCmd ?v = cmd"
    "transportBuffer ?v = Apdu_Buffer j" "length (io_ep_buffer s) = 64"
    using st by (simp_all add: u2f_memory_def)
  have lt: "transportOffset ?v < transportLength ?v" using f k by (simp add: word_less_nat_alt)
  define hdr where "hdr = ?hdr"
  define h where "h = (if i = 0 then 4 + 3 else 4 + 1 :: nat)"
  have h: "h = 4 + length hdr" "?h = h" by (simp_all add: h_def hdr_def)
  have fit: "length hdr + length bytes \<le> 60" using xs(1) lb h by simp
  have hdr': "(if i = 0 then put_ep 4 [cmd, ucast (drop_bit 8 (transportLength ?v)), ucast (transportLength ?v AND 0xff)]
      else put_ep 4 [of_nat i - 1]) = put_ep 4 hdr"
    by (simp add: hdr_def length_bytes_be16 [OF f(3), symmetric] of_nat_diff)
  have c: "hdr @ bytes = reply_content cmd data k i"
    using st x by (auto simp: hdr_def bytes_def reply_content_def min_def)
  have p: "ch @ hdr @ bytes @ replicate (60 - (x + length hdr)) 0 = u2f_packet ch (reply_content cmd data k i)"
    using ch lb by (simp add: u2f_packet_def c [symmetric] add.commute)
  have u: "unat (transportOffset ?v + of_nat x) = k + x"
  proof -
    have "k + x < 65536" using xs(2) st by linarith
    then show ?thesis using f(4) by (simp add: unat_word_ariths unat_of_nat)
  qed
  let ?p = "u2f_packet ch (reply_content cmd data k i)"
  have "Q (s\<lparr>service := ?v\<lparr>sending := False, transportOffset := transportOffset ?v + of_nat x,
    transportPacketIndex := of_nat i + 1\<rparr>, io_ep_buffer := ?p, u2f_sent := u2f_sent s @ [?p]\<rparr>)"
  proof (rule go)
    have "k + x < ?n \<longrightarrow> 57 * Suc i \<le> k + x" using x st k by (auto split: if_splits)
    moreover have "length ?p = 64" using ch lb fit by (simp add: c [symmetric] length_u2f_packet)
    ultimately show "u2f_replying cmd ch data j (k + x) (Suc i) (s\<lparr>service := ?v\<lparr>sending := False,
      transportOffset := transportOffset ?v + of_nat x, transportPacketIndex := of_nat i + 1\<rparr>,
      io_ep_buffer := ?p, u2f_sent := u2f_sent s @ [?p]\<rparr>)"
      using st u xs(2,3) by (auto simp: u2f_replying_def u2f_memory_def u2f_message_repliable_def add.commute)
  qed simp_all
  then show ?thesis
    unfolding u2f_transport_sent_def Let_def USB_SEGMENT_SIZE_def BLE_SEGMENT_SIZE_def if_P [OF refl]
    apply (simp only: wp_bind wp_get_service wp_set_service id_apply f lt i if_True if_False simp_thms u2f_transport_state.distinct u2f_pointer.distinct)
    apply (simp only: h_def [symmetric] block [unfolded h(2)] hdr')
    using ch fit lb h(1) f(9) rd p f(5)
    apply (simp add: read_pointer_def)
    done
qed

text \<open>After the last packet the transport is idle.\<close>

lemma wp_reply_end:
  assumes "u2f_replying cmd ch data j (length data) i s"
    and "\<And>t. u2f_idle t \<Longrightarrow> u2f_sent t = u2f_sent s \<Longrightarrow> io_apdu_state t = APDU_IDLE \<Longrightarrow> Q t"
  shows "wp_c (u2f_transport_sent U2F_MEDIA_USB) (\<lambda>_. Q) E s"
proof -
  let ?t = "s\<lparr>service := u2f_transport_reset ((service s)\<lparr>sending := False\<rparr>), io_apdu_state := APDU_IDLE\<rparr>"
  have m: "u2f_memory s" using assms(1) by (simp add: u2f_replying_def)
  have "u2f_idle ?t"
    using inv_reset(2) [OF m] by (simp add: u2f_idle_def u2f_transport_reset_def)
  then have "Q ?t" by (rule assms(2)) simp_all
  moreover have "transportOffset (service s) = transportLength (service s)"
    using assms(1) by (simp add: u2f_replying_def word_unat_eq_iff)
  ultimately show ?thesis using assms(1) by (simp add: u2f_replying_def u2f_transport_sent_def)
qed

lemma wp_acknowledge:
  assumes "u2f_replying cmd ch data j k i s" "length ch = 4" "0 < k"
    and "\<And>t. u2f_idle t \<Longrightarrow> u2f_sent t = u2f_sent s @ u2f_next_packets ch (i - 1) (drop k data)
      \<Longrightarrow> io_apdu_state t = APDU_IDLE \<Longrightarrow> Q t"
  shows "wp_c (u2f_acknowledge (Suc (length (u2f_next_packets ch (i - 1) (drop k data))))) (\<lambda>_. Q) E s"
  using assms(1,3,4)
proof (induction "length data - k" arbitrary: k i s rule: less_induct)
  case less
  have i: "0 < i" "k \<le> length data" using less.prems(1,2) by (auto simp: u2f_replying_def)
  show ?case
  proof (cases "k = length data")
    case True
    have none: "u2f_next_packets ch (i - 1) (drop k data) = []" using True by (simp add: u2f_next_packets.simps)
    have "wp_c (u2f_transport_sent U2F_MEDIA_USB) (\<lambda>_. Q) E s"
      by (rule wp_reply_end [OF less.prems(1) [unfolded True]]) (use less.prems(3) none in simp)
    then show ?thesis
      unfolding none list.size u2f_acknowledge.simps wp_bind wp_return USBD_U2F_DataIn_impl_def .
  next
    case False
    let ?x = "min 59 (length data - k)"
    have k: "k < length data" using False i(2) by simp
    have next_packets: "u2f_next_packets ch (i - 1) (drop k data)
      = u2f_packet ch (reply_content cmd data k i) # u2f_next_packets ch (Suc i - 1) (drop (k + ?x) data)"
    proof -
      have "drop 59 (drop k data) = drop (k + ?x) data" by (simp add: min_def add.commute)
      then show ?thesis using k i(1) by (subst u2f_next_packets.simps) (simp add: reply_content_def)
    qed
    show ?thesis
      unfolding next_packets length_Cons u2f_acknowledge.simps(2) [of "Suc _"] wp_bind USBD_U2F_DataIn_impl_def
    proof (rule wp_reply_packet [OF less.prems(1) assms(2) k])
      show "?x = (if i = 0 then min 57 (length data) else ?x)" using i(1) by simp
    next
      fix t assume t: "u2f_replying cmd ch data j (k + ?x) (Suc i) t"
        "u2f_sent t = u2f_sent s @ [u2f_packet ch (reply_content cmd data k i)]"
      show "wp_c (u2f_acknowledge (Suc (length (u2f_next_packets ch (Suc i - 1) (drop (k + ?x) data))))) (\<lambda>_. Q) E t"
        by (rule less.hyps [OF _ t(1)]) (use k less.prems(2,3) next_packets t(2) in auto)
    qed
  qed
qed

text \<open>A whole reply, with the acknowledgements of its packets.\<close>

lemma wp_reply:
  assumes s: "u2f_memory s" "u2f_message_repliable (service s)" "transportMedia (service s) = U2F_MEDIA_USB" "channel (service s) = ch"
    and data: "data \<noteq> []" "j + length data \<le> 337" "take (length data) (drop j (io_apdu_buffer s)) = data" "unat len = length data"
    and go: "\<And>t. u2f_idle t \<Longrightarrow> u2f_sent t = u2f_sent s @ u2f_packets cmd ch data \<Longrightarrow> io_apdu_state t = APDU_IDLE \<Longrightarrow> Q t"
  shows "wp_c (u2f_message_reply cmd (Apdu_Buffer j) len)
    (\<lambda>_. wp_c (u2f_acknowledge (length (u2f_packets cmd ch data))) (\<lambda>_. Q) E) E s"
proof -
  have ch: "length ch = 4" using s by (auto simp: u2f_memory_def)
  define t where "t = s\<lparr>service := (service s)\<lparr>transportState := U2F_SENDING_RESPONSE, transportPacketIndex := 0,
    transportBuffer := Apdu_Buffer j, transportOffset := 0, transportLength := len, sendCmd := cmd\<rparr>\<rparr>"
  let ?x = "min 57 (length data)"
  have "u2f_replying cmd ch data j 0 0 t"
    using s data by (simp add: t_def u2f_replying_def u2f_memory_def u2f_message_repliable_def)
  then have "wp_c (u2f_transport_sent U2F_MEDIA_USB)
    (\<lambda>_. wp_c (u2f_acknowledge (length (u2f_packets cmd ch data))) (\<lambda>_. Q) E) E t"
  proof (rule wp_reply_packet [OF _ ch])
    show "0 < length data" using data(1) by simp
    show "?x = (if (0 :: nat) = 0 then min 57 (length data) else min 59 (length data - 0))" by simp
    fix u assume u: "u2f_replying cmd ch data j (0 + ?x) (Suc 0) u" "u2f_sent u = u2f_sent t @ [u2f_packet ch (reply_content cmd data 0 0)]"
    have d: "drop 57 data = drop (0 + ?x) data" by (simp add: min_def)
    have p: "u2f_packets cmd ch data = u2f_packet ch (reply_content cmd data 0 0) # u2f_next_packets ch (Suc 0 - 1) (drop (0 + ?x) data)"
      unfolding u2f_packets_def d by (simp add: reply_content_def)
    show "wp_c (u2f_acknowledge (length (u2f_packets cmd ch data))) (\<lambda>_. Q) E u"
      unfolding p length_Cons
    proof (rule wp_acknowledge [OF u(1) ch])
      show "0 < 0 + ?x" using data(1) by simp
    next
      fix v assume v: "u2f_idle v" "u2f_sent v = u2f_sent u @ u2f_next_packets ch (Suc 0 - 1) (drop (0 + ?x) data)"
        "io_apdu_state v = APDU_IDLE"
      show "Q v" by (rule go [OF v(1) _ v(3)]) (use v(2) u(2) p in \<open>simp add: t_def\<close>)
    qed
  qed
  then show ?thesis using s by (simp add: u2f_message_reply_def t_def)
qed

section \<open>Echo\<close>

lemma complete_header:
  assumes "u2f_complete crc cmd ch data s" "length data \<le> 334"
  shows "buf_read (io_apdu_buffer s) 0 3 = Inr (cmd # be16 (length data))"
    "unat (push_bit 8 (ucast (be16 (length data) ! 0)) OR ucast (be16 (length data) ! 1) :: u16) = length data"
    "take (length data) (drop 3 (io_apdu_buffer s)) = data"
proof -
  have c: "take (3 + length data) (io_apdu_buffer s) = cmd # be16 (length data) @ data" "length (io_apdu_buffer s) = 337"
    using assms(1) by (simp_all add: u2f_complete_def u2f_handling_def u2f_memory_def)
  have "take 3 (take (3 + length data) (io_apdu_buffer s)) = cmd # be16 (length data)" unfolding c(1) by simp
  then show "buf_read (io_apdu_buffer s) 0 3 = Inr (cmd # be16 (length data))" using c(2) by (simp add: buf_read_def)
  have "drop 3 (take (3 + length data) (io_apdu_buffer s)) = data" unfolding c(1) by simp
  then show "take (length data) (drop 3 (io_apdu_buffer s)) = data" by (simp add: drop_take)
  obtain x y where b: "be16 (length data) = [x, y]" by (simp add: be16_def)
  show "unat (push_bit 8 (ucast (be16 (length data) ! 0)) OR ucast (be16 (length data) ! 1) :: u16) = length data"
    unfolding b using be16_value [OF _ b] assms(2) by (simp add: unat_two_bytes)
qed

lemma wp_result: "wp_c m (\<lambda>_. Q) (\<lambda>_. False) s \<Longrightarrow> \<exists>t. m s = (Inr (), t) \<and> Q t"
  by (auto simp: wp_c_def split: prod.splits sum.splits exn.splits)

lemma complete_fields:
  assumes "u2f_complete crc cmd ch data s"
  shows "transportBuffer (service s) = Apdu_Buffer 0" "u2f_memory s" "u2f_message_repliable (service s)"
    "transportMedia (service s) = U2F_MEDIA_USB" "channel (service s) = ch"
  using assms by (simp_all add: u2f_complete_def u2f_handling_def u2f_message_repliable_def)

lemma wp_complete_message:
  assumes "u2f_complete crc cmd ch data s" "length data \<le> 334"
  defines "len \<equiv> push_bit 8 (ucast (be16 (length data) ! 0)) OR ucast (be16 (length data) ! 1) :: u16"
  shows "unat len = length data"
    "cmd = U2F_CMD_PING \<Longrightarrow> wp_c u2f_message_complete Q E s = wp_c (u2f_message_reply U2F_CMD_PING (Apdu_Buffer 3) len) Q E s"
    "cmd = U2F_CMD_MSG \<Longrightarrow> wp_c u2f_message_complete Q E s = wp_c (u2f_handle_cmd_msg (Apdu_Buffer 3) len) Q E s"
proof -
  note c = complete_header [OF assms(1,2)] complete_fields [OF assms(1)]
  show "unat len = length data" unfolding len_def by (rule c(2))
  show "wp_c u2f_message_complete Q E s = wp_c (u2f_message_reply U2F_CMD_PING (Apdu_Buffer 3) len) Q E s" if "cmd = U2F_CMD_PING"
    using that c(1,4) by (simp add: u2f_message_complete_def Let_def read_pointer_def u2f_handle_cmd_ping_def len_def const_defs)
  show "wp_c u2f_message_complete Q E s = wp_c (u2f_handle_cmd_msg (Apdu_Buffer 3) len) Q E s" if "cmd = U2F_CMD_MSG"
    using that c(1,4) by (simp add: u2f_message_complete_def Let_def read_pointer_def len_def const_defs)
qed

section \<open>Properties\<close>

text \<open>
Property C25: the echo of the U2F transport.  The packets of a PING message with one to 334
bytes, sent to an idle device on a channel that is neither the broadcast channel nor zero,
are answered with the packets of the same message, one after each acknowledgement, and the
device is idle again; the bytes behind the packets and the checksum have no effect.
\<close>

theorem u2f_ping_echoed:
  assumes "u2f_idle s" "u2f_channel ch" "data \<noteq> []" "length data \<le> 334"
  defines "packets \<equiv> u2f_packets U2F_CMD_PING ch data"
  shows "\<exists>t. bind_c (u2f_feed crc rest packets) (\<lambda>_. u2f_acknowledge (length packets)) s = (Inr (), t)
    \<and> u2f_idle t \<and> u2f_sent t = u2f_sent s @ packets"
proof (rule wp_result)
  let ?Q = "\<lambda>t. u2f_idle t \<and> u2f_sent t = u2f_sent s @ packets"
  have "wp_c u2f_message_complete (\<lambda>_. wp_c (u2f_acknowledge (length packets)) (\<lambda>_. ?Q) E) E t"
    if c: "u2f_complete crc U2F_CMD_PING ch data t" and same: "same_io s t" for t and E :: "u2f_io \<Rightarrow> bool"
  proof -
    note f = complete_fields [OF c]
    show ?thesis
      unfolding wp_complete_message(2) [OF c assms(4) refl] packets_def
      by (rule wp_reply [OF f(2-5) assms(3) _ complete_header(3) [OF c assms(4)] wp_complete_message(1) [OF c assms(4)]])
        (use same assms(4) in \<open>auto simp: same_io_def\<close>)
  qed
  then show "wp_c (bind_c (u2f_feed crc rest packets) (\<lambda>_. u2f_acknowledge (length packets))) (\<lambda>_. ?Q) (\<lambda>_. False) s"
    unfolding wp_bind packets_def by (intro wp_message [OF assms(1,2) disjI1 [OF refl] assms(4)]) blast
qed

lemma sample_u2f_idle: "u2f_idle sample_u2f"
  unfolding u2f_idle_def using sample_u2f_inv
  by (simp add: sample_u2f_def sample_service_def zero_service_def u2f_transport_init_def u2f_transport_reset_def)

theorem u2f_ping_echoed_witness:
  "\<exists>t. bind_c (u2f_feed (\<lambda>c _. c) [] (u2f_packets U2F_CMD_PING [0, 0, 0, 1] (replicate 100 7)))
      (\<lambda>_. u2f_acknowledge (length (u2f_packets U2F_CMD_PING [0, 0, 0, 1] (replicate 100 7)))) sample_u2f = (Inr (), t)
    \<and> u2f_idle t \<and> u2f_sent t = u2f_sent sample_u2f @ u2f_packets U2F_CMD_PING [0, 0, 0, 1] (replicate 100 7)"
  by (rule u2f_ping_echoed [OF sample_u2f_idle]) (simp_all add: u2f_channel_def const_defs)

end
