(* ===== verification/U2f_Tunnel.thy ===== *)
theory U2f_Tunnel
  imports U2f_Messages
begin

text \<open>
  The tunnel: a command of the application arrives as the key handle of a FIDO sign request,
  the host repeats the request while the device waits for the user, and the reply of the
  application is the answer to the last repetition.
\<close>

section \<open>The tunnel\<close>

lemma mask_magic_twice: "mask_magic (mask_magic bytes) = bytes"
  by (rule nth_equalityI) (simp_all add: mask_magic_def xor.assoc)

lemma length_mask_magic [simp]: "length (mask_magic bytes) = length bytes"
  by (simp add: mask_magic_def)

text \<open>A FIDO sign request whose key handle is a masked command, with or without an expected length.\<close>

definition tunnel_message :: "u8 \<Rightarrow> u8 \<Rightarrow> u8 list \<Rightarrow> u8 list \<Rightarrow> u8 list \<Rightarrow> u8 list" where
  "tunnel_message p1 p2 params apdu le =
     [FIDO_CLA, FIDO_INS_SIGN, p1, p2, 0] @ be16 (65 + length apdu) @ params @ [of_nat (length apdu)] @ mask_magic apdu @ le"

definition tunnel_command :: "u8 list \<Rightarrow> bool" where
  "tunnel_command apdu \<longleftrightarrow> 5 \<le> length apdu \<and> length apdu \<le> 255 \<and> unat (apdu ! 4) + 5 = length apdu
     \<and> mask_magic apdu \<noteq> [0xF1, 0xD0, 0, 0, 0]"

definition presence_packet :: "u8 list \<Rightarrow> u8 list" where
  "presence_packet ch = u2f_packet ch [U2F_CMD_MSG, 0, 2, 0x69, 0x85]"

text \<open>The device works on the message \<open>data\<close> or waits for the user.\<close>

definition u2f_waiting :: "(u16 \<Rightarrow> u8 list \<Rightarrow> u16) \<Rightarrow> u8 list \<Rightarrow> u8 list \<Rightarrow> u2f_wait_asynch \<Rightarrow> u2f_io \<Rightarrow> bool" where
  "u2f_waiting crc ch data w s \<longleftrightarrow> u2f_memory s \<and> transportState (service s) = U2F_PROCESSING_COMMAND
     \<and> waitAsynchronousResponse (service s) = w \<and> channel (service s) = ch \<and> transportMedia (service s) = U2F_MEDIA_USB
     \<and> unat (transportLength (service s)) = 3 + length data \<and> commandCrc (service s) = message_crc crc U2F_CMD_MSG data
     \<and> fakeChannelTransportState (service s) = U2F_IDLE"

lemma wp_presence_packet:
  assumes "u2f_memory s" "channel (service s) = ch"
  shows "wp_c u2f_transport_send_usb_user_presence_required Q E s =
    Q () (s\<lparr>service := (service s)\<lparr>sending := True\<rparr>, io_ep_buffer := presence_packet ch, u2f_sent := u2f_sent s @ [presence_packet ch]\<rparr>)"
  using assms by (auto simp: u2f_transport_send_usb_user_presence_required_def u2f_memory_def presence_packet_def u2f_packet_def)

lemma tunnel_data:
  fixes p1 p2 :: u8
  assumes "length params = 64" "tunnel_command apdu" "length le = 0 \<or> length le = 2"
  defines "data \<equiv> tunnel_message p1 p2 params apdu le"
  shows "length data = 72 + length apdu + length le" "length data \<le> 334" "take 7 data = [FIDO_CLA, FIDO_INS_SIGN, p1, p2, 0] @ be16 (65 + length apdu)"
    "data ! 71 = of_nat (length apdu)" "take (length apdu) (drop 72 data) = mask_magic apdu"
  using assms by (auto simp: data_def tunnel_message_def tunnel_command_def be16_def nth_append)

lemma tunnel_length:
  assumes "unat (len :: u16) = 72 + m + l" "l = 0 \<or> l = 2" "m \<le> 255" "be16 (65 + m) = [hi, lo]"
  defines "dl \<equiv> push_bit 8 (ucast hi) OR ucast lo :: u32"
  shows "message_data_length dl len = Some dl" "unat (ucast dl :: u16) = 65 + m"
proof -
  have d: "unat dl = 65 + m"
    unfolding dl_def using be16_value [OF _ assms(4)] assms(3) by (simp add: unat_two_bytes)
  then show "unat (ucast dl :: u16) = 65 + m" using assms(3) by (simp add: unat_ucast_mod)
  have "unat (len - 7) = 65 + m + l" using assms(1) by (simp add: unat_sub word_le_nat_alt)
  moreover have "unat (len - 9) = 65 + m" if "l = 2" using that assms(1) by (simp add: unat_sub word_le_nat_alt)
  ultimately show "message_data_length dl len = Some dl"
    using assms(2,3) d by (auto simp: message_data_length_def word_unat_eq_iff unat_ucast_mod)
qed

lemma wp_read_apdu_Inr:
  "buf_read (io_apdu_buffer s) (i + j) n = Inr bs \<Longrightarrow> wp_c (read_pointer (Apdu_Buffer i) j n) Q E s = Q bs s"
  by (simp add: read_pointer_def)

lemma wp_tunnel_message:
  fixes p1 p2 :: u8 and apdu :: "u8 list"
  defines "m \<equiv> length apdu"
  assumes c: "u2f_complete crc U2F_CMD_MSG ch data s" and data: "data = tunnel_message p1 p2 params apdu le"
    and ok: "length params = 64" "tunnel_command apdu" "length le = 0 \<or> length le = 2" "p1 \<noteq> P1_SIGN_CHECK_ONLY"
    and st: "io_apdu_state s = APDU_IDLE"
    and go: "\<And>t. u2f_waiting crc ch data U2F_WAIT_ASYNCH_ON t \<Longrightarrow> fakeChannelTransportOffset (service t) = 0
      \<Longrightarrow> take m (io_apdu_buffer t) = apdu \<Longrightarrow> unat (io_apdu_length t) = m \<Longrightarrow> tunnelled t
      \<Longrightarrow> io_apdu_state t = APDU_U2F \<Longrightarrow> u2f_sent t = u2f_sent s @ [presence_packet ch] \<Longrightarrow> Q t"
  shows "wp_c u2f_message_complete (\<lambda>_. Q) E s"
proof -
  note d = tunnel_data [OF ok(1-3), of p1 p2, folded data m_def]
  have m: "5 \<le> m" "m \<le> 255" "unat (apdu ! 4) + 5 = m" "mask_magic apdu \<noteq> [0xF1, 0xD0, 0, 0, 0]"
    using ok(2) by (simp_all add: tunnel_command_def m_def)
  define len where "len = (push_bit 8 (ucast (be16 (length data) ! 0)) OR ucast (be16 (length data) ! 1) :: u16)"
  note len = wp_complete_message(1) [OF c d(2), folded len_def]
  let ?b = "io_apdu_buffer s"
  have lb: "length ?b = 337" using complete_fields(2) [OF c] by (simp add: u2f_memory_def)
  have rd: "take k (drop (3 + i) ?b) = take k (drop i data)" if "i + k \<le> length data" for i k
  proof -
    have "take k (drop i (take (length data) (drop 3 ?b))) = take k (drop i data)"
      unfolding complete_header(3) [OF c d(2)] ..
    then show ?thesis using that by (simp add: drop_take min_absorb1 add.commute)
  qed
  obtain hi lo where b16: "be16 (65 + m) = [hi, lo]" by (simp add: be16_def)
  note dl = tunnel_length [OF len [unfolded d(1)] ok(3) m(2) b16]
  have r7: "buf_read ?b 3 7 = Inr [FIDO_CLA, FIDO_INS_SIGN, p1, p2, 0, hi, lo]"
    using rd [of 0 7] d(1,3) lb by (simp add: buf_read_def b16)
  have rk: "buf_read ?b 74 1 = Inr [of_nat m]"
    using rd [of 71 1] d(1,4) lb by (simp add: buf_read_def take_Suc_conv_app_nth)
  have rh: "buf_read ?b 75 m = Inr (mask_magic apdu)"
    using rd [of 72 m] d(1,5) lb m by (simp add: buf_read_def)
  have um: "unat (of_nat m :: u8) = m" using m(2) by (simp add: unat_of_nat)
  define b2 where "b2 = take 75 ?b @ apdu @ drop (75 + m) ?b"
  have b2: "length b2 = 337" "take m (drop 75 b2) = apdu" "take (Suc 0) (drop 79 b2) = [apdu ! 4]" "take 75 ?b @ apdu @ drop (75 + m) ?b = b2"
    using lb m(1,2) by (simp_all add: b2_def m_def take_Suc_conv_app_nth nth_append)
  note f = complete_fields [OF c]
  let ?t = "s\<lparr>io_apdu_buffer := apdu @ drop m b2, io_apdu_length := of_nat m, tunnelled := True, io_apdu_state := APDU_U2F\<rparr>"
  have wait: "wp_c (u2f_message_set_autoreply_wait_user_presence True) (\<lambda>_. Q) E ?t"
  proof -
    note c' = c [unfolded u2f_complete_def u2f_handling_def]
    let ?u = "?t\<lparr>service := (service ?t)\<lparr>waitAsynchronousResponse := U2F_WAIT_ASYNCH_ON, sending := True\<rparr>,
      io_ep_buffer := presence_packet ch, u2f_sent := u2f_sent s @ [presence_packet ch]\<rparr>"
    have "length (presence_packet ch) = 64" using c' by (auto simp: u2f_memory_def presence_packet_def length_u2f_packet)
    moreover have um16: "unat (of_nat m :: u16) = m" using m(2) by (simp add: unat_of_nat)
    ultimately have "Q ?u"
      by (intro go) (use c' f b2 m(1,2) in \<open>auto simp: u2f_waiting_def u2f_memory_def m_def\<close>)
    then show ?thesis
      using c' f b2 m(1,2)
      by (simp add: u2f_message_set_autoreply_wait_user_presence_def wp_presence_packet [where ch = ch] u2f_memory_def m_def)
  qed
  have h: "U2F_HANDLE_SIGN_HEADER_SIZE = 65" by (simp add: U2F_HANDLE_SIGN_HEADER_SIZE_def)
  let ?s2 = "s\<lparr>io_apdu_buffer := b2\<rparr>"
  have r1: "wp_c (read_pointer (Apdu_Buffer 10) (65 - 1) 1) R E s = R [of_nat m] s"
    "wp_c (read_pointer (Apdu_Buffer 10) 65 m) R E s = R (mask_magic apdu) s"
    "wp_c (read_pointer (Apdu_Buffer 10) (65 + 4) 1) R E ?s2 = R [apdu ! 4] ?s2"
    "wp_c (read_pointer (Apdu_Buffer 10) 65 m) R E ?s2 = R apdu ?s2" for R
    using rk rh b2 m(1,2) by (simp_all add: wp_read_apdu_Inr buf_read_def)
  have w1: "wp_c (write_pointer (Apdu_Buffer 10) 65 apdu) R E s = R () ?s2"
    "wp_c (write_apdu 0 apdu) R E ?s2 = R () (s\<lparr>io_apdu_buffer := apdu @ drop m b2\<rparr>)" for R
    using lb m(1,2) b2 by (simp_all add: m_def [symmetric] write_apdu_def)
  have magic: "wp_c (if m = 5 then bind_c (read_pointer (Apdu_Buffer 10) 65 5) (\<lambda>q. return_c (q = [0xF1, 0xD0, 0x00, 0x00, 0x00]))
      else return_c False) R E s = R False s" for R
    using r1(2) m(4) by (cases "m = 5") simp_all
  have sign: "wp_c (u2f_apdu_sign p1 (Apdu_Buffer 10) l) (\<lambda>_. Q) E s" if l: "unat l = 65 + m" for l
  proof -
    have "\<not> unat l < 65 + 5" "unat l = 65 + 5 + unat (hd [apdu ! 4])" using l m by simp_all
    then show ?thesis
      unfolding u2f_apdu_sign_def h Let_def
      by (simp only: wp_bind wp_gets st simp_thms if_True if_False ok(4) list.sel um magic r1 w1 mask_magic_twice wp_modify)
        (use wait in simp)
  qed
  show ?thesis
    unfolding wp_complete_message(3) [OF c d(2) refl, folded len_def]
    using r7 dl sign [OF dl(2)] by (simp add: u2f_handle_cmd_msg_def Let_def read_pointer_def FIDO_INS_SIGN_def FIDO_INS_ENROLL_def)
qed

section \<open>The message is repeated\<close>

text \<open>The host repeats the message while the device waits; \<open>k\<close> bytes have arrived again.\<close>

definition u2f_faking ::
  "(u16 \<Rightarrow> u8 list \<Rightarrow> u16) \<Rightarrow> u8 list \<Rightarrow> u8 list \<Rightarrow> u2f_wait_asynch \<Rightarrow> nat \<Rightarrow> nat \<Rightarrow> u2f_io \<Rightarrow> bool" where
  "u2f_faking crc ch data w k i s \<longleftrightarrow> u2f_waiting crc ch data w s \<and> w \<noteq> U2F_WAIT_ASYNCH_IDLE
     \<and> unat (fakeChannelTransportOffset (service s)) = 3 + k \<and> fakeChannelTransportPacketIndex (service s) = of_nat i
     \<and> k \<le> length data \<and> crc_rest crc (fakeChannelCrc (service s)) (drop k data) = message_crc crc U2F_CMD_MSG data"

text \<open>What the repetition leaves alone.\<close>

definition same_apdu :: "u2f_io \<Rightarrow> u2f_io \<Rightarrow> bool" where
  "same_apdu s t \<longleftrightarrow> u2f_sent t = u2f_sent s \<and> io_apdu_buffer t = io_apdu_buffer s \<and> io_apdu_state t = io_apdu_state s
     \<and> sending (service t) = sending (service s)"

lemma same_apdu_trans: "same_apdu s t \<Longrightarrow> same_apdu t u \<Longrightarrow> same_apdu s u"
  by (simp add: same_apdu_def)

lemma wp_received_waiting:
  assumes "u2f_waiting crc ch data w s" "w \<noteq> U2F_WAIT_ASYNCH_IDLE"
    and "wp_c (u2f_transport_receive_fakeChannel crc b 64) (\<lambda>ok t. ok \<and> Q () t) E (s\<lparr>service := (service s)\<lparr>media := U2F_MEDIA_USB\<rparr>\<rparr>)"
  shows "wp_c (u2f_transport_received crc b 64 U2F_MEDIA_USB) Q E s"
proof -
  have "wp_c (bind_c (u2f_transport_receive_fakeChannel crc b 64)
      (\<lambda>ok. if \<not> ok then u2f_transport_error ERROR_CHANNEL_BUSY else return_c ())) Q E (s\<lparr>service := (service s)\<lparr>media := U2F_MEDIA_USB\<rparr>\<rparr>)"
    by (rule wp_seq [OF assms(3)]) simp
  then show ?thesis using assms(1,2) by (simp add: u2f_transport_received_def u2f_waiting_def)
qed

lemma wp_first_again:
  assumes s: "u2f_waiting crc ch data w s" "w \<noteq> U2F_WAIT_ASYNCH_IDLE" "fakeChannelTransportOffset (service s) = 0"
    and ch: "u2f_channel ch" and n: "length data \<le> 334"
    and go: "\<And>t. u2f_faking crc ch data w (min 57 (length data)) 0 t \<Longrightarrow> same_apdu s t \<Longrightarrow> wp_c fake_complete (\<lambda>ok t. ok \<and> Q () t) E t"
  shows "wp_c (USBD_U2F_DataOut_impl crc (u2f_packet ch (U2F_CMD_MSG # be16 (length data) @ take 57 data)) rest) Q E s"
proof -
  let ?n = "length data" and ?v = "service s"
  define k where "k = min 57 (length data)"
  define content where "content = U2F_CMD_MSG # be16 ?n @ take 57 data"
  define b where "b = u2f_packet ch content @ rest"
  have ch4: "length ch = 4" "take 4 ch = ch" using ch by (simp_all add: u2f_channel_def)
  have lc: "length content = 3 + k" "length content \<le> 60" by (simp_all add: content_def k_def min.commute)
  obtain hi lo where b16: "be16 ?n = [hi, lo]" by (simp add: be16_def)
  have val: "unat hi * 256 + unat lo = ?n" by (rule be16_value [OF _ b16]) (use n in simp)
  note parts = packet_parts [OF ch4(1) lc(2), where rest = rest, folded b_def]
  have nth: "b ! 4 = U2F_CMD_MSG" "b ! 5 = hi" "b ! 6 = lo"
    using parts(2) [of 0] parts(2) [of 1] parts(2) [of 2] lc(1) by (simp_all add: content_def b16)
  have l: "7 \<le> length b" "64 \<le> length b" using parts(4) by simp_all
  have sz: "(of_nat (length (u2f_packet ch content)) :: u16) = 64" by (simp add: length_u2f_packet [OF ch4(1) lc(2)])
  note st = s(1) [unfolded u2f_waiting_def]
  define ml where "ml = min_length 64 4 (3 + int ?n)"
  have u: "unat ml = 3 + k"
  proof -
    have "int (unat ml) = min (int (unat (64 :: u16)) - 4) (3 + int ?n)"
      unfolding ml_def by (rule unat_min_length) simp_all
    also have "\<dots> = int (3 + k)" by (simp add: k_def)
    finally show ?thesis by (rule of_nat_eq_iff [THEN iffD1])
  qed
  have cl: "(ucast ((push_bit 8 (ucast hi AND 0xFF) OR (ucast lo AND 0xFF)) + of_nat 3 :: u32) :: u16) = transportLength ?v"
    using st val n by (simp add: word_unat_eq_iff unat_ucast_mod byte_and_FF unat_two_bytes unat_word_ariths)
  have tk: "buf_read b 4 (unat ml) = Inr content" using parts(3) lc l(2) u by (simp add: buf_read_def)
  define t where "t = s\<lparr>service := ?v\<lparr>media := U2F_MEDIA_USB, fakeChannelTransportPacketIndex := 0,
    fakeChannelTransportOffset := ml, fakeChannelCrc := crc 0 content\<rparr>\<rparr>"
  have "u2f_faking crc ch data w k 0 t"
    using s(2) st u ch4
    by (simp add: u2f_faking_def u2f_waiting_def t_def u2f_memory_def message_crc_def content_def k_def min_def)
  then have fin: "wp_c fake_complete (\<lambda>ok t. ok \<and> Q () t) E t"
    by (intro go) (simp_all add: k_def same_apdu_def t_def)
  have cmd: "U2F_CMD_MSG \<noteq> U2F_CMD_WINK" by (simp add: const_defs)
  have "wp_c (u2f_transport_received crc b 64 U2F_MEDIA_USB) Q E s"
  proof (rule wp_received_waiting [OF s(1,2)])
    have rd: "buf_read b 0 4 = Inr ch" "buf_read b 4 1 = Inr [U2F_CMD_MSG]"
      "U2BE b (4 + 1) = Inr (push_bit 8 (ucast hi AND 0xFF) OR (ucast lo AND 0xFF))"
      using packet_fields [OF l(1)] parts(1) nth by simp_all
    show "wp_c (u2f_transport_receive_fakeChannel crc b 64) (\<lambda>ok t. ok \<and> Q () t) E (s\<lparr>service := ?v\<lparr>media := U2F_MEDIA_USB\<rparr>\<rparr>)"
      unfolding u2f_transport_receive_fakeChannel_def Let_def U2F_COMMAND_HEADER_SIZE_def
      using st s(3) ch4 fin tk cl cmd by (simp add: rd [simplified] ml_def [symmetric] t_def)
  qed
  then show ?thesis unfolding USBD_U2F_DataOut_impl_def content_def [symmetric] b_def [symmetric] sz .
qed

lemma wp_next_again:
  assumes s: "u2f_faking crc ch data w k i s" and ch: "u2f_channel ch" and n: "length data \<le> 334" and k: "k < length data"
    and go: "\<And>t. u2f_faking crc ch data w (min (k + 59) (length data)) (Suc i) t \<Longrightarrow> same_apdu s t \<Longrightarrow> wp_c fake_complete (\<lambda>ok t. ok \<and> Q () t) E t"
  shows "wp_c (USBD_U2F_DataOut_impl crc (u2f_packet ch (of_nat i # take 59 (drop k data))) rest) Q E s"
proof -
  let ?n = "length data" and ?v = "service s"
  define bytes where "bytes = take 59 (drop k data)"
  define b where "b = u2f_packet ch (of_nat i # bytes) @ rest"
  define x where "x = length bytes"
  have ch4: "length ch = 4" "take 4 ch = ch" using ch by (simp_all add: u2f_channel_def)
  have x: "x = min 59 (?n - k)" "min (k + 59) ?n = k + x" using k by (auto simp add: x_def bytes_def min_def)
  have lc: "length (of_nat i # bytes) \<le> 60" using x(1) by (simp add: x_def [symmetric])
  note parts = packet_parts [OF ch4(1) lc, where rest = rest, folded b_def]
  have b4: "b ! 4 = of_nat i" using parts(2) [of 0] by simp
  have l: "64 \<le> length b" using parts(4) by simp
  have bytes: "buf_read b 5 x = Inr bytes"
  proof -
    have "drop 1 (take (Suc x) (drop 4 b)) = bytes" using parts(3) by (simp add: x_def)
    then show ?thesis using l x(1) by (simp add: drop_take buf_read_def)
  qed
  have sz: "(of_nat (length (u2f_packet ch (of_nat i # bytes))) :: u16) = 64" by (simp add: length_u2f_packet [OF ch4(1) lc])
  note st = s [unfolded u2f_faking_def u2f_waiting_def]
  have w: "u2f_waiting crc ch data w s" "w \<noteq> U2F_WAIT_ASYNCH_IDLE" using s by (simp_all add: u2f_faking_def)
  define ml where "ml = min_length 64 5 (int ?n - int k)"
  have u: "unat ml = x"
  proof -
    have "int (unat ml) = min (int (unat (64 :: u16)) - 5) (int ?n - int k)"
      unfolding ml_def by (rule unat_min_length) (use k in simp_all)
    also have "\<dots> = int x" using x(1) k by (simp add: of_nat_diff)
    finally show ?thesis by (rule of_nat_eq_iff [THEN iffD1])
  qed
  have off: "fakeChannelTransportOffset ?v \<noteq> 0" using st by (metis add_is_0 unat_0 zero_neq_numeral)
  define t where "t = s\<lparr>service := ?v\<lparr>media := U2F_MEDIA_USB, fakeChannelTransportPacketIndex := of_nat i + 1,
    fakeChannelTransportOffset := fakeChannelTransportOffset ?v + ml, fakeChannelCrc := crc (fakeChannelCrc ?v) bytes\<rparr>\<rparr>"
  have "u2f_faking crc ch data w (k + x) (Suc i) t"
  proof -
    have "3 + (k + x) < 65536" using x(1) k n by linarith
    then have uo: "unat (fakeChannelTransportOffset ?v + ml) = 3 + (k + x)" using st u by (simp add: unat_word_ariths)
    have "drop k data \<noteq> []" using k by simp
    then have "crc_rest crc (fakeChannelCrc ?v) (drop k data) = crc_rest crc (crc (fakeChannelCrc ?v) bytes) (drop 59 (drop k data))"
      by (subst crc_rest.simps) (simp add: bytes_def)
    moreover have "drop 59 (drop k data) = drop (k + x) data" using x(1) by (simp add: min_def add.commute)
    ultimately have "crc_rest crc (crc (fakeChannelCrc ?v) bytes) (drop (k + x) data) = message_crc crc U2F_CMD_MSG data"
      using st by simp
    moreover have "k + x \<le> ?n" unfolding x(2) [symmetric] by simp
    ultimately show ?thesis
      using st uo ch4 by (simp add: u2f_faking_def u2f_waiting_def t_def u2f_memory_def)
  qed
  then have fin: "wp_c fake_complete (\<lambda>ok t. ok \<and> Q () t) E t"
    by (intro go) (simp_all add: x(2) same_apdu_def t_def)
  have fields: "fakeChannelTransportState ?v = U2F_IDLE" "fakeChannelTransportPacketIndex ?v = of_nat i"
    "unat (transportLength ?v) = 3 + ?n" "unat (fakeChannelTransportOffset ?v) = 3 + k" "channel ?v = ch"
    using st by simp_all
  have "wp_c (u2f_transport_received crc b 64 U2F_MEDIA_USB) Q E s"
  proof (rule wp_received_waiting [OF w])
    show "wp_c (u2f_transport_receive_fakeChannel crc b 64) (\<lambda>ok t. ok \<and> Q () t) E (s\<lparr>service := ?v\<lparr>media := U2F_MEDIA_USB\<rparr>\<rparr>)"
      unfolding u2f_transport_receive_fakeChannel_def Let_def
      using fields off ch4 fin bytes u l parts(1) b4 by (simp add: ml_def [symmetric] t_def)
  qed
  then show ?thesis unfolding USBD_U2F_DataOut_impl_def bytes_def [symmetric] b_def [symmetric] sz .
qed

lemma wp_again_more:
  "u2f_faking crc ch data w k i s \<Longrightarrow> k < length data \<Longrightarrow> wp_c fake_complete Q E s = Q True s"
  by (simp add: fake_complete_def u2f_faking_def u2f_waiting_def word_le_nat_alt)

text \<open>The message has been repeated: another user presence packet, or the reply can be sent.\<close>

lemma wp_again_last:
  assumes s: "u2f_faking crc ch data w (length data) i s"
    and on: "\<And>t. w = U2F_WAIT_ASYNCH_ON \<Longrightarrow> u2f_waiting crc ch data w t \<Longrightarrow> fakeChannelTransportOffset (service t) = 0
      \<Longrightarrow> io_apdu_buffer t = io_apdu_buffer s \<Longrightarrow> io_apdu_state t = io_apdu_state s
      \<Longrightarrow> u2f_sent t = u2f_sent s @ [presence_packet ch] \<Longrightarrow> Q True t"
    and ready: "\<And>t. w = U2F_WAIT_ASYNCH_REPLY_READY \<Longrightarrow> u2f_memory t \<Longrightarrow> (\<not> sending (service s) \<longrightarrow> u2f_message_repliable (service t))
      \<Longrightarrow> transportMedia (service t) = U2F_MEDIA_USB \<Longrightarrow> channel (service t) = ch
      \<Longrightarrow> io_apdu_buffer t = io_apdu_buffer s \<Longrightarrow> u2f_sent t = u2f_sent s \<Longrightarrow> Q True t"
  shows "wp_c fake_complete Q E s"
proof -
  note st = s [unfolded u2f_faking_def u2f_waiting_def]
  let ?t = "s\<lparr>service := (service s)\<lparr>fakeChannelTransportState := U2F_FAKE_RECEIVED, fakeChannelTransportOffset := 0\<rparr>\<rparr>"
  have c: "fakeChannelTransportOffset (service s) \<ge> transportLength (service s)" "fakeChannelCrc (service s) = commandCrc (service s)"
    using st by (simp_all add: word_le_nat_alt)
  have m: "u2f_memory ?t" "channel (service ?t) = ch" "length ch = 4" using st by (auto simp: u2f_memory_def)
  show ?thesis
  proof (cases "w = U2F_WAIT_ASYNCH_ON")
    case True
    have "length (presence_packet ch) = 64" using m(3) by (simp add: presence_packet_def length_u2f_packet)
    then have "Q True (s\<lparr>io_ep_buffer := presence_packet ch, u2f_sent := u2f_sent s @ [presence_packet ch],
      service := (service s)\<lparr>fakeChannelTransportOffset := 0, sending := True, fakeChannelTransportState := U2F_IDLE\<rparr>\<rparr>)"
      using st m(3) by (intro on [OF True]) (simp_all add: u2f_waiting_def u2f_memory_def)
    then show ?thesis
      using True st c by (simp add: fake_complete_def wp_presence_packet [OF m(1,2)])
  next
    case False
    then have w: "w = U2F_WAIT_ASYNCH_REPLY_READY" using st by (cases w) auto
    have "Q True ?t" by (rule ready [OF w m(1)]) (use st w in \<open>simp_all add: u2f_message_repliable_def\<close>)
    then show ?thesis using False st c by (simp add: fake_complete_def)
  qed
qed

text \<open>A whole repetition.\<close>

lemma wp_again_packets:
  assumes "u2f_faking crc ch data w k i s" "u2f_channel ch" "length data \<le> 334" "k < length data"
    and "\<And>t i. u2f_faking crc ch data w (length data) i t \<Longrightarrow> same_apdu s t \<Longrightarrow> wp_c fake_complete (\<lambda>ok t. ok \<and> Q t) E t"
  shows "wp_c (u2f_feed crc rest (u2f_next_packets ch i (drop k data))) (\<lambda>_. Q) E s"
  using assms(1,4,5)
proof (induction "length data - k" arbitrary: k i s rule: less_induct)
  case less
  let ?k = "min (k + 59) (length data)"
  have ne: "drop k data \<noteq> []" using less.prems(2) by simp
  have next_packets: "u2f_next_packets ch i (drop k data) = u2f_packet ch (of_nat i # take 59 (drop k data)) # u2f_next_packets ch (Suc i) (drop ?k data)"
    using ne by (subst u2f_next_packets.simps) (simp add: add.commute min_def)
  show ?case
    unfolding next_packets u2f_feed.simps wp_bind
  proof (rule wp_next_again [OF less.prems(1) assms(2,3) less.prems(2)])
    fix t assume t: "u2f_faking crc ch data w ?k (Suc i) t" "same_apdu s t"
    show "wp_c fake_complete (\<lambda>ok t. ok \<and> wp_c (u2f_feed crc rest (u2f_next_packets ch (Suc i) (drop ?k data))) (\<lambda>_. Q) E t) E t"
    proof (cases "?k = length data")
      case True
      then show ?thesis
        using less.prems(3) [OF t(1) [unfolded True] t(2)] by (simp add: u2f_next_packets.simps)
    next
      case False
      then have k: "?k < length data" by simp
      have "wp_c (u2f_feed crc rest (u2f_next_packets ch (Suc i) (drop ?k data))) (\<lambda>_. Q) E t"
        by (rule less.hyps [OF _ t(1) k]) (use less.prems(2,3) same_apdu_trans [OF t(2)] in auto)
      then show ?thesis by (simp add: wp_again_more [OF t(1) k])
    qed
  qed
qed

lemma wp_again:
  assumes s: "u2f_waiting crc ch data w s" "w \<noteq> U2F_WAIT_ASYNCH_IDLE" "fakeChannelTransportOffset (service s) = 0"
    and ch: "u2f_channel ch" and n: "length data \<le> 334"
    and go: "\<And>t i. u2f_faking crc ch data w (length data) i t \<Longrightarrow> same_apdu s t \<Longrightarrow> wp_c fake_complete (\<lambda>ok t. ok \<and> Q t) E t"
  shows "wp_c (u2f_feed crc rest (u2f_packets U2F_CMD_MSG ch data)) (\<lambda>_. Q) E s"
  unfolding u2f_packets_def u2f_feed.simps wp_bind
proof (rule wp_first_again [OF s ch n])
  let ?k = "min 57 (length data)"
  fix t assume t: "u2f_faking crc ch data w ?k 0 t" "same_apdu s t"
  have d: "drop 57 data = drop ?k data" by (simp add: min_def)
  show "wp_c fake_complete (\<lambda>ok t. ok \<and> wp_c (u2f_feed crc rest (u2f_next_packets ch 0 (drop 57 data))) (\<lambda>_. Q) E t) E t"
    unfolding d
  proof (cases "?k = length data")
    case True
    then show "wp_c fake_complete (\<lambda>ok t. ok \<and> wp_c (u2f_feed crc rest (u2f_next_packets ch 0 (drop ?k data))) (\<lambda>_. Q) E t) E t"
      using go [OF t(1) [unfolded True] t(2)] by (simp add: u2f_next_packets.simps)
  next
    case False
    then have k: "?k < length data" by simp
    have "wp_c (u2f_feed crc rest (u2f_next_packets ch 0 (drop ?k data))) (\<lambda>_. Q) E t"
      by (rule wp_again_packets [OF t(1) ch n k]) (rule go, assumption, rule same_apdu_trans [OF t(2)])
    then show "wp_c fake_complete (\<lambda>ok t. ok \<and> wp_c (u2f_feed crc rest (u2f_next_packets ch 0 (drop ?k data))) (\<lambda>_. Q) E t) E t"
      by (simp add: wp_again_more [OF t(1) k])
  qed
qed

section \<open>The reply through the tunnel\<close>

lemma wp_tunnel_reply:
  assumes s: "u2f_memory s" "u2f_message_repliable (service s)" "transportMedia (service s) = U2F_MEDIA_USB" "channel (service s) = ch"
    and reply: "take (unat tx_len) (io_apdu_buffer s) = reply" "unat tx_len \<le> 330"
  defines "data \<equiv> replicate 5 0 @ reply @ [0x90, 0x00]"
  assumes go: "\<And>t. u2f_idle t \<Longrightarrow> u2f_sent t = u2f_sent s @ u2f_packets U2F_CMD_MSG ch data \<Longrightarrow> io_apdu_state t = APDU_IDLE \<Longrightarrow> Q t"
  shows "wp_c (io_exchange_u2f_reply tx_len) (\<lambda>_. wp_c (u2f_acknowledge (length (u2f_packets U2F_CMD_MSG ch data))) (\<lambda>_. Q) E) E s"
proof -
  let ?b = "io_apdu_buffer s" and ?n = "unat tx_len"
  have lb: "length ?b = 337" using s(1) by (simp add: u2f_memory_def)
  have lr: "length reply = ?n" using reply lb by auto
  have u: "unat (tx_len + 2) = ?n + 2" "unat (tx_len + 2 + 5) = ?n + 7" using reply(2) by (simp_all add: unat_word_ariths)
  define b1 where "b1 = reply @ [0x90, 0x00] @ drop (?n + 2) ?b"
  define b2 where "b2 = data @ drop (?n + 7) ?b"
  have l1: "length b1 = 337" "take (?n + 2) b1 = reply @ [0x90, 0x00]" using lb lr reply(2) by (simp_all add: b1_def)
  have l2: "length b2 = 337" "take (length data) b2 = data" "length data = ?n + 7"
    using lb lr reply(2) by (simp_all add: b2_def data_def)
  let ?t = "s\<lparr>io_apdu_buffer := b2\<rparr>"
  have "wp_c (u2f_message_reply U2F_CMD_MSG (Apdu_Buffer 0) (tx_len + 2 + 5))
    (\<lambda>_. wp_c (u2f_acknowledge (length (u2f_packets U2F_CMD_MSG ch data))) (\<lambda>_. Q) E) E ?t"
    by (rule wp_reply) (use s l2 u go reply(2) in \<open>auto simp: u2f_memory_def data_def\<close>)
  moreover have w: "wp_c (write_apdu ?n [0x90]) R E s = R () (s\<lparr>io_apdu_buffer := reply @ [0x90] @ drop (?n + 1) ?b\<rparr>)"
    "wp_c (write_apdu (?n + 1) [0x00]) R E (s\<lparr>io_apdu_buffer := reply @ [0x90] @ drop (?n + 1) ?b\<rparr>) = R () (s\<lparr>io_apdu_buffer := b1\<rparr>)"
    for R :: "unit \<Rightarrow> u2f_io \<Rightarrow> bool"
    using lb reply lr by (simp_all add: write_apdu_def b1_def)
  moreover have r: "wp_c (read_pointer (Apdu_Buffer 0) 0 (unat (tx_len + 2))) R E (s\<lparr>io_apdu_buffer := b1\<rparr>)
      = R (reply @ [0x90, 0x00]) (s\<lparr>io_apdu_buffer := b1\<rparr>)" for R
    using l1 u(1) reply(2) by (simp add: wp_read_apdu_Inr buf_read_def)
  moreover have w2: "wp_c (write_apdu 5 (reply @ [0x90, 0x00])) R E (s\<lparr>io_apdu_buffer := b1\<rparr>)
      = R () (s\<lparr>io_apdu_buffer := take 5 b1 @ reply @ [0x90, 0x00] @ drop (?n + 7) b1\<rparr>)"
    "wp_c (write_apdu 0 (replicate 5 0)) R E (s\<lparr>io_apdu_buffer := take 5 b1 @ reply @ [0x90, 0x00] @ drop (?n + 7) b1\<rparr>) = R () ?t"
    for R :: "unit \<Rightarrow> u2f_io \<Rightarrow> bool"
    using l1(1) lr reply(2) lb by (simp_all add: write_apdu_def b2_def data_def b1_def add.commute)
  moreover have "\<not> 1 + 4 + ?n + 2 > 337" using reply(2) by simp
  ultimately show ?thesis
    unfolding io_exchange_u2f_reply_def Let_def
    by (simp only: wp_bind wp_gets lb if_False)
qed

text \<open>The two ways a repetition ends.\<close>

lemma repetition_presence:
  assumes "u2f_waiting crc ch data U2F_WAIT_ASYNCH_ON s" "fakeChannelTransportOffset (service s) = 0"
    and "u2f_channel ch" "length data \<le> 334"
  shows "wp_c (u2f_feed crc rest (u2f_packets U2F_CMD_MSG ch data)) (\<lambda>_. wp_c USBD_U2F_DataIn_impl
    (\<lambda>_ t. u2f_sent t = u2f_sent s @ [presence_packet ch] \<and> io_apdu_buffer t = io_apdu_buffer s
      \<and> u2f_waiting crc ch data U2F_WAIT_ASYNCH_ON t \<and> fakeChannelTransportOffset (service t) = 0 \<and> \<not> sending (service t)) E) E s"
proof (rule wp_again [OF assms(1) _ assms(2-4)], simp)
  fix t i assume t: "u2f_faking crc ch data U2F_WAIT_ASYNCH_ON (length data) i t" "same_apdu s t"
  show "wp_c fake_complete (\<lambda>ok t. ok \<and> wp_c USBD_U2F_DataIn_impl
    (\<lambda>_ t. u2f_sent t = u2f_sent s @ [presence_packet ch] \<and> io_apdu_buffer t = io_apdu_buffer s
      \<and> u2f_waiting crc ch data U2F_WAIT_ASYNCH_ON t \<and> fakeChannelTransportOffset (service t) = 0 \<and> \<not> sending (service t)) E t) E t"
    by (rule wp_again_last [OF t(1)])
      (use t(2) in \<open>auto simp: USBD_U2F_DataIn_impl_def u2f_transport_sent_def u2f_message_repliable_def u2f_waiting_def u2f_memory_def same_apdu_def\<close>)
qed

definition u2f_reply_prepared :: "u2f_io \<Rightarrow> u2f_io" where
  "u2f_reply_prepared s = s\<lparr>service := (service s)\<lparr>waitAsynchronousResponse := U2F_WAIT_ASYNCH_REPLY_READY\<rparr>\<rparr>"

lemma reply_not_ready:
  "u2f_waiting crc ch data U2F_WAIT_ASYNCH_ON s \<Longrightarrow> u2f_reply_ready s = (Inr False, u2f_reply_prepared s)"
  by (simp add: u2f_reply_ready_def u2f_message_set_autoreply_wait_user_presence_def u2f_waiting_def u2f_reply_prepared_def
      u2f_message_repliable_def get_service_def set_service_def bind_c_def gets_c_def modify_c_def)

definition u2f_answerable :: "u8 list \<Rightarrow> u2f_io \<Rightarrow> u2f_io \<Rightarrow> bool" where
  "u2f_answerable ch s u \<longleftrightarrow> u2f_memory u \<and> u2f_message_repliable (service u) \<and> transportMedia (service u) = U2F_MEDIA_USB
    \<and> channel (service u) = ch \<and> io_apdu_buffer u = io_apdu_buffer s \<and> u2f_sent u = u2f_sent s"

lemma repetition_ready:
  assumes "u2f_waiting crc ch data U2F_WAIT_ASYNCH_ON s" "fakeChannelTransportOffset (service s) = 0" "\<not> sending (service s)"
    and "u2f_channel ch" "length data \<le> 334"
  shows "wp_c (u2f_feed crc rest (u2f_packets U2F_CMD_MSG ch data)) (\<lambda>_. u2f_answerable ch s) E (u2f_reply_prepared s)"
proof (rule wp_again [OF _ _ _ assms(4,5)])
  show "u2f_waiting crc ch data U2F_WAIT_ASYNCH_REPLY_READY (u2f_reply_prepared s)"
    using assms(1) by (auto simp: u2f_waiting_def u2f_memory_def u2f_reply_prepared_def)
next
  fix u i assume u: "u2f_faking crc ch data U2F_WAIT_ASYNCH_REPLY_READY (length data) i u" "same_apdu (u2f_reply_prepared s) u"
  show "wp_c fake_complete (\<lambda>ok t. ok \<and> u2f_answerable ch s t) E u"
    by (rule wp_again_last [OF u(1)]) (use u(2) assms(3) in \<open>auto simp: same_apdu_def u2f_answerable_def u2f_reply_prepared_def\<close>)
qed (use assms(2) in \<open>simp_all add: u2f_reply_prepared_def\<close>)

section \<open>Properties\<close>

text \<open>
Property C26: a command through the tunnel.  The packets of a FIDO sign request, with P1 other
than check-only, whose key handle is a masked command of the application that does not mask to
the get-magic request, sent to an idle device without a command in
progress, leave the command unmasked at the start of the APDU buffer with its length, media
and state, and are answered with one packet that asks for the presence of the user.
\<close>

theorem u2f_tunnel_command:
  fixes p1 p2 :: u8
  assumes "u2f_idle s" "io_apdu_state s = APDU_IDLE" "u2f_channel ch" "p1 \<noteq> P1_SIGN_CHECK_ONLY"
    and "length params = 64" "tunnel_command apdu" "length le = 0 \<or> length le = 2"
  defines "data \<equiv> tunnel_message p1 p2 params apdu le"
  shows "\<exists>t. u2f_feed crc rest (u2f_packets U2F_CMD_MSG ch data) s = (Inr (), t)
    \<and> take (length apdu) (io_apdu_buffer t) = apdu \<and> unat (io_apdu_length t) = length apdu \<and> tunnelled t
    \<and> io_apdu_state t = APDU_U2F \<and> u2f_sent t = u2f_sent s @ [presence_packet ch]
    \<and> u2f_waiting crc ch data U2F_WAIT_ASYNCH_ON t \<and> fakeChannelTransportOffset (service t) = 0"
proof (rule wp_result)
  note d = tunnel_data [OF assms(5-7), of p1 p2, folded data_def]
  show "wp_c (u2f_feed crc rest (u2f_packets U2F_CMD_MSG ch data)) (\<lambda>_ t. take (length apdu) (io_apdu_buffer t) = apdu
    \<and> unat (io_apdu_length t) = length apdu \<and> tunnelled t \<and> io_apdu_state t = APDU_U2F
    \<and> u2f_sent t = u2f_sent s @ [presence_packet ch] \<and> u2f_waiting crc ch data U2F_WAIT_ASYNCH_ON t
    \<and> fakeChannelTransportOffset (service t) = 0) (\<lambda>_. False) s"
    by (rule wp_message [OF assms(1,3) disjI2 [OF refl] d(2)],
        rule wp_tunnel_message [OF _ data_def [THEN meta_eq_to_obj_eq] assms(5,6,7,4)])
      (use assms(2) in \<open>auto simp: same_io_def\<close>)
qed

definition sample_apdu :: "u8 list" where
  "sample_apdu = [0x10, 0x02, 0, 0, 1, 0]"

theorem u2f_tunnel_command_witness:
  "\<exists>t. u2f_feed (\<lambda>c _. c) [] (u2f_packets U2F_CMD_MSG [0, 0, 0, 1] (tunnel_message 3 0 (replicate 64 9) sample_apdu [])) sample_u2f
      = (Inr (), t) \<and> take (length sample_apdu) (io_apdu_buffer t) = sample_apdu
    \<and> u2f_sent t = u2f_sent sample_u2f @ [presence_packet [0, 0, 0, 1]]"
proof -
  have "tunnel_command sample_apdu"
    by (auto simp: tunnel_command_def sample_apdu_def dest!: arg_cong [of _ _ length])
  then show ?thesis
    using u2f_tunnel_command [OF sample_u2f_idle _ _ _ length_replicate, of "[0, 0, 0, 1]" 3 sample_apdu "[]" "\<lambda>c _. c" "[]" 0 9]
    by (auto simp: sample_u2f_def u2f_channel_def const_defs)
qed

text \<open>
Property C27: the host repeats its request until the user has decided.  While the application
has no reply, each repetition of the packets is answered with another presence packet and
leaves the device as it was.  When the reply is there it is held back until the request has
been repeated once more; then exactly the packets of the FIDO response are sent (user
presence and counter zero, the reply, 9000) and the device is idle.
\<close>

theorem u2f_tunnel_reply:
  assumes "u2f_waiting crc ch data U2F_WAIT_ASYNCH_ON s" "fakeChannelTransportOffset (service s) = 0" "\<not> sending (service s)"
    and "u2f_channel ch" "length data \<le> 334" "take (unat tx_len) (io_apdu_buffer s) = reply" "unat tx_len \<le> 330"
  defines "packets \<equiv> u2f_packets U2F_CMD_MSG ch data"
    and "answer \<equiv> u2f_packets U2F_CMD_MSG ch (replicate 5 0 @ reply @ [0x90, 0x00])"
  shows "(\<exists>t. bind_c (u2f_feed crc rest packets) (\<lambda>_. USBD_U2F_DataIn_impl) s = (Inr (), t)
      \<and> u2f_sent t = u2f_sent s @ [presence_packet ch] \<and> io_apdu_buffer t = io_apdu_buffer s
      \<and> u2f_waiting crc ch data U2F_WAIT_ASYNCH_ON t \<and> fakeChannelTransportOffset (service t) = 0 \<and> \<not> sending (service t))
    \<and> (\<exists>t u v. u2f_reply_ready s = (Inr False, t) \<and> u2f_feed crc rest packets t = (Inr (), u) \<and> u2f_sent u = u2f_sent s
      \<and> u2f_message_repliable (service u)
      \<and> bind_c (io_exchange_u2f_reply tx_len) (\<lambda>_. u2f_acknowledge (length answer)) u = (Inr (), v)
      \<and> u2f_sent v = u2f_sent s @ answer \<and> u2f_idle v \<and> io_apdu_state v = APDU_IDLE)"
proof
  show "\<exists>t. bind_c (u2f_feed crc rest packets) (\<lambda>_. USBD_U2F_DataIn_impl) s = (Inr (), t)
      \<and> u2f_sent t = u2f_sent s @ [presence_packet ch] \<and> io_apdu_buffer t = io_apdu_buffer s
      \<and> u2f_waiting crc ch data U2F_WAIT_ASYNCH_ON t \<and> fakeChannelTransportOffset (service t) = 0 \<and> \<not> sending (service t)"
    using repetition_presence [OF assms(1,2,4,5)] unfolding packets_def by (intro wp_result) simp
next
  from wp_result [OF repetition_ready [OF assms(1-5)]] obtain t u where
    tu: "u2f_reply_ready s = (Inr False, t)" "u2f_feed crc rest packets t = (Inr (), u)" "u2f_answerable ch s u"
    unfolding packets_def using reply_not_ready [OF assms(1)] by blast
  have "wp_c (io_exchange_u2f_reply tx_len) (\<lambda>_. wp_c (u2f_acknowledge (length answer))
    (\<lambda>_ v. u2f_sent v = u2f_sent s @ answer \<and> u2f_idle v \<and> io_apdu_state v = APDU_IDLE) E) E u" for E
    unfolding answer_def by (rule wp_tunnel_reply) (use tu(3) assms(6,7) in \<open>auto simp: u2f_answerable_def\<close>)
  from wp_result [OF this [THEN wp_bind [THEN iffD2]]]
  show "\<exists>t u v. u2f_reply_ready s = (Inr False, t) \<and> u2f_feed crc rest packets t = (Inr (), u) \<and> u2f_sent u = u2f_sent s
      \<and> u2f_message_repliable (service u)
      \<and> bind_c (io_exchange_u2f_reply tx_len) (\<lambda>_. u2f_acknowledge (length answer)) u = (Inr (), v)
      \<and> u2f_sent v = u2f_sent s @ answer \<and> u2f_idle v \<and> io_apdu_state v = APDU_IDLE"
    using tu unfolding u2f_answerable_def by blast
qed

text \<open>A device that waits for the user.\<close>

definition sample_waiting :: u2f_io where
  "sample_waiting = sample_u2f\<lparr>service := sample_service\<lparr>transportState := U2F_PROCESSING_COMMAND, transportMedia := U2F_MEDIA_USB,
     waitAsynchronousResponse := U2F_WAIT_ASYNCH_ON, transportLength := 83,
     commandCrc := message_crc (\<lambda>c _. c) U2F_CMD_MSG (replicate 80 1)\<rparr>\<rparr>"

theorem u2f_tunnel_reply_witness:
  "\<exists>t u v. u2f_reply_ready sample_waiting = (Inr False, t)
    \<and> u2f_feed (\<lambda>c _. c) [] (u2f_packets U2F_CMD_MSG [0, 0, 0, 1] (replicate 80 1)) t = (Inr (), u)
    \<and> bind_c (io_exchange_u2f_reply 2) (\<lambda>_. u2f_acknowledge (length (u2f_packets U2F_CMD_MSG [0, 0, 0, 1]
        (replicate 5 0 @ [0, 0] @ [0x90, 0x00])))) u = (Inr (), v)
    \<and> u2f_sent v = u2f_packets U2F_CMD_MSG [0, 0, 0, 1] (replicate 5 0 @ [0, 0] @ [0x90, 0x00])"
proof -
  have "u2f_waiting (\<lambda>c _. c) [0, 0, 0, 1] (replicate 80 1) U2F_WAIT_ASYNCH_ON sample_waiting"
    using sample_u2f_inv
    by (simp add: u2f_waiting_def u2f_inv_defs sample_waiting_def sample_u2f_def sample_service_def zero_service_def u2f_transport_init_def u2f_transport_reset_def)
  moreover have "u2f_channel [0, 0, 0, 1]" by (simp add: u2f_channel_def const_defs)
  moreover have s: "fakeChannelTransportOffset (service sample_waiting) = 0" "\<not> sending (service sample_waiting)"
    "io_apdu_buffer sample_waiting = replicate 337 0" "u2f_sent sample_waiting = []"
    by (simp_all add: sample_waiting_def sample_u2f_def sample_service_def zero_service_def u2f_transport_init_def u2f_transport_reset_def)
  moreover have two: "unat (2 :: u16) = 2" by simp
  moreover have "unat (2 :: u16) \<le> 330" "take (unat (2 :: u16)) (io_apdu_buffer sample_waiting) = [0, 0]"
    unfolding two s(3) by (simp_all add: numeral_2_eq_2)
  moreover have "length (replicate 80 (1 :: u8)) \<le> 334" by simp
  ultimately show ?thesis
    using u2f_tunnel_reply(1) [of "\<lambda>c _. c" "[0, 0, 0, 1]" "replicate 80 1" sample_waiting 2 "[0, 0]" "[]"] by auto
qed

end
