(* ===== verification/Limbs.thy ===== *)
theory Limbs
  imports Prelude
begin

text \<open>
  Arithmetic of numbers stored as two halves \<open>u * M + l\<close> with \<open>l < M\<close>, used for the
  128-bit integers (halves of 64 bits) and the 256-bit integers (halves of 128 bits).
\<close>

lemma hi_lo_mod: "l < M \<Longrightarrow> h mod M * M + l = (h * M + l) mod (M * M)" for h :: nat
  by (simp add: mod_mult2_eq)

lemma hi_lo_inject:
  "l < M \<Longrightarrow> l' < M \<Longrightarrow> h * M + l = h' * M + l' \<longleftrightarrow> h = h' \<and> l = l'" for h :: nat
  by (metis div_mult_self3 div_less add_cancel_left_right add_left_cancel mult.commute not_less_zero)

lemma hi_lo_less:
  fixes h :: nat
  assumes "l < M" and "l' < M"
  shows "h * M + l < h' * M + l' \<longleftrightarrow> h < h' \<or> h = h' \<and> l < l'"
proof (cases "h < h'")
  case True
  then have "(h + 1) * M \<le> h' * M" by (intro mult_le_mono1) simp
  with True assms show ?thesis by simp
next
  case False
  show ?thesis
  proof (cases "h = h'")
    case False
    with \<open>\<not> h < h'\<close> have "(h' + 1) * M \<le> h * M" by (intro mult_le_mono1) simp
    with False \<open>\<not> h < h'\<close> assms show ?thesis by simp
  qed simp
qed

lemma hi_lo_bound: "h < M \<Longrightarrow> l < M \<Longrightarrow> h * M + l < M * M" for h :: nat
proof -
  assume "h < M" "l < M"
  then have "(h + 1) * M \<le> M * M" by (intro mult_le_mono1) simp
  with \<open>l < M\<close> show ?thesis by simp
qed

text \<open>Addition with a carry and subtraction with a borrow.\<close>

lemma carry_iff: "a < M \<Longrightarrow> b < M \<Longrightarrow> (a + b) mod M < a \<longleftrightarrow> M \<le> a + b" for a :: nat
  by (cases "a + b < M") (auto simp: mod_if)

lemma add_halves:
  fixes h1 :: nat
  assumes "l1 < M" "l2 < M"
  shows "(h1 + h2 + (if (l1 + l2) mod M < l1 then 1 else 0)) mod M * M + (l1 + l2) mod M
    = (h1 * M + l1 + (h2 * M + l2)) mod (M * M)"
proof -
  have "(l1 + l2) mod M < M" using assms by simp
  moreover have "(h1 + h2 + (if (l1 + l2) mod M < l1 then 1 else 0)) * M + (l1 + l2) mod M
      = h1 * M + l1 + (h2 * M + l2)"
    using assms by (cases "l1 + l2 < M") (simp_all add: carry_iff mod_if algebra_simps)
  ultimately show ?thesis using hi_lo_mod by metis
qed

lemma sub_halves:
  fixes h1 :: int
  assumes "0 \<le> l1" "l1 < M" "0 \<le> l2" "l2 < M"
  shows "(h1 - h2 - (if (l1 - l2) mod M > l1 then 1 else 0)) mod M * M + (l1 - l2) mod M
    = (h1 * M + l1 - (h2 * M + l2)) mod (M * M)"
proof -
  have l: "(l1 - l2) mod M = l1 - l2 + (if l1 < l2 then M else 0)"
  proof (cases "l1 < l2")
    case True
    have "(l1 - l2) mod M = (l1 - l2 + M) mod M" by simp
    also have "\<dots> = l1 - l2 + M" using True assms by (intro mod_pos_pos_trivial) simp_all
    finally show ?thesis using True by simp
  next
    case False
    then have "(l1 - l2) mod M = l1 - l2" using assms by (intro mod_pos_pos_trivial) simp_all
    with False show ?thesis by simp
  qed
  have b: "(l1 - l2) mod M > l1 \<longleftrightarrow> l1 < l2" using l assms by simp
  let ?H = "h1 - h2 - (if l1 < l2 then 1 else 0)" and ?l = "(l1 - l2) mod M"
  have M: "0 < M" using assms by linarith
  have "?H * M + ?l = h1 * M + l1 - (h2 * M + l2)" by (simp add: l algebra_simps)
  moreover have "?H mod M * M + ?l = (?H * M + ?l) mod (M * M)"
    using M by (simp add: zmod_zmult2_eq)
  ultimately show ?thesis by (simp add: b)
qed

text \<open>Shifts across the halves.\<close>

lemma shl_halves:
  fixes h :: nat
  assumes M: "M = 2 ^ k" and v: "v \<le> k" and l: "l < M"
  shows "(h * 2 ^ v mod M + l div 2 ^ (k - v)) mod M * M + l * 2 ^ v mod M
    = (h * M + l) * 2 ^ v mod (M * M)"
proof -
  have "M = 2 ^ (k - v) * 2 ^ v" using v by (simp add: M power_add [symmetric])
  then have d: "l * 2 ^ v div M = l div 2 ^ (k - v)" by simp
  have "0 < M" by (simp add: M)
  then have "(h * 2 ^ v + l * 2 ^ v div M) mod M * M + l * 2 ^ v mod M
      = ((h * 2 ^ v + l * 2 ^ v div M) * M + l * 2 ^ v mod M) mod (M * M)"
    by (intro hi_lo_mod) simp
  also have "(h * 2 ^ v + l * 2 ^ v div M) * M + l * 2 ^ v mod M = (h * M + l) * 2 ^ v"
    by (simp add: algebra_simps)
  finally show ?thesis by (simp add: d mod_add_left_eq)
qed

lemma shr_halves:
  fixes h :: nat
  assumes M: "M = 2 ^ k" and v: "v \<le> k" and l: "l < M"
  shows "h div 2 ^ v * M + (h * 2 ^ (k - v) mod M + l div 2 ^ v) mod M = (h * M + l) div 2 ^ v"
proof -
  have Mv: "M = 2 ^ v * 2 ^ (k - v)" using v by (simp add: M power_add [symmetric])
  have a: "h * 2 ^ (k - v) mod M = h mod 2 ^ v * 2 ^ (k - v)"
    unfolding Mv by (rule mult_mod_left [symmetric])
  have lv: "l div 2 ^ v < 2 ^ (k - v)"
    using l unfolding Mv by (simp add: less_mult_imp_div_less mult.commute)
  have "h mod 2 ^ v * 2 ^ (k - v) + l div 2 ^ v < M"
  proof -
    have "(h mod 2 ^ v + 1) * 2 ^ (k - v) \<le> 2 ^ v * 2 ^ (k - v)"
      by (intro mult_le_mono1) (simp add: Suc_leI)
    with lv show ?thesis unfolding Mv by simp
  qed
  then have "(h * 2 ^ (k - v) mod M + l div 2 ^ v) mod M = h mod 2 ^ v * 2 ^ (k - v) + l div 2 ^ v"
    by (simp add: a)
  moreover have "(h * M + l) div 2 ^ v = h * 2 ^ (k - v) + l div 2 ^ v"
  proof -
    have "h * M + l = l + h * 2 ^ (k - v) * 2 ^ v" by (simp add: Mv)
    then have "(h * M + l) div 2 ^ v = (l + h * 2 ^ (k - v) * 2 ^ v) div 2 ^ v" by (rule arg_cong)
    also have "\<dots> = h * 2 ^ (k - v) + l div 2 ^ v" by (rule div_mult_self1) simp
    finally show ?thesis .
  qed
  moreover have "h div 2 ^ v * M + h mod 2 ^ v * 2 ^ (k - v) = h * 2 ^ (k - v)"
  proof -
    have "h div 2 ^ v * M + h mod 2 ^ v * 2 ^ (k - v)
        = (h div 2 ^ v * 2 ^ v + h mod 2 ^ v) * 2 ^ (k - v)"
      by (simp only: Mv distrib_right mult.assoc)
    then show ?thesis by (simp only: div_mult_mod_eq)
  qed
  ultimately show ?thesis by simp
qed

end
