(* ===== verification/Uint128.thy ===== *)
theory Uint128
  imports Limbs Digits
begin

text \<open>
  The 128-bit half of \<open>src/src/uint256.c\<close>: the type \<open>uint128_t\<close>, reading big-endian
  bytes, comparison, addition, subtraction, bitwise or, shifts and the bit length.
  Each C function stores its result through \<open>target\<close>; here the result is returned.
  The calls of the file pass the same object as argument and \<open>target\<close> only to
  \<open>add128\<close>, \<open>minus128\<close>, \<open>or128\<close>, and \<open>shiftr128\<close> with a shift of 1, where every
  half is read before it is overwritten.
  \<open>val128\<close> is the number an object stands for; each operation is shown to compute the
  corresponding operation on numbers modulo \<open>2 ^ 128\<close>.
\<close>

section \<open>The type and the operations\<close>

record uint128 =
  UPPER :: u64
  LOWER :: u64

text \<open>\<open>readUint64BE\<close>: the first eight bytes behind a pointer.\<close>

definition readUint64BE :: "u8 list \<Rightarrow> exn + u64" where
  "readUint64BE buffer =
     (if length buffer < 8 then Inl Fault
      else Inr (push_bit 56 (ucast (buffer ! 0)) OR push_bit 48 (ucast (buffer ! 1)) OR
                push_bit 40 (ucast (buffer ! 2)) OR push_bit 32 (ucast (buffer ! 3)) OR
                push_bit 24 (ucast (buffer ! 4)) OR push_bit 16 (ucast (buffer ! 5)) OR
                push_bit 8 (ucast (buffer ! 6)) OR ucast (buffer ! 7)))"

definition readu128BE :: "u8 list \<Rightarrow> exn + uint128" where
  "readu128BE buffer =
     (case readUint64BE buffer of
        Inl e \<Rightarrow> Inl e
      | Inr u \<Rightarrow> (case readUint64BE (drop 8 buffer) of
                   Inl e \<Rightarrow> Inl e
                 | Inr l \<Rightarrow> Inr \<lparr>UPPER = u, LOWER = l\<rparr>))"

definition zero128 :: "uint128 \<Rightarrow> bool" where
  "zero128 number \<longleftrightarrow> LOWER number = 0 \<and> UPPER number = 0"

definition copy128 :: "uint128 \<Rightarrow> uint128" where
  "copy128 number = \<lparr>UPPER = UPPER number, LOWER = LOWER number\<rparr>"

definition clear128 :: uint128 where
  "clear128 = \<lparr>UPPER = 0, LOWER = 0\<rparr>"

definition shiftl128 :: "uint128 \<Rightarrow> u32 \<Rightarrow> uint128" where
  "shiftl128 number val =
     (if val \<ge> 128 then clear128
      else if val = 64 then \<lparr>UPPER = LOWER number, LOWER = 0\<rparr>
      else if val = 0 then copy128 number
      else if val < 64 then
        \<lparr>UPPER = push_bit (unat val) (UPPER number) + drop_bit (unat (64 - val)) (LOWER number),
         LOWER = push_bit (unat val) (LOWER number)\<rparr>
      else if 128 > val \<and> val > 64 then
        \<lparr>UPPER = push_bit (unat (val - 64)) (LOWER number), LOWER = 0\<rparr>
      else clear128)"

definition shiftr128 :: "uint128 \<Rightarrow> u32 \<Rightarrow> uint128" where
  "shiftr128 number val =
     (if val \<ge> 128 then clear128
      else if val = 64 then \<lparr>UPPER = 0, LOWER = UPPER number\<rparr>
      else if val = 0 then copy128 number
      else if val < 64 then
        \<lparr>UPPER = drop_bit (unat val) (UPPER number),
         LOWER = push_bit (unat (64 - val)) (UPPER number) + drop_bit (unat val) (LOWER number)\<rparr>
      else if 128 > val \<and> val > 64 then
        \<lparr>UPPER = 0, LOWER = drop_bit (unat (val - 64)) (UPPER number)\<rparr>
      else clear128)"

text \<open>The loop \<open>while (up) { up >>= 1; result++; }\<close> of \<open>bits128\<close>.\<close>

function bits_loop64 :: "u64 \<Rightarrow> u32 \<Rightarrow> u32" where
  "bits_loop64 up result =
     (if up \<noteq> 0 then bits_loop64 (drop_bit 1 up) (result + 1) else result)"
  by pat_completeness auto
termination
proof (relation "measure (\<lambda>(up, result). unat up)")
  fix up :: u64
  assume "up \<noteq> 0"
  then have "0 < unat up" by (simp add: unat_gt_0)
  then show "((drop_bit 1 up, result + 1), up, result) \<in> measure (\<lambda>(up, result). unat up)"
    for result :: u32
    by (simp add: drop_bit_eq_div unat_div)
qed simp

declare bits_loop64.simps [simp del]

definition bits128 :: "uint128 \<Rightarrow> u32" where
  "bits128 number =
     (if UPPER number \<noteq> 0 then bits_loop64 (UPPER number) 64 else bits_loop64 (LOWER number) 0)"

definition equal128 :: "uint128 \<Rightarrow> uint128 \<Rightarrow> bool" where
  "equal128 number1 number2 \<longleftrightarrow> UPPER number1 = UPPER number2 \<and> LOWER number1 = LOWER number2"

definition gt128 :: "uint128 \<Rightarrow> uint128 \<Rightarrow> bool" where
  "gt128 number1 number2 \<longleftrightarrow>
     (if UPPER number1 = UPPER number2 then LOWER number1 > LOWER number2
      else UPPER number1 > UPPER number2)"

definition gte128 :: "uint128 \<Rightarrow> uint128 \<Rightarrow> bool" where
  "gte128 number1 number2 \<longleftrightarrow> gt128 number1 number2 \<or> equal128 number1 number2"

definition add128 :: "uint128 \<Rightarrow> uint128 \<Rightarrow> uint128" where
  "add128 number1 number2 =
     \<lparr>UPPER = UPPER number1 + UPPER number2 +
        (if LOWER number1 + LOWER number2 < LOWER number1 then 1 else 0),
      LOWER = LOWER number1 + LOWER number2\<rparr>"

definition minus128 :: "uint128 \<Rightarrow> uint128 \<Rightarrow> uint128" where
  "minus128 number1 number2 =
     \<lparr>UPPER = UPPER number1 - UPPER number2 -
        (if LOWER number1 - LOWER number2 > LOWER number1 then 1 else 0),
      LOWER = LOWER number1 - LOWER number2\<rparr>"

definition or128 :: "uint128 \<Rightarrow> uint128 \<Rightarrow> uint128" where
  "or128 number1 number2 =
     \<lparr>UPPER = UPPER number1 OR UPPER number2, LOWER = LOWER number1 OR LOWER number2\<rparr>"

section \<open>The numbers they stand for\<close>

definition val128 :: "uint128 \<Rightarrow> nat" where
  "val128 x = unat (UPPER x) * 2 ^ 64 + unat (LOWER x)"

lemma unat_u64_less [simp]: "unat (w :: u64) < 18446744073709551616"
  using unsigned_less [of w] by simp

lemma uint_u64_less [simp]: "uint (w :: u64) < 18446744073709551616"
  using unsigned_less [of w] by simp

lemma val128_less: "val128 x < 2 ^ 128"
  using hi_lo_bound [of "unat (UPPER x)" "2 ^ 64" "unat (LOWER x)"] by (simp add: val128_def)

lemma val128_inject: "val128 x = val128 y \<longleftrightarrow> x = y"
  using hi_lo_inject [of "unat (LOWER x)" "2 ^ 64" "unat (LOWER y)" "unat (UPPER x)" "unat (UPPER y)"]
  by (cases x, cases y) (auto simp: val128_def unsigned_word_eqI)

lemma val128_fields [simp]: "val128 \<lparr>UPPER = u, LOWER = l\<rparr> = unat u * 2 ^ 64 + unat l"
  by (simp add: val128_def)

lemma copy128_id [simp]: "copy128 x = x"
  by (simp add: copy128_def)

lemma val128_clear [simp]: "val128 clear128 = 0"
  by (simp add: clear128_def)

lemma zero128_val: "zero128 x \<longleftrightarrow> val128 x = 0"
  by (auto simp: zero128_def val128_def unat_eq_0)

lemma equal128_eq: "equal128 x y \<longleftrightarrow> x = y"
  by (cases x, cases y) (auto simp: equal128_def)

lemma gt128_val: "gt128 x y \<longleftrightarrow> val128 x > val128 y"
  using hi_lo_less [of "unat (LOWER y)" "2 ^ 64" "unat (LOWER x)" "unat (UPPER y)" "unat (UPPER x)"]
  by (auto simp: gt128_def val128_def word_less_nat_alt word_unat_eq_iff)

lemma gte128_val: "gte128 x y \<longleftrightarrow> val128 x \<ge> val128 y"
  by (auto simp: gte128_def gt128_val equal128_eq val128_inject [symmetric])

lemma val128_add: "val128 (add128 x y) = (val128 x + val128 y) mod 2 ^ 128"
  using add_halves [of "unat (LOWER x)" "2 ^ 64" "unat (LOWER y)" "unat (UPPER x)" "unat (UPPER y)"]
  by (simp add: add128_def val128_def unat_word_ariths word_less_nat_alt mod_add_left_eq mod_Suc_eq
      split: if_splits)

lemma val128_minus_int:
  "int (val128 (minus128 x y)) = (int (val128 x) - int (val128 y)) mod 2 ^ 128"
  using sub_halves [of "uint (LOWER x)" "2 ^ 64" "uint (LOWER y)" "uint (UPPER x)" "uint (UPPER y)"]
  by (simp add: minus128_def val128_def uint_word_ariths word_less_def mod_diff_left_eq
      split: if_splits)

lemma val128_minus: "val128 y \<le> val128 x \<Longrightarrow> val128 (minus128 x y) = val128 x - val128 y"
proof -
  assume le: "val128 y \<le> val128 x"
  have "int (val128 (minus128 x y)) = (int (val128 x) - int (val128 y)) mod 2 ^ 128"
    by (rule val128_minus_int)
  also have "\<dots> = int (val128 x) - int (val128 y)"
    using le val128_less [of x] by (intro mod_pos_pos_trivial) simp_all
  finally show ?thesis using le by simp
qed


lemma val128_or: "val128 (or128 x y) = val128 x OR val128 y"
proof -
  have split: "val128 z = push_bit 64 (unat (UPPER z)) OR unat (LOWER z)" for z
    by (simp add: val128_def nat_or_shifted)
  show ?thesis
    by (simp add: split or128_def unsigned_or_eq push_bit_or ac_simps)
qed

lemma val128_shiftl: "val128 (shiftl128 x v) = val128 x * 2 ^ unat v mod 2 ^ 128"
proof -
  let ?u = "unat (UPPER x)" and ?l = "unat (LOWER x)" and ?M = "2 ^ 64 :: nat" and ?v = "unat v"
  consider "v \<ge> 128" | "v = 64" | "v < 64" | "v < 128" "v > 64" by force
  then show ?thesis
  proof cases
    case 1
    then have "128 \<le> ?v" by (simp add: word_le_nat_alt)
    then have "(2::nat) ^ 128 dvd val128 x * 2 ^ ?v" by (intro dvd_mult le_imp_power_dvd)
    with 1 show ?thesis by (simp only: shiftl128_def if_True val128_clear dvd_eq_mod_eq_0)
  next
    case 2
    then show ?thesis by (simp add: shiftl128_def val128_def mod_mult2_eq)
  next
    case 3
    then have v: "?v < 64" by (simp add: word_less_nat_alt)
    have s: "unat (64 - v) = 64 - ?v" using 3 by (simp add: unat_sub word_le_nat_alt word_less_nat_alt)
    have "val128 (shiftl128 x v) = (?u * 2 ^ ?v mod ?M + ?l div 2 ^ (64 - ?v)) mod ?M * ?M + ?l * 2 ^ ?v mod ?M"
      using 3 v
      by (auto simp: shiftl128_def unat_word_ariths unat_push_bit unat_drop_bit s val128_def
          word_le_nat_alt)
    then show ?thesis using shl_halves [of ?M 64 ?v ?l ?u] v by (simp add: val128_def)
  next
    case 4
    then have v: "64 < ?v" "?v < 128" by (simp_all add: word_less_nat_alt)
    have s: "unat (v - 64) = ?v - 64" using 4 by (simp add: unat_sub word_le_nat_alt word_less_nat_alt)
    have "val128 (shiftl128 x v) = ?l * 2 ^ (?v - 64) mod ?M * ?M"
      using 4 v by (auto simp: shiftl128_def unat_push_bit s word_le_nat_alt)
    also have "\<dots> = (?l * 2 ^ (?v - 64) * ?M) mod (?M * ?M)" by (rule mult_mod_left)
    also have "\<dots> = (?u * 2 ^ (?v - 64) * (?M * ?M) + ?l * 2 ^ (?v - 64) * ?M) mod (?M * ?M)" by simp
    also have "?u * 2 ^ (?v - 64) * (?M * ?M) + ?l * 2 ^ (?v - 64) * ?M = val128 x * 2 ^ ?v"
    proof -
      have "2 ^ ?v = 2 ^ (?v - 64) * ?M" using v by (simp only: power_add [symmetric]) simp
      then show ?thesis by (simp only: val128_def distrib_left distrib_right ac_simps)
    qed
    finally show ?thesis by simp
  qed
qed

lemma val128_shiftr: "val128 (shiftr128 x v) = val128 x div 2 ^ unat v"
proof -
  let ?u = "unat (UPPER x)" and ?l = "unat (LOWER x)" and ?M = "2 ^ 64 :: nat" and ?v = "unat v"
  consider "v \<ge> 128" | "v = 64" | "v < 64" | "v < 128" "v > 64" by force
  then show ?thesis
  proof cases
    case 1
    then have "128 \<le> ?v" by (simp add: word_le_nat_alt)
    then have "(2::nat) ^ 128 \<le> 2 ^ ?v" by (rule power_increasing) simp
    with 1 show ?thesis using val128_less [of x] by (simp add: shiftr128_def)
  next
    case 2
    then show ?thesis by (simp add: shiftr128_def val128_def)
  next
    case 3
    then have v: "?v < 64" by (simp add: word_less_nat_alt)
    have s: "unat (64 - v) = 64 - ?v" using 3 by (simp add: unat_sub word_le_nat_alt word_less_nat_alt)
    have "val128 (shiftr128 x v) = ?u div 2 ^ ?v * ?M + (?u * 2 ^ (64 - ?v) mod ?M + ?l div 2 ^ ?v) mod ?M"
      using 3 v
      by (auto simp: shiftr128_def unat_word_ariths unat_push_bit unat_drop_bit s val128_def
          word_le_nat_alt)
    then show ?thesis using shr_halves [of ?M 64 ?v ?l ?u] v by (simp add: val128_def)
  next
    case 4
    then have v: "64 < ?v" "?v < 128" by (simp_all add: word_less_nat_alt)
    have s: "unat (v - 64) = ?v - 64" using 4 by (simp add: unat_sub word_le_nat_alt word_less_nat_alt)
    have "val128 (shiftr128 x v) = ?u div 2 ^ (?v - 64)"
      using 4 v by (auto simp: shiftr128_def unat_drop_bit s word_le_nat_alt)
    also have "?u = val128 x div ?M" by (simp add: val128_def)
    also have "val128 x div ?M div 2 ^ (?v - 64) = val128 x div (?M * 2 ^ (?v - 64))"
      by (rule div_mult2_eq [symmetric])
    also have "?M * 2 ^ (?v - 64) = 2 ^ ?v" using v by (simp only: power_add [symmetric]) simp
    finally show ?thesis .
  qed
qed


lemma bits_loop64_spec:
  "unat r + length (base_digits 2 (unat up)) < 2 ^ 32 \<Longrightarrow>
    unat (bits_loop64 up r) = unat r + length (base_digits 2 (unat up))"
proof (induction up r rule: bits_loop64.induct)
  case (1 up r)
  show ?case
  proof (cases "up = 0")
    case True
    then show ?thesis by (simp add: bits_loop64.simps [of 0 r])
  next
    case False
    then have pos: "0 < unat up" by (simp add: unat_gt_0)
    then have d: "length (base_digits 2 (unat up)) = Suc (length (base_digits 2 (unat (drop_bit 1 up))))"
      by (subst base_digits_step) (simp_all only: unat_drop_bit power_one_right length_append_singleton)
    then have r: "unat (r + 1) = unat r + 1"
      using "1.prems" by (simp add: unat_word_ariths)
    have "unat (bits_loop64 (drop_bit 1 up) (r + 1))
        = unat (r + 1) + length (base_digits 2 (unat (drop_bit 1 up)))"
      using False "1.prems" d r by (intro "1.IH") simp_all
    then show ?thesis using False d r by (simp add: bits_loop64.simps [of up r])
  qed
qed

lemma bits_loop64_u64:
  "unat r \<le> 64 \<Longrightarrow> unat (bits_loop64 up r) = unat r + length (base_digits 2 (unat up))"
  using base_digits_length_le [of 2 "unat up" 64] by (intro bits_loop64_spec) simp

lemma unat_bits128: "unat (bits128 x) = length (base_digits 2 (val128 x))"
proof (cases "UPPER x = 0")
  case True
  then show ?thesis by (simp add: bits128_def bits_loop64_u64 val128_def)
next
  case False
  then have "0 < unat (UPPER x)" by (simp add: unat_gt_0)
  then have "length (base_digits 2 (val128 x)) = length (base_digits 2 (unat (UPPER x))) + 64"
    unfolding val128_def by (intro digits_length_shift) simp_all
  with False show ?thesis by (simp add: bits128_def bits_loop64_u64)
qed

lemma take8: "8 \<le> length b \<Longrightarrow> take 8 b = [b ! 0, b ! 1, b ! 2, b ! 3, b ! 4, b ! 5, b ! 6, b ! 7]"
  by (rule nth_equalityI) (auto simp: less_Suc_eq numeral_eq_Suc)

lemma readUint64BE_val:
  assumes "8 \<le> length b"
  shows "\<exists>w. readUint64BE b = Inr w \<and> unat w = be_value (take 8 b)"
proof -
  have sh: "unat (push_bit k (ucast (x :: u8)) :: u64) = push_bit k (unat x)" if "k \<le> 56" for k x
  proof -
    have "unat x * 2 ^ k < 2 ^ 8 * 2 ^ k" by (intro mult_strict_right_mono) simp_all
    also have "\<dots> \<le> 2 ^ 64" using that by (simp only: power_add [symmetric]) (intro power_increasing, simp_all)
    finally show ?thesis unfolding unat_push_bit by (simp add: push_bit_eq_mult)
  qed
  have lt: "n * 2 ^ k + a < 2 ^ (k + 8)" if "n < 256" "a < 2 ^ k" for n a k :: nat
  proof -
    have "(n + 1) * 2 ^ k \<le> 256 * 2 ^ k" using that by (intro mult_le_mono1) simp
    then have "n * 2 ^ k + 2 ^ k \<le> 256 * 2 ^ k" by (simp only: add_mult_distrib mult_1)
    moreover have "(2::nat) ^ (k + 8) = 256 * 2 ^ k" by (simp add: power_add)
    ultimately show ?thesis using that by linarith
  qed
  note l8 = lt [where k = 8, simplified] lt [where k = 16, simplified] lt [where k = 24, simplified]
    lt [where k = 32, simplified] lt [where k = 40, simplified] lt [where k = 48, simplified]
  show ?thesis
    using assms
    by (simp add: readUint64BE_def unsigned_or_eq sh take8 or.assoc nat_or_shifted l8)
qed

lemma readu128BE_val:
  assumes "16 \<le> length b"
  shows "\<exists>x. readu128BE b = Inr x \<and> val128 x = be_value (take 16 b)"
proof -
  obtain u where u: "readUint64BE b = Inr u" "unat u = be_value (take 8 b)"
    using readUint64BE_val [of b] assms by auto
  obtain l where l: "readUint64BE (drop 8 b) = Inr l" "unat l = be_value (take 8 (drop 8 b))"
    using readUint64BE_val [of "drop 8 b"] assms by fastforce
  have "take 16 b = take 8 b @ take 8 (drop 8 b)"
    using take_add [of 8 8 b] by simp
  then have "be_value (take 16 b) = be_value (take 8 b) * 256 ^ 8 + be_value (take 8 (drop 8 b))"
    using assms by (simp add: be_value_append)
  then show ?thesis using u l by (simp add: readu128BE_def)
qed

end
