(* ===== verification/Uint256.thy ===== *)
theory Uint256
  imports Uint128
begin

text \<open>
  The 256-bit integers of \<open>src/src/uint256.c\<close>: two \<open>uint128_t\<close> halves, and the same
  operations one level up.  \<open>val256\<close> is the number an object stands for; the operations
  are shown to compute reading, comparison, addition, subtraction, or, shifts and the
  bit length of these numbers modulo \<open>2 ^ 256\<close>.  The only call of the file that passes
  one object as argument and \<open>target\<close> is \<open>minus256\<close> (and \<open>shiftr256\<close> by 1, \<open>or256\<close>),
  which overwrites each half after its last use as an argument.
\<close>

section \<open>The type and the operations\<close>

record uint256 =
  UPPER256 :: uint128
  LOWER256 :: uint128

definition readu256BE :: "u8 list \<Rightarrow> exn + uint256" where
  "readu256BE buffer =
     (case readu128BE buffer of
        Inl e \<Rightarrow> Inl e
      | Inr u \<Rightarrow> (case readu128BE (drop 16 buffer) of
                   Inl e \<Rightarrow> Inl e
                 | Inr l \<Rightarrow> Inr \<lparr>UPPER256 = u, LOWER256 = l\<rparr>))"

definition zero256 :: "uint256 \<Rightarrow> bool" where
  "zero256 number \<longleftrightarrow> zero128 (LOWER256 number) \<and> zero128 (UPPER256 number)"

definition copy256 :: "uint256 \<Rightarrow> uint256" where
  "copy256 number = \<lparr>UPPER256 = copy128 (UPPER256 number), LOWER256 = copy128 (LOWER256 number)\<rparr>"

definition clear256 :: uint256 where
  "clear256 = \<lparr>UPPER256 = clear128, LOWER256 = clear128\<rparr>"

definition shiftl256 :: "uint256 \<Rightarrow> u32 \<Rightarrow> uint256" where
  "shiftl256 number val =
     (if val \<ge> 256 then clear256
      else if val = 128 then \<lparr>UPPER256 = copy128 (LOWER256 number), LOWER256 = clear128\<rparr>
      else if val = 0 then copy256 number
      else if val < 128 then
        (let tmp1 = shiftl128 (UPPER256 number) val;
             tmp2 = shiftr128 (LOWER256 number) (128 - val)
         in copy256 \<lparr>UPPER256 = add128 tmp1 tmp2, LOWER256 = shiftl128 (LOWER256 number) val\<rparr>)
      else if 256 > val \<and> val > 128 then
        \<lparr>UPPER256 = shiftl128 (LOWER256 number) (val - 128), LOWER256 = clear128\<rparr>
      else clear256)"

definition shiftr256 :: "uint256 \<Rightarrow> u32 \<Rightarrow> uint256" where
  "shiftr256 number val =
     (if val \<ge> 256 then clear256
      else if val = 128 then \<lparr>UPPER256 = clear128, LOWER256 = copy128 (UPPER256 number)\<rparr>
      else if val = 0 then copy256 number
      else if val < 128 then
        (let tmp1 = shiftr128 (LOWER256 number) val;
             tmp2 = shiftl128 (UPPER256 number) (128 - val)
         in copy256 \<lparr>UPPER256 = shiftr128 (UPPER256 number) val, LOWER256 = add128 tmp1 tmp2\<rparr>)
      else if 256 > val \<and> val > 128 then
        \<lparr>UPPER256 = clear128, LOWER256 = shiftr128 (UPPER256 number) (val - 128)\<rparr>
      else clear256)"

definition equal256 :: "uint256 \<Rightarrow> uint256 \<Rightarrow> bool" where
  "equal256 number1 number2 \<longleftrightarrow>
     equal128 (UPPER256 number1) (UPPER256 number2) \<and> equal128 (LOWER256 number1) (LOWER256 number2)"

definition gt256 :: "uint256 \<Rightarrow> uint256 \<Rightarrow> bool" where
  "gt256 number1 number2 \<longleftrightarrow>
     (if equal128 (UPPER256 number1) (UPPER256 number2)
      then gt128 (LOWER256 number1) (LOWER256 number2)
      else gt128 (UPPER256 number1) (UPPER256 number2))"

definition gte256 :: "uint256 \<Rightarrow> uint256 \<Rightarrow> bool" where
  "gte256 number1 number2 \<longleftrightarrow> gt256 number1 number2 \<or> equal256 number1 number2"

definition add256 :: "uint256 \<Rightarrow> uint256 \<Rightarrow> uint256" where
  "add256 number1 number2 =
     (let upper = add128 (UPPER256 number1) (UPPER256 number2);
          tmp = add128 (LOWER256 number1) (LOWER256 number2);
          one = \<lparr>UPPER = 0, LOWER = 1\<rparr>;
          upper = (if gt128 (LOWER256 number1) tmp then add128 upper one else upper)
      in \<lparr>UPPER256 = upper, LOWER256 = add128 (LOWER256 number1) (LOWER256 number2)\<rparr>)"

definition minus256 :: "uint256 \<Rightarrow> uint256 \<Rightarrow> uint256" where
  "minus256 number1 number2 =
     (let upper = minus128 (UPPER256 number1) (UPPER256 number2);
          tmp = minus128 (LOWER256 number1) (LOWER256 number2);
          one = \<lparr>UPPER = 0, LOWER = 1\<rparr>;
          upper = (if gt128 tmp (LOWER256 number1) then minus128 upper one else upper)
      in \<lparr>UPPER256 = upper, LOWER256 = minus128 (LOWER256 number1) (LOWER256 number2)\<rparr>)"

definition or256 :: "uint256 \<Rightarrow> uint256 \<Rightarrow> uint256" where
  "or256 number1 number2 =
     \<lparr>UPPER256 = or128 (UPPER256 number1) (UPPER256 number2),
      LOWER256 = or128 (LOWER256 number1) (LOWER256 number2)\<rparr>"

text \<open>The loop \<open>while (!zero128(&up)) { shiftr128(&up, 1, &up); result++; }\<close>.\<close>

function bits_loop128 :: "uint128 \<Rightarrow> u32 \<Rightarrow> u32" where
  "bits_loop128 up result =
     (if \<not> zero128 up then bits_loop128 (shiftr128 up 1) (result + 1) else result)"
  by pat_completeness auto
termination
  by (relation "measure (\<lambda>(up, result). val128 up)") (simp_all add: val128_shiftr zero128_val)

declare bits_loop128.simps [simp del]

definition bits256 :: "uint256 \<Rightarrow> u32" where
  "bits256 number =
     (if \<not> zero128 (UPPER256 number) then bits_loop128 (copy128 (UPPER256 number)) 128
      else bits_loop128 (copy128 (LOWER256 number)) 0)"

section \<open>The numbers they stand for\<close>

definition val256 :: "uint256 \<Rightarrow> nat" where
  "val256 x = val128 (UPPER256 x) * 2 ^ 128 + val128 (LOWER256 x)"

lemma square_M128: "(2::nat) ^ 256 = 2 ^ 128 * 2 ^ 128"
  by (simp only: power_add [symmetric]) simp

lemma val256_less: "val256 x < 2 ^ 256"
  unfolding val256_def square_M128 by (intro hi_lo_bound val128_less)

lemma val256_inject: "val256 x = val256 y \<longleftrightarrow> x = y"
  unfolding val256_def hi_lo_inject [OF val128_less val128_less] val128_inject
  by (cases x, cases y) simp

lemma val256_fields [simp]:
  "val256 \<lparr>UPPER256 = u, LOWER256 = l\<rparr> = val128 u * 2 ^ 128 + val128 l"
  by (simp add: val256_def)

lemma copy256_id [simp]: "copy256 x = x"
  by (simp add: copy256_def)

lemma val256_clear [simp]: "val256 clear256 = 0"
  by (simp add: clear256_def)

lemma zero256_val: "zero256 x \<longleftrightarrow> val256 x = 0"
  by (auto simp: zero256_def val256_def zero128_val)

lemma equal256_eq: "equal256 x y \<longleftrightarrow> x = y"
  by (cases x, cases y) (auto simp: equal256_def equal128_eq)

lemma gt256_val: "gt256 x y \<longleftrightarrow> val256 x > val256 y"
  unfolding gt256_def val256_def hi_lo_less [OF val128_less val128_less] gt128_val equal128_eq
  by (auto simp: val128_inject)

lemma gte256_val: "gte256 x y \<longleftrightarrow> val256 x \<ge> val256 y"
  by (auto simp: gte256_def gt256_val equal256_eq val256_inject [symmetric])

lemma val256_add: "val256 (add256 x y) = (val256 x + val256 y) mod 2 ^ 256"
proof -
  let ?M = "2 ^ 128 :: nat"
  let ?c = "if (val128 (LOWER256 x) + val128 (LOWER256 y)) mod ?M < val128 (LOWER256 x) then 1 else 0 :: nat"
  have "val256 (add256 x y)
    = (val128 (UPPER256 x) + val128 (UPPER256 y) + ?c) mod ?M * ?M
      + (val128 (LOWER256 x) + val128 (LOWER256 y)) mod ?M"
    by (simp add: add256_def Let_def val128_add gt128_val val256_def mod_add_left_eq mod_Suc_eq)
  then show ?thesis
    unfolding add_halves [OF val128_less val128_less] square_M128 val256_def .
qed

lemma val256_minus_int:
  "int (val256 (minus256 x y)) = (int (val256 x) - int (val256 y)) mod 2 ^ 256"
proof -
  let ?M = "2 ^ 128 :: int"
  let ?l = "\<lambda>x. int (val128 (LOWER256 x))" and ?u = "\<lambda>x. int (val128 (UPPER256 x))"
  have gt: "val128 (minus128 (LOWER256 x) (LOWER256 y)) > val128 (LOWER256 x)
      \<longleftrightarrow> (?l x - ?l y) mod ?M > ?l x"
    by (subst of_nat_less_iff [where 'a = int, symmetric]) (simp only: val128_minus_int)
  have lt: "int (val128 z) < ?M" for z
    using val128_less [of z] by (simp add: of_nat_less_numeral_power_cancel_iff)
  have "int (val256 (minus256 x y))
    = (?u x - ?u y - (if (?l x - ?l y) mod ?M > ?l x then 1 else 0)) mod ?M * ?M + (?l x - ?l y) mod ?M"
    using gt
    by (simp add: minus256_def Let_def gt128_val val256_def val128_minus_int mod_diff_left_eq)
  also have "\<dots> = (?u x * ?M + ?l x - (?u y * ?M + ?l y)) mod (?M * ?M)"
    by (rule sub_halves) (simp_all only: lt of_nat_0_le_iff)
  finally show ?thesis by (simp add: val256_def)
qed

lemma val256_minus: "val256 y \<le> val256 x \<Longrightarrow> val256 (minus256 x y) = val256 x - val256 y"
proof -
  assume le: "val256 y \<le> val256 x"
  have "int (val256 (minus256 x y)) = (int (val256 x) - int (val256 y)) mod 2 ^ 256"
    by (rule val256_minus_int)
  also have "\<dots> = int (val256 x) - int (val256 y)"
    using le val256_less [of x] by (intro mod_pos_pos_trivial) simp_all
  finally show ?thesis using le by simp
qed

lemma val256_or: "val256 (or256 x y) = val256 x OR val256 y"
proof -
  have split: "val256 z = push_bit 128 (val128 (UPPER256 z)) OR val128 (LOWER256 z)" for z
    using nat_or_shifted [OF val128_less] by (simp only: val256_def)
  show ?thesis
    by (simp only: split or256_def val128_or uint256.simps push_bit_or ac_simps)
qed

lemma val256_shiftl: "val256 (shiftl256 x v) = val256 x * 2 ^ unat v mod 2 ^ 256"
proof -
  let ?u = "val128 (UPPER256 x)" and ?l = "val128 (LOWER256 x)" and ?M = "2 ^ 128 :: nat" and ?v = "unat v"
  consider "v \<ge> 256" | "v = 128" | "v = 0" | "v \<noteq> 0" "v < 128" | "v < 256" "v > 128" by force
  then show ?thesis
  proof cases
    case 1
    then have "256 \<le> ?v" by (simp add: word_le_nat_alt)
    then have "(2::nat) ^ 256 dvd val256 x * 2 ^ ?v" by (intro dvd_mult le_imp_power_dvd)
    with 1 show ?thesis by (simp only: shiftl256_def if_True val256_clear dvd_eq_mod_eq_0)
  next
    case 2
    have "val256 (shiftl256 x v) = ?l * ?M" using 2 by (simp add: shiftl256_def)
    also have "\<dots> = (?u * (?M * ?M) + ?l * ?M) mod (?M * ?M)"
      using val128_less [of "LOWER256 x"] by (simp add: mod_mult_self3)
    also have "?u * (?M * ?M) + ?l * ?M = val256 x * 2 ^ ?v"
    proof -
      have "?v = 128" using 2 by simp
      then show ?thesis by (simp only: val256_def distrib_left distrib_right ac_simps)
    qed
    finally show ?thesis by (simp add: square_M128)
  next
    case 3
    then show ?thesis using val256_less [of x] by (simp add: shiftl256_def)
  next
    case 4
    then have v: "?v < 128" by (simp add: word_less_nat_alt)
    have s: "unat (128 - v) = 128 - ?v" using 4 by (simp add: unat_sub word_le_nat_alt word_less_nat_alt)
    have "val256 (shiftl256 x v) = (?u * 2 ^ ?v mod ?M + ?l div 2 ^ (128 - ?v)) mod ?M * ?M + ?l * 2 ^ ?v mod ?M"
      using 4 v
      by (auto simp: shiftl256_def Let_def val128_add val128_shiftl val128_shiftr s word_le_nat_alt)
    then show ?thesis using shl_halves [of ?M 128 ?v ?l ?u] v val128_less [of "LOWER256 x"]
      by (simp add: val256_def square_M128)
  next
    case 5
    then have v: "128 < ?v" "?v < 256" by (simp_all add: word_less_nat_alt)
    have s: "unat (v - 128) = ?v - 128" using 5 by (simp add: unat_sub word_le_nat_alt word_less_nat_alt)
    have "val256 (shiftl256 x v) = ?l * 2 ^ (?v - 128) mod ?M * ?M"
      using 5 v by (auto simp: shiftl256_def val128_shiftl s word_le_nat_alt)
    also have "\<dots> = (?l * 2 ^ (?v - 128) * ?M) mod (?M * ?M)" by (rule mult_mod_left)
    also have "\<dots> = (?u * 2 ^ (?v - 128) * (?M * ?M) + ?l * 2 ^ (?v - 128) * ?M) mod (?M * ?M)" by simp
    also have "?u * 2 ^ (?v - 128) * (?M * ?M) + ?l * 2 ^ (?v - 128) * ?M = val256 x * 2 ^ ?v"
    proof -
      have "2 ^ ?v = 2 ^ (?v - 128) * ?M" using v by (simp only: power_add [symmetric]) simp
      then show ?thesis by (simp only: val256_def distrib_left distrib_right ac_simps)
    qed
    finally show ?thesis by (simp add: square_M128)
  qed
qed

lemma val256_shiftr: "val256 (shiftr256 x v) = val256 x div 2 ^ unat v"
proof -
  let ?u = "val128 (UPPER256 x)" and ?l = "val128 (LOWER256 x)" and ?M = "2 ^ 128 :: nat" and ?v = "unat v"
  have l: "?l < ?M" by (rule val128_less)
  consider "v \<ge> 256" | "v = 128" | "v = 0" | "v \<noteq> 0" "v < 128" | "v < 256" "v > 128" by force
  then show ?thesis
  proof cases
    case 1
    then have "256 \<le> ?v" by (simp add: word_le_nat_alt)
    then have "(2::nat) ^ 256 \<le> 2 ^ ?v" by (rule power_increasing) simp
    with 1 show ?thesis using val256_less [of x] by (simp add: shiftr256_def)
  next
    case 2
    then show ?thesis using l by (simp add: shiftr256_def val256_def)
  next
    case 3
    then show ?thesis by (simp add: shiftr256_def)
  next
    case 4
    then have v: "?v < 128" by (simp add: word_less_nat_alt)
    have nv: "\<not> 256 \<le> v" "v \<noteq> 128" using 4 by (auto dest: order_le_less_trans)
    have s: "unat (128 - v) = 128 - ?v" using 4 by (simp add: unat_sub word_le_nat_alt word_less_nat_alt)
    have "val256 (shiftr256 x v) = ?u div 2 ^ ?v * ?M + (?u * 2 ^ (128 - ?v) mod ?M + ?l div 2 ^ ?v) mod ?M"
      using 4 nv
      by (simp add: shiftr256_def Let_def val128_add val128_shiftl val128_shiftr s add.commute)
    then show ?thesis using shr_halves [of ?M 128 ?v ?l ?u] v l by (simp add: val256_def)
  next
    case 5
    then have v: "128 < ?v" "?v < 256" by (simp_all add: word_less_nat_alt)
    have s: "unat (v - 128) = ?v - 128" using 5 by (simp add: unat_sub word_le_nat_alt word_less_nat_alt)
    have "val256 (shiftr256 x v) = ?u div 2 ^ (?v - 128)"
      using 5 v by (auto simp: shiftr256_def val128_shiftr s word_le_nat_alt)
    also have "?u = val256 x div ?M" using l by (simp add: val256_def)
    also have "val256 x div ?M div 2 ^ (?v - 128) = val256 x div (?M * 2 ^ (?v - 128))"
      by (rule div_mult2_eq [symmetric])
    also have "?M * 2 ^ (?v - 128) = 2 ^ ?v" using v by (simp only: power_add [symmetric]) simp
    finally show ?thesis .
  qed
qed

lemma bits_loop128_spec:
  "unat r + length (base_digits 2 (val128 up)) < 2 ^ 32 \<Longrightarrow>
    unat (bits_loop128 up r) = unat r + length (base_digits 2 (val128 up))"
proof (induction up r rule: bits_loop128.induct)
  case (1 up r)
  show ?case
  proof (cases "zero128 up")
    case True
    then show ?thesis by (simp add: bits_loop128.simps [of up r] zero128_val)
  next
    case False
    then have d: "length (base_digits 2 (val128 up)) = Suc (length (base_digits 2 (val128 (shiftr128 up 1))))"
      by (subst base_digits_step) (simp_all add: val128_shiftr zero128_val)
    then have r: "unat (r + 1) = unat r + 1"
      using "1.prems" by (simp add: unat_word_ariths)
    have "unat (bits_loop128 (shiftr128 up 1) (r + 1))
        = unat (r + 1) + length (base_digits 2 (val128 (shiftr128 up 1)))"
      using False "1.prems" d r by (intro "1.IH") simp_all
    then show ?thesis using False d r by (simp add: bits_loop128.simps [of up r])
  qed
qed

lemma bits_loop128_u128:
  "unat r \<le> 128 \<Longrightarrow> unat (bits_loop128 up r) = unat r + length (base_digits 2 (val128 up))"
  using base_digits_length_le [of 2 "val128 up" 128] val128_less [of up] by (intro bits_loop128_spec) simp

lemma unat_bits256: "unat (bits256 x) = length (base_digits 2 (val256 x))"
proof (cases "zero128 (UPPER256 x)")
  case True
  then show ?thesis by (simp add: bits256_def bits_loop128_u128 val256_def zero128_val)
next
  case False
  then have "length (base_digits 2 (val256 x)) = length (base_digits 2 (val128 (UPPER256 x))) + 128"
    unfolding val256_def by (intro digits_length_shift val128_less) (simp_all add: zero128_val)
  with False show ?thesis by (simp add: bits256_def bits_loop128_u128)
qed

lemma readu256BE_val:
  assumes "32 \<le> length b"
  shows "\<exists>x. readu256BE b = Inr x \<and> val256 x = be_value (take 32 b)"
proof -
  obtain u where u: "readu128BE b = Inr u" "val128 u = be_value (take 16 b)"
    using readu128BE_val [of b] assms by auto
  obtain l where l: "readu128BE (drop 16 b) = Inr l" "val128 l = be_value (take 16 (drop 16 b))"
    using readu128BE_val [of "drop 16 b"] assms by fastforce
  have "take 32 b = take 16 b @ take 16 (drop 16 b)"
    using take_add [of 16 16 b] by simp
  then have "be_value (take 32 b) = be_value (take 16 b) * 256 ^ 16 + be_value (take 16 (drop 16 b))"
    using assms by (simp add: be_value_append)
  then show ?thesis using u l by (simp add: readu256BE_def)
qed


section \<open>What the 256-bit operations compute\<close>

text \<open>
Reading 32 bytes gives the number whose big-endian notation they are;
a shorter buffer is read past its end.
\<close>

theorem readu256BE_correct:
  "map_sum id val256 (readu256BE b)
     = (if length b < 32 then Inl Fault else Inr (be_value (take 32 b)))"
proof (cases "length b < 32")
  case True
  then have "readu256BE b = Inl Fault"
    by (auto simp: readu256BE_def readu128BE_def readUint64BE_def)
  with True show ?thesis by simp
next
  case False
  with readu256BE_val [of b] show ?thesis by fastforce
qed

text \<open>
Addition and subtraction are the operations on numbers modulo \<open>2 ^ 256\<close>
(the carry and the borrow between the halves included), and each undoes the other.
\<close>

theorem add256_minus256_correct:
  "val256 (add256 x y) = (val256 x + val256 y) mod 2 ^ 256
   \<and> int (val256 (minus256 x y)) = (int (val256 x) - int (val256 y)) mod 2 ^ 256
   \<and> minus256 (add256 x y) y = x \<and> add256 (minus256 x y) y = x"
proof -
  let ?M = "2 ^ 256 :: int"
  have less: "int (val256 z) < ?M" for z
    using val256_less [of z] by simp
  have add: "int (val256 (add256 a b)) = (int (val256 a) + int (val256 b)) mod ?M" for a b
    by (simp add: val256_add zmod_int)
  have "int (val256 (minus256 (add256 x y) y)) = int (val256 x)"
    using less [of x] by (simp only: val256_minus_int add mod_diff_left_eq add_diff_cancel_right')
      (simp add: mod_pos_pos_trivial)
  moreover have "int (val256 (add256 (minus256 x y) y)) = int (val256 x)"
    using less [of x] by (simp only: val256_minus_int add mod_add_left_eq diff_add_cancel)
      (simp add: mod_pos_pos_trivial)
  ultimately have "minus256 (add256 x y) y = x" "add256 (minus256 x y) y = x"
    by (simp_all only: of_nat_eq_iff val256_inject)
  then show ?thesis using val256_add val256_minus_int by blast
qed

text \<open>
The shifts by any 32-bit amount are multiplication and division by a power
of two modulo \<open>2 ^ 256\<close>, and \<open>bits256\<close> is the least number of bits that holds the number.
\<close>

theorem shift256_bits256_correct:
  "val256 (shiftl256 x v) = val256 x * 2 ^ unat v mod 2 ^ 256
   \<and> val256 (shiftr256 x v) = val256 x div 2 ^ unat v
   \<and> (unat (bits256 x) \<le> k \<longleftrightarrow> val256 x < 2 ^ k)"
proof -
  have "unat (bits256 x) \<le> k \<longleftrightarrow> val256 x < 2 ^ k"
  proof
    assume "unat (bits256 x) \<le> k"
    then have "(2::nat) ^ length (base_digits 2 (val256 x)) \<le> 2 ^ k"
      by (intro power_increasing) (simp_all add: unat_bits256)
    then show "val256 x < 2 ^ k"
      using digits_length_upper [of 2 "val256 x"] by linarith
  qed (simp add: unat_bits256 base_digits_length_le)
  then show ?thesis using val256_shiftl val256_shiftr by blast
qed

text \<open>
The comparisons are the comparisons of the numbers, so \<open>gt256\<close>, \<open>gte256\<close>
and \<open>equal256\<close> are one linear order.
\<close>

theorem compare256_correct:
  "(gt256 x y \<longleftrightarrow> val256 x > val256 y) \<and> (gte256 x y \<longleftrightarrow> val256 x \<ge> val256 y)
   \<and> (equal256 x y \<longleftrightarrow> x = y) \<and> (zero256 x \<longleftrightarrow> val256 x = 0) \<and> gte256 x y = (\<not> gt256 y x)"
  using gt256_val gte256_val equal256_eq zero256_val by auto

end
