(* ===== verification/Uint_Mul.thy ===== *)
theory Uint_Mul
  imports Uint256
begin

text \<open>
  The multiplications of \<open>src/src/uint256.c\<close>: \<open>mul128\<close> splits both numbers into four
  32-bit limbs, \<open>mul256\<close> into four 64-bit limbs; both compute the sixteen products, add
  the halves of the ten that matter into four columns and combine the columns.
  \<open>mul128\<close> is exact modulo \<open>2 ^ 128\<close>.  \<open>mul256\<close> places the carry of the third column
  64 bits too high, so it is exact when that carry is zero and only then.
\<close>

section \<open>The four columns of a product\<close>

text \<open>
  The column sums both routines compute, for numbers with the limbs \<open>a 0 \<dots> a 3\<close> and
  \<open>b 0 \<dots> b 3\<close> (most significant first) in base \<open>B\<close>.
\<close>

definition limbs4 :: "nat \<Rightarrow> (nat \<Rightarrow> nat) \<Rightarrow> nat" where
  "limbs4 B a = a 0 * B ^ 3 + a 1 * B ^ 2 + a 2 * B + a 3"

definition col4 :: "nat \<Rightarrow> (nat \<Rightarrow> nat) \<Rightarrow> (nat \<Rightarrow> nat) \<Rightarrow> nat" where
  "col4 B a b = a 3 * b 3 mod B"

definition col3 :: "nat \<Rightarrow> (nat \<Rightarrow> nat) \<Rightarrow> (nat \<Rightarrow> nat) \<Rightarrow> nat" where
  "col3 B a b = a 3 * b 2 mod B + a 3 * b 3 div B + a 2 * b 3 mod B"

definition col2 :: "nat \<Rightarrow> (nat \<Rightarrow> nat) \<Rightarrow> (nat \<Rightarrow> nat) \<Rightarrow> nat" where
  "col2 B a b = a 3 * b 1 mod B + a 3 * b 2 div B + (a 2 * b 2 mod B + a 2 * b 3 div B)
     + a 1 * b 3 mod B"

definition col1 :: "nat \<Rightarrow> (nat \<Rightarrow> nat) \<Rightarrow> (nat \<Rightarrow> nat) \<Rightarrow> nat" where
  "col1 B a b = a 3 * b 0 mod B + a 3 * b 1 div B + (a 2 * b 1 mod B + a 2 * b 2 div B)
     + (a 1 * b 2 mod B + a 1 * b 3 div B) + a 0 * b 3 mod B"

lemma columns_product:
  assumes B: "0 < B"
  shows "(col1 B a b * B ^ 3 + col2 B a b * B ^ 2 + col3 B a b * B + col4 B a b) mod B ^ 4
    = limbs4 B a * limbs4 B b mod B ^ 4"
proof -
  define h where "h i j = a i * b j div B" for i j
  define l where "l i j = a i * b j mod B" for i j
  have p: "a i * b j = h i j * B + l i j" for i j
    by (simp add: h_def l_def)
  let ?K = "h 3 0 + h 2 1 + h 1 2 + h 0 3 + a 2 * b 0 + a 1 * b 1 + a 0 * b 2
    + (a 1 * b 0 + a 0 * b 1) * B + a 0 * b 0 * B ^ 2"
  have "limbs4 B a * limbs4 B b
    = a 3 * b 3 + (a 3 * b 2 + a 2 * b 3) * B + (a 3 * b 1 + a 2 * b 2 + a 1 * b 3) * B ^ 2
      + (a 3 * b 0 + a 2 * b 1 + a 1 * b 2 + a 0 * b 3) * B ^ 3
      + (a 2 * b 0 + a 1 * b 1 + a 0 * b 2 + (a 1 * b 0 + a 0 * b 1) * B + a 0 * b 0 * B ^ 2) * B ^ 4"
    unfolding limbs4_def by (simp add: algebra_simps power_numeral_reduce)
  also have "\<dots> = col1 B a b * B ^ 3 + col2 B a b * B ^ 2 + col3 B a b * B + col4 B a b + ?K * B ^ 4"
    unfolding col1_def col2_def col3_def col4_def h_def [symmetric] l_def [symmetric]
    unfolding p [of 3 3] p [of 3 2] p [of 2 3] p [of 3 1] p [of 2 2] p [of 1 3]
      p [of 3 0] p [of 2 1] p [of 1 2] p [of 0 3]
    by (simp add: algebra_simps power_numeral_reduce)
  finally show ?thesis by simp
qed


section \<open>The code\<close>

text \<open>
  \<open>products[i][y]\<close> is filled by the two nested loops with the product of limb \<open>3 - i\<close> of
  the first and limb \<open>y\<close> of the second number, for all \<open>i\<close> and \<open>y\<close> below four.
\<close>

definition limbs32 :: "uint128 \<Rightarrow> u64 list" where
  "limbs32 number =
     [drop_bit 32 (UPPER number), UPPER number AND 0xffffffff,
      drop_bit 32 (LOWER number), LOWER number AND 0xffffffff]"

definition products32 :: "u64 list \<Rightarrow> u64 list \<Rightarrow> nat \<Rightarrow> nat \<Rightarrow> u64" where
  "products32 tops bottoms i y = tops ! (3 - i) * bottoms ! y"

definition mul128 :: "uint128 \<Rightarrow> uint128 \<Rightarrow> uint128" where
  "mul128 number1 number2 =
     (let products = products32 (limbs32 number1) (limbs32 number2);
          fourth32 = products 0 3 AND 0xffffffff;
          third32 = (products 0 2 AND 0xffffffff) + drop_bit 32 (products 0 3);
          second32 = (products 0 1 AND 0xffffffff) + drop_bit 32 (products 0 2);
          first32 = (products 0 0 AND 0xffffffff) + drop_bit 32 (products 0 1);
          third32 = third32 + (products 1 3 AND 0xffffffff);
          second32 = second32 + ((products 1 2 AND 0xffffffff) + drop_bit 32 (products 1 3));
          first32 = first32 + ((products 1 1 AND 0xffffffff) + drop_bit 32 (products 1 2));
          second32 = second32 + (products 2 3 AND 0xffffffff);
          first32 = first32 + ((products 2 2 AND 0xffffffff) + drop_bit 32 (products 2 3));
          first32 = first32 + (products 3 3 AND 0xffffffff);
          tmp = \<lparr>UPPER = push_bit 32 first32, LOWER = 0\<rparr>;
          tmp2 = \<lparr>UPPER = drop_bit 32 third32, LOWER = push_bit 32 third32\<rparr>;
          target = add128 tmp tmp2;
          tmp = \<lparr>UPPER = second32, LOWER = 0\<rparr>;
          tmp2 = add128 tmp target;
          tmp = \<lparr>UPPER = 0, LOWER = fourth32\<rparr>
      in add128 tmp tmp2)"

text \<open>\<open>UPPER(x) = 0; LOWER(x) = w;\<close>\<close>

definition low64 :: "u64 \<Rightarrow> uint128" where
  "low64 w = \<lparr>UPPER = 0, LOWER = w\<rparr>"

definition limbs64 :: "uint256 \<Rightarrow> uint128 list" where
  "limbs64 number =
     [low64 (UPPER (UPPER256 number)), low64 (LOWER (UPPER256 number)),
      low64 (UPPER (LOWER256 number)), low64 (LOWER (LOWER256 number))]"

definition products64 :: "uint128 list \<Rightarrow> uint128 list \<Rightarrow> nat \<Rightarrow> nat \<Rightarrow> uint128" where
  "products64 tops bottoms i y = mul128 (tops ! (3 - i)) (bottoms ! y)"

definition mul256 :: "uint256 \<Rightarrow> uint256 \<Rightarrow> uint256" where
  "mul256 number1 number2 =
     (let products = products64 (limbs64 number1) (limbs64 number2);
          fourth64 = low64 (LOWER (products 0 3));
          third64 = add128 (low64 (LOWER (products 0 2))) (low64 (UPPER (products 0 3)));
          second64 = add128 (low64 (LOWER (products 0 1))) (low64 (UPPER (products 0 2)));
          first64 = add128 (low64 (LOWER (products 0 0))) (low64 (UPPER (products 0 1)));
          third64 = copy128 (add128 (low64 (LOWER (products 1 3))) third64);
          tmp2 = add128 (low64 (LOWER (products 1 2))) second64;
          second64 = add128 (low64 (UPPER (products 1 3))) tmp2;
          tmp2 = add128 (low64 (LOWER (products 1 1))) first64;
          first64 = add128 (low64 (UPPER (products 1 2))) tmp2;
          second64 = copy128 (add128 (low64 (LOWER (products 2 3))) second64);
          tmp2 = add128 (low64 (LOWER (products 2 2))) first64;
          first64 = add128 (low64 (UPPER (products 2 3))) tmp2;
          first64 = copy128 (add128 (low64 (LOWER (products 3 3))) first64);
          target1 = clear256\<lparr>UPPER256 := shiftl128 first64 64\<rparr>;
          target2 = clear256\<lparr>UPPER256 := (UPPER256 clear256)\<lparr>UPPER := UPPER third64\<rparr>\<rparr>;
          target2 = target2\<lparr>LOWER256 := shiftl128 third64 64\<rparr>;
          target = add256 target1 target2;
          target1 = clear256\<lparr>UPPER256 := copy128 second64\<rparr>;
          target2 = add256 target1 target;
          target1 = clear256\<lparr>LOWER256 := copy128 fourth64\<rparr>
      in add256 target1 target2)"

section \<open>The product of two 128-bit numbers\<close>

abbreviation "nlimbs32 x \<equiv> (\<lambda>i. unat (limbs32 x ! i))"

lemma unat_and_32: "unat ((w :: u64) AND 0xffffffff) = unat w mod 2 ^ 32"
proof -
  have "(0xffffffff :: u64) = mask 32" by (simp add: mask_eq_exp_minus_1)
  then show ?thesis
    by (simp only: take_bit_eq_mask [symmetric] unsigned_take_bit_eq) (simp add: take_bit_eq_mod)
qed

lemma unat_drop_32: "unat (drop_bit 32 (w :: u64)) = unat w div 2 ^ 32"
  by (simp only: unat_drop_bit)

lemma index4_cases: "i < 4 \<Longrightarrow> i = 0 \<or> i = 1 \<or> i = 2 \<or> i = (3 :: nat)"
  by linarith

lemma limbs32_nth:
  "limbs32 x ! 0 = drop_bit 32 (UPPER x)" "limbs32 x ! 1 = UPPER x AND 0xffffffff"
  "limbs32 x ! 2 = drop_bit 32 (LOWER x)" "limbs32 x ! 3 = LOWER x AND 0xffffffff"
  by (simp_all add: limbs32_def)

lemma limbs4_pairs: "limbs4 (2 ^ k) f = (f 0 * 2 ^ k + f 1) * 2 ^ (k + k) + (f 2 * 2 ^ k + f 3)"
  by (simp add: limbs4_def power_add power_numeral_reduce distrib_left distrib_right)

lemma limbs4_limbs32: "limbs4 (2 ^ 32) (nlimbs32 x) = val128 x"
proof -
  have w: "unat w = unat w div 2 ^ 32 * 2 ^ 32 + unat w mod 2 ^ 32" for w :: u64 by simp
  have "val128 x = (unat (UPPER x) div 2 ^ 32 * 2 ^ 32 + unat (UPPER x) mod 2 ^ 32) * 2 ^ 64
      + (unat (LOWER x) div 2 ^ 32 * 2 ^ 32 + unat (LOWER x) mod 2 ^ 32)"
    by (simp only: w [symmetric] val128_def)
  also have "\<dots> = limbs4 (2 ^ 32) (nlimbs32 x)"
    by (simp only: limbs4_pairs limbs32_nth unat_and_32 unat_drop_32 add_numeral_left) simp
  finally show ?thesis by simp
qed

lemma limbs32_less: "i < 4 \<Longrightarrow> unat (limbs32 x ! i) < 2 ^ 32"
proof -
  have "unat w div 2 ^ 32 < 2 ^ 32" for w :: u64
    by (rule less_mult_imp_div_less) simp
  moreover assume "i < 4"
  ultimately show ?thesis
    using index4_cases [of i] by (auto simp add: limbs32_def unat_and_32 unat_drop_32)
qed

lemma unat_products32:
  "i < 4 \<Longrightarrow> y < 4 \<Longrightarrow>
   unat (products32 (limbs32 a) (limbs32 b) i y) = nlimbs32 a (3 - i) * nlimbs32 b y"
proof -
  assume "i < 4" "y < 4"
  then have "nlimbs32 a (3 - i) * nlimbs32 b y < 2 ^ 32 * 2 ^ 32"
    by (intro mult_strict_mono limbs32_less) simp_all
  then show ?thesis by (simp add: products32_def unat_word_ariths)
qed

text \<open>
  No column overflows a 64-bit word: each is a sum of at most seven numbers below
  \<open>2 ^ 32\<close>.
\<close>

lemma col_bounds:
  assumes a: "\<And>i. i < 4 \<Longrightarrow> a i < B" and b: "\<And>i. i < 4 \<Longrightarrow> b i < B"
  shows "col4 B a b < B" "col3 B a b < 3 * B" "col2 B a b < 5 * B" "col1 B a b < 7 * B"
proof -
  have m: "x mod B < B" for x using a [of 0] by simp
  have d: "a i * b j div B < B" if "i < 4" "j < 4" for i j
    using that a [of 0] by (intro less_mult_imp_div_less mult_strict_mono a b) auto
  show "col4 B a b < B" unfolding col4_def by (rule m)
  show "col3 B a b < 3 * B"
    unfolding col3_def using m [of "a 3 * b 2"] d [of 3 3] m [of "a 2 * b 3"] by linarith
  show "col2 B a b < 5 * B"
    unfolding col2_def using m [of "a 3 * b 1"] d [of 3 2] m [of "a 2 * b 2"] d [of 2 3] m [of "a 1 * b 3"]
    by linarith
  show "col1 B a b < 7 * B"
    unfolding col1_def using m [of "a 3 * b 0"] d [of 3 1] m [of "a 2 * b 1"] d [of 2 2]
      m [of "a 1 * b 2"] d [of 1 3] m [of "a 0 * b 3"]
    by linarith
qed

lemma unat_plus_nat: "unat x + unat y < 2 ^ 64 \<Longrightarrow> unat ((x :: u64) + y) = unat x + unat y"
  by (simp add: unat_word_ariths)

lemma val128_mul: "val128 (mul128 x y) = val128 x * val128 y mod 2 ^ 128"
proof -
  let ?B = "2 ^ 32 :: nat" and ?a = "nlimbs32 x" and ?b = "nlimbs32 y"
  let ?p = "products32 (limbs32 x) (limbs32 y)"
  define c4 where "c4 = ?p 0 3 AND 0xffffffff"
  define c3 where "c3 = (?p 0 2 AND 0xffffffff) + drop_bit 32 (?p 0 3) + (?p 1 3 AND 0xffffffff)"
  define c2 where "c2 = (?p 0 1 AND 0xffffffff) + drop_bit 32 (?p 0 2)
    + ((?p 1 2 AND 0xffffffff) + drop_bit 32 (?p 1 3)) + (?p 2 3 AND 0xffffffff)"
  define c1 where "c1 = (?p 0 0 AND 0xffffffff) + drop_bit 32 (?p 0 1)
    + ((?p 1 1 AND 0xffffffff) + drop_bit 32 (?p 1 2))
    + ((?p 2 2 AND 0xffffffff) + drop_bit 32 (?p 2 3)) + (?p 3 3 AND 0xffffffff)"
  note bounds = col_bounds [where a = ?a and b = ?b, OF limbs32_less limbs32_less]
  note cols = unat_and_32 unat_drop_32 unat_products32
  have c4: "unat c4 = col4 ?B ?a ?b"
    by (simp add: c4_def col4_def cols)
  have c3: "unat c3 = col3 ?B ?a ?b"
    using bounds(2) by (simp add: c3_def col3_def unat_plus_nat cols)
  have c2: "unat c2 = col2 ?B ?a ?b"
    using bounds(3) by (simp add: c2_def col2_def unat_plus_nat cols)
  have c1: "unat c1 = col1 ?B ?a ?b"
    using bounds(4) by (simp add: c1_def col1_def unat_plus_nat cols)
  have "mul128 x y = add128 \<lparr>UPPER = 0, LOWER = c4\<rparr> (add128 \<lparr>UPPER = c2, LOWER = 0\<rparr>
      (add128 \<lparr>UPPER = push_bit 32 c1, LOWER = 0\<rparr>
              \<lparr>UPPER = drop_bit 32 c3, LOWER = push_bit 32 c3\<rparr>))"
    by (simp only: mul128_def Let_def c1_def c2_def c3_def c4_def)
  then have "val128 (mul128 x y)
    = (unat c4 + unat c2 * 2 ^ 64 + unat c1 * 2 ^ 32 mod 2 ^ 64 * 2 ^ 64
        + (unat c3 div 2 ^ 32 * 2 ^ 64 + unat c3 * 2 ^ 32 mod 2 ^ 64)) mod 2 ^ 128"
    by (simp add: val128_add unat_push_bit unat_drop_bit mod_add_right_eq add.assoc)
  also have "\<dots> = (unat c4 + unat c2 * 2 ^ 64 + unat c1 * 2 ^ 96 + unat c3 * 2 ^ 32) mod 2 ^ 128"
  proof -
    have "unat c3 * 2 ^ 32 div 2 ^ 64 = unat c3 div 2 ^ 32"
      using div_mult2_eq [of "unat c3 * 2 ^ 32" "2 ^ 32" "2 ^ 32"] by simp
    then have "unat c3 div 2 ^ 32 * 2 ^ 64 + unat c3 * 2 ^ 32 mod 2 ^ 64 = unat c3 * 2 ^ 32"
      by (metis div_mult_mod_eq)
    moreover have "unat c1 * 2 ^ 32 mod 2 ^ 64 * 2 ^ 64 = unat c1 * 2 ^ 96 mod 2 ^ 128"
      using mult_mod_left [of "unat c1 * 2 ^ 32" "2 ^ 64" "2 ^ 64"] by (simp add: mult.commute)
    moreover have "(a + b mod m + c) mod m = (a + b + c) mod m" for a b c m :: nat
      by (metis mod_add_left_eq mod_add_right_eq)
    ultimately show ?thesis by (simp only:)
  qed
  also have "\<dots> = (col1 ?B ?a ?b * ?B ^ 3 + col2 ?B ?a ?b * ?B ^ 2 + col3 ?B ?a ?b * ?B
      + col4 ?B ?a ?b) mod ?B ^ 4"
    by (simp add: c1 c2 c3 c4 ac_simps)
  also have "\<dots> = val128 x * val128 y mod 2 ^ 128"
    by (subst columns_product) (simp_all add: limbs4_limbs32 [simplified])
  finally show ?thesis .
qed


section \<open>The product of two 256-bit numbers\<close>

abbreviation "nlimbs64 x \<equiv> (\<lambda>i. val128 (limbs64 x ! i))"

lemma val128_low64 [simp]: "val128 (low64 w) = unat w"
  by (simp add: low64_def)

lemma limbs64_nth:
  "limbs64 x ! 0 = low64 (UPPER (UPPER256 x))" "limbs64 x ! 1 = low64 (LOWER (UPPER256 x))"
  "limbs64 x ! 2 = low64 (UPPER (LOWER256 x))" "limbs64 x ! 3 = low64 (LOWER (LOWER256 x))"
  by (simp_all add: limbs64_def)

lemma limbs4_limbs64: "limbs4 (2 ^ 64) (nlimbs64 x) = val256 x"
  by (simp only: limbs4_pairs limbs64_nth val128_low64 val256_def val128_def add_numeral_left) (simp add: low64_def)

lemma limbs64_less: "i < 4 \<Longrightarrow> nlimbs64 x i < 2 ^ 64"
  using index4_cases [of i] by (auto simp add: limbs64_def)

lemma val_products64:
  "i < 4 \<Longrightarrow> y < 4 \<Longrightarrow>
   val128 (products64 (limbs64 a) (limbs64 b) i y) = nlimbs64 a (3 - i) * nlimbs64 b y"
proof -
  assume "i < 4" "y < 4"
  then have "nlimbs64 a (3 - i) * nlimbs64 b y < 2 ^ 64 * 2 ^ 64"
    by (intro mult_strict_mono limbs64_less) simp_all
  then show ?thesis by (simp add: products64_def val128_mul)
qed

lemma unat_LOWER: "unat (LOWER z) = val128 z mod 2 ^ 64"
  by (simp add: val128_def)

lemma unat_UPPER: "unat (UPPER z) = val128 z div 2 ^ 64"
  by (simp add: val128_def)

lemma val128_add_nat:
  "val128 x + val128 y < 2 ^ 128 \<Longrightarrow> val128 (add128 x y) = val128 x + val128 y"
  by (simp add: val128_add)

text \<open>The carry of the third column.\<close>

definition third_carry :: "uint256 \<Rightarrow> uint256 \<Rightarrow> nat" where
  "third_carry x y = col3 (2 ^ 64) (nlimbs64 x) (nlimbs64 y) div 2 ^ 64"

lemma val256_mul:
  "val256 (mul256 x y) =
     (val256 x * val256 y + third_carry x y * (2 ^ 192 - 2 ^ 128)) mod 2 ^ 256"
proof -
  let ?B = "2 ^ 64 :: nat" and ?a = "nlimbs64 x" and ?b = "nlimbs64 y"
  let ?p = "products64 (limbs64 x) (limbs64 y)"
  let ?lo = "\<lambda>i j. low64 (LOWER (?p i j))" and ?hi = "\<lambda>i j. low64 (UPPER (?p i j))"
  define c3 where "c3 = add128 (?lo 1 3) (add128 (?lo 0 2) (?hi 0 3))"
  define c2 where "c2 = add128 (?lo 2 3) (add128 (?hi 1 3) (add128 (?lo 1 2) (add128 (?lo 0 1) (?hi 0 2))))"
  define c1 where "c1 = add128 (?lo 3 3) (add128 (?hi 2 3) (add128 (?lo 2 2)
    (add128 (?hi 1 2) (add128 (?lo 1 1) (add128 (?lo 0 0) (?hi 0 1))))))"
  note bounds = col_bounds [where a = ?a and b = ?b, OF limbs64_less limbs64_less]
  note cols = unat_LOWER unat_UPPER val_products64
  have c4: "val128 (?lo 0 3) = col4 ?B ?a ?b"
    by (simp add: col4_def cols)
  have "val128 c3 = col3 ?B ?a ?b mod 2 ^ 128"
    by (simp only: c3_def col3_def val128_add mod_add_right_eq val128_low64 cols) (simp add: ac_simps)
  then have c3: "val128 c3 = col3 ?B ?a ?b" using bounds(2) by simp
  have "val128 c2 = col2 ?B ?a ?b mod 2 ^ 128"
    by (simp only: c2_def col2_def val128_add mod_add_right_eq val128_low64 cols) (simp add: ac_simps)
  then have c2: "val128 c2 = col2 ?B ?a ?b" using bounds(3) by simp
  have "val128 c1 = col1 ?B ?a ?b mod 2 ^ 128"
    by (simp only: c1_def col1_def val128_add mod_add_right_eq val128_low64 cols) (simp add: ac_simps)
  then have c1: "val128 c1 = col1 ?B ?a ?b" using bounds(4) by simp
  let ?k = "third_carry x y" and ?u = "\<lambda>u. \<lparr>UPPER256 = u, LOWER256 = clear128\<rparr>"
  have k: "unat (UPPER c3) = ?k"
    by (simp add: unat_UPPER c3 third_carry_def)
  have "mul256 x y = add256 \<lparr>UPPER256 = clear128, LOWER256 = ?lo 0 3\<rparr> (add256 (?u c2)
      (add256 (?u (shiftl128 c1 64))
        \<lparr>UPPER256 = clear128\<lparr>UPPER := UPPER c3\<rparr>, LOWER256 = shiftl128 c3 64\<rparr>))"
    by (simp add: mul256_def Let_def c1_def c2_def c3_def clear256_def)
  then have "val256 (mul256 x y)
    = (val128 (?lo 0 3) + val128 c2 * 2 ^ 128 + val128 c1 * 2 ^ 64 mod 2 ^ 128 * 2 ^ 128
        + (?k * 2 ^ 192 + val128 c3 * 2 ^ 64 mod 2 ^ 128)) mod 2 ^ 256"
    by (simp add: val256_add val128_shiftl val128_def [of "_\<lparr>UPPER := _\<rparr>"] clear128_def k
        mod_add_right_eq add.assoc mult.commute)
  also have "\<dots> = (col1 ?B ?a ?b * ?B ^ 3 + col2 ?B ?a ?b * ?B ^ 2 + col3 ?B ?a ?b * ?B
      + col4 ?B ?a ?b + ?k * (2 ^ 192 - 2 ^ 128)) mod 2 ^ 256"
    (is "_ = ?rhs")
  proof -
    have "val128 c1 * 2 ^ 64 mod 2 ^ 128 * 2 ^ 128 = val128 c1 * 2 ^ 192 mod 2 ^ 256"
      using mult_mod_left [of "val128 c1 * 2 ^ 64" "2 ^ 128" "2 ^ 128"] by (simp add: mult.commute)
    moreover have "?k * 2 ^ 192 + val128 c3 * 2 ^ 64 mod 2 ^ 128
        = val128 c3 * 2 ^ 64 + ?k * (2 ^ 192 - 2 ^ 128)"
    proof -
      have "val128 c3 * 2 ^ 64 mod 2 ^ 128 = val128 c3 mod 2 ^ 64 * 2 ^ 64"
        using mult_mod_left [of "val128 c3" "2 ^ 64" "2 ^ 64"] by simp
      moreover have "val128 c3 = ?k * 2 ^ 64 + val128 c3 mod 2 ^ 64"
        by (simp add: c3 third_carry_def)
      ultimately show ?thesis by simp
    qed
    moreover have "(a + b mod m + c) mod m = (a + b + c) mod m" for a b c m :: nat
      by (metis mod_add_left_eq mod_add_right_eq)
    ultimately have "(val128 (?lo 0 3) + val128 c2 * 2 ^ 128 + val128 c1 * 2 ^ 64 mod 2 ^ 128 * 2 ^ 128
        + (?k * 2 ^ 192 + val128 c3 * 2 ^ 64 mod 2 ^ 128)) mod 2 ^ 256
      = (val128 (?lo 0 3) + val128 c2 * 2 ^ 128 + val128 c1 * 2 ^ 192
        + (val128 c3 * 2 ^ 64 + ?k * (2 ^ 192 - 2 ^ 128))) mod 2 ^ 256"
      by (simp only:)
    also have "\<dots> = ?rhs"
      by (simp only: c1 c2 c3 c4 power_mult [symmetric]) (simp add: ac_simps)
    finally show ?thesis .
  qed
  also have "\<dots> = (val256 x * val256 y + ?k * (2 ^ 192 - 2 ^ 128)) mod 2 ^ 256"
  proof -
    have "(col1 ?B ?a ?b * ?B ^ 3 + col2 ?B ?a ?b * ?B ^ 2 + col3 ?B ?a ?b * ?B + col4 ?B ?a ?b) mod 2 ^ 256
      = val256 x * val256 y mod 2 ^ 256"
      using columns_product [of ?B ?a ?b] by (simp add: limbs4_limbs64 [simplified])
    then show ?thesis by (rule mod_add_cong) simp
  qed
  finally show ?thesis .
qed


lemma third_carry_less: "third_carry x y < 3"
  unfolding third_carry_def
  by (intro less_mult_imp_div_less col_bounds(2) limbs64_less)

lemma third_carry_small: "val256 x * val256 y < 2 ^ 128 \<Longrightarrow> third_carry x y = 0"
proof -
  let ?B = "2 ^ 64 :: nat" and ?a = "nlimbs64 x" and ?b = "nlimbs64 y"
  assume small: "val256 x * val256 y < 2 ^ 128"
  have "col3 ?B ?a ?b * ?B \<le> (?a 2 * ?B + ?a 3) * (?b 2 * ?B + ?b 3)"
  proof -
    have "col3 ?B ?a ?b * ?B \<le> (?a 3 * ?b 2 + ?a 3 * ?b 3 div ?B + ?a 2 * ?b 3) * ?B"
      unfolding col3_def by (intro mult_le_mono1 add_mono mod_less_eq_dividend order_refl)
    also have "\<dots> \<le> ?a 3 * ?b 2 * ?B + ?a 3 * ?b 3 + ?a 2 * ?b 3 * ?B"
      using div_times_less_eq_dividend [of "?a 3 * ?b 3" ?B] by (simp only: distrib_right)
    also have "\<dots> \<le> (?a 2 * ?B + ?a 3) * (?b 2 * ?B + ?b 3)"
      by (simp add: distrib_left distrib_right ac_simps)
    finally show ?thesis .
  qed
  also have "\<dots> \<le> val256 x * val256 y"
    unfolding limbs4_limbs64 [symmetric] limbs4_def by (intro mult_le_mono) simp_all
  finally have "col3 ?B ?a ?b * ?B < ?B * ?B" using small by simp
  then show ?thesis by (simp add: third_carry_def)
qed

text \<open>
\<open>mul128\<close> is multiplication modulo \<open>2 ^ 128\<close>: none of the four column sums
of the 32-bit halves of the products overflows its 64-bit word.
\<close>

theorem mul128_correct: "val128 (mul128 x y) = val128 x * val128 y mod 2 ^ 128"
  by (rule val128_mul)

text \<open>
Property C37: what \<open>mul256\<close> computes.  The carry of the third 64-bit column is stored in
the upper half of the upper half of \<open>target2\<close>, that is, with the weight \<open>2 ^ 192\<close>
instead of \<open>2 ^ 128\<close>.  So the result is the product modulo \<open>2 ^ 256\<close> if and only if that
carry is zero; it is zero whenever the product is below \<open>2 ^ 128\<close>, and it is one for
the square of \<open>2 ^ 128 - 1\<close>.
\<close>

theorem mul256_exact_iff:
  "val256 (mul256 x y)
     = (val256 x * val256 y + third_carry x y * (2 ^ 192 - 2 ^ 128)) mod 2 ^ 256
   \<and> (val256 (mul256 x y) = val256 x * val256 y mod 2 ^ 256 \<longleftrightarrow> third_carry x y = 0)
   \<and> (val256 x * val256 y < 2 ^ 128 \<longrightarrow> val256 (mul256 x y) = val256 x * val256 y)"
proof -
  have iff: "val256 (mul256 x y) = val256 x * val256 y mod 2 ^ 256 \<longleftrightarrow> third_carry x y = 0"
  proof
    let ?d = "third_carry x y * (2 ^ 192 - 2 ^ 128)"
    assume "val256 (mul256 x y) = val256 x * val256 y mod 2 ^ 256"
    then have "2 ^ 256 dvd ?d"
      unfolding val256_mul by (subst (asm) mod_eq_dvd_iff_nat) simp_all
    moreover have "?d \<le> 2 * (2 ^ 192 - 2 ^ 128)"
      using third_carry_less [of x y] by (intro mult_le_mono1) simp
    ultimately have "?d = 0"
      using dvd_imp_le [of "2 ^ 256" ?d] by (cases "?d = 0") simp_all
    then show "third_carry x y = 0" by simp
  qed (simp add: val256_mul)
  moreover have "val256 (mul256 x y) = val256 x * val256 y" if "val256 x * val256 y < 2 ^ 128"
    using that third_carry_small [OF that] by (simp add: val256_mul)
  ultimately show ?thesis using val256_mul by blast
qed

theorem mul256_exact_iff_witness:
  "val256 (mul256 \<lparr>UPPER256 = low64 0, LOWER256 = low64 0xFFFFFFFFFFFFFFFF\<rparr>
                  \<lparr>UPPER256 = low64 0, LOWER256 = low64 0xFFFFFFFFFFFFFFFF\<rparr>)
     = 0xFFFFFFFFFFFFFFFE0000000000000001"
  using mul256_exact_iff [of "\<lparr>UPPER256 = low64 0, LOWER256 = low64 0xFFFFFFFFFFFFFFFF\<rparr>"
      "\<lparr>UPPER256 = low64 0, LOWER256 = low64 0xFFFFFFFFFFFFFFFF\<rparr>"]
  by simp

text \<open>The square of \<open>2 ^ 128 - 1\<close>: its third column carries, and the result is wrong.\<close>

definition max128_256 :: uint256 where
  "max128_256 = \<lparr>UPPER256 = low64 0,
     LOWER256 = \<lparr>UPPER = 0xFFFFFFFFFFFFFFFF, LOWER = 0xFFFFFFFFFFFFFFFF\<rparr>\<rparr>"

lemma mul256_square_wrong:
  "val256 max128_256 = 2 ^ 128 - 1"
  "val256 (mul256 max128_256 max128_256) = ((2 ^ 128 - 1) * (2 ^ 128 - 1) + (2 ^ 192 - 2 ^ 128)) mod 2 ^ 256"
proof -
  have k: "third_carry max128_256 max128_256 = 1"
    by (simp add: third_carry_def col3_def limbs64_def max128_256_def low64_def)
  show v: "val256 max128_256 = 2 ^ 128 - 1"
    by (simp add: max128_256_def val128_def low64_def)
  show "val256 (mul256 max128_256 max128_256)
      = ((2 ^ 128 - 1) * (2 ^ 128 - 1) + (2 ^ 192 - 2 ^ 128)) mod 2 ^ 256"
    unfolding val256_mul k v by simp
qed

end
