(* ===== verification/Uint_Divmod.thy ===== *)
theory Uint_Divmod
  imports Uint256 "HOL-Library.While_Combinator"
begin

text \<open>
  \<open>divmod128\<close> and \<open>divmod256\<close> of \<open>src/src/uint256.c\<close>, schoolbook division in base two.
  The loops run until the remainder is below the divisor, which never happens for the
  divisor zero, so they are modelled with \<open>while_option\<close>: not returning is the value
  \<open>None\<close>.  Both routines are the same algorithm over the operations of their width; the
  locale \<open>wide_int\<close> states what it needs of them and holds its correctness proof, and is
  interpreted on the 128-bit and on the 256-bit operations.
\<close>

section \<open>The code\<close>

definition divmod128 :: "uint128 \<Rightarrow> uint128 \<Rightarrow> (uint128 \<times> uint128) option" where
  "divmod128 l r =
     (let one = \<lparr>UPPER = 0, LOWER = 1\<rparr>;
          diffBits = bits128 l - bits128 r;
          resDiv = clear128;
          resMod = copy128 l
      in if gt128 r l then Some (clear128, copy128 l)
         else
           let copyd = shiftl128 r diffBits;
               adder = shiftl128 one diffBits;
               (copyd, adder) =
                 (if gt128 copyd resMod then (shiftr128 copyd 1, shiftr128 adder 1)
                  else (copyd, adder))
           in map_option (\<lambda>(copyd, adder, resDiv, resMod). (copy128 resDiv, copy128 resMod))
                (while_option
                  (\<lambda>(copyd, adder, resDiv, resMod). gte128 resMod r)
                  (\<lambda>(copyd, adder, resDiv, resMod).
                     let (resMod, resDiv) =
                           (if gte128 resMod copyd
                            then (minus128 resMod copyd, or128 resDiv adder)
                            else (resMod, resDiv))
                     in (shiftr128 copyd 1, shiftr128 adder 1, resDiv, resMod))
                  (copyd, adder, resDiv, resMod)))"

definition divmod256 :: "uint256 \<Rightarrow> uint256 \<Rightarrow> (uint256 \<times> uint256) option" where
  "divmod256 l r =
     (let one = clear256\<lparr>LOWER256 := \<lparr>UPPER = 0, LOWER = 1\<rparr>\<rparr>;
          diffBits = bits256 l - bits256 r;
          resDiv = clear256;
          resMod = copy256 l
      in if gt256 r l then Some (clear256, copy256 l)
         else
           let copyd = shiftl256 r diffBits;
               adder = shiftl256 one diffBits;
               (copyd, adder) =
                 (if gt256 copyd resMod then (shiftr256 copyd 1, shiftr256 adder 1)
                  else (copyd, adder))
           in map_option (\<lambda>(copyd, adder, resDiv, resMod). (copy256 resDiv, copy256 resMod))
                (while_option
                  (\<lambda>(copyd, adder, resDiv, resMod). gte256 resMod r)
                  (\<lambda>(copyd, adder, resDiv, resMod).
                     let (resMod, resDiv) =
                           (if gte256 resMod copyd
                            then (minus256 resMod copyd, or256 resDiv adder)
                            else (resMod, resDiv))
                     in (shiftr256 copyd 1, shiftr256 adder 1, resDiv, resMod))
                  (copyd, adder, resDiv, resMod)))"

section \<open>Division by shifting and subtracting\<close>

locale wide_int =
  fixes val :: "'n \<Rightarrow> nat"
    and N :: nat
    and gt gte :: "'n \<Rightarrow> 'n \<Rightarrow> bool"
    and sub bor :: "'n \<Rightarrow> 'n \<Rightarrow> 'n"
    and shl shr :: "'n \<Rightarrow> u32 \<Rightarrow> 'n"
    and bits :: "'n \<Rightarrow> u32"
  assumes val_less: "val x < 2 ^ N"
    and gt_val: "gt x y \<longleftrightarrow> val x > val y"
    and gte_val: "gte x y \<longleftrightarrow> val x \<ge> val y"
    and val_sub: "val y \<le> val x \<Longrightarrow> val (sub x y) = val x - val y"
    and val_bor: "val (bor x y) = val x OR val y"
    and val_shl: "val (shl x v) = val x * 2 ^ unat v mod 2 ^ N"
    and val_shr: "val (shr x v) = val x div 2 ^ unat v"
    and val_bits: "unat (bits x) = length (base_digits 2 (val x))"
begin

text \<open>
  The invariant: \<open>copyd\<close> and \<open>adder\<close> are the divisor and one, shifted left by the same
  \<open>k\<close>; the quotient so far is a multiple of \<open>2 ^ (k + 1)\<close> and the remainder so far is
  below \<open>r * 2 ^ (k + 1)\<close>; or the division is complete.
\<close>

definition div_inv :: "'n \<Rightarrow> 'n \<Rightarrow> 'n \<times> 'n \<times> 'n \<times> 'n \<Rightarrow> bool" where
  "div_inv l r s \<longleftrightarrow> (case s of (copyd, adder, d, m) \<Rightarrow>
     val d * val r + val m = val l
     \<and> (val m < val r
        \<or> (\<exists>k. val copyd = val r * 2 ^ k \<and> val adder = 2 ^ k \<and> 2 ^ Suc k dvd val d
               \<and> val m < val r * 2 ^ Suc k)))"

abbreviation div_step :: "'n \<times> 'n \<times> 'n \<times> 'n \<Rightarrow> 'n \<times> 'n \<times> 'n \<times> 'n" where
  "div_step \<equiv> \<lambda>(copyd, adder, resDiv, resMod).
     let (resMod, resDiv) =
           (if gte resMod copyd then (sub resMod copyd, bor resDiv adder) else (resMod, resDiv))
     in (shr copyd 1, shr adder 1, resDiv, resMod)"

lemma bor_step:
  assumes "2 ^ Suc k dvd val d" and "val a = 2 ^ k"
  shows "val (bor d a) = val d + 2 ^ k"
proof -
  obtain q where q: "val d = q * 2 ^ Suc k" using assms(1) by (metis dvd_def mult.commute)
  have "val (bor d a) = push_bit (Suc k) q OR 2 ^ k"
    by (simp only: val_bor q assms(2) push_bit_eq_mult)
  also have "\<dots> = q * 2 ^ Suc k + 2 ^ k" by (rule nat_or_shifted) simp
  finally show ?thesis by (simp only: q)
qed

lemma div_step_inv:
  assumes inv: "div_inv l r (c, a, d, m)" and go: "gte m r" and r: "0 < val r"
  shows "div_inv l r (div_step (c, a, d, m)) \<and> val (fst (div_step (c, a, d, m))) < val c"
proof -
  from inv go obtain k where eq: "val d * val r + val m = val l"
    and c: "val c = val r * 2 ^ k" and a: "val a = 2 ^ k"
    and dvd: "2 ^ Suc k dvd val d" and lt: "val m < val r * 2 ^ Suc k"
    by (auto simp: div_inv_def gte_val)
  define d' where "d' = (if gte m c then bor d a else d)"
  define m' where "m' = (if gte m c then sub m c else m)"
  have step: "div_step (c, a, d, m) = (shr c 1, shr a 1, d', m')"
    by (simp add: d'_def m'_def)
  have eq': "val d' * val r + val m' = val l"
    using eq by (auto simp: d'_def m'_def gte_val val_sub bor_step [OF dvd a] c algebra_simps)
  have lt': "val m' < val r * 2 ^ k"
    using lt by (auto simp: m'_def gte_val val_sub c)
  have dvd': "2 ^ k dvd val d'"
    using dvd by (auto simp: d'_def bor_step [OF dvd a] dest: dvd_mult_left)
  have "div_inv l r (shr c 1, shr a 1, d', m')"
  proof (cases k)
    case 0
    then show ?thesis using eq' lt' by (simp add: div_inv_def)
  next
    case (Suc j)
    then have "val (shr c 1) = val r * 2 ^ j" "val (shr a 1) = 2 ^ j"
      by (simp_all add: val_shr c a)
    then show ?thesis using eq' lt' dvd' unfolding div_inv_def Suc by blast
  qed
  moreover have "val (shr c 1) < val c" using r by (simp add: val_shr c)
  ultimately show ?thesis by (simp only: step fst_conv)
qed

lemma div_while:
  assumes inv: "div_inv l r s" and r: "0 < val r"
  shows "\<exists>c a d m. while_option (\<lambda>(c, a, d, m). gte m r) div_step s = Some (c, a, d, m)
     \<and> val d = val l div val r \<and> val m = val l mod val r"
proof -
  have "\<exists>t. while_option (\<lambda>(c, a, d, m). gte m r) div_step s = Some t"
    by (rule measure_while_option_Some [where P = "div_inv l r" and f = "\<lambda>s. val (fst s)"])
      (use inv r div_step_inv in \<open>auto simp del: Let_def\<close>)
  then obtain t where t: "while_option (\<lambda>(c, a, d, m). gte m r) div_step s = Some t" by blast
  obtain c a d m where tt: "t = (c, a, d, m)" by (cases t)
  have "div_inv l r t"
    by (rule while_option_rule [where P = "div_inv l r", OF _ t inv]) (use r div_step_inv in \<open>auto simp del: Let_def\<close>)
  moreover have "\<not> gte m r" using while_option_stop [OF t] tt by simp
  ultimately have "val d * val r + val m = val l" "val m < val r"
    by (auto simp: div_inv_def tt gte_val)
  then have "val d = val l div val r" "val m = val l mod val r"
    by (metis div_mult_self3 div_less add_0_right less_nat_zero_code mult.commute,
        metis mod_mult_self3 mod_less)
  then show ?thesis using t tt by blast
qed

lemma div_init:
  assumes r: "0 < val r" "val r \<le> val l" and one: "val one = 1" and z: "val z = 0"
    and c0: "c0 = shl r (bits l - bits r)" and a0: "a0 = shl one (bits l - bits r)"
  shows "div_inv l r (if gt c0 l then (shr c0 1, shr a0 1, z, l) else (c0, a0, z, l))"
proof -
  let ?R = "length (base_digits 2 (val r))" and ?L = "length (base_digits 2 (val l))"
  have "val r < 2 ^ ?L" using digits_length_upper [of 2 "val l"] r(2) by simp
  then have RL: "?R \<le> ?L" by (rule base_digits_length_le [rotated]) simp
  have LN: "?L \<le> N" using val_less [of l] by (intro base_digits_length_le) simp_all
  have R0: "0 < ?R" using r(1) by (simp add: base_digits_Nil_iff)
  define k where "k = ?L - ?R"
  have diff: "unat (bits l - bits r) = k"
    using RL by (simp add: unat_sub word_le_nat_alt val_bits k_def)
  have "val r * 2 ^ k < 2 ^ ?R * 2 ^ k"
    using digits_length_upper [of 2 "val r"] by (intro mult_strict_right_mono) simp_all
  also have "\<dots> = 2 ^ ?L" using RL by (simp add: k_def flip: power_add)
  also have "\<dots> \<le> 2 ^ N" using LN by (intro power_increasing) simp_all
  finally have c: "val c0 = val r * 2 ^ k" by (simp add: c0 val_shl diff)
  have "(2::nat) ^ k < 2 ^ N" using LN R0 RL unfolding k_def by (intro power_strict_increasing; linarith)
  then have a: "val a0 = 2 ^ k" by (simp add: a0 val_shl diff one)
  have lt: "val l < val r * 2 ^ Suc k"
  proof -
    have "val l < 2 ^ ?L" using digits_length_upper [of 2 "val l"] by simp
    also have "(2::nat) ^ ?L = 2 ^ (?R - 1) * 2 ^ Suc k"
    proof -
      have "?R - 1 + Suc k = ?L" using RL R0 unfolding k_def by linarith
      then show ?thesis by (simp only: power_add [symmetric])
    qed
    also have "\<dots> \<le> val r * 2 ^ Suc k"
      using digits_length_lower [of 2 "val r"] r(1) by (intro mult_le_mono1) simp
    finally show ?thesis .
  qed
  show ?thesis
  proof (cases "gt c0 l")
    case False
    have "2 ^ Suc k dvd val z" by (simp add: z)
    then show ?thesis using False c a lt z unfolding div_inv_def by auto
  next
    case True
    then obtain j where j: "k = Suc j" using c r(2) by (cases k) (simp_all add: gt_val)
    then have "val (shr c0 1) = val r * 2 ^ j" "val (shr a0 1) = 2 ^ j"
      by (simp_all add: val_shr c a)
    moreover have "val l < val r * 2 ^ Suc j" using True c j by (simp add: gt_val)
    ultimately show ?thesis using True z unfolding div_inv_def by auto
  qed
qed

lemma divide:
  assumes "0 < val r" "\<not> gt r l" "val one = 1" "val z = 0"
    and "c0 = shl r (bits l - bits r)" and "a0 = shl one (bits l - bits r)"
  shows "\<exists>q m. map_option (\<lambda>(c, a, d, m). (d, m)) (while_option (\<lambda>(c, a, d, m). gte m r) div_step
         (if gt c0 l then (shr c0 1, shr a0 1, z, l) else (c0, a0, z, l))) = Some (q, m)
     \<and> val q = val l div val r \<and> val m = val l mod val r"
  using div_while [OF div_init [of r l one z c0 a0]] assms by (fastforce simp: gt_val)

text \<open>The divisor zero: every remainder is at least zero, so the loop never ends.\<close>

lemma divide_by_zero:
  assumes "val r = 0"
  shows "while_option (\<lambda>(c, a, d, m). gte m r) f s = None"
  using assms by (auto simp: while_option_def gte_val split_beta)

end

section \<open>The two widths\<close>

interpretation w128: wide_int val128 128 gt128 gte128 minus128 or128 shiftl128 shiftr128 bits128
  by unfold_locales
    (rule val128_less gt128_val gte128_val val128_minus val128_or val128_shiftl val128_shiftr
      unat_bits128 | assumption)+

interpretation w256: wide_int val256 256 gt256 gte256 minus256 or256 shiftl256 shiftr256 bits256
  by unfold_locales
    (rule val256_less gt256_val gte256_val val256_minus val256_or val256_shiftl val256_shiftr
      unat_bits256 | assumption)+

lemma divmod128_div:
  assumes "0 < val128 r"
  shows "\<exists>q m. divmod128 l r = Some (q, m) \<and> val128 q = val128 l div val128 r
     \<and> val128 m = val128 l mod val128 r"
proof (cases "gt128 r l")
  case True
  then show ?thesis by (simp add: divmod128_def gt128_val)
next
  case False
  show ?thesis
    using w128.divide [OF assms False _ val128_clear refl refl, of "\<lparr>UPPER = 0, LOWER = 1\<rparr>"] False
    by (cases "gt128 (shiftl128 r (bits128 l - bits128 r)) l") (simp_all add: divmod128_def Let_def)
qed

lemma divmod256_div:
  assumes "0 < val256 r"
  shows "\<exists>q m. divmod256 l r = Some (q, m) \<and> val256 q = val256 l div val256 r
     \<and> val256 m = val256 l mod val256 r"
proof (cases "gt256 r l")
  case True
  then show ?thesis by (simp add: divmod256_def gt256_val)
next
  case False
  show ?thesis
    using w256.divide [OF assms False _ val256_clear refl refl, of "clear256\<lparr>LOWER256 := \<lparr>UPPER = 0, LOWER = 1\<rparr>\<rparr>"] False
    by (cases "gt256 (shiftl256 r (bits256 l - bits256 r)) l")
      (simp_all add: divmod256_def Let_def val256_def clear256_def)
qed

lemma divmod128_zero: "val128 r = 0 \<Longrightarrow> divmod128 l r = None"
  by (cases "gt128 (shiftl128 r (bits128 l - bits128 r)) l")
    (simp_all add: divmod128_def Let_def gt128_val w128.divide_by_zero)

lemma divmod256_zero: "val256 r = 0 \<Longrightarrow> divmod256 l r = None"
  by (cases "gt256 (shiftl256 r (bits256 l - bits256 r)) l")
    (simp_all add: divmod256_def Let_def gt256_val w256.divide_by_zero)

text \<open>
For every nonzero divisor \<open>divmod128\<close> and \<open>divmod256\<close> return, with the
quotient and the remainder of the numbers.
\<close>

theorem divmod_correct:
  assumes "0 < val128 r" and "0 < val256 r'"
  shows "map_option (map_prod val128 val128) (divmod128 l r)
      = Some (val128 l div val128 r, val128 l mod val128 r)
    \<and> map_option (map_prod val256 val256) (divmod256 l' r')
      = Some (val256 l' div val256 r', val256 l' mod val256 r')"
  using divmod128_div [OF assms(1), of l] divmod256_div [OF assms(2), of l'] by fastforce

theorem divmod_correct_witness:
  "map_option (map_prod val128 val128)
     (divmod128 \<lparr>UPPER = 1, LOWER = 0\<rparr> \<lparr>UPPER = 0, LOWER = 10\<rparr>)
   = Some (2 ^ 64 div 10, 2 ^ 64 mod 10)"
  using divmod_correct [of "\<lparr>UPPER = 0, LOWER = 10\<rparr>"
      "\<lparr>UPPER256 = clear128, LOWER256 = \<lparr>UPPER = 0, LOWER = 10\<rparr>\<rparr>" "\<lparr>UPPER = 1, LOWER = 0\<rparr>"]
  by simp

text \<open>
Property C38: \<open>divmod128\<close> and \<open>divmod256\<close> return for the divisors that are not zero and
loop forever for the divisor zero, whatever the dividend: the guard
\<open>gt128(r, l)\<close> lets it through and \<open>gte128(&resMod, r)\<close> stays true.
\<close>

theorem divmod_terminates_iff:
  "(divmod128 l r \<noteq> None) = (\<not> zero128 r) \<and> (divmod256 l' r' \<noteq> None) = (\<not> zero256 r')"
  using divmod128_div [of r l] divmod256_div [of r' l'] divmod128_zero [of r l] divmod256_zero [of r' l']
  by (cases "val128 r = 0"; cases "val256 r' = 0") (auto simp: zero128_val zero256_val)

end
