(* ===== verification/Uint_String.thy ===== *)
theory Uint_String
  imports Uint_Divmod
begin

text \<open>
  \<open>tostring128\<close>, \<open>tostring256\<close> and \<open>reverseString\<close> of \<open>src/src/uint256.c\<close>: the digits are
  produced least significant first by repeated division, followed by a null byte, and
  reversed in place.  The first component of the result is the C function's return value,
  the second the array behind \<open>out\<close>; \<open>None\<close> would be a call that does not return.
  The common proof for both widths is held by the locale \<open>wide_print\<close>.
\<close>

section \<open>The code\<close>

definition HEXDIGITS :: "u8 list" where
  "HEXDIGITS = [0x30, 0x31, 0x32, 0x33, 0x34, 0x35, 0x36, 0x37, 0x38, 0x39,
                0x61, 0x62, 0x63, 0x64, 0x65, 0x66, 0]"

text \<open>The loop \<open>for (i = 0, j = length - 1; i < j; i++, j--)\<close>.\<close>

function reverse_loop :: "u8 list \<Rightarrow> u32 \<Rightarrow> u32 \<Rightarrow> exn + u8 list" where
  "reverse_loop str i j =
     (if i < j then
        if unat j < length str
        then reverse_loop (str[unat i := str ! unat j, unat j := str ! unat i]) (i + 1) (j - 1)
        else Inl Fault
      else Inr str)"
  by pat_completeness auto
termination
proof (relation "measure (\<lambda>(str, i, j). unat j)")
  fix str :: "u8 list" and i j :: u32
  assume "i < j"
  then have "0 < unat j" by (simp add: word_less_nat_alt)
  then have "unat (j - 1) = unat j - 1" by (intro unat_dec) auto
  with \<open>0 < unat j\<close>
  show "((str[unat i := str ! unat j, unat j := str ! unat i], i + 1, j - 1), str, i, j)
      \<in> measure (\<lambda>(str, i, j). unat j)" by simp
qed simp

declare reverse_loop.simps [simp del]

definition reverseString :: "u8 list \<Rightarrow> u32 \<Rightarrow> exn + u8 list" where
  "reverseString str len = reverse_loop str 0 (len - 1)"

text \<open>The loops \<open>do { \<dots> } while (!zero128(&rDiv))\<close>; \<open>offset\<close> is returned with the array, or
  \<open>False\<close> when the array is full.\<close>

partial_function (option) tostring128_loop ::
  "uint128 \<Rightarrow> u32 \<Rightarrow> u8 list \<Rightarrow> uint128 \<Rightarrow> u32 \<Rightarrow> (exn + bool \<times> u8 list \<times> u32) option" where
  "tostring128_loop base outLength out rDiv offset =
     (if offset > outLength - 1 then Some (Inr (False, out, offset))
      else Option.bind (divmod128 rDiv base) (\<lambda>(rDiv, rMod).
        let digit = unat (ucast (LOWER rMod) :: u8)
        in if length HEXDIGITS \<le> digit \<or> length out \<le> unat offset then Some (Inl Fault)
           else
             let out = out[unat offset := HEXDIGITS ! digit];
                 offset = offset + 1
             in if \<not> zero128 rDiv then tostring128_loop base outLength out rDiv offset
                else Some (Inr (True, out, offset))))"

partial_function (option) tostring256_loop ::
  "uint256 \<Rightarrow> u32 \<Rightarrow> u8 list \<Rightarrow> uint256 \<Rightarrow> u32 \<Rightarrow> (exn + bool \<times> u8 list \<times> u32) option" where
  "tostring256_loop base outLength out rDiv offset =
     (if offset > outLength - 1 then Some (Inr (False, out, offset))
      else Option.bind (divmod256 rDiv base) (\<lambda>(rDiv, rMod).
        let digit = unat (ucast (LOWER (LOWER256 rMod)) :: u8)
        in if length HEXDIGITS \<le> digit \<or> length out \<le> unat offset then Some (Inl Fault)
           else
             let out = out[unat offset := HEXDIGITS ! digit];
                 offset = offset + 1
             in if \<not> zero256 rDiv then tostring256_loop base outLength out rDiv offset
                else Some (Inr (True, out, offset))))"

text \<open>\<open>out[offset] = 0; reverseString(out, offset); return true;\<close>\<close>

definition tostring_end :: "exn + bool \<times> u8 list \<times> u32 \<Rightarrow> exn + bool \<times> u8 list" where
  "tostring_end r =
     (case r of
        Inl e \<Rightarrow> Inl e
      | Inr (False, out, offset) \<Rightarrow> Inr (False, out)
      | Inr (True, out, offset) \<Rightarrow>
          if unat offset < length out
          then case reverseString (out[unat offset := 0]) offset of
                 Inl e \<Rightarrow> Inl e
               | Inr out \<Rightarrow> Inr (True, out)
          else Inl Fault)"

definition tostring128 ::
  "uint128 \<Rightarrow> u32 \<Rightarrow> u8 list \<Rightarrow> u32 \<Rightarrow> (exn + bool \<times> u8 list) option" where
  "tostring128 number baseParam out outLength =
     (let rDiv = copy128 number;
          base = clear128\<lparr>LOWER := ucast baseParam\<rparr>;
          offset = 0
      in if baseParam < 2 \<or> baseParam > 16 then Some (Inr (False, out))
         else map_option tostring_end (tostring128_loop base outLength out rDiv offset))"

definition tostring256 ::
  "uint256 \<Rightarrow> u32 \<Rightarrow> u8 list \<Rightarrow> u32 \<Rightarrow> (exn + bool \<times> u8 list) option" where
  "tostring256 number baseParam out outLength =
     (let rDiv = copy256 number;
          base = clear256\<lparr>LOWER256 := \<lparr>UPPER = 0, LOWER = ucast baseParam\<rparr>\<rparr>;
          offset = 0
      in if baseParam < 2 \<or> baseParam > 16 then Some (Inr (False, out))
         else map_option tostring_end (tostring256_loop base outLength out rDiv offset))"

section \<open>Reversal\<close>

lemma reverse_loop_spec:
  "length a = unat i \<Longrightarrow> unat j + 1 = unat i + length mid \<Longrightarrow>
    reverse_loop (a @ mid @ c) i j = Inr (a @ rev mid @ c)"
proof (induction "length mid" arbitrary: a mid c i j rule: less_induct)
  case less
  show ?case
  proof (cases "i < j")
    case False
    then have "length mid \<le> 1" using less.prems by (simp add: word_less_nat_alt)
    then have "rev mid = mid" by (cases mid) simp_all
    with False show ?thesis by (simp add: reverse_loop.simps [of _ i j])
  next
    case True
    then have "2 \<le> length mid" using less.prems by (simp add: word_less_nat_alt)
    then obtain x m y where mid: "mid = x # m @ [y]"
      by (cases mid; cases "tl mid" rule: rev_cases) auto
    have j: "unat j = length a + Suc (length m)" using less.prems mid by simp
    have i1: "unat (i + 1) = unat i + 1"
      using unat_inc [OF True] by simp
    have j1: "unat (j - 1) = unat j - 1" using j by (intro unat_dec) auto
    have swap: "(a @ mid @ c)[unat i := (a @ mid @ c) ! unat j, unat j := (a @ mid @ c) ! unat i]
        = (a @ [y]) @ m @ (x # c)"
      using less.prems(1) j mid by (simp add: nth_append list_update_append)
    have "reverse_loop (a @ mid @ c) i j = reverse_loop ((a @ [y]) @ m @ (x # c)) (i + 1) (j - 1)"
      using True j swap mid by (subst reverse_loop.simps) simp
    also have "\<dots> = Inr ((a @ [y]) @ rev m @ (x # c))"
      using less.prems(1) j mid by (intro less.hyps) (simp_all add: i1 j1)
    finally show ?thesis by (simp add: mid)
  qed
qed

lemma reverseString_spec:
  assumes "0 < unat len" and "unat len \<le> length str"
  shows "reverseString str len = Inr (rev (take (unat len) str) @ drop (unat len) str)"
proof -
  have "unat (len - 1) = unat len - 1" using assms(1) by (intro unat_dec) auto
  then show ?thesis
    using reverse_loop_spec [of "[]" 0 "len - 1" "take (unat len) str" "drop (unat len) str"] assms
    by (simp add: reverseString_def)
qed

section \<open>The digits\<close>

definition hex_digit_letters :: "nat list \<Rightarrow> u8 list" where
  "hex_digit_letters ds = map (\<lambda>d. HEXDIGITS ! d) ds"

lemma length_hex_digit_letters [simp]: "length (hex_digit_letters ds) = length ds"
  by (simp add: hex_digit_letters_def)

text \<open>
  What both loops rely on: a division that returns quotient and remainder for the bases
  in question, the test for zero, the low byte of a number; and the recursion
  equation of the loop itself.
\<close>

locale wide_print =
  fixes val :: "'n \<Rightarrow> nat"
    and is_zero :: "'n \<Rightarrow> bool"
    and divmod :: "'n \<Rightarrow> 'n \<Rightarrow> ('n \<times> 'n) option"
    and low :: "'n \<Rightarrow> u8"
    and loop :: "'n \<Rightarrow> u32 \<Rightarrow> u8 list \<Rightarrow> 'n \<Rightarrow> u32 \<Rightarrow> (exn + bool \<times> u8 list \<times> u32) option"
  assumes is_zero: "is_zero x \<longleftrightarrow> val x = 0"
    and divmod: "0 < val r \<Longrightarrow> \<exists>q m. divmod l r = Some (q, m) \<and> val q = val l div val r
          \<and> val m = val l mod val r"
    and low: "unat (low x) = val x mod 256"
    and loop: "loop base outLength out rDiv offset =
     (if offset > outLength - 1 then Some (Inr (False, out, offset))
      else Option.bind (divmod rDiv base) (\<lambda>(rDiv, rMod).
        let digit = unat (low rMod)
        in if length HEXDIGITS \<le> digit \<or> length out \<le> unat offset then Some (Inl Fault)
           else
             let out = out[unat offset := HEXDIGITS ! digit];
                 offset = offset + 1
             in if \<not> is_zero rDiv then loop base outLength out rDiv offset
                else Some (Inr (True, out, offset))))"
begin

lemma loop_spec:
  assumes base: "2 \<le> val base" "val base \<le> 16" and out0: "0 < unat outLength"
  shows "k = unat offset \<Longrightarrow> k \<le> unat outLength \<Longrightarrow> unat outLength \<le> length out \<Longrightarrow>
    ls = hex_digit_letters (lsd_digits (val base) (val n)) \<Longrightarrow>
    (if k + length ls \<le> unat outLength
     then \<exists>e. loop base outLength out n offset
           = Some (Inr (True, take k out @ ls @ drop (k + length ls) out, e))
         \<and> unat e = k + length ls
     else loop base outLength out n offset
           = Some (Inr (False, take k out @ take (unat outLength - k) ls @ drop (unat outLength) out, outLength)))"
proof (induction "val n" arbitrary: n k offset out ls rule: less_induct)
  case less
  have max: "unat (outLength - 1) = unat outLength - 1"
    using out0 by (intro unat_dec) auto
  obtain q m where qm: "divmod n base = Some (q, m)" "val q = val n div val base"
    "val m = val n mod val base"
    using divmod [of base n] base by auto
  have m16: "val m < 16" using base qm(3) mod_less_divisor [of "val base" "val n"] by linarith
  have H: "length HEXDIGITS = 17" by (simp add: HEXDIGITS_def)
  have digit: "unat (low m) = val m" using m16 by (simp add: low)
  have lsd: "lsd_digits (val base) (val n)
      = val m # (if val q = 0 then [] else lsd_digits (val base) (val q))"
    using lsd_digits_step [OF base(1), of "val n"] qm by simp
  show ?case
  proof (cases "k < unat outLength")
    case False
    then have "loop base outLength out n offset = Some (Inr (False, out, offset))" "offset = outLength"
      using less.prems max out0 by (auto simp: loop [of base] word_less_nat_alt word_unat_eq_iff)
    moreover have "0 < length ls" using less.prems(4) lsd by simp
    ultimately show ?thesis using False less.prems by simp
  next
    case True
    define out' where "out' = out[k := HEXDIGITS ! val m]"
    have o1: "unat (offset + 1) = Suc k"
      using unat_inc [of offset outLength] True less.prems(1) by (simp add: word_less_nat_alt)
    have loop1: "loop base outLength out n offset
      = (if val q = 0 then Some (Inr (True, out', offset + 1)) else loop base outLength out' q (offset + 1))"
    proof -
      have "\<not> offset > outLength - 1"
        using True less.prems(1) max by (simp add: word_less_nat_alt)
      then show ?thesis
        using True less.prems m16 by (subst loop) (simp add: qm(1) digit H is_zero out'_def)
    qed
    have take': "take (Suc k) out' = take k out @ [HEXDIGITS ! val m]"
      and drop': "Suc k \<le> j \<Longrightarrow> drop j out' = drop j out" for j
      using True less.prems by (simp_all add: out'_def take_Suc_conv_app_nth)
    show ?thesis
    proof (cases "val q = 0")
      case True
      then have "ls = [HEXDIGITS ! val m]"
        using less.prems(4) lsd by (simp add: hex_digit_letters_def)
      then show ?thesis
        using loop1 True \<open>k < unat outLength\<close> o1 take' id_take_nth_drop [of k out'] less.prems(3) drop'
        by (auto simp: out'_def upd_conv_take_nth_drop)
    next
      case False
      have ls: "ls = HEXDIGITS ! val m # hex_digit_letters (lsd_digits (val base) (val q))"
        using False less.prems(4) lsd by (simp add: hex_digit_letters_def)
      have "val q < val n"
        using False base unfolding qm(2) by (intro div_less_dividend) (auto intro: gr0I)
      note IH = less.hyps [OF this o1 [symmetric] _ _ refl, of out']
      have len': "unat outLength \<le> length out'" using less.prems(3) by (simp add: out'_def)
      have sub: "unat outLength - k = Suc (unat outLength - Suc k)" using \<open>k < unat outLength\<close> by simp
      show ?thesis
      proof (cases "k + length ls \<le> unat outLength")
        case True
        then show ?thesis
          using IH loop1 False \<open>k < unat outLength\<close> len' by (simp add: ls take' drop')
      next
        case False
        then show ?thesis
          using IH loop1 \<open>val q \<noteq> 0\<close> \<open>k < unat outLength\<close> len' by (simp add: ls take' drop' sub)
      qed
    qed
  qed
qed

text \<open>
  With \<open>cnt\<close> digits to print and \<open>len = outLength > 0\<close> characters announced: the digits and
  a null byte, reversed, when there are at most \<open>len\<close> digits (a fault when the null byte
  does not fit the array), else the \<open>len\<close> least significant digits and \<open>False\<close>.
\<close>

lemma tostring_spec:
  assumes base: "2 \<le> val base" "val base \<le> 16" and len: "0 < unat outLength" "unat outLength \<le> length out"
  shows "map_option tostring_end (loop base outLength out n 0) =
    (let cnt = length (print_digits (val base) (val n));
         letters = hex_digit_letters (print_digits (val base) (val n))
     in Some (if unat outLength < cnt
              then Inr (False, take (unat outLength) (rev letters) @ drop (unat outLength) out)
              else if length out = cnt then Inl Fault
              else Inr (True, letters @ [0] @ drop (Suc cnt) out)))"
proof -
  let ?ls = "hex_digit_letters (lsd_digits (val base) (val n))"
  have ls: "?ls = rev (hex_digit_letters (print_digits (val base) (val n)))"
    by (simp add: hex_digit_letters_def lsd_digits_def rev_map)
  note spec = loop_spec [OF base len(1), of 0 0 out ?ls n]
  show ?thesis
  proof (cases "unat outLength < length ?ls")
    case True
    then show ?thesis using spec len ls by (simp add: tostring_end_def Let_def)
  next
    case False
    then obtain e where e: "loop base outLength out n 0 = Some (Inr (True, ?ls @ drop (length ?ls) out, e))"
      "unat e = length ?ls"
      using spec len by auto
    have "0 < length ?ls" using base by (simp add: ls)
    then show ?thesis
      using False e len
      by (auto simp: tostring_end_def Let_def ls reverseString_spec list_update_append
          Cons_nth_drop_Suc [symmetric])
  qed
qed

end

lemma val128_low: "val128 x mod 256 = unat (LOWER x) mod 256"
proof -
  have "val128 x = unat (LOWER x) + unat (UPPER x) * 2 ^ 56 * 256" by (simp add: val128_def)
  then show ?thesis by (simp only: mod_mult_self1)
qed

lemma val256_low: "val256 x mod 256 = unat (LOWER (LOWER256 x)) mod 256"
proof -
  have "val256 x = val128 (LOWER256 x) + val128 (UPPER256 x) * 2 ^ 120 * 256" by (simp add: val256_def)
  then show ?thesis by (simp only: mod_mult_self1 val128_low)
qed

interpretation p128: wide_print val128 zero128 divmod128 "\<lambda>x. ucast (LOWER x)" tostring128_loop
proof unfold_locales
  show "unat (ucast (LOWER x) :: u8) = val128 x mod 256" for x
    by (simp add: unat_ucast_mod val128_low)
qed (fact zero128_val divmod128_div tostring128_loop.simps)+

interpretation p256: wide_print val256 zero256 divmod256 "\<lambda>x. ucast (LOWER (LOWER256 x))" tostring256_loop
proof unfold_locales
  show "unat (ucast (LOWER (LOWER256 x)) :: u8) = val256 x mod 256" for x
    by (simp add: unat_ucast_mod val256_low)
qed (fact zero256_val divmod256_div tostring256_loop.simps)+

section \<open>What the two routines print\<close>

lemma base_values:
  "val128 (clear128\<lparr>LOWER := ucast (b :: u32)\<rparr>) = unat b"
  "val256 (clear256\<lparr>LOWER256 := \<lparr>UPPER = 0, LOWER = ucast (b :: u32)\<rparr>\<rparr>) = unat b"
  by (simp_all add: clear256_def clear128_def val128_def val256_def)

text \<open>
Property C39: in a base from 2 to 16 and with a nonzero \<open>outLength\<close> that is at most the
length of the array, \<open>tostring128\<close> and \<open>tostring256\<close> return.  With more digits than
\<open>outLength\<close> the result is \<open>False\<close>; otherwise the digits of the number, most significant
first, followed by a null byte, are written and the rest of the array is left alone,
except that the null byte lies outside the array when the digits fill it.
\<close>

theorem tostring_correct:
  assumes "2 \<le> baseParam" "baseParam \<le> 16" and "0 < unat outLength" "unat outLength \<le> length out"
  shows "tostring128 n baseParam out outLength =
      (let letters = hex_digit_letters (print_digits (unat baseParam) (val128 n))
       in Some (if unat outLength < length letters
                then Inr (False, take (unat outLength) (rev letters) @ drop (unat outLength) out)
                else if length out = length letters then Inl Fault
                else Inr (True, letters @ [0] @ drop (Suc (length letters)) out)))
    \<and> tostring256 n' baseParam out outLength =
      (let letters = hex_digit_letters (print_digits (unat baseParam) (val256 n'))
       in Some (if unat outLength < length letters
                then Inr (False, take (unat outLength) (rev letters) @ drop (unat outLength) out)
                else if length out = length letters then Inl Fault
                else Inr (True, letters @ [0] @ drop (Suc (length letters)) out)))"
proof -
  have b: "2 \<le> unat baseParam" "unat baseParam \<le> 16"
    using assms(1,2) by (simp_all add: word_le_nat_alt)
  note s128 = p128.tostring_spec [of "clear128\<lparr>LOWER := ucast baseParam\<rparr>", unfolded base_values]
  note s256 = p256.tostring_spec
    [of "clear256\<lparr>LOWER256 := \<lparr>UPPER = 0, LOWER = ucast baseParam\<rparr>\<rparr>", unfolded base_values]
  have "\<not> (baseParam < 2 \<or> baseParam > 16)" using assms(1,2) by auto
  then show ?thesis
    using s128 [OF b assms(3,4), of n] s256 [OF b assms(3,4), of n']
    by (simp add: tostring128_def tostring256_def Let_def del: map_option_eq_Some)
qed

theorem tostring_correct_witness:
  "tostring128 \<lparr>UPPER = 0, LOWER = 255\<rparr> 16 [1, 1, 1, 1] 4 = Some (Inr (True, [0x66, 0x66, 0, 1]))"
  using tostring_correct [of 16 4 "[1, 1, 1, 1]" "\<lparr>UPPER = 0, LOWER = 255\<rparr>" clear256]
  by (simp add: val128_def print_digits_def base_digits.simps hex_digit_letters_def HEXDIGITS_def)

text \<open>Two borderline calls: the digits fill the array, and the announced length is zero.\<close>

lemma tostring128_full: "tostring128 \<lparr>UPPER = 0, LOWER = 7\<rparr> 10 [0] 1 = Some (Inl Fault)"
  using p128.tostring_spec [of "clear128\<lparr>LOWER := 10\<rparr>" 1 "[0]" "\<lparr>UPPER = 0, LOWER = 7\<rparr>"]
  by (simp add: tostring128_def clear128_def val128_def print_digits_def base_digits.simps)

lemma tostring128_length_zero: "tostring128 \<lparr>UPPER = 0, LOWER = 7\<rparr> 10 [] 0 = Some (Inl Fault)"
proof -
  obtain q m where "divmod128 \<lparr>UPPER = 0, LOWER = 7\<rparr> \<lparr>UPPER = 0, LOWER = 10\<rparr> = Some (q, m)"
    using divmod128_div [of "\<lparr>UPPER = 0, LOWER = 10\<rparr>" "\<lparr>UPPER = 0, LOWER = 7\<rparr>"] by auto
  then show ?thesis
    by (subst tostring128_def) (simp add: tostring128_loop.simps clear128_def tostring_end_def)
qed

end
