(* ===== verification/Spec2Isabelle.thy ===== *)
theory Spec2Isabelle
  imports Replies Display Seph Usb_Hid Os U2f_Tunnel Uint_Mul Uint_String
begin

text \<open>
  The IOST application for the Ledger Nano S: a verification development.

  The application is a small program on a secure element.  It waits for commands (APDUs)
  that a host sends over USB, derives Ed25519 keys from the seed of the device, exports
  public keys and signs messages, after the user has agreed with the two buttons where the
  host asked for that.  The sources are in \<open>src/src\<close>; the part of the vendor's SDK the
  application runs on is in \<open>src/sdk/nanos-secure-sdk\<close>.

  \<^bold>\<open>Data and errors.\<close>  Machine integers are words of their width (\<open>u8\<close>, \<open>u16\<close>, \<open>u32\<close>, \<open>u64\<close>),
  structs are records with the names of the source, arrays are lists of the length the
  source declares.  The SDK's exceptions are the values \<open>Throw e\<close> of the type \<open>exn\<close>; an access
  outside an array is the value \<open>Fault\<close>, which no handler catches.  Pure functions have the
  type \<open>exn + 'a\<close>; operations on the state of the application have the type \<open>(app, 'a) cm\<close>,
  a function from a state to a result and the state in which it returns or throws, because
  the application reads its state after an exception (theory \<open>Prelude\<close>: \<open>buf_read\<close>, \<open>buf_write\<close>,
  \<open>bindE\<close>, \<open>bind_c\<close>, and the predicate \<open>safe\<close> that excludes faults).

  \<^bold>\<open>Library routines.\<close>
  \<^item> \<open>Digits\<close>: numbers and their digits in any base, least significant first (\<open>lsd_digits\<close>) and
    as they are printed (\<open>print_digits\<close>), which \<open>Uint_String\<close> and \<open>Printf_Spec\<close> refer to.
  \<^item> \<open>Utils\<close>: \<open>utils.c\<close>, the hexadecimal output.  \<open>Base58\<close>: \<open>base58.c\<close>; the encoder equals the
    notation of the input as a number in base 58, and decoding gives the input back (locale
    \<open>base_x\<close>, interpreted on the alphabet of the code).
  \<^item> \<open>Uint128\<close>, \<open>Uint256\<close>, \<open>Uint_Mul\<close>, \<open>Uint_Divmod\<close>, \<open>Uint_String\<close>: \<open>uint256.c\<close>.  \<open>Limbs\<close>
    holds the arithmetic of numbers made of two halves.  The locales \<open>wide_int\<close> (division) and
    \<open>wide_print\<close> (printing) state what the common proofs need of a width and are interpreted on
    the 128-bit and on the 256-bit operations.  Each operation is the arithmetic operation
    on values modulo \<open>2 ^ 256\<close>, except for the multiplication, which is wrong exactly when
    its third column carries, the division by zero, which does not return, and the printing
    functions, which can write one byte too many.  The divisions, whose
    loops may not end, are \<open>while_option\<close>, and the printing loops over them
    \<open>partial_function (option)\<close>, so that returning is a theorem.
  \<^item> \<open>Printf\<close>, \<open>Printf_Spec\<close>: \<open>printf.c\<close> in the configuration of the \<open>Makefile\<close> (no floating
    point).  Output functions are state transformers under the contract of the locale \<open>sink\<close>,
    which is interpreted on each of them; \<open>iost_snprintf\<close> stays inside its buffer
    for every format, and the conversions print what they should up to nine digits.

  \<^bold>\<open>The application.\<close>
  \<^item> \<open>Globals\<close>: the constants of \<open>globals.h\<close>, \<open>errors.h\<close>, \<open>io.h\<close>, \<open>iost.h\<close> and of the SDK.
  \<^item> \<open>Ux_Menu\<close>: the menus of \<open>ui.c\<close> and the menu functions of \<open>lib_ux/src/ux_legacy.c\<close>;
    \<open>Ui\<close>: the message viewer of \<open>ui.c\<close>; \<open>Buttons\<close>: the button driver of \<open>os_io_seproxyhal.c\<close>.
  \<^item> \<open>Io\<close>: \<open>io.c\<close> (paths, parameters, status words) and \<open>debug.c\<close>.
  \<^item> \<open>Iost\<close>: \<open>iost.c\<close>.  The system calls of the firmware (key derivation, EdDSA, SHA-3) are not
    in the repository: they are the fields of the record \<open>crypto\<close>, an argument of every
    definition that uses them.  The hypothesis \<open>crypto_ok\<close> states the documented lengths of
    their results; \<open>sample_crypto\<close> satisfies it and serves in the examples.
  \<^item> \<open>App_State\<close>: the global state \<open>app\<close> (APDU buffer, contexts, screen, button driver, variables
    of \<open>app_main\<close>, and the ghost field \<open>sent\<close> with the replies handed to the transport), the
    sending half of \<open>io_exchange\<close>, screens, and the export of keys and signatures.
  \<^item> \<open>Get_Configuration\<close>, \<open>Get_Public_Key\<close>, \<open>Sign_Message\<close>: the three handlers with the button
    handlers of their screens, each with a lemma that gives the state and result on every
    path (\<open>handle_get_public_key_run\<close>, \<open>handle_sign_message_last\<close>, \<open>\<dots>\<close>).
  \<^item> \<open>App_Main\<close>: \<open>main.c\<close>, \<open>io_event\<close> and the receiving half of \<open>io_exchange\<close> with the commands it
    answers itself, composed as a step relation \<open>app_step\<close> on configurations: a control
    location (\<open>Main_Head\<close>, \<open>Loop_Head\<close>, \<open>Receiving channel\<close>, \<open>Exited code\<close>, \<open>Crashed\<close>) and a state.
    The labels are the events of the outside world, \<open>app_run\<close> is the closure of the steps.
  \<^item> \<open>App_Inv\<close>: the invariant \<open>config_inv\<close> and its preservation by every step.
  \<^item> \<open>App_Props\<close>: memory safety, and the case distinction on what an event can do while a
    screen asks for approval.  \<open>Commands\<close>, \<open>Signing\<close>, \<open>Replies\<close>: the commands end to end, from
    their arrival to the reply: keys, signatures over messages in any number of chunks,
    refused commands, version and echo, reset, the decision of the user.

  \<^item> \<open>Display\<close>: what the user sees.  The element arrays of the screens, the loop of \<open>ux.h\<close> that
    draws them over several events, the preprocessors, and the packets of
    \<open>io_seproxyhal_display_default\<close>.  \<open>shown\<close> gives the packets of a screen from its elements,
    \<open>sends_screen\<close> what is sent over any sequence of events; both are computed for the
    approval screens, the viewer and the menus.  The bitmaps of the icons (generated by the
    build) and the firmware's answers are the record \<open>screen_env\<close>.

  \<^bold>\<open>The transports.\<close>
  \<^item> \<open>Seph\<close>: the packets between the secure element and the MCU in \<open>os_io_seproxyhal.c\<close>: their
    dispatch, the timers of the USB endpoints, and the loops of \<open>io_exchange\<close> in front of and
    behind a reply.  The USB library and \<open>io_event\<close> are the fields of \<open>seph_env\<close>; nothing is
    assumed of them for memory safety, which says that a fault can only arise inside such a call.
  \<^item> \<open>Usb_Hid\<close>: \<open>os_io_usb.c\<close> and the endpoint of \<open>usbd_impl.c\<close>: the reassembly of commands, which
    refines the step \<open>usb_receive\<close> of \<open>App_Main\<close>, and the fragmentation of replies.
  \<^item> \<open>U2f_Transport\<close>, \<open>U2f_Impl\<close>, \<open>U2f_Receive\<close>: \<open>u2f_transport.c\<close>, \<open>u2f_impl.c\<close> and \<open>u2f_io.c\<close>, the
    transport and the message handlers of U2F; \<open>U2f_Inv\<close>: their invariant, over weakest
    preconditions (\<open>wp_c\<close>); \<open>U2f_Messages\<close>: whole messages, by the example of the echo;
    \<open>U2f_Tunnel\<close>: commands tunnelled in the key handles of signature requests, and their replies.
  \<^item> \<open>Os\<close>: \<open>os.c\<close>: the memory routines, with overlapping ranges, and the parser for BER values.

  \<^bold>\<open>What the theorems say.\<close>  No sequence of events leads to an access of the application outside
  an array.  A key or signature that needs approval leaves the device only by the release of the right button,
  and the rejection sends the status 6985 alone.  The replies are the key or signature in
  the requested encoding, a null byte and 9000.  A screen is drawn completely and in order,
  and an approval screen shows the number of the key and nothing of the message.  The packets
  of a command leave the application in the state of the command as a whole; the packets of a
  reply are put together again by the receiver; a reply the host does not fetch ends after two
  seconds.  The theorems also pin down where the code
  deviates from this: messages with 256 or more bytes behind the path are signed in part,
  short ones are refused after signing, failed derivations give an empty signature with
  9000, a command without data uses the path of an earlier one, P2 is not checked, the exit command
  hangs after an approved command, and long key numbers are cut off on the screen, and the viewer of an empty
  signature shows an arrow that leads nowhere.  In the
  transports, malformed USB packets are copied past the endpoint buffer, short U2F packets are
  read past their end while the device waits for the user, and \<open>io_exchange\<close> loses a packet when
  it has to wait for its turn to send.

  \<^bold>\<open>Bounds and fuel.\<close>  Array sizes are those of the source (337 bytes for the APDU buffer, 512
  for the message, 324 for the text of the viewer, 19 for the lines, 128 for the packets of the
  MCU, 64 for an endpoint, six endpoints).  The recursive loops are total with a measure,
  except for the two divisions (\<open>while_option\<close>), the printing loops over them and the two guarded
  loops of \<open>os.c\<close> (\<open>partial_function (option)\<close>).  The only fuel is that of \<open>pump_all\<close> in \<open>U2f_Transport\<close>,
  for the branch of \<open>u2f_message_reply\<close> that sends all segments at once, which only Bluetooth
  takes: one step per byte of the reply and two more are enough, because each step sends a
  segment (\<open>pump_all_finishes\<close> in \<open>U2f_Inv\<close>).  Loops that wait for packets (\<open>Seph\<close>) recurse over the packets that arrive.

  \<^bold>\<open>Assumptions.\<close>  In \<open>App_Main\<close> the transport is USB HID and the packets of a command and of a
  reply are one step each; \<open>Usb_Hid\<close> shows that a command may be taken as one step, and \<open>Seph\<close>
  models the single packets, but the interleaving of other events with the transmission of a
  reply is not composed with the application.  The firmware's own user interface (\<open>os_ux\<close>)
  leaves every event to the application, except in \<open>Display\<close>, where its answer is a parameter
  of each event.

  \<^bold>\<open>Not modelled.\<close>  The Nano X user interface and the touch screen of the Ledger Blue (other
  conditional branches of the same files), the floating-point conversions of \<open>printf.c\<close>
  (disabled in the \<open>Makefile\<close>), \<open>io_exchange_al\<close> (not reachable), Bluetooth and NFC, the USB core of
  the vendor and its descriptors, the stubs of the system calls, and the vendored \<open>nanopb\<close>, which
  the application does not call.
\<close>

end
